(* ===== verification/Prelude.thy ===== *)
theory Prelude
  imports Main "HOL-Library.Word" "HOL-Library.Monad_Syntax"
begin

text \<open>
  What every component of the model shares: the machine integers, byte buffers with
  Rust's panicking and non-panicking accesses, big-endian integers, and the parts of
  Rust's \<^verbatim>\<open>str\<close> and \<^verbatim>\<open>std::net\<close> that the sources use.

  Conventions. A Rust function that indexes or slices can panic: it is modelled in the
  option monad, \<^term>\<open>None\<close> being the panic, so that ``never panics'' is a theorem about
  the code's own bounds checks (\<^typ>\<open>'a option\<close> under the name \<open>'a panics\<close>). A Rust
  \<^verbatim>\<open>Option\<close> result inside such a function is a second option layer. \<^verbatim>\<open>usize\<close> is
  \<^typ>\<open>nat\<close> (no buffer of the program comes near the 64-bit bound).
\<close>

unbundle bit_operations_syntax

section \<open>Types\<close>

type_synonym u8 = "8 word"
type_synonym u16 = "16 word"
type_synonym u32 = "32 word"
type_synonym u64 = "64 word"
type_synonym bytes = "8 word list"
type_synonym 'a panics = "'a option"

named_theorems wire_simps \<open>equations that evaluate the wire formats\<close>
named_theorems panic_simps \<open>rules that decide whether a checked access panics\<close>

section \<open>Buffers\<close>

text \<open>\<open>buf.get(i)\<close>, and \<open>buf[i]\<close>, which panics where \<open>get\<close> gives \<^verbatim>\<open>None\<close>.\<close>

definition get :: "'a list \<Rightarrow> nat \<Rightarrow> 'a option" where
  "get xs i = (if i < length xs then Some (xs ! i) else None)"

abbreviation idx :: "'a list \<Rightarrow> nat \<Rightarrow> 'a panics" where
  "idx \<equiv> get"

text \<open>\<open>&buf[a..b]\<close>.\<close>

definition slice :: "'a list \<Rightarrow> nat \<Rightarrow> nat \<Rightarrow> 'a list panics" where
  "slice xs a b = (if a \<le> b \<and> b \<le> length xs then Some (take (b - a) (drop a xs)) else None)"

text \<open>\<open>buf[a..a+v.len()].copy_from_slice(v)\<close>.\<close>

definition put_slice :: "'a list \<Rightarrow> nat \<Rightarrow> 'a list \<Rightarrow> 'a list panics" where
  "put_slice xs a v =
     (if a + length v \<le> length xs then Some (take a xs @ v @ drop (a + length v) xs) else None)"

lemma get_in [simp, panic_simps]: "i < length xs \<Longrightarrow> get xs i = Some (xs ! i)"
  by (simp add: get_def)

lemma get_out [simp, panic_simps]: "length xs \<le> i \<Longrightarrow> get xs i = None"
  by (simp add: get_def)

lemma get_eq_Some_conv: "get xs i = Some x \<longleftrightarrow> i < length xs \<and> xs ! i = x"
  by (auto simp: get_def)

lemma get_eq_None_conv: "get xs i = None \<longleftrightarrow> length xs \<le> i"
  by (auto simp: get_def)

lemma get_append_right: "get (xs @ ys) (length xs + i) = get ys i"
  by (simp add: get_def nth_append)

lemma get_append_left: "i < length xs \<Longrightarrow> get (xs @ ys) i = get xs i"
  by (simp add: get_def nth_append)

lemma slice_in [simp, panic_simps]:
  "a \<le> b \<Longrightarrow> b \<le> length xs \<Longrightarrow> slice xs a b = Some (take (b - a) (drop a xs))"
  by (simp add: slice_def)

lemma slice_eq_None_conv: "slice xs a b = None \<longleftrightarrow> \<not> (a \<le> b \<and> b \<le> length xs)"
  by (simp add: slice_def)

lemma slice_append_mid:
  "slice (xs @ ys @ zs) (length xs) (length xs + length ys) = Some ys"
  by simp

lemma put_slice_in [panic_simps]:
  "a + length v \<le> length xs \<Longrightarrow>
   put_slice xs a v = Some (take a xs @ v @ drop (a + length v) xs)"
  by (simp add: put_slice_def)

lemma put_slice_mid:
  "length a = i \<Longrightarrow> length v = length b \<Longrightarrow> put_slice (a @ b @ c) i v = Some (a @ v @ c)"
  by (auto simp: put_slice_def)

lemma slice_mid: "length a = i \<Longrightarrow> i + length b = j \<Longrightarrow> slice (a @ b @ c) i j = Some b"
  by (auto simp: slice_def)

lemma slice_to_end: "length a = i \<Longrightarrow> length (a @ b) = j \<Longrightarrow> slice (a @ b) i j = Some b"
  by (auto simp: slice_def)

lemma length_put_slice: "put_slice xs a v = Some ys \<Longrightarrow> length ys = length xs"
  by (auto simp: put_slice_def split: if_splits)

lemma append_split_long:
  assumes "a @ b = c @ d" and "length c \<le> length a"
  obtains w where "a = c @ w" "w @ b = d"
  using assms by (auto simp: append_eq_append_conv2)

lemma append_split_short:
  assumes "a @ b = c @ d" and "length a < length c"
  obtains r where "c = a @ r" "r \<noteq> []" "b = r @ d"
  using assms by (auto simp: append_eq_append_conv2)

section \<open>Big-endian integers\<close>

text \<open>\<open>uN::to_be_bytes\<close> on \<open>n\<close> bytes and \<open>uN::from_be_bytes\<close>, on naturals.\<close>

fun to_be :: "nat \<Rightarrow> nat \<Rightarrow> bytes" where
  "to_be 0 v = []"
| "to_be (Suc n) v = to_be n (v div 256) @ [of_nat v]"

definition from_be :: "bytes \<Rightarrow> nat" where
  "from_be bs = foldl (\<lambda>a b. 256 * a + unat b) 0 bs"

definition be16 :: "u8 \<Rightarrow> u8 \<Rightarrow> u16" where
  "be16 a b = of_nat (from_be [a, b])"

definition be32 :: "u8 \<Rightarrow> u8 \<Rightarrow> u8 \<Rightarrow> u8 \<Rightarrow> u32" where
  "be32 a b c d = of_nat (from_be [a, b, c, d])"

definition be16_bytes :: "u16 \<Rightarrow> bytes" where
  "be16_bytes w = to_be 2 (unat w)"

definition be32_bytes :: "u32 \<Rightarrow> bytes" where
  "be32_bytes w = to_be 4 (unat w)"

lemma from_be_Nil [simp]: "from_be [] = 0"
  by (simp add: from_be_def)

lemma from_be_snoc [simp]: "from_be (bs @ [b]) = 256 * from_be bs + unat b"
  by (simp add: from_be_def)

lemma from_be_append: "from_be (xs @ ys) = from_be xs * 256 ^ length ys + from_be ys"
proof (induction ys rule: rev_induct)
  case Nil
  show ?case by simp
next
  case (snoc y ys)
  have "from_be (xs @ ys @ [y]) = 256 * from_be (xs @ ys) + unat y"
    by (metis append_assoc from_be_snoc)
  also have "\<dots> = from_be xs * 256 ^ length (ys @ [y]) + from_be (ys @ [y])"
    by (simp add: snoc algebra_simps)
  finally show ?case by simp
qed

lemma unat_u8_less [simp]: "unat (b :: u8) < 256"
  using unsigned_less [of b, where 'a = nat] by simp

lemma unat_u16_less [simp]: "unat (b :: u16) < 65536"
  using unsigned_less [of b, where 'a = nat] by simp

lemma unat_u32_less [simp]: "unat (b :: u32) < 4294967296"
  using unsigned_less [of b, where 'a = nat] by simp

lemma unat_of_nat_u8 [simp]: "unat (of_nat n :: u8) = n mod 256"
  by (simp add: unat_of_nat)

lemma of_nat_u8_eqI: "n mod 256 = unat b \<Longrightarrow> (of_nat n :: u8) = b"
  by (metis unat_of_nat_u8 word_unat_eq_iff)

lemma of_nat_u16_eqI: "n = unat b \<Longrightarrow> (of_nat n :: u16) = b"
  by simp

lemma unat_of_nat_u16: "n < 65536 \<Longrightarrow> unat (of_nat n :: u16) = n"
  by (simp only: unat_of_nat) simp

lemma unat_of_nat_u32: "n < 4294967296 \<Longrightarrow> unat (of_nat n :: u32) = n"
  by (simp only: unat_of_nat) simp

lemma unat_ucast_u8_u16 [simp]: "unat (ucast (b :: u8) :: u16) = unat b"
  by (simp only: unsigned_ucast_eq) (simp add: take_bit_nat_eq_self less_trans [OF unat_u8_less])

lemma unat_ucast_u8_u32 [simp]: "unat (ucast (b :: u8) :: u32) = unat b"
  by (simp only: unsigned_ucast_eq) (simp add: take_bit_nat_eq_self less_trans [OF unat_u8_less])

lemma unat_ucast_u16_u32 [simp]: "unat (ucast (b :: u16) :: u32) = unat b"
  by (simp only: unsigned_ucast_eq) (simp add: take_bit_nat_eq_self less_trans [OF unat_u16_less])

lemma unat_cast_back: "of_nat (unat (w :: 'a :: len word)) = w"
  by simp

lemma of_nat_unat_u8: "of_nat (unat (w :: u8)) = w"
  by simp

lemma from_be_less: "from_be bs < 256 ^ length bs"
proof (induction bs rule: rev_induct)
  case Nil
  show ?case by simp
next
  case (snoc b bs)
  have "256 * from_be bs + unat b < 256 * (from_be bs + 1)"
    using unat_u8_less [of b] by simp
  also have "\<dots> \<le> 256 * 256 ^ length bs"
    using snoc by (intro mult_le_mono2) simp
  finally show ?case by simp
qed

lemma length_to_be [simp]: "length (to_be n v) = n"
  by (induction n arbitrary: v) auto

lemma from_be_to_be: "from_be (to_be n v) = v mod 256 ^ n"
proof (induction n arbitrary: v)
  case 0
  show ?case by simp
next
  case (Suc n)
  have "from_be (to_be (Suc n) v) = 256 * (v div 256 mod 256 ^ n) + v mod 256"
    by (simp add: Suc)
  also have "\<dots> = v mod (256 * 256 ^ n)"
    by (simp add: mod_mult2_eq)
  finally show ?case by simp
qed

lemma to_be_from_be: "to_be (length bs) (from_be bs) = bs"
proof (induction bs rule: rev_induct)
  case Nil
  show ?case by simp
next
  case (snoc b bs)
  have "(256 * from_be bs + unat b) div 256 = from_be bs"
    using unat_u8_less [of b] by simp
  moreover have "(of_nat (256 * from_be bs + unat b) :: u8) = b"
    by (rule of_nat_u8_eqI) simp
  ultimately show ?case
    using snoc by simp
qed

lemma to_be_Cons: "to_be (Suc n) v = of_nat (v div 256 ^ n) # to_be n v"
proof (induction n arbitrary: v)
  case 0
  show ?case by simp
next
  case (Suc n)
  have "to_be (Suc (Suc n)) v = to_be (Suc n) (v div 256) @ [of_nat v]" by simp
  also have "\<dots> = of_nat (v div 256 div 256 ^ n) # to_be n (v div 256) @ [of_nat v]"
    by (simp only: Suc append.simps)
  finally show ?case by (simp add: div_mult2_eq [symmetric])
qed

lemma to_be_add_mult: "to_be n (v + 256 ^ n * k) = to_be n v"
proof (induction n arbitrary: v)
  case (Suc n)
  have "(v + 256 ^ Suc n * k) div 256 = v div 256 + 256 ^ n * k"
    by (simp add: mult.assoc)
  moreover have "(of_nat (v + 256 ^ Suc n * k) :: u8) = of_nat v"
    by (rule of_nat_u8_eqI) (simp add: mult.assoc)
  ultimately show ?case by (simp add: Suc del: of_nat_add of_nat_mult)
qed simp

lemma from_be_pair: "from_be [a, b] = 256 * unat a + unat b"
  by (simp add: from_be_def)

lemma from_be_quad:
  "from_be [a, b, c, d] = 16777216 * unat a + 65536 * unat b + 256 * unat c + unat d"
  by (simp add: from_be_def)

lemma to_be_2: "to_be 2 v = [of_nat (v div 256), of_nat v]"
  by (simp add: numeral_2_eq_2)

lemma to_be_4: "to_be 4 v = [of_nat (v div 16777216), of_nat (v div 65536), of_nat (v div 256), of_nat v]"
proof -
  have four: "(4 :: nat) = Suc (Suc (Suc (Suc 0)))" by simp
  have "v div 256 div 256 = v div 65536" "v div 256 div 256 div 256 = v div 16777216"
    by (simp_all add: div_mult2_eq [symmetric])
  moreover have "to_be 4 v = [of_nat (v div 256 div 256 div 256), of_nat (v div 256 div 256),
      of_nat (v div 256), of_nat v]"
    by (simp only: to_be.simps append.simps four)
  ultimately show ?thesis by simp
qed

lemma unat_be16 [simp]: "unat (be16 a b) = 256 * unat a + unat b"
proof -
  have "256 * unat a + unat b < 65536"
    using unat_u8_less [of a] unat_u8_less [of b] by linarith
  then show ?thesis by (simp only: be16_def from_be_pair unat_of_nat_u16)
qed

lemma length_be16_bytes [simp]: "length (be16_bytes w) = 2"
  by (simp add: be16_bytes_def)

lemma length_be32_bytes [simp]: "length (be32_bytes w) = 4"
  by (simp add: be32_bytes_def)

lemma be16_bytes_nth [simp]: "be16 (be16_bytes w ! 0) (be16_bytes w ! Suc 0) = w"
proof -
  have "be16_bytes w = [be16_bytes w ! 0, be16_bytes w ! Suc 0]"
    by (simp add: be16_bytes_def to_be_2)
  then have "from_be [be16_bytes w ! 0, be16_bytes w ! Suc 0] = unat w"
    using from_be_to_be [of 2 "unat w"] unat_u16_less [of w]
    by (simp add: be16_bytes_def)
  then show ?thesis by (simp add: be16_def)
qed

lemma be16_of_bytes: "be16_bytes w = [a, b] \<Longrightarrow> be16 a b = w"
  using be16_bytes_nth [of w] by simp

lemma be16_bytes_cases: obtains a b where "be16_bytes w = [a, b]" "be16 a b = w"
proof -
  have "be16_bytes w = [of_nat (unat w div 256), of_nat (unat w)]"
    by (simp add: be16_bytes_def to_be_2)
  then show thesis using be16_of_bytes that by blast
qed

lemma be16_bytes_be16 [simp]: "be16_bytes (be16 a b) = [a, b]"
  using to_be_from_be [of "[a, b]"] by (simp add: be16_bytes_def from_be_pair numeral_2_eq_2)

lemma be16_inject [simp]: "be16 a b = be16 c d \<longleftrightarrow> a = c \<and> b = d"
  by (metis be16_bytes_be16 list.inject)

section \<open>Text\<close>

text \<open>
  A Rust \<^verbatim>\<open>str\<close> is its UTF-8 bytes, as a \<^typ>\<open>string\<close>. White space and letter case are
  those of ASCII (the sources apply them to host names, keywords, numbers and headers).
\<close>

definition byte_of :: "char \<Rightarrow> u8" where
  "byte_of c = of_nat (of_char c)"

definition char_at :: "u8 \<Rightarrow> char" where
  "char_at b = char_of (unat b)"

definition as_bytes :: "string \<Rightarrow> bytes" where
  "as_bytes s = map byte_of s"

definition of_bytes :: "bytes \<Rightarrow> string" where
  "of_bytes bs = map char_at bs"

lemma length_as_bytes [simp]: "length (as_bytes s) = length s"
  by (simp add: as_bytes_def)

lemma length_of_bytes [simp]: "length (of_bytes s) = length s"
  by (simp add: of_bytes_def)

lemma as_bytes_simps [simp]:
  "as_bytes [] = []" "as_bytes (c # s) = byte_of c # as_bytes s"
  "as_bytes (s @ t) = as_bytes s @ as_bytes t"
  by (simp_all add: as_bytes_def)

lemma char_at_byte_of [simp]: "char_at (byte_of c) = c"
  by (simp add: char_at_def byte_of_def)

lemma byte_of_char_at [simp]: "byte_of (char_at b) = b"
  by (rule word_unat_eq_iff [THEN iffD2]) (simp add: char_at_def byte_of_def)

lemma of_bytes_as_bytes [simp]: "of_bytes (as_bytes s) = s"
  by (simp add: of_bytes_def as_bytes_def map_idI)

lemma as_bytes_of_bytes [simp]: "as_bytes (of_bytes bs) = bs"
  by (simp add: of_bytes_def as_bytes_def map_idI)

lemma as_bytes_inject [simp]: "as_bytes s = as_bytes t \<longleftrightarrow> s = t"
  by (metis of_bytes_as_bytes)

text \<open>
  \<open>String::from_utf8_lossy\<close> on the bytes: a maximal ill-formed subsequence becomes U+FFFD.
\<close>

definition utf8_replacement :: bytes where
  "utf8_replacement = [0xef, 0xbf, 0xbd]"

definition utf8_cont :: "u8 \<Rightarrow> bool" where
  "utf8_cont b \<longleftrightarrow> 0x80 \<le> b \<and> b \<le> 0xbf"

text \<open>The second byte that may follow a three- or four-byte lead.\<close>

definition utf8_second :: "u8 \<Rightarrow> u8 \<Rightarrow> bool" where
  "utf8_second a b \<longleftrightarrow>
     (if a = 0xe0 then 0xa0 \<le> b \<and> b \<le> 0xbf
      else if a = 0xed then 0x80 \<le> b \<and> b \<le> 0x9f
      else if a = 0xf0 then 0x90 \<le> b \<and> b \<le> 0xbf
      else if a = 0xf4 then 0x80 \<le> b \<and> b \<le> 0x8f
      else utf8_cont b)"

fun utf8_lossy :: "bytes \<Rightarrow> bytes" where
  "utf8_lossy [] = []"
| "utf8_lossy (a # r) =
     (if a < 0x80 then a # utf8_lossy r
      else if 0xc2 \<le> a \<and> a \<le> 0xdf
      then (case r of
              b # r' \<Rightarrow> if utf8_cont b then a # b # utf8_lossy r' else utf8_replacement @ utf8_lossy r
            | [] \<Rightarrow> utf8_replacement)
      else if 0xe0 \<le> a \<and> a \<le> 0xef
      then (case r of
              b # r' \<Rightarrow>
                if utf8_second a b
                then (case r' of
                        c # r'' \<Rightarrow> if utf8_cont c then a # b # c # utf8_lossy r''
                                    else utf8_replacement @ utf8_lossy r'
                      | [] \<Rightarrow> utf8_replacement)
                else utf8_replacement @ utf8_lossy r
            | [] \<Rightarrow> utf8_replacement)
      else if 0xf0 \<le> a \<and> a \<le> 0xf4
      then (case r of
              b # r' \<Rightarrow>
                if utf8_second a b
                then (case r' of
                        c # r'' \<Rightarrow>
                          if utf8_cont c
                          then (case r'' of
                                  d # r3 \<Rightarrow> if utf8_cont d then a # b # c # d # utf8_lossy r3
                                              else utf8_replacement @ utf8_lossy r''
                                | [] \<Rightarrow> utf8_replacement)
                          else utf8_replacement @ utf8_lossy r'
                      | [] \<Rightarrow> utf8_replacement)
                else utf8_replacement @ utf8_lossy r
            | [] \<Rightarrow> utf8_replacement)
      else utf8_replacement @ utf8_lossy r)"

lemma utf8_lossy_ascii: "\<forall>b \<in> set bs. b < 0x80 \<Longrightarrow> utf8_lossy bs = bs"
  by (induction bs) auto

text \<open>ASCII letter case.\<close>

definition ascii_lower :: "u8 \<Rightarrow> u8" where
  "ascii_lower b = (if 65 \<le> b \<and> b \<le> 90 then b + 32 else b)"

definition eq_ignore_ascii_case :: "bytes \<Rightarrow> bytes \<Rightarrow> bool" where
  "eq_ignore_ascii_case xs ys \<longleftrightarrow> map ascii_lower xs = map ascii_lower ys"

definition lower_char :: "char \<Rightarrow> char" where
  "lower_char c = (let n = of_char c in if 65 \<le> n \<and> n \<le> (90 :: nat) then char_of (n + 32) else c)"

definition to_lowercase :: "string \<Rightarrow> string" where
  "to_lowercase s = map lower_char s"

definition str_eq_ignore_case :: "string \<Rightarrow> string \<Rightarrow> bool" where
  "str_eq_ignore_case s t \<longleftrightarrow> to_lowercase s = to_lowercase t"

lemma eq_ignore_ascii_case_refl [simp]: "eq_ignore_ascii_case xs xs"
  by (simp add: eq_ignore_ascii_case_def)

lemma length_to_lowercase [simp]: "length (to_lowercase s) = length s"
  by (simp add: to_lowercase_def)

lemma lower_char_idem [simp]: "lower_char (lower_char c) = lower_char c"
proof (cases "65 \<le> (of_char c :: nat) \<and> (of_char c :: nat) \<le> 90")
  case True
  then have "(of_char c + 32 :: nat) mod 256 = of_char c + 32" by simp
  with True show ?thesis by (simp add: lower_char_def Let_def)
next
  case False
  then show ?thesis by (auto simp add: lower_char_def Let_def)
qed

lemma to_lowercase_idem [simp]: "to_lowercase (to_lowercase s) = to_lowercase s"
  by (simp add: to_lowercase_def)

text \<open>\<open>trim\<close>, \<open>split\<close>, \<open>split_once\<close>, \<open>find\<close>, \<open>starts_with\<close>, \<open>ends_with\<close>, \<open>contains\<close>.\<close>

definition is_ws :: "char \<Rightarrow> bool" where
  "is_ws c \<longleftrightarrow> (let n = (of_char c :: nat) in n = 32 \<or> (9 \<le> n \<and> n \<le> 13))"

definition trim_start_by :: "('a \<Rightarrow> bool) \<Rightarrow> 'a list \<Rightarrow> 'a list" where
  "trim_start_by p s = dropWhile p s"

definition trim_end_by :: "('a \<Rightarrow> bool) \<Rightarrow> 'a list \<Rightarrow> 'a list" where
  "trim_end_by p s = rev (dropWhile p (rev s))"

definition trim :: "string \<Rightarrow> string" where
  "trim s = trim_end_by is_ws (trim_start_by is_ws s)"

fun split_by :: "('a \<Rightarrow> bool) \<Rightarrow> 'a list \<Rightarrow> 'a list list" where
  "split_by p [] = [[]]"
| "split_by p (x # xs) =
     (if p x then [] # split_by p xs
      else (case split_by p xs of [] \<Rightarrow> [[x]] | y # ys \<Rightarrow> (x # y) # ys))"

fun split_once :: "'a \<Rightarrow> 'a list \<Rightarrow> ('a list \<times> 'a list) option" where
  "split_once c [] = None"
| "split_once c (x # xs) =
     (if x = c then Some ([], xs)
      else (case split_once c xs of None \<Rightarrow> None | Some (a, b) \<Rightarrow> Some (x # a, b)))"

fun starts_with :: "'a list \<Rightarrow> 'a list \<Rightarrow> bool" where
  "starts_with s [] = True"
| "starts_with [] (p # ps) = False"
| "starts_with (x # xs) (p # ps) = (x = p \<and> starts_with xs ps)"

definition ends_with :: "'a list \<Rightarrow> 'a list \<Rightarrow> bool" where
  "ends_with s p = starts_with (rev s) (rev p)"

fun find_sub :: "'a list \<Rightarrow> 'a list \<Rightarrow> nat option" where
  "find_sub [] p = (if p = [] then Some 0 else None)"
| "find_sub (x # xs) p =
     (if starts_with (x # xs) p then Some 0
      else (case find_sub xs p of None \<Rightarrow> None | Some i \<Rightarrow> Some (Suc i)))"

definition contains :: "'a list \<Rightarrow> 'a list \<Rightarrow> bool" where
  "contains s p = (find_sub s p \<noteq> None)"

lemma split_by_nonempty [simp]: "split_by p xs \<noteq> []"
  by (induction xs) (auto split: list.splits)

lemma split_once_eq_Some: "split_once c s = Some (a, b) \<Longrightarrow> s = a @ c # b \<and> c \<notin> set a"
  by (induction s arbitrary: a b) (auto split: if_splits option.splits)

lemma split_once_append [simp]: "c \<notin> set a \<Longrightarrow> split_once c (a @ c # b) = Some (a, b)"
  by (induction a) auto

lemma starts_with_iff: "starts_with s p \<longleftrightarrow> (\<exists>t. s = p @ t)"
  by (induction s p rule: starts_with.induct) auto

lemma ends_with_iff: "ends_with s p \<longleftrightarrow> (\<exists>t. s = t @ p)"
proof -
  have "(\<exists>t. rev s = rev p @ t) \<longleftrightarrow> (\<exists>t. s = t @ p)"
    by (metis rev_append rev_rev_ident)
  then show ?thesis by (simp add: ends_with_def starts_with_iff)
qed

lemma find_sub_Some:
  "find_sub s p = Some i \<Longrightarrow> i \<le> length s \<and> starts_with (drop i s) p"
  by (induction s p arbitrary: i rule: find_sub.induct) (auto split: if_splits option.splits)

lemma find_sub_first:
  "find_sub s p = Some i \<Longrightarrow> j < i \<Longrightarrow> \<not> starts_with (drop j s) p"
proof (induction s p arbitrary: i j rule: find_sub.induct)
  case (1 p)
  then show ?case by (simp split: if_splits)
next
  case (2 x xs p)
  show ?case
  proof (cases "starts_with (x # xs) p")
    case True
    with "2.prems" show ?thesis by simp
  next
    case False
    with "2.prems" obtain k where k: "find_sub xs p = Some k" "i = Suc k"
      by (auto split: option.splits)
    show ?thesis
    proof (cases j)
      case 0
      with False show ?thesis by simp
    next
      case (Suc j')
      with "2.IH" [OF False k(1)] k(2) "2.prems"(2) show ?thesis by simp
    qed
  qed
qed

lemma find_sub_None: "find_sub s p = None \<Longrightarrow> j \<le> length s \<Longrightarrow> \<not> starts_with (drop j s) p"
proof (induction s p arbitrary: j rule: find_sub.induct)
  case (1 p)
  then show ?case by (cases p) (auto split: if_splits)
next
  case (2 x xs p)
  then show ?case by (cases j) (auto split: if_splits option.splits)
qed

lemma contains_iff: "contains s p \<longleftrightarrow> (\<exists>a b. s = a @ p @ b)"
proof
  assume "contains s p"
  then obtain i where "find_sub s p = Some i" by (auto simp: contains_def)
  then have "starts_with (drop i s) p" by (simp add: find_sub_Some)
  then show "\<exists>a b. s = a @ p @ b"
    by (metis append_take_drop_id starts_with_iff)
next
  assume "\<exists>a b. s = a @ p @ b"
  then obtain a b where s: "s = a @ p @ b" by blast
  then have "starts_with (drop (length a) s) p" "length a \<le> length s"
    by (auto simp: starts_with_iff)
  then show "contains s p"
    unfolding contains_def using find_sub_None by blast
qed

text \<open>Rust's integer parser: an optional plus sign, then at least one digit, no overflow.\<close>

definition digit_val :: "char \<Rightarrow> nat option" where
  "digit_val c = (let n = of_char c in if 48 \<le> n \<and> n \<le> (57 :: nat) then Some (n - 48) else None)"

fun parse_digits :: "nat \<Rightarrow> nat \<Rightarrow> string \<Rightarrow> nat option" where
  "parse_digits mx acc [] = Some acc"
| "parse_digits mx acc (c # cs) =
     (case digit_val c of None \<Rightarrow> None
      | Some d \<Rightarrow> if 10 * acc + d \<le> mx then parse_digits mx (10 * acc + d) cs else None)"

definition parse_uint :: "nat \<Rightarrow> string \<Rightarrow> nat option" where
  "parse_uint mx s =
     (let ds = (if s \<noteq> [] \<and> hd s = CHR ''+'' then tl s else s)
      in if ds = [] then None else parse_digits mx 0 ds)"

lemma parse_digits_le: "parse_digits mx acc s = Some n \<Longrightarrow> acc \<le> mx \<Longrightarrow> n \<le> mx"
  by (induction mx acc s rule: parse_digits.induct) (auto split: option.splits if_splits)

lemma parse_uint_le: "parse_uint mx s = Some n \<Longrightarrow> n \<le> mx"
  by (auto simp: parse_uint_def Let_def split: if_splits dest: parse_digits_le)


text \<open>\<open>Display\<close> of an unsigned integer.\<close>

fun show_nat :: "nat \<Rightarrow> string" where
  "show_nat n = (if n < 10 then [char_of (48 + n)] else show_nat (n div 10) @ [char_of (48 + n mod 10)])"

declare show_nat.simps [simp del]

section \<open>Addresses of \<^verbatim>\<open>std::net\<close>\<close>

text \<open>\<open>Ipv4Addr\<close>, \<open>Ipv6Addr\<close>, \<open>IpAddr\<close> and \<open>SocketAddr\<close>; \<open>octets()\<close> is big-endian.\<close>

type_synonym ipv4 = "32 word"
type_synonym ipv6 = "128 word"

datatype ip_addr = V4 ipv4 | V6 ipv6

record socket_addr =
  sa_ip :: ip_addr
  sa_port :: u16

definition ipv4_of :: "u8 \<Rightarrow> u8 \<Rightarrow> u8 \<Rightarrow> u8 \<Rightarrow> ipv4" where
  "ipv4_of a b c d = of_nat (from_be [a, b, c, d])"

definition ipv4_octets :: "ipv4 \<Rightarrow> bytes" where
  "ipv4_octets w = to_be 4 (unat w)"

definition ipv6_of_octets :: "bytes \<Rightarrow> ipv6" where
  "ipv6_of_octets bs = of_nat (from_be bs)"

definition ipv6_octets :: "ipv6 \<Rightarrow> bytes" where
  "ipv6_octets w = to_be 16 (unat w)"

definition ipv6_segments :: "ipv6 \<Rightarrow> nat \<Rightarrow> u16" where
  "ipv6_segments w i = of_nat (unat w div 65536 ^ (7 - i))"

lemma length_ipv4_octets [simp]: "length (ipv4_octets w) = 4"
  by (simp add: ipv4_octets_def)

lemma length_ipv6_octets [simp]: "length (ipv6_octets w) = 16"
  by (simp add: ipv6_octets_def)

lemma list4_length: "length [a, b, c, d] = 4"
  by simp

lemma list4_eq: "length xs = 4 \<Longrightarrow> xs = [xs ! 0, xs ! 1, xs ! 2, xs ! 3]"
  by (auto simp: numeral_eq_Suc length_Suc_conv)

lemma ipv4_octets_of [simp]: "ipv4_octets (ipv4_of a b c d) = [a, b, c, d]"
proof -
  have "from_be [a, b, c, d] < 4294967296" using from_be_less [of "[a, b, c, d]"] by simp
  then have "unat (ipv4_of a b c d) = from_be [a, b, c, d]"
    by (simp only: ipv4_of_def unat_of_nat_u32)
  moreover have "to_be 4 (from_be [a, b, c, d]) = [a, b, c, d]"
    using to_be_from_be [of "[a, b, c, d]", unfolded list4_length] .
  ultimately show ?thesis by (simp only: ipv4_octets_def)
qed

lemma ipv4_octets_cases: obtains a b c d where "ipv4_octets w = [a, b, c, d]" "w = ipv4_of a b c d"
proof -
  let ?o = "ipv4_octets w"
  have o: "?o = [?o ! 0, ?o ! 1, ?o ! 2, ?o ! 3]"
    by (rule list4_eq) simp
  have "from_be ?o = unat w"
    unfolding ipv4_octets_def from_be_to_be by (rule mod_less) simp
  then have "w = ipv4_of (?o ! 0) (?o ! 1) (?o ! 2) (?o ! 3)"
    using o unat_cast_back [of w] by (metis ipv4_of_def)
  with o show thesis using that by blast
qed


text \<open>
  \<open>Ipv4Addr\<close>'s parser: four groups of one to three digits, none with a leading zero, each at
  most 255.
\<close>

definition parse_octet :: "string \<Rightarrow> u8 option" where
  "parse_octet s =
     (if s = [] \<or> 3 < length s \<or> (1 < length s \<and> hd s = CHR ''0'') then None
      else map_option of_nat (parse_digits 255 0 s))"

definition parse_ipv4 :: "string \<Rightarrow> ipv4 option" where
  "parse_ipv4 s =
     (case map parse_octet (split_by (\<lambda>c. c = CHR ''.'') s) of
        [Some a, Some b, Some c, Some d] \<Rightarrow> Some (ipv4_of a b c d)
      | _ \<Rightarrow> None)"

definition show_ipv4 :: "ipv4 \<Rightarrow> string" where
  "show_ipv4 w =
     (case map (show_nat \<circ> unat) (ipv4_octets w) of
        [a, b, c, d] \<Rightarrow> a @ ''.'' @ b @ ''.'' @ c @ ''.'' @ d
      | _ \<Rightarrow> [])"

lemma ipv4_of_octets [simp]: "length bs = 4 \<Longrightarrow> ipv4_of (bs ! 0) (bs ! 1) (bs ! 2) (bs ! 3) = of_nat (from_be bs)"
proof -
  assume "length bs = 4"
  then have "bs = [bs ! 0, bs ! 1, bs ! 2, bs ! 3]" by (rule list4_eq)
  then show ?thesis by (metis ipv4_of_def)
qed

lemma ipv6_octets_of_octets [simp]: "length bs = 16 \<Longrightarrow> ipv6_octets (ipv6_of_octets bs) = bs"
proof -
  assume l: "length bs = 16"
  have "from_be bs < 2 ^ 128" using from_be_less [of bs] l by simp
  then have "unat (ipv6_of_octets bs) = from_be bs"
    by (simp only: ipv6_of_octets_def unat_of_nat) simp
  then show ?thesis using to_be_from_be [of bs] l by (simp add: ipv6_octets_def)
qed

lemma ipv6_of_octets_octets [simp]: "ipv6_of_octets (ipv6_octets w) = w"
proof -
  have "unat w < 256 ^ 16" using unsigned_less [of w, where 'a = nat] by simp
  then show ?thesis by (simp add: ipv6_of_octets_def ipv6_octets_def from_be_to_be)
qed

section \<open>Errors\<close>

text \<open>\<^verbatim>\<open>error.rs\<close>; the errors of other crates (\<open>io\<close>, \<open>quiche\<close>, \<open>h3\<close>) carry their text.\<close>

datatype aether_error =
    E_Io string | E_Quic string | E_H3 string | E_Tls string | E_Ech string
  | E_Masque string | E_NoCleanEndpoint | E_Capsule string | E_Api string
  | E_IdentityRefused string | E_Cancelled | E_Other string

text \<open>
  \<open>m?\<close> on a \<^verbatim>\<open>Result\<close> computed by code that may panic: a panic and an error both stop the
  function.
\<close>

definition qm :: "('e + 'a) panics \<Rightarrow> ('a \<Rightarrow> ('e + 'b) panics) \<Rightarrow> ('e + 'b) panics" where
  "qm m f = (case m of None \<Rightarrow> None | Some (Inl e) \<Rightarrow> Some (Inl e) | Some (Inr a) \<Rightarrow> f a)"

lemma qm_simps [simp]:
  "qm None f = None" "qm (Some (Inl e)) f = Some (Inl e)" "qm (Some (Inr a)) f = f a"
  by (simp_all add: qm_def)

lemma qm_eq_Inr_conv: "qm m f = Some (Inr y) \<longleftrightarrow> (\<exists>x. m = Some (Inr x) \<and> f x = Some (Inr y))"
  by (auto simp: qm_def split: option.splits sum.splits)

lemma qm_not_None: "m \<noteq> None \<Longrightarrow> (\<And>x. m = Some (Inr x) \<Longrightarrow> f x \<noteq> None) \<Longrightarrow> qm m f \<noteq> None"
  by (auto simp: qm_def split: option.splits sum.splits)

text \<open>
  ``Does not panic'', with rules that follow the shape of the code: every component proves
  its freedom from panics by applying them.
\<close>

definition runs :: "'a panics \<Rightarrow> bool" where
  "runs m \<longleftrightarrow> m \<noteq> None"

named_theorems no_panic \<open>introduction rules for \<open>runs\<close>\<close>

lemma runs_Some [simp, no_panic]: "runs (Some x)"
  by (simp add: runs_def)

lemma runs_None [simp]: "\<not> runs None"
  by (simp add: runs_def)

lemma runs_iff: "runs m \<longleftrightarrow> (\<exists>x. m = Some x)"
  by (simp add: runs_def)

lemma runs_qm [no_panic]: "runs m \<Longrightarrow> (\<And>x. m = Some (Inr x) \<Longrightarrow> runs (f x)) \<Longrightarrow> runs (qm m f)"
  by (auto simp: qm_def runs_def split: option.splits sum.splits)

lemma runs_bind [no_panic]:
  "runs m \<Longrightarrow> (\<And>x. m = Some x \<Longrightarrow> runs (f x)) \<Longrightarrow> runs (Option.bind m f)"
  by (cases m) auto

lemma runs_map_option [no_panic]: "runs m \<Longrightarrow> runs (map_option f m)"
  by (auto simp: runs_iff)

lemma runs_if [no_panic]: "(c \<Longrightarrow> runs a) \<Longrightarrow> (\<not> c \<Longrightarrow> runs b) \<Longrightarrow> runs (if c then a else b)"
  by simp

lemma runs_prod [no_panic]: "(\<And>a b. p = (a, b) \<Longrightarrow> runs (f a b)) \<Longrightarrow> runs (case p of (a, b) \<Rightarrow> f a b)"
  by (cases p) simp

lemma runs_option [no_panic]:
  "(z = None \<Longrightarrow> runs m) \<Longrightarrow> (\<And>x. z = Some x \<Longrightarrow> runs (f x)) \<Longrightarrow>
   runs (case z of None \<Rightarrow> m | Some x \<Rightarrow> f x)"
  by (cases z) simp_all

lemma runs_sum [no_panic]:
  "(\<And>e. z = Inl e \<Longrightarrow> runs (g e)) \<Longrightarrow> (\<And>x. z = Inr x \<Longrightarrow> runs (f x)) \<Longrightarrow>
   runs (case z of Inl e \<Rightarrow> g e | Inr x \<Rightarrow> f x)"
  by (cases z) simp_all

lemma runs_Let [no_panic]: "runs (f x) \<Longrightarrow> runs (let y = x in f y)"
  by simp

lemma runs_get [no_panic]: "i < length xs \<Longrightarrow> runs (get xs i)"
  by simp

lemma runs_slice [no_panic]: "a \<le> b \<Longrightarrow> b \<le> length xs \<Longrightarrow> runs (slice xs a b)"
  by simp

lemma runs_put_slice [no_panic]: "a + length v \<le> length xs \<Longrightarrow> runs (put_slice xs a v)"
  by (simp add: put_slice_def)

section \<open>Bounded channels\<close>

text \<open>
  The sending half of a bounded \<^verbatim>\<open>tokio::sync::mpsc\<close> channel: the queue, its capacity and
  whether the receiver is gone. \<open>try_send\<close> is the only operation the packet paths use.
\<close>

datatype try_send_error = Full | Closed

record 'a channel =
  ch_queue :: "'a list"
  ch_cap :: nat
  ch_closed :: bool

definition try_send :: "'a channel \<Rightarrow> 'a \<Rightarrow> try_send_error + 'a channel" where
  "try_send c x =
     (if ch_closed c then Inl Closed
      else if ch_cap c \<le> length (ch_queue c) then Inl Full
      else Inr (c\<lparr>ch_queue := ch_queue c @ [x]\<rparr>))"

definition channel_wf :: "'a channel \<Rightarrow> bool" where
  "channel_wf c \<longleftrightarrow> length (ch_queue c) \<le> ch_cap c"

lemma try_send_wf: "channel_wf c \<Longrightarrow> try_send c x = Inr c' \<Longrightarrow> channel_wf c'"
  by (auto simp: try_send_def channel_wf_def split: if_splits)

lemma try_send_queue: "try_send c x = Inr c' \<Longrightarrow> ch_queue c' = ch_queue c @ [x]"
  by (auto simp: try_send_def split: if_splits)

end
