(* ===== verification/Checksum.thy ===== *)
theory Checksum
  imports Prelude
begin

text \<open>
  The Internet checksum. The program has it four times, word for word: \<^verbatim>\<open>exitip.rs\<close>
  (\<open>ones_complement_sum\<close>, \<open>fold\<close>), \<^verbatim>\<open>tun.rs\<close> (\<open>ones_complement_sum\<close>,
  \<open>fold_checksum\<close>), \<^verbatim>\<open>masque.rs\<close> (\<open>ipv4_header_checksum\<close>) and
  \<^verbatim>\<open>socks_upstream.rs\<close> (\<open>ones_complement_sum\<close> with its fold inside). The accumulator is the
  code's \<^verbatim>\<open>u32\<close>; the fold is its \<^verbatim>\<open>while\<close> loop. The theory shows the fold computes the
  residue modulo 65535 and that a checksum written into a zeroed even field makes a
  receiver's check succeed.
\<close>

section \<open>The code\<close>

fun ones_complement_sum :: "bytes \<Rightarrow> u32 \<Rightarrow> u32" where
  "ones_complement_sum (a # b # r) s = ones_complement_sum r (s + ucast (be16 a b))"
| "ones_complement_sum [a] s = s + push_bit 8 (ucast a)"
| "ones_complement_sum [] s = s"

function fold_carry :: "u32 \<Rightarrow> u32" where
  "fold_carry s = (if drop_bit 16 s \<noteq> 0 then fold_carry ((s AND 0xffff) + drop_bit 16 s) else s)"
  by pat_completeness auto

definition checksum_step :: "nat \<Rightarrow> nat" where
  "checksum_step n = n mod 65536 + n div 65536"

lemma unat_and_ffff: "unat ((s :: u32) AND 0xffff) = unat s mod 65536"
proof -
  have "(s :: u32) AND 0xffff = take_bit 16 s"
    by (simp add: take_bit_eq_mask mask_eq_exp_minus_1)
  then show ?thesis by (simp only: unsigned_take_bit_eq) (simp add: take_bit_eq_mod)
qed

lemma unat_drop_16: "unat (drop_bit 16 (s :: u32)) = unat s div 65536"
  by (simp only: unat_drop_bit_eq) (simp add: drop_bit_eq_div)

lemma fold_carry_step: "unat ((s AND 0xffff) + drop_bit 16 (s :: u32)) = checksum_step (unat s)"
proof -
  have "unat s div 65536 < 65536" using unat_u32_less [of s] by (simp add: less_mult_imp_div_less)
  moreover have "unat s mod 65536 < 65536" by simp
  ultimately have "unat s mod 65536 + unat s div 65536 < 2 ^ LENGTH(32)"
    by simp
  then show ?thesis
    by (simp add: checksum_step_def unat_add_lem [THEN iffD1] unat_and_ffff unat_drop_16)
qed

lemma checksum_step_less: "65536 \<le> n \<Longrightarrow> checksum_step n < n"
proof -
  assume "65536 \<le> n"
  then have "1 \<le> n div 65536" by (simp add: div_greater_zero_iff Suc_leI)
  moreover have "n = n div 65536 * 65536 + n mod 65536" by simp
  ultimately show ?thesis unfolding checksum_step_def by linarith
qed

termination fold_carry
proof (relation "measure unat")
  fix s :: u32
  assume "drop_bit 16 s \<noteq> 0"
  then have "unat (drop_bit 16 s) \<noteq> 0" by (metis unat_eq_0)
  then have "65536 \<le> unat s" by (simp add: unat_drop_16 div_eq_0_iff)
  then show "((s AND 0xffff) + drop_bit 16 s, s) \<in> measure unat"
    by (simp add: fold_carry_step checksum_step_less)
qed simp

declare fold_carry.simps [simp del]

definition fold_checksum :: "u32 \<Rightarrow> u16" where
  "fold_checksum s = NOT (ucast (fold_carry s))"

definition checksum :: "bytes \<Rightarrow> u16" where
  "checksum bs = fold_checksum (ones_complement_sum bs 0)"

section \<open>What it computes\<close>

text \<open>The exact sum of the big-endian 16-bit words, an odd last byte being a high byte.\<close>

fun sum16 :: "bytes \<Rightarrow> nat" where
  "sum16 (a # b # r) = 256 * unat a + unat b + sum16 r"
| "sum16 [a] = 256 * unat a"
| "sum16 [] = 0"

text \<open>A one's complement residue: zero only for zero, else in \<open>1..65535\<close>.\<close>

definition residue :: "nat \<Rightarrow> nat" where
  "residue n = (if n = 0 then 0 else (n - 1) mod 65535 + 1)"

lemma sum16_le: "sum16 bs \<le> 65535 * ((length bs + 1) div 2)"
proof (induction bs rule: sum16.induct)
  case (1 a b r)
  have "256 * unat a + unat b \<le> 65535"
    using unat_u8_less [of a] unat_u8_less [of b] by linarith
  with 1 show ?case by simp
next
  case (2 a)
  have "256 * unat a \<le> 65535" using unat_u8_less [of a] by linarith
  then show ?case by simp
qed simp

lemma sum16_append: "even (length xs) \<Longrightarrow> sum16 (xs @ ys) = sum16 xs + sum16 ys"
  by (induction xs rule: sum16.induct) auto

lemma ones_complement_sum_exact:
  "unat s + sum16 bs < 4294967296 \<Longrightarrow> unat (ones_complement_sum bs s) = unat s + sum16 bs"
proof (induction bs s rule: ones_complement_sum.induct)
  case (1 a b r s)
  have u: "unat (ucast (be16 a b) :: u32) = 256 * unat a + unat b"
    by simp
  have "unat s + unat (ucast (be16 a b) :: u32) < 2 ^ LENGTH(32)"
    using "1.prems" u by simp
  then have s: "unat (s + ucast (be16 a b)) = unat s + (256 * unat a + unat b)"
    by (simp add: unat_add_lem [THEN iffD1] u)
  then have "unat (s + ucast (be16 a b)) + sum16 r < 4294967296"
    using "1.prems" by simp
  from "1.IH" [OF this] s show ?case by simp
next
  case (2 a s)
  have u: "unat (push_bit 8 (ucast a :: u32)) = 256 * unat a"
  proof -
    have "256 * unat a < 4294967296" using unat_u8_less [of a] by linarith
    then show ?thesis
      by (simp only: unsigned_push_bit_eq)
        (simp add: take_bit_nat_eq_self push_bit_nat_def mult.commute)
  qed
  have "unat s + unat (push_bit 8 (ucast a :: u32)) < 2 ^ LENGTH(32)"
    using "2.prems" u by simp
  then show ?case by (simp add: unat_add_lem [THEN iffD1] u)
qed simp

lemma residue_step: "65536 \<le> n \<Longrightarrow> residue (checksum_step n) = residue n"
proof -
  assume n: "65536 \<le> n"
  define q where "q = n div 65536"
  define r where "r = n mod 65536"
  have nq: "n = q * 65536 + r" by (simp add: q_def r_def)
  have q: "1 \<le> q" using n by (simp add: q_def div_greater_zero_iff Suc_leI)
  have "n - 1 = (q + r - 1) + 65535 * q" using nq q by simp
  then have "(n - 1) mod 65535 = (q + r - 1) mod 65535" by simp
  moreover have "checksum_step n = r + q" by (simp add: checksum_step_def q_def r_def)
  ultimately show ?thesis using q n by (simp add: residue_def add.commute)
qed

lemma residue_small: "n < 65536 \<Longrightarrow> residue n = n"
  by (simp add: residue_def)

lemma residue_le [simp]: "residue n \<le> 65535"
proof -
  have "(n - 1) mod 65535 < 65535" by simp
  then have "(n - 1) mod 65535 + 1 \<le> 65535" by linarith
  then show ?thesis by (auto simp: residue_def)
qed

lemma fold_carry_residue: "unat (fold_carry s) = residue (unat s)"
proof (induction s rule: fold_carry.induct)
  case (1 s)
  show ?case
  proof (cases "drop_bit 16 s = 0")
    case True
    then have "unat (drop_bit 16 s) = 0" by simp
    then have "unat s < 65536" by (simp add: unat_drop_16 div_eq_0_iff)
    with True show ?thesis by (simp add: fold_carry.simps [of s] residue_small)
  next
    case False
    then have "unat (drop_bit 16 s) \<noteq> 0" by (metis unat_eq_0)
    then have "65536 \<le> unat s" by (simp add: unat_drop_16 div_eq_0_iff)
    with False "1" show ?thesis
      by (simp add: fold_carry.simps [of s] fold_carry_step residue_step)
  qed
qed

lemma unat_not_u16: "unat (NOT (w :: u16)) = 65535 - unat w"
proof -
  have "NOT w = (-1) - w" by (simp add: not_eq_complement)
  moreover have "unat (-1 - w) = unat (-1 :: u16) - unat w"
    by (rule unat_sub) (rule word_order.extremum)
  moreover have "unat (-1 :: u16) = 65535" by (simp only: unsigned_minus_1_eq_mask) (simp add: mask_eq_exp_minus_1)
  ultimately show ?thesis by (simp only:)
qed

lemma unat_fold_checksum: "unat (fold_checksum s) = 65535 - residue (unat s)"
proof -
  have "unat (ucast (fold_carry s) :: u16) = unat (fold_carry s) mod 65536"
    by (simp add: unsigned_ucast_eq take_bit_eq_mod)
  also have "\<dots> = residue (unat s)"
    unfolding fold_carry_residue by (rule mod_less) (use residue_le [of "unat s"] in linarith)
  finally show ?thesis by (simp add: fold_checksum_def unat_not_u16)
qed

lemma residue_complement: "residue (n + (65535 - residue n)) = 65535"
proof (cases "n = 0")
  case True
  then show ?thesis by (simp add: residue_def)
next
  case False
  define k where "k = n - 1"
  have n: "n = k + 1" using False by (simp add: k_def)
  have "n + (65535 - residue n) = k + 1 + (65534 - k mod 65535)"
    by (simp add: n residue_def)
  also have "\<dots> = 65535 * (k div 65535) + 65535"
  proof -
    have "k = 65535 * (k div 65535) + k mod 65535" by simp
    moreover have "k mod 65535 < 65535" by simp
    ultimately show ?thesis by linarith
  qed
  finally have e: "n + (65535 - residue n) = 65535 * (k div 65535) + 65535" .
  have "(65535 * (k div 65535) + 65535 - 1) mod 65535 = (65534 + 65535 * (k div 65535)) mod 65535"
    by (simp add: add.commute)
  also have "\<dots> = 65534" by simp
  finally show ?thesis unfolding e by (simp add: residue_def)
qed

lemma residue_add_65535: "0 < n \<Longrightarrow> residue (n + 65535) = residue n"
proof -
  assume "0 < n"
  then have "n + 65535 - 1 = (n - 1) + 65535" by simp
  then have "(n + 65535 - 1) mod 65535 = (n - 1) mod 65535" by (simp only: mod_add_self2)
  with \<open>0 < n\<close> show ?thesis unfolding residue_def by (simp only:) simp
qed

section \<open>The receiver's check\<close>

text \<open>A receiver sums the data, checksum included, and wants all ones.\<close>

definition checksum_ok :: "bytes \<Rightarrow> bool" where
  "checksum_ok bs \<longleftrightarrow> residue (sum16 bs) = 65535"

text \<open>
  The value \<open>c\<close> written at an even offset \<open>k\<close> of \<open>xs\<close>, whose two bytes there are zero,
  makes the whole \<open>pre @ xs\<close> check, when \<open>c\<close> is the checksum of \<open>pre @ xs\<close> or, as UDP
  wants, its all-ones form in place of zero.
\<close>

lemma sum16_fill:
  assumes "even (length as)"
  shows "sum16 (as @ [h, l] @ bs) = sum16 (as @ [0, 0] @ bs) + 256 * unat h + unat l"
  using assms by (simp add: sum16_append)

lemma checksum_ok_fill:
  assumes even: "even (length as)"
    and c: "be16 h l = fold_checksum s"
    and s: "unat s = sum16 (as @ [0, 0] @ bs)"
  shows "checksum_ok (as @ [h, l] @ bs)"
proof -
  have "256 * unat h + unat l = 65535 - residue (sum16 (as @ [0, 0] @ bs))"
    using arg_cong [OF c, of unat] s by (simp add: unat_fold_checksum)
  then have "sum16 (as @ [h, l] @ bs)
      = sum16 (as @ [0, 0] @ bs) + (65535 - residue (sum16 (as @ [0, 0] @ bs)))"
    using sum16_fill [OF even, of h l bs] by linarith
  then show ?thesis by (simp only: checksum_ok_def residue_complement)
qed

lemma checksum_ok_fill_ffff:
  assumes even: "even (length as)"
    and z: "fold_checksum s = 0" and hl: "be16 h l = 0xffff"
    and s: "unat s = sum16 (as @ [0, 0] @ bs)"
  shows "checksum_ok (as @ [h, l] @ bs)"
proof -
  let ?n = "sum16 (as @ [0, 0] @ bs)"
  have "65535 - residue ?n = 0"
    using arg_cong [OF z, of unat] s by (simp only: unat_fold_checksum unat_0)
  then have r: "residue ?n = 65535" using residue_le [of ?n] by linarith
  then have pos: "0 < ?n" by (cases "?n = 0") (auto simp: residue_def)
  have "256 * unat h + unat l = 65535"
    using arg_cong [OF hl, of unat] by simp
  then have "sum16 (as @ [h, l] @ bs) = ?n + 65535"
    using sum16_fill [OF even, of h l bs] by linarith
  then show ?thesis using residue_add_65535 [OF pos] r by (simp only: checksum_ok_def)
qed

text \<open>UDP sends all ones where the sum comes out as zero.\<close>

definition never_zero :: "u16 \<Rightarrow> u16" where
  "never_zero c = (if c = 0 then 0xffff else c)"

lemma checksum_ok_written:
  assumes "even (length as)" and "c = fold_checksum s \<or> c = never_zero (fold_checksum s)"
    and "unat s = sum16 (as @ [0, 0] @ bs)"
  shows "checksum_ok (as @ be16_bytes c @ bs)"
proof -
  obtain h l where hl: "be16_bytes c = [h, l]" "be16 h l = c" by (rule be16_bytes_cases)
  show ?thesis
  proof (cases "c = fold_checksum s")
    case True
    then show ?thesis using checksum_ok_fill [of as h l s bs] assms hl by simp
  next
    case False
    then have "fold_checksum s = 0" "c = 0xffff" using assms(2) by (auto simp: never_zero_def split: if_splits)
    then show ?thesis using checksum_ok_fill_ffff [of as s h l bs] assms hl by simp
  qed
qed

text \<open>
  The checksum of a transport segment over its pseudo header: the addresses, the protocol
  number and the segment's length, then the segment itself.
\<close>

definition pseudo_header :: "bytes \<Rightarrow> u8 \<Rightarrow> nat \<Rightarrow> bytes" where
  "pseudo_header addrs proto n = addrs @ [0, proto] @ be16_bytes (of_nat n)"

lemma sum16_be16_bytes: "sum16 (be16_bytes w @ bs) = unat w + sum16 bs"
proof -
  obtain a b where ab: "be16_bytes w = [a, b]" "be16 a b = w" by (rule be16_bytes_cases)
  have "unat w = 256 * unat a + unat b" unfolding ab(2) [symmetric] by simp
  then show ?thesis by (simp add: ab(1))
qed

lemma sum16_pseudo_header:
  "even (length addrs) \<Longrightarrow> n < 65536 \<Longrightarrow>
   sum16 (pseudo_header addrs proto n @ seg) = sum16 addrs + unat proto + n + sum16 seg"
  by (simp add: pseudo_header_def sum16_append sum16_be16_bytes del: unat_of_nat)
    (simp only: unat_of_nat_u16)

lemma transport_sum_exact:
  assumes "even (length addrs)" and "length addrs \<le> 32" and "length seg = n" and "n < 65536"
  shows "unat (ones_complement_sum seg (ones_complement_sum addrs 0 + ucast proto + of_nat n))
    = sum16 (pseudo_header addrs proto n @ seg)"
proof -
  have a: "sum16 addrs \<le> 65535 * 16" using sum16_le [of addrs] by (rule order_trans) (use assms(2) in simp)
  have g: "sum16 seg \<le> 65535 * 32768"
    using sum16_le [of seg] by (rule order_trans) (use assms(3,4) in simp)
  have p: "unat proto < 256" by simp
  have u0: "unat (ones_complement_sum addrs 0) = sum16 addrs"
    using ones_complement_sum_exact [of 0 addrs] a by simp
  have "unat (ones_complement_sum addrs 0 + ucast proto + of_nat n :: u32) = sum16 addrs + unat proto + n"
  proof -
    have n: "unat (of_nat n :: u32) = n" using assms(4) by (intro unat_of_nat_u32) simp
    have s1: "unat (ones_complement_sum addrs 0 + ucast proto :: u32) = sum16 addrs + unat proto"
      using a p u0 by (subst unat_add_lem [THEN iffD1]) (simp_all only: unat_ucast_u8_u32, simp del: unat_u8_less)
    show ?thesis
      using a p assms(4) s1 n by (subst unat_add_lem [THEN iffD1]) (simp_all only: s1 n, simp del: unat_u8_less)
  qed
  then show ?thesis
    using ones_complement_sum_exact [of "ones_complement_sum addrs 0 + ucast proto + of_nat n" seg] a g p assms
    by (simp add: sum16_pseudo_header)
qed

lemma transport_checksum_ok:
  assumes "even (length addrs)" and "length addrs \<le> 32" and "length (as @ [0, 0] @ bs) = n" and "n < 65536"
    and "even (length as)"
    and "s = ones_complement_sum (as @ [0, 0] @ bs) (ones_complement_sum addrs 0 + ucast proto + of_nat n)"
    and "c = fold_checksum s \<or> c = never_zero (fold_checksum s)"
  shows "checksum_ok (pseudo_header addrs proto n @ as @ be16_bytes c @ bs)"
proof -
  have "unat s = sum16 ((pseudo_header addrs proto n @ as) @ [0, 0] @ bs)"
    using transport_sum_exact [OF assms(1-4), of proto] assms(6) by simp
  moreover have "even (length (pseudo_header addrs proto n @ as))"
    using assms(1,5) by (simp add: pseudo_header_def)
  ultimately show ?thesis
    using checksum_ok_written [of "pseudo_header addrs proto n @ as" c s bs] assms(7) by simp
qed

lemma header_checksum_ok:
  assumes "length (as @ [0, 0] @ bs) < 131000" and "even (length as)"
    and "c = fold_checksum (ones_complement_sum (as @ [0, 0] @ bs) 0)"
  shows "checksum_ok (as @ be16_bytes c @ bs)"
proof -
  have "sum16 (as @ [0, 0] @ bs) \<le> 65535 * 65500"
    using sum16_le [of "as @ [0, 0] @ bs"] by (rule order_trans) (use assms(1) in simp)
  then have "unat (ones_complement_sum (as @ [0, 0] @ bs) 0) = sum16 (as @ [0, 0] @ bs)"
    using ones_complement_sum_exact [of 0 "as @ [0, 0] @ bs"] by simp
  then show ?thesis using checksum_ok_written [OF assms(2)] assms(3) by blast
qed

end
