(* ===== verification/Octets.thy ===== *)
theory Octets
  imports Prelude
begin

text \<open>
  The byte cursor of \<^verbatim>\<open>core/quiche/octets/src/lib.rs\<close> that the MASQUE code reads and writes
  its frames with: \<open>Octets\<close> and \<open>OctetsMut\<close> are a buffer and an offset. Results are
  \<open>octets_error + _\<close>; a \<^verbatim>\<open>u64\<close> is a \<^typ>\<open>nat\<close> here, narrowed by \<^const>\<open>to_be\<close> where
  the code casts. The theory shows that the cursor stays inside its buffer and that
  the variable-length integers round-trip.
\<close>

section \<open>The cursor\<close>

datatype octets_error = BufferTooShort

record octets =
  o_buf :: bytes
  o_off :: nat

definition with_slice :: "bytes \<Rightarrow> octets" where
  "with_slice b = \<lparr>o_buf = b, o_off = 0\<rparr>"

definition cap :: "octets \<Rightarrow> nat" where
  "cap b = length (o_buf b) - o_off b"

definition peek_u :: "nat \<Rightarrow> octets \<Rightarrow> octets_error + nat" where
  "peek_u n b =
     (let src = drop (o_off b) (o_buf b)
      in if length src < n then Inl BufferTooShort else Inr (from_be (take n src)))"

definition get_u :: "nat \<Rightarrow> octets \<Rightarrow> octets_error + (nat \<times> octets)" where
  "get_u n b =
     (case peek_u n b of Inl e \<Rightarrow> Inl e | Inr v \<Rightarrow> Inr (v, b\<lparr>o_off := o_off b + n\<rparr>))"

definition get_bytes :: "nat \<Rightarrow> octets \<Rightarrow> octets_error + (bytes \<times> octets)" where
  "get_bytes n b =
     (if cap b < n then Inl BufferTooShort
      else Inr (take n (drop (o_off b) (o_buf b)), b\<lparr>o_off := o_off b + n\<rparr>))"

definition put_u :: "nat \<Rightarrow> nat \<Rightarrow> octets \<Rightarrow> octets_error + octets" where
  "put_u n v b =
     (if length (o_buf b) < o_off b + n then Inl BufferTooShort
      else Inr \<lparr>o_buf = take (o_off b) (o_buf b) @ to_be n v @ drop (o_off b + n) (o_buf b),
               o_off = o_off b + n\<rparr>)"

definition put_bytes :: "bytes \<Rightarrow> octets \<Rightarrow> octets_error + octets" where
  "put_bytes v b =
     (if cap b < length v then Inl BufferTooShort
      else if length v = 0 then Inr b
      else Inr \<lparr>o_buf = take (o_off b) (o_buf b) @ v @ drop (o_off b + length v) (o_buf b),
               o_off = o_off b + length v\<rparr>)"

section \<open>Variable-length integers\<close>

definition max_var_int :: nat where
  "max_var_int = 4611686018427387903"

text \<open>\<open>varint_len\<close> reaches \<open>unreachable!()\<close>, a panic, above the largest varint.\<close>

definition varint_len :: "nat \<Rightarrow> nat panics" where
  "varint_len v =
     (if v \<le> 63 then Some 1 else if v \<le> 16383 then Some 2
      else if v \<le> 1073741823 then Some 4
      else if v \<le> max_var_int then Some 8 else None)"

definition varint_parse_len :: "u8 \<Rightarrow> nat panics" where
  "varint_parse_len first =
     (let k = drop_bit 6 first
      in if k = 0 then Some 1 else if k = 1 then Some 2
         else if k = 2 then Some 4 else if k = 3 then Some 8 else None)"

definition get_varint :: "octets \<Rightarrow> (octets_error + (nat \<times> octets)) panics" where
  "get_varint b =
     (case peek_u 1 b of
        Inl e \<Rightarrow> Some (Inl e)
      | Inr first \<Rightarrow>
          do {
            len \<leftarrow> varint_parse_len (of_nat first);
            if len > cap b then Some (Inl BufferTooShort)
            else Some (case get_u len b of
                  Inl e \<Rightarrow> Inl e
                | Inr (v, b') \<Rightarrow>
                    Inr (if len = 1 then v
                         else if len = 2 then v AND 0x3fff
                         else if len = 4 then v AND 0x3fffffff
                         else v AND 0x3fffffffffffffff, b'))
          })"

text \<open>\<open>buf[0] |= m\<close> on the slice just written, which starts at the old offset.\<close>

definition or_first :: "u8 \<Rightarrow> nat \<Rightarrow> octets \<Rightarrow> octets" where
  "or_first m at b = b\<lparr>o_buf := (o_buf b)[at := o_buf b ! at OR m]\<rparr>"

definition put_varint_with_len :: "nat \<Rightarrow> nat \<Rightarrow> octets \<Rightarrow> (octets_error + octets) panics" where
  "put_varint_with_len v len b =
     (if cap b < len then Some (Inl BufferTooShort)
      else if len = 1 then Some (put_u 1 v b)
      else if len = 2 then Some (map_sum id (or_first 0x40 (o_off b)) (put_u 2 v b))
      else if len = 4 then Some (map_sum id (or_first 0x80 (o_off b)) (put_u 4 v b))
      else if len = 8 then Some (map_sum id (or_first 0xc0 (o_off b)) (put_u 8 v b))
      else None)"

definition put_varint :: "nat \<Rightarrow> octets \<Rightarrow> (octets_error + octets) panics" where
  "put_varint v b = do { len \<leftarrow> varint_len v; put_varint_with_len v len b }"

section \<open>The cursor stays in its buffer\<close>

definition octets_wf :: "octets \<Rightarrow> bool" where
  "octets_wf b \<longleftrightarrow> o_off b \<le> length (o_buf b)"

definition rest :: "octets \<Rightarrow> bytes" where
  "rest b = drop (o_off b) (o_buf b)"

named_theorems cursor_simps \<open>the cursor's operations in terms of the bytes still to read\<close>

lemma octets_wf_with_slice [simp]: "octets_wf (with_slice b)"
  by (simp add: octets_wf_def with_slice_def)

lemma rest_with_slice [simp]: "rest (with_slice b) = b"
  by (simp add: rest_def with_slice_def)

lemma cap_rest [cursor_simps]: "cap b = length (rest b)"
  by (simp add: cap_def rest_def)

lemma peek_u_rest [cursor_simps]:
  "peek_u n b = (if length (rest b) < n then Inl BufferTooShort else Inr (from_be (take n (rest b))))"
  by (simp add: peek_u_def rest_def)

lemma get_u_rest:
  "get_u n b = (if length (rest b) < n then Inl BufferTooShort
     else Inr (from_be (take n (rest b)), b\<lparr>o_off := o_off b + n\<rparr>))"
  by (simp add: get_u_def peek_u_rest)

lemma get_bytes_rest:
  "get_bytes n b = (if length (rest b) < n then Inl BufferTooShort
     else Inr (take n (rest b), b\<lparr>o_off := o_off b + n\<rparr>))"
  by (simp add: get_bytes_def cap_rest rest_def)

lemma rest_advance [cursor_simps]: "rest (b\<lparr>o_off := o_off b + n\<rparr>) = drop n (rest b)"
  by (simp add: rest_def add.commute)

lemma octets_wf_advance:
  "octets_wf b \<Longrightarrow> n \<le> length (rest b) \<Longrightarrow> octets_wf (b\<lparr>o_off := o_off b + n\<rparr>)"
  by (auto simp: octets_wf_def rest_def)

lemma get_u_wf: "octets_wf b \<Longrightarrow> get_u n b = Inr (v, b') \<Longrightarrow> octets_wf b' \<and> o_buf b' = o_buf b"
  by (auto simp: get_u_rest octets_wf_advance split: if_splits)

lemma get_bytes_wf: "octets_wf b \<Longrightarrow> get_bytes n b = Inr (v, b') \<Longrightarrow> octets_wf b' \<and> o_buf b' = o_buf b"
  by (auto simp: get_bytes_rest octets_wf_advance split: if_splits)

lemma o_buf_with_slice [simp]: "o_buf (with_slice b) = b"
  by (simp add: with_slice_def)

section \<open>Varints round-trip\<close>

text \<open>The encoding as bytes: RFC 9000's two length bits over a big-endian value.\<close>

definition varint_bytes :: "nat \<Rightarrow> bytes" where
  "varint_bytes v =
     (if v \<le> 63 then to_be 1 v
      else if v \<le> 16383 then to_be 2 (v + 0x4000)
      else if v \<le> 1073741823 then to_be 4 (v + 0x80000000)
      else to_be 8 (v + 0xc000000000000000))"

definition varint_size :: "nat \<Rightarrow> nat" where
  "varint_size v =
     (if v \<le> 63 then 1 else if v \<le> 16383 then 2 else if v \<le> 1073741823 then 4 else 8)"

lemma length_varint_bytes [simp]: "length (varint_bytes v) = varint_size v"
  by (simp add: varint_bytes_def varint_size_def)

lemma varint_size_cases: "varint_size v \<in> {1, 2, 4, 8}"
  by (simp add: varint_size_def)

lemma varint_size_pos [simp]: "0 < varint_size v"
  by (simp add: varint_size_def)

lemma varint_len_eq: "v \<le> max_var_int \<Longrightarrow> varint_len v = Some (varint_size v)"
  by (simp add: varint_len_def varint_size_def)


lemma unat_drop_bit_6: "unat (drop_bit 6 (f :: u8)) = unat f div 64"
  by (simp only: unat_drop_bit_eq) (simp add: drop_bit_eq_div)

lemma varint_parse_len_eq: "varint_parse_len f = Some (2 ^ (unat f div 64))"
proof -
  have "unat f div 64 < 4" using unat_u8_less [of f] by linarith
  then have "unat f div 64 \<in> {0, 1, 2, 3}" by auto
  moreover have "drop_bit 6 f = of_nat (unat f div 64)"
    by (rule of_nat_u8_eqI [symmetric]) (use \<open>unat f div 64 < 4\<close> in \<open>simp add: unat_drop_bit_6\<close>)
  ultimately show ?thesis by (auto simp: varint_parse_len_def Let_def)
qed

lemma and_low_bits:
  "(v :: nat) AND 0x3fff = v mod 2 ^ 14" "v AND 0x3fffffff = v mod 2 ^ 30"
  "v AND 0x3fffffffffffffff = v mod 2 ^ 62"
proof -
  have "(0x3fff :: nat) = mask 14" "(0x3fffffff :: nat) = mask 30" "(0x3fffffffffffffff :: nat) = mask 62"
    by (simp_all add: mask_eq_exp_minus_1)
  then show "v AND 0x3fff = v mod 2 ^ 14" "v AND 0x3fffffff = v mod 2 ^ 30"
    "v AND 0x3fffffffffffffff = v mod 2 ^ 62"
    by (simp_all only: take_bit_eq_mask [symmetric] take_bit_eq_mod)
qed

lemma get_varint_rest:
  "get_varint b = Some (case rest b of
      [] \<Rightarrow> Inl BufferTooShort
    | f # r \<Rightarrow>
        (let len = 2 ^ (unat f div 64)
         in if length (rest b) < len then Inl BufferTooShort
            else Inr (from_be (take len (rest b)) mod 2 ^ (8 * len - 2),
                      b\<lparr>o_off := o_off b + len\<rparr>)))"
proof (cases "rest b")
  case Nil
  then show ?thesis by (simp add: get_varint_def peek_u_rest)
next
  case (Cons f r)
  have f1: "from_be [f] = unat f" by (simp add: from_be_def)
  have "unat f div 64 < 4" using unat_u8_less [of f] by linarith
  then consider "unat f div 64 = 0" | "unat f div 64 = 1" | "unat f div 64 = 2" | "unat f div 64 = 3"
    by linarith
  then show ?thesis
    by cases (use unat_u8_less [of f] in \<open>simp_all add: get_varint_def peek_u_rest Cons f1
        varint_parse_len_eq cap_rest get_u_rest and_low_bits Let_def div_eq_0_iff\<close>)
qed

lemma get_varint_total: "\<exists>r. get_varint b = Some r"
  by (simp add: get_varint_rest)

lemma runs_get_varint [no_panic]: "runs (get_varint b)"
  by (simp add: get_varint_rest)

lemma get_varint_progress:
  "get_varint b = Some (Inr (v, b')) \<Longrightarrow>
   v \<le> max_var_int \<and> length (rest b') < length (rest b) \<and> o_buf b' = o_buf b \<and> o_off b < o_off b'
   \<and> (octets_wf b \<longrightarrow> octets_wf b')"
proof -
  assume a: "get_varint b = Some (Inr (v, b'))"
  obtain f r where fr: "rest b = f # r" using a by (cases "rest b") (auto simp: get_varint_rest)
  define len where "len = (2 :: nat) ^ (unat f div 64)"
  have len: "len \<le> length (rest b)" and v: "v = from_be (take len (rest b)) mod 2 ^ (8 * len - 2)"
    and b': "b' = b\<lparr>o_off := o_off b + len\<rparr>"
    using a by (auto simp: get_varint_rest fr len_def Let_def split: if_splits)
  have "unat f div 64 < 4" using unat_u8_less [of f] by linarith
  then consider "unat f div 64 = 0" | "unat f div 64 = 1" | "unat f div 64 = 2" | "unat f div 64 = 3"
    by linarith
  then have "8 * len - 2 \<le> 62" by cases (simp_all add: len_def)
  then have "(2 :: nat) ^ (8 * len - 2) \<le> 2 ^ 62" by (rule power_increasing) simp
  moreover have "v < 2 ^ (8 * len - 2)" unfolding v by simp
  ultimately have "v < 2 ^ 62" by linarith
  moreover have "0 < len" by (simp add: len_def)
  ultimately show ?thesis
    using len fr by (auto simp: b' rest_advance max_var_int_def octets_wf_advance)
qed


lemma get_varint_wf:
  "get_varint b = Some (Inr (v, b')) \<Longrightarrow> octets_wf b \<Longrightarrow> octets_wf b' \<and> o_buf b' = o_buf b"
  by (simp add: get_varint_progress)

text \<open>Writing a varint writes \<^const>\<open>varint_bytes\<close>, and reading it gives the value back.\<close>

lemma or_tag:
  assumes "k < 64"
  shows "(of_nat k :: u8) OR 0x40 = of_nat (k + 0x40)" "(of_nat k :: u8) OR 0x80 = of_nat (k + 0x80)"
    "(of_nat k :: u8) OR 0xc0 = of_nat (k + 0xc0)"
proof -
  have "\<forall>k \<in> set [0..<64]. (of_nat k :: u8) OR 0x40 = of_nat (k + 0x40)
      \<and> (of_nat k :: u8) OR 0x80 = of_nat (k + 0x80) \<and> (of_nat k :: u8) OR 0xc0 = of_nat (k + 0xc0)"
    by code_simp
  with assms show "(of_nat k :: u8) OR 0x40 = of_nat (k + 0x40)" "(of_nat k :: u8) OR 0x80 = of_nat (k + 0x80)"
    "(of_nat k :: u8) OR 0xc0 = of_nat (k + 0xc0)"
    by auto
qed

lemma or_first_put_u:
  assumes put: "put_u (Suc n) v b = Inr b'"
    and fits: "octets_wf b"
    and tag: "(of_nat (v div 256 ^ n) :: u8) OR m = of_nat (v div 256 ^ n + t)"
  shows "or_first m (o_off b) b' =
    \<lparr>o_buf = take (o_off b) (o_buf b) @ to_be (Suc n) (v + 256 ^ n * t) @ drop (o_off b + Suc n) (o_buf b),
     o_off = o_off b + Suc n\<rparr>"
proof -
  let ?w = "to_be n v"
  have b': "b' = \<lparr>o_buf = take (o_off b) (o_buf b) @ (of_nat (v div 256 ^ n) # ?w)
      @ drop (o_off b + Suc n) (o_buf b), o_off = o_off b + Suc n\<rparr>"
    using put by (auto simp: put_u_def to_be_Cons simp del: to_be.simps split: if_splits)
  have "(v + 256 ^ n * t) div 256 ^ n = v div 256 ^ n + t" by simp
  then have new: "to_be (Suc n) (v + 256 ^ n * t) = of_nat (v div 256 ^ n + t) # ?w"
    by (simp only: to_be_Cons to_be_add_mult)
  have "length (take (o_off b) (o_buf b)) = o_off b"
    using fits by (simp add: octets_wf_def)
  then show ?thesis
    unfolding new b' or_first_def using tag
    by (simp add: nth_append list_update_append del: of_nat_add of_nat_mult)
qed

theorem put_varint_spec:
  assumes wf: "octets_wf b" and v: "v \<le> max_var_int" and room: "varint_size v \<le> cap b"
  shows "put_varint v b = Some (Inr
    \<lparr>o_buf = take (o_off b) (o_buf b) @ varint_bytes v @ drop (o_off b + varint_size v) (o_buf b),
     o_off = o_off b + varint_size v\<rparr>)"
proof -
  have fit: "\<not> length (o_buf b) < o_off b + varint_size v"
    using wf room by (simp add: octets_wf_def cap_def)
  have put: "put_varint v b = put_varint_with_len v (varint_size v) b"
    using v by (simp add: put_varint_def varint_len_eq)
  consider "v \<le> 63" | "63 < v" "v \<le> 16383" | "16383 < v" "v \<le> 1073741823" | "1073741823 < v"
    by linarith
  then show ?thesis
  proof cases
    case 1
    then show ?thesis using put room fit
      by (simp add: put_varint_with_len_def put_u_def varint_size_def varint_bytes_def)
  next
    case 2
    obtain b' where b': "put_u 2 v b = Inr b'"
      using fit 2 by (simp add: put_u_def varint_size_def)
    have "v div 256 ^ 1 < 64" using 2 by (simp add: less_mult_imp_div_less)
    from or_first_put_u [of 1 v b b' "0x40" "0x40"] b' wf or_tag(1) [OF this]
    show ?thesis using put room 2 b'
      by (simp add: put_varint_with_len_def varint_size_def varint_bytes_def numeral_2_eq_2)
  next
    case 3
    obtain b' where b': "put_u 4 v b = Inr b'"
      using fit 3 by (simp add: put_u_def varint_size_def)
    have s: "Suc 3 = 4" by simp
    have "v div 256 ^ 3 < 64" using 3 by (simp add: less_mult_imp_div_less)
    from or_first_put_u [of 3 v b b' "0x80" "0x80", unfolded s] b' wf or_tag(2) [OF this]
    show ?thesis using put room 3 b'
      by (simp add: put_varint_with_len_def varint_size_def varint_bytes_def)
  next
    case 4
    obtain b' where b': "put_u 8 v b = Inr b'"
      using fit 4 by (simp add: put_u_def varint_size_def)
    have s: "Suc 7 = 8" by simp
    have "v div 256 ^ 7 < 64" using v by (simp add: less_mult_imp_div_less max_var_int_def)
    from or_first_put_u [of 7 v b b' "0xc0" "0xc0", unfolded s] b' wf or_tag(3) [OF this]
    show ?thesis using put room 4 b'
      by (simp add: put_varint_with_len_def varint_size_def varint_bytes_def)
  qed
qed

lemma varint_bytes_tagged:
  assumes "v \<le> max_var_int"
  shows "\<exists>f r. varint_bytes v = f # r \<and> 2 ^ (unat f div 64) = varint_size v
     \<and> from_be (varint_bytes v) mod 2 ^ (8 * varint_size v - 2) = v"
proof -
  have one: "to_be (Suc n) x = of_nat (x div 256 ^ n) # to_be n x" for n x by (rule to_be_Cons)
  have num: "Suc 0 = 1" "Suc 1 = 2" "Suc 3 = 4" "Suc 7 = 8" by simp_all
  note enc = one [of 0, unfolded num] one [of 1, unfolded num] one [of 3, unfolded num] one [of 7, unfolded num]
  consider "v \<le> 63" | "63 < v" "v \<le> 16383" | "16383 < v" "v \<le> 1073741823" | "1073741823 < v"
    by linarith
  then show ?thesis
  proof cases
    case 1
    then have "from_be (to_be 1 v) = v" by (simp only: from_be_to_be) simp
    moreover have "v mod 64 = v" "v mod 256 div 64 = 0" using 1 by simp_all
    ultimately show ?thesis using 1
      by (simp add: varint_bytes_def varint_size_def enc(1) del: One_nat_def)
  next
    case 2
    have "from_be (to_be 2 (v + 0x4000)) = v + 0x4000" using 2 by (simp only: from_be_to_be) simp
    moreover have "(v + 0x4000) div 256 mod 256 div 64 = 1" "(v + 0x4000) mod 16384 = v" using 2 by auto
    ultimately show ?thesis using 2
      by (simp add: varint_bytes_def varint_size_def enc(2) del: One_nat_def of_nat_add)
  next
    case 3
    have "from_be (to_be 4 (v + 0x80000000)) = v + 0x80000000" using 3 by (simp only: from_be_to_be) simp
    moreover have "(v + 0x80000000) div 16777216 mod 256 div 64 = 2" "(v + 0x80000000) mod 1073741824 = v"
      using 3 mod_mult_self1 [of v 2 1073741824] by simp_all
    ultimately show ?thesis using 3
      by (simp add: varint_bytes_def varint_size_def enc(3) del: One_nat_def of_nat_add)
  next
    case 4
    have "from_be (to_be 8 (v + 0xc000000000000000)) = v + 0xc000000000000000"
      using assms by (simp only: from_be_to_be) (simp add: max_var_int_def)
    moreover have "(v + 0xc000000000000000) div 72057594037927936 mod 256 div 64 = 3"
      "(v + 0xc000000000000000) mod 4611686018427387904 = v"
      using assms mod_mult_self1 [of v 3 4611686018427387904] by (simp_all add: max_var_int_def)
    ultimately show ?thesis using 4
      by (simp add: varint_bytes_def varint_size_def enc(4) del: One_nat_def of_nat_add)
  qed
qed

theorem get_varint_spec:
  assumes r: "rest b = varint_bytes v @ t" and v: "v \<le> max_var_int"
  shows "get_varint b = Some (Inr (v, b\<lparr>o_off := o_off b + varint_size v\<rparr>))"
proof -
  obtain f r' where f: "varint_bytes v = f # r'" "2 ^ (unat f div 64) = varint_size v"
    "from_be (varint_bytes v) mod 2 ^ (8 * varint_size v - 2) = v"
    using varint_bytes_tagged [OF v] by blast
  have "take (varint_size v) (rest b) = varint_bytes v" "varint_size v \<le> length (rest b)"
    by (simp_all add: r)
  then show ?thesis using f r by (simp add: get_varint_rest Let_def)
qed


section \<open>The interface of an entry reader\<close>

text \<open>
  The capsule payloads are sequences of entries, each read by a function on the cursor,
  in a loop \<open>while b.cap() > 0\<close>. A reader of entries promises that it never panics, that
  it consumes something, and that it reads back its wire layout; any such loop then never
  panics and reads back a whole sequence.
\<close>

locale entry_reader =
  fixes read :: "octets \<Rightarrow> ('e + ('a \<times> octets)) panics"
    and enc :: "'a \<Rightarrow> bytes"
    and ok :: "'a \<Rightarrow> bool"
  assumes read_runs: "runs (read b)"
    and read_shrinks: "read b = Some (Inr (x, b')) \<Longrightarrow> length (rest b') < length (rest b)"
    and read_enc: "ok x \<Longrightarrow> rest b = enc x @ t \<Longrightarrow> \<exists>b'. read b = Some (Inr (x, b')) \<and> rest b' = t"
begin

lemma enc_nonempty: "ok x \<Longrightarrow> enc x \<noteq> []"
proof
  assume "ok x" and "enc x = []"
  then have "rest (with_slice (enc x)) = enc x @ []" by simp
  from read_enc [OF \<open>ok x\<close> this] obtain b' where
    "read (with_slice (enc x)) = Some (Inr (x, b'))" by blast
  from read_shrinks [OF this] \<open>enc x = []\<close> show False by simp
qed

lemma loop_runs:
  assumes loop: "\<And>b out. loop b out =
    (if cap b > 0
     then (case read b of None \<Rightarrow> None | Some (Inl e) \<Rightarrow> Some (Inl e)
           | Some (Inr (a, b')) \<Rightarrow> loop b' (out @ [a]))
     else Some (Inr out))"
  shows "runs (loop b out)"
proof (induction "length (rest b)" arbitrary: b out rule: less_induct)
  case less
  obtain r where r: "read b = Some r" using read_runs [of b] by (auto simp: runs_iff)
  show ?case
  proof (cases r)
    case Inl
    then show ?thesis by (simp add: loop [of b] r)
  next
    case (Inr p)
    obtain a b' where p: "p = (a, b')" by (cases p)
    with Inr r have "length (rest b') < length (rest b)" by (auto dest: read_shrinks)
    from less [OF this] show ?thesis by (simp add: loop [of b] r Inr p)
  qed
qed

lemma loop_reads_all:
  assumes loop: "\<And>b out. loop b out =
    (if cap b > 0
     then (case read b of None \<Rightarrow> None | Some (Inl e) \<Rightarrow> Some (Inl e)
           | Some (Inr (a, b')) \<Rightarrow> loop b' (out @ [a]))
     else Some (Inr out))"
    and "\<forall>x \<in> set xs. ok x" and "rest b = concat (map enc xs)"
  shows "loop b out = Some (Inr (out @ xs))"
  using assms(2,3)
proof (induction xs arbitrary: b out)
  case Nil
  then show ?case by (simp add: loop [of b] cap_rest)
next
  case (Cons x xs)
  then have "ok x" "rest b = enc x @ concat (map enc xs)" by simp_all
  then obtain b' where b': "read b = Some (Inr (x, b'))" "rest b' = concat (map enc xs)"
    using read_enc by blast
  have "cap b > 0" using Cons.prems enc_nonempty [of x] by (simp add: cap_rest)
  moreover have "loop b' (out @ [x]) = Some (Inr (out @ x # xs))"
    using Cons.IH [of b' "out @ [x]"] Cons.prems(1) b'(2) by simp
  ultimately show ?case by (simp add: loop [of b] b'(1))
qed

end

end
