(* ===== verification/Masque.thy ===== *)
theory Masque
  imports Octets
begin

text \<open>
  \<^verbatim>\<open>masque.rs\<close>: the CONNECT-IP datagrams and the capsule protocol, and the two
  \<open>drain_capsules\<close> loops of \<^verbatim>\<open>quic.rs\<close> and \<^verbatim>\<open>masque_h2.rs\<close> that feed received capsules into
  the tunnel. The capsule parser is a reassembly buffer over a byte stream.
\<close>

section \<open>Data\<close>

record assigned_address =
  aa_request_id :: nat
  aa_ip_version :: u8
  aa_address :: bytes
  aa_prefix_len :: u8

record route_advertisement =
  ra_ip_version :: u8
  ra_start :: bytes
  ra_end :: bytes
  ra_protocol :: u8

datatype capsule =
    AddressAssign "assigned_address list"
  | AddressRequest
  | Datagram bytes
  | RouteAdvertisement "route_advertisement list"
  | UnknownCapsule nat bytes

definition connect_ip_context_id :: nat where
  "connect_ip_context_id = 0"

definition max_capsule_buf :: nat where
  "max_capsule_buf = 256 * 1024"

definition oct :: "octets_error \<Rightarrow> aether_error" where
  "oct e = E_Capsule ''BufferTooShortError''"

definition map_oct :: "(octets_error + 'a) panics \<Rightarrow> (aether_error + 'a) panics" where
  "map_oct = map_option (map_sum oct id)"

section \<open>Datagrams\<close>

definition quarter_stream_id :: "nat \<Rightarrow> nat" where
  "quarter_stream_id s = s div 4"

text \<open>\<open>masque.rs\<close> has its own \<open>varint_len\<close>, without the panic.\<close>

definition masque_varint_len :: "nat \<Rightarrow> nat" where
  "masque_varint_len v =
     (if v < 64 then 1 else if v < 16384 then 2 else if v < 1073741824 then 4 else 8)"

definition encode_ip_datagram :: "nat \<Rightarrow> bytes \<Rightarrow> (aether_error + bytes) panics" where
  "encode_ip_datagram stream_id ip_packet =
     (let qsid = quarter_stream_id stream_id; ctx = connect_ip_context_id;
          n = masque_varint_len qsid + masque_varint_len ctx + length ip_packet
      in qm (map_oct (put_varint qsid (with_slice (replicate n 0)))) (\<lambda>b.
         qm (map_oct (put_varint ctx b)) (\<lambda>b.
         qm (map_oct (Some (put_bytes ip_packet b))) (\<lambda>b. Some (Inr (o_buf b))))))"

definition decode_ip_datagram :: "bytes \<Rightarrow> nat \<Rightarrow> (aether_error + bytes option) panics" where
  "decode_ip_datagram datagram expect_stream_id =
     qm (map_oct (get_varint (with_slice datagram))) (\<lambda>(qsid, b).
       if qsid \<noteq> quarter_stream_id expect_stream_id then Some (Inr None)
       else qm (map_oct (get_varint b)) (\<lambda>(ctx, b).
         if ctx \<noteq> connect_ip_context_id then Some (Inr None)
         else qm (map_oct (Some (get_bytes (cap b) b))) (\<lambda>(payload, b). Some (Inr (Some payload)))))"

definition looks_like_ip_packet :: "bytes \<Rightarrow> bool" where
  "looks_like_ip_packet data =
     (case data of [] \<Rightarrow> False
      | first # _ \<Rightarrow> (drop_bit 4 first = 4 \<or> drop_bit 4 first = 6) \<and> 20 \<le> length data)"

definition strip_datagram_context :: "bytes \<Rightarrow> bytes option panics" where
  "strip_datagram_context payload =
     (if payload = [] then Some None
      else do {
        r \<leftarrow> get_varint (with_slice payload);
        stripped \<leftarrow> (case r of
            Inl _ \<Rightarrow> Some None
          | Inr (ctx, b) \<Rightarrow>
              if ctx = connect_ip_context_id then do {
                let consumed = length payload - cap b;
                inner \<leftarrow> slice payload consumed (length payload);
                Some (if looks_like_ip_packet inner then Some inner else None)
              } else Some None);
        Some (case stripped of
            Some inner \<Rightarrow> Some inner
          | None \<Rightarrow> if looks_like_ip_packet payload then Some payload else None)
      })"

section \<open>Capsules\<close>

text \<open>\<open>let _ = b.put_...\<close>: a failed write leaves the cursor as it was.\<close>

definition discard :: "octets \<Rightarrow> octets_error + octets \<Rightarrow> octets" where
  "discard b r = (case r of Inl _ \<Rightarrow> b | Inr b' \<Rightarrow> b')"

definition encode_capsule :: "nat \<Rightarrow> bytes \<Rightarrow> bytes panics" where
  "encode_capsule kind value = do {
     let n = masque_varint_len kind + masque_varint_len (length value) + length value;
     let b = with_slice (replicate n 0);
     r \<leftarrow> put_varint kind b;
     let b = discard b r;
     r \<leftarrow> put_varint (length value) b;
     let b = discard b r;
     Some (o_buf (discard b (put_bytes value b)))
   }"

definition encode_address_request :: "nat \<Rightarrow> u8 \<Rightarrow> u8 \<Rightarrow> bytes panics" where
  "encode_address_request request_id ip_version prefix_len = do {
     let b = with_slice (replicate (masque_varint_len request_id + 1 + 1) 0);
     r \<leftarrow> put_varint request_id b;
     let b = discard b r;
     let b = discard b (put_u 1 (unat ip_version) b);
     let b = discard b (put_u 1 (unat prefix_len) b);
     encode_capsule 2 (o_buf b)
   }"

definition encode_datagram_capsule :: "bytes \<Rightarrow> bytes panics" where
  "encode_datagram_capsule ip_packet = encode_capsule 0 ip_packet"

definition bad_ip_version :: "nat \<Rightarrow> aether_error" where
  "bad_ip_version v = E_Capsule (''bad ip version '' @ show_nat v)"

text \<open>One turn of the \<open>while b.cap() > 0\<close> loop of \<open>parse_address_assign\<close>.\<close>

definition read_assigned :: "octets \<Rightarrow> (aether_error + (assigned_address \<times> octets)) panics" where
  "read_assigned b =
     qm (map_oct (get_varint b)) (\<lambda>(request_id, b).
     qm (map_oct (Some (get_u 1 b))) (\<lambda>(ip_version, b).
     qm (Some (if ip_version = 4 then Inr 4 else if ip_version = 6 then Inr 16
               else Inl (bad_ip_version ip_version))) (\<lambda>addr_len.
     qm (map_oct (Some (get_bytes addr_len b))) (\<lambda>(address, b).
     qm (map_oct (Some (get_u 1 b))) (\<lambda>(prefix_len, b).
       Some (Inr (\<lparr>aa_request_id = request_id, aa_ip_version = of_nat ip_version,
                   aa_address = address, aa_prefix_len = of_nat prefix_len\<rparr>, b)))))))"

definition read_route :: "octets \<Rightarrow> (aether_error + (route_advertisement \<times> octets)) panics" where
  "read_route b =
     qm (map_oct (Some (get_u 1 b))) (\<lambda>(ip_version, b).
     qm (Some (if ip_version = 4 then Inr 4 else if ip_version = 6 then Inr 16
               else Inl (bad_ip_version ip_version))) (\<lambda>addr_len.
     qm (map_oct (Some (get_bytes addr_len b))) (\<lambda>(start, b).
     qm (map_oct (Some (get_bytes addr_len b))) (\<lambda>(end_addr, b).
     qm (map_oct (Some (get_u 1 b))) (\<lambda>(protocol, b).
       Some (Inr (\<lparr>ra_ip_version = of_nat ip_version, ra_start = start, ra_end = end_addr,
                   ra_protocol = of_nat protocol\<rparr>, b)))))))"

lemma map_oct_simps [simp]:
  "map_oct None = None" "map_oct (Some (Inl e)) = Some (Inl (oct e))"
  "map_oct (Some (Inr a)) = Some (Inr a)"
  by (simp_all add: map_oct_def)

lemma map_oct_eq_Inr: "map_oct m = Some (Inr y) \<longleftrightarrow> m = Some (Inr y)"
proof (cases m)
  case (Some r)
  then show ?thesis by (cases r) auto
qed simp


section \<open>The readers always move forward\<close>

lemma get_u_len: "get_u n b = Inr (v, b') \<Longrightarrow> length (rest b) = n + length (rest b')"
  by (auto simp: get_u_rest rest_advance split: if_splits)

lemma get_bytes_len: "get_bytes n b = Inr (v, b') \<Longrightarrow> length (rest b) = n + length (rest b') \<and> length v = n"
  by (auto simp: get_bytes_rest rest_advance split: if_splits)

lemma get_varint_len: "get_varint b = Some (Inr (v, b')) \<Longrightarrow> length (rest b') < length (rest b)"
  by (simp add: get_varint_progress)

lemma read_assigned_progress:
  "read_assigned b = Some (Inr (a, b')) \<Longrightarrow> cap b' < cap b"
  by (auto simp: read_assigned_def qm_eq_Inr_conv map_oct_eq_Inr cap_rest
      dest!: get_varint_len get_u_len get_bytes_len split: if_splits)

lemma read_route_progress:
  "read_route b = Some (Inr (a, b')) \<Longrightarrow> cap b' < cap b"
  by (auto simp: read_route_def qm_eq_Inr_conv map_oct_eq_Inr cap_rest
      dest!: get_u_len get_bytes_len split: if_splits)

function parse_address_assign_from ::
  "octets \<Rightarrow> assigned_address list \<Rightarrow> (aether_error + assigned_address list) panics" where
  "parse_address_assign_from b out =
     (if cap b > 0
      then (case read_assigned b of
              None \<Rightarrow> None
            | Some (Inl e) \<Rightarrow> Some (Inl e)
            | Some (Inr (a, b')) \<Rightarrow> parse_address_assign_from b' (out @ [a]))
      else Some (Inr out))"
  by pat_completeness auto
termination
  by (relation "measure (\<lambda>(b, out). cap b)") (auto dest: read_assigned_progress)

function parse_route_advertisement_from ::
  "octets \<Rightarrow> route_advertisement list \<Rightarrow> (aether_error + route_advertisement list) panics" where
  "parse_route_advertisement_from b out =
     (if cap b > 0
      then (case read_route b of
              None \<Rightarrow> None
            | Some (Inl e) \<Rightarrow> Some (Inl e)
            | Some (Inr (a, b')) \<Rightarrow> parse_route_advertisement_from b' (out @ [a]))
      else Some (Inr out))"
  by pat_completeness auto
termination
  by (relation "measure (\<lambda>(b, out). cap b)") (auto dest: read_route_progress)

declare parse_address_assign_from.simps [simp del]
declare parse_route_advertisement_from.simps [simp del]

definition parse_address_assign :: "bytes \<Rightarrow> (aether_error + assigned_address list) panics" where
  "parse_address_assign value = parse_address_assign_from (with_slice value) []"

definition parse_route_advertisement :: "bytes \<Rightarrow> (aether_error + route_advertisement list) panics" where
  "parse_route_advertisement value = parse_route_advertisement_from (with_slice value) []"

section \<open>The capsule parser\<close>

text \<open>\<open>CapsuleParser\<close> is its reassembly buffer.\<close>

type_synonym capsule_parser = bytes

definition capsule_push :: "capsule_parser \<Rightarrow> bytes \<Rightarrow> capsule_parser" where
  "capsule_push buf data =
     (if length buf + length data > max_capsule_buf then [] else buf @ data)"

definition capsule_of :: "nat \<Rightarrow> bytes \<Rightarrow> (aether_error + capsule) panics" where
  "capsule_of kind value =
     (if kind = 1 then map_option (map_sum id AddressAssign) (parse_address_assign value)
      else if kind = 2 then Some (Inr AddressRequest)
      else if kind = 3 then map_option (map_sum id RouteAdvertisement) (parse_route_advertisement value)
      else if kind = 0 then Some (Inr (Datagram value))
      else Some (Inr (UnknownCapsule kind value)))"

definition capsule_next :: "capsule_parser \<Rightarrow> (capsule_parser \<times> (aether_error + capsule option)) panics" where
  "capsule_next buf = do {
     r \<leftarrow> get_varint (with_slice buf);
     (case r of
        Inl _ \<Rightarrow> Some (buf, Inr None)
      | Inr (kind, b) \<Rightarrow> do {
          r \<leftarrow> get_varint b;
          (case r of
             Inl _ \<Rightarrow> Some (buf, Inr None)
           | Inr (len, b) \<Rightarrow>
               if cap b < len then Some (buf, Inr None)
               else (case get_bytes len b of
                   Inl e \<Rightarrow> Some (buf, Inl (oct e))
                 | Inr (value, b) \<Rightarrow> do {
                     buf' \<leftarrow> slice buf (o_off b) (length buf);
                     c \<leftarrow> capsule_of kind value;
                     Some (buf', map_sum id Some c)
                   }))
        })
   }"

section \<open>No panic, and progress\<close>

lemma runs_map_oct [no_panic]: "runs m \<Longrightarrow> runs (map_oct m)"
  by (simp add: map_oct_def no_panic)

lemma runs_read_assigned [no_panic]: "runs (read_assigned b)"
  unfolding read_assigned_def by (intro no_panic)

lemma runs_read_route [no_panic]: "runs (read_route b)"
  unfolding read_route_def by (intro no_panic)

text \<open>The wire layout of the two kinds of entry, and their readers as \<open>entry_reader\<close>s.\<close>

definition ip_length_ok :: "u8 \<Rightarrow> bytes \<Rightarrow> bool" where
  "ip_length_ok version addr \<longleftrightarrow>
     version = 4 \<and> length addr = 4 \<or> version = 6 \<and> length addr = 16"

definition assigned_bytes :: "assigned_address \<Rightarrow> bytes" where
  "assigned_bytes a =
     varint_bytes (aa_request_id a) @ [aa_ip_version a] @ aa_address a @ [aa_prefix_len a]"

definition assigned_ok :: "assigned_address \<Rightarrow> bool" where
  "assigned_ok a \<longleftrightarrow> aa_request_id a \<le> max_var_int \<and> ip_length_ok (aa_ip_version a) (aa_address a)"

definition route_bytes :: "route_advertisement \<Rightarrow> bytes" where
  "route_bytes r = [ra_ip_version r] @ ra_start r @ ra_end r @ [ra_protocol r]"

definition route_ok :: "route_advertisement \<Rightarrow> bool" where
  "route_ok r \<longleftrightarrow> ip_length_ok (ra_ip_version r) (ra_start r) \<and> ip_length_ok (ra_ip_version r) (ra_end r)"

lemma get_varint_bytes:
  assumes "rest b = varint_bytes v @ t" and "v \<le> max_var_int"
  obtains b' where "get_varint b = Some (Inr (v, b'))" "rest b' = t"
proof -
  have "rest (b\<lparr>o_off := o_off b + varint_size v\<rparr>) = t"
    by (simp only: rest_advance assms(1)) simp
  with get_varint_spec [OF assms] show thesis by (rule that)
qed

lemma get_u8_bytes:
  assumes "rest b = x # t"
  obtains b' where "get_u 1 b = Inr (unat x, b')" "rest b' = t"
proof -
  have "rest (b\<lparr>o_off := o_off b + 1\<rparr>) = t" by (simp only: rest_advance assms) simp
  moreover have "get_u 1 b = Inr (unat x, b\<lparr>o_off := o_off b + 1\<rparr>)"
    by (simp add: get_u_rest assms from_be_def)
  ultimately show thesis by (rule that [rotated])
qed

lemma get_bytes_bytes:
  assumes "rest b = v @ t"
  obtains b' where "get_bytes (length v) b = Inr (v, b')" "rest b' = t"
proof -
  have "rest (b\<lparr>o_off := o_off b + length v\<rparr>) = t" by (simp only: rest_advance assms) simp
  moreover have "get_bytes (length v) b = Inr (v, b\<lparr>o_off := o_off b + length v\<rparr>)"
    by (simp add: get_bytes_rest assms)
  ultimately show thesis by (rule that [rotated])
qed

lemma ip_length_ok_cases:
  assumes "ip_length_ok v a"
  obtains n where "length a = n" "(if unat v = 4 then Inr 4 else if unat v = 6 then Inr 16
     else Inl (bad_ip_version (unat v))) = Inr n" "of_nat (unat v) = v"
  using assms by (auto simp: ip_length_ok_def)

lemma read_assigned_bytes:
  assumes "assigned_ok a" and "rest b = assigned_bytes a @ t"
  shows "\<exists>b'. read_assigned b = Some (Inr (a, b')) \<and> rest b' = t"
proof -
  have "rest b = varint_bytes (aa_request_id a) @ aa_ip_version a # aa_address a @ aa_prefix_len a # t"
    using assms(2) by (simp add: assigned_bytes_def)
  then obtain b1 where b1: "get_varint b = Some (Inr (aa_request_id a, b1))"
      "rest b1 = aa_ip_version a # aa_address a @ aa_prefix_len a # t"
    by (rule get_varint_bytes) (use assms(1) in \<open>simp add: assigned_ok_def\<close>)
  obtain b2 where b2: "get_u 1 b1 = Inr (unat (aa_ip_version a), b2)"
      "rest b2 = aa_address a @ aa_prefix_len a # t"
    by (rule get_u8_bytes [OF b1(2)])
  obtain b3 where b3: "get_bytes (length (aa_address a)) b2 = Inr (aa_address a, b3)"
      "rest b3 = aa_prefix_len a # t"
    by (rule get_bytes_bytes [OF b2(2)])
  obtain b4 where b4: "get_u 1 b3 = Inr (unat (aa_prefix_len a), b4)" "rest b4 = t"
    by (rule get_u8_bytes [OF b3(2)])
  have "ip_length_ok (aa_ip_version a) (aa_address a)" using assms(1) by (simp add: assigned_ok_def)
  then obtain n where "length (aa_address a) = n"
    "(if unat (aa_ip_version a) = 4 then Inr 4 else if unat (aa_ip_version a) = 6 then Inr 16
      else Inl (bad_ip_version (unat (aa_ip_version a)))) = Inr n"
    "of_nat (unat (aa_ip_version a)) = aa_ip_version a"
    by (rule ip_length_ok_cases)
  then show ?thesis
    using b1(1) b2(1) b3(1) b4 unfolding read_assigned_def by simp
qed

lemma read_route_bytes:
  assumes "route_ok a" and "rest b = route_bytes a @ t"
  shows "\<exists>b'. read_route b = Some (Inr (a, b')) \<and> rest b' = t"
proof -
  have "rest b = ra_ip_version a # ra_start a @ ra_end a @ ra_protocol a # t"
    using assms(2) by (simp add: route_bytes_def)
  then obtain b1 where b1: "get_u 1 b = Inr (unat (ra_ip_version a), b1)"
      "rest b1 = ra_start a @ ra_end a @ ra_protocol a # t"
    by (rule get_u8_bytes)
  obtain b2 where b2: "get_bytes (length (ra_start a)) b1 = Inr (ra_start a, b2)"
      "rest b2 = ra_end a @ ra_protocol a # t"
    by (rule get_bytes_bytes [OF b1(2)])
  obtain b3 where b3: "get_bytes (length (ra_end a)) b2 = Inr (ra_end a, b3)" "rest b3 = ra_protocol a # t"
    by (rule get_bytes_bytes [OF b2(2)])
  obtain b4 where b4: "get_u 1 b3 = Inr (unat (ra_protocol a), b4)" "rest b4 = t"
    by (rule get_u8_bytes [OF b3(2)])
  have ok: "ip_length_ok (ra_ip_version a) (ra_start a)" "ip_length_ok (ra_ip_version a) (ra_end a)"
    using assms(1) by (simp_all add: route_ok_def)
  then have "length (ra_end a) = length (ra_start a)" by (auto simp: ip_length_ok_def)
  moreover obtain n where "length (ra_start a) = n"
    "(if unat (ra_ip_version a) = 4 then Inr 4 else if unat (ra_ip_version a) = 6 then Inr 16
      else Inl (bad_ip_version (unat (ra_ip_version a)))) = Inr n"
    "of_nat (unat (ra_ip_version a)) = ra_ip_version a"
    by (rule ip_length_ok_cases [OF ok(1)])
  ultimately show ?thesis
    using b1(1) b2(1) b3(1) b4 unfolding read_route_def by simp
qed

interpretation assigned: entry_reader read_assigned assigned_bytes assigned_ok
  by unfold_locales
    (use read_assigned_progress in \<open>auto simp: cap_rest runs_read_assigned read_assigned_bytes\<close>)

interpretation route: entry_reader read_route route_bytes route_ok
  by unfold_locales
    (use read_route_progress in \<open>auto simp: cap_rest runs_read_route read_route_bytes\<close>)

lemma runs_parse_address_assign [no_panic]: "runs (parse_address_assign_from b out)"
  by (rule assigned.loop_runs) (rule parse_address_assign_from.simps)

lemma runs_parse_route_advertisement [no_panic]: "runs (parse_route_advertisement_from b out)"
  by (rule route.loop_runs) (rule parse_route_advertisement_from.simps)

lemma parse_address_assign_bytes:
  "\<forall>a \<in> set as. assigned_ok a \<Longrightarrow>
   parse_address_assign (concat (map assigned_bytes as)) = Some (Inr as)"
  using assigned.loop_reads_all [of parse_address_assign_from as "with_slice (concat (map assigned_bytes as))" "[]"]
  by (simp add: parse_address_assign_def parse_address_assign_from.simps [symmetric])

lemma parse_route_advertisement_bytes:
  "\<forall>a \<in> set as. route_ok a \<Longrightarrow>
   parse_route_advertisement (concat (map route_bytes as)) = Some (Inr as)"
  using route.loop_reads_all [of parse_route_advertisement_from as "with_slice (concat (map route_bytes as))" "[]"]
  by (simp add: parse_route_advertisement_def parse_route_advertisement_from.simps [symmetric])

lemma runs_capsule_of [no_panic]: "runs (capsule_of kind value)"
  unfolding capsule_of_def parse_address_assign_def parse_route_advertisement_def by (intro no_panic)

lemma map_sum_Inr_None: "map_sum id Some c = Inr None \<Longrightarrow> P"
  by (cases c) auto

text \<open>
  What \<open>next\<close> does, in one equation: it waits for two varints and as many bytes as the
  second one says, and then consumes exactly those.
\<close>

lemma capsule_next_frame:
  assumes "get_varint (with_slice buf) = Some (Inr (kind, b1))"
    and "get_varint b1 = Some (Inr (len, b2))" and "len \<le> length (rest b2)"
  shows "\<exists>c. capsule_of kind (take len (rest b2)) = Some c
     \<and> capsule_next buf = Some (drop len (rest b2), map_sum id Some c)"
proof -
  obtain c where c: "capsule_of kind (take len (rest b2)) = Some c"
    using runs_capsule_of [of kind "take len (rest b2)"] unfolding runs_iff by (rule exE)
  have wf: "octets_wf b2" "o_buf b2 = buf"
    using get_varint_wf [OF assms(1) octets_wf_with_slice] get_varint_wf [OF assms(2)] by simp_all
  then have "o_off b2 + len \<le> length buf"
    using assms(3) by (simp add: octets_wf_def rest_def)
  moreover have "drop (o_off b2 + len) buf = drop len (rest b2)"
    using wf by (simp add: rest_def add.commute)
  moreover have "length (rest b2) = length buf - o_off b2"
    using wf by (simp add: rest_def)
  ultimately show ?thesis
    using assms c by (simp add: capsule_next_def cap_rest get_bytes_rest)
qed

lemma capsule_next_cases:
  obtains (wait) "capsule_next buf = Some (buf, Inr None)"
  | (frame) kind b1 len b2 c where
      "get_varint (with_slice buf) = Some (Inr (kind, b1))" "get_varint b1 = Some (Inr (len, b2))"
      "len \<le> length (rest b2)" "capsule_of kind (take len (rest b2)) = Some c"
      "capsule_next buf = Some (drop len (rest b2), map_sum id Some c)"
proof -
  obtain r1 where r1: "get_varint (with_slice buf) = Some r1" using get_varint_total by blast
  show thesis
  proof (cases r1)
    case Inl
    then show thesis using r1 by (intro wait) (simp add: capsule_next_def)
  next
    case (Inr p)
    then obtain kind b1 where p: "get_varint (with_slice buf) = Some (Inr (kind, b1))"
      using r1 by (cases p) simp
    obtain r2 where r2: "get_varint b1 = Some r2" using get_varint_total by blast
    show thesis
    proof (cases r2)
      case Inl
      then show thesis using p r2 by (intro wait) (simp add: capsule_next_def)
    next
      case (Inr q)
      then obtain len b2 where q: "get_varint b1 = Some (Inr (len, b2))" using r2 by (cases q) simp
      show thesis
      proof (cases "len \<le> length (rest b2)")
        case True
        then show thesis using capsule_next_frame [OF p q True] frame [OF p q True] by blast
      next
        case False
        then show thesis using p q by (intro wait) (simp add: capsule_next_def cap_rest)
      qed
    qed
  qed
qed

lemma capsule_next_total: "\<exists>buf' r. capsule_next buf = Some (buf', r)"
  by (cases buf rule: capsule_next_cases) auto

lemma capsule_next_progress:
  "capsule_next buf = Some (buf', r) \<Longrightarrow> r \<noteq> Inr None \<Longrightarrow> length buf' + 2 \<le> length buf"
proof (cases buf rule: capsule_next_cases)
  case (frame kind b1 len b2 c)
  assume "capsule_next buf = Some (buf', r)"
  then have "buf' = drop len (rest b2)" using frame(5) by simp
  moreover have "length (rest b2) + 2 \<le> length buf"
    using get_varint_len [OF frame(1)] get_varint_len [OF frame(2)] by simp
  ultimately show ?thesis by simp
qed auto

lemma capsule_next_shrinks: "capsule_next buf = Some (buf', r) \<Longrightarrow> length buf' \<le> length buf"
proof (cases "r = Inr None")
  case True
  assume "capsule_next buf = Some (buf', r)"
  with True show ?thesis
    by (cases buf rule: capsule_next_cases) (auto elim!: map_sum_Inr_None)
next
  case False
  assume "capsule_next buf = Some (buf', r)"
  from capsule_next_progress [OF this False] show ?thesis by simp
qed


section \<open>Framing is prefix-stable\<close>

text \<open>
  What was decided on a prefix of the stream stays decided when more bytes arrive: the
  reason why the parser may be fed in any chunks.
\<close>

lemma get_varint_append:
  assumes "get_varint b = Some (Inr (v, b'))" and d: "rest d = rest b @ t"
  obtains d' where "get_varint d = Some (Inr (v, d'))" "rest d' = rest b' @ t"
proof -
  obtain f r where fr: "rest b = f # r" using assms(1) by (cases "rest b") (auto simp: get_varint_rest)
  define len where "len = (2 :: nat) ^ (unat f div 64)"
  have len: "len \<le> length (rest b)" and v: "v = from_be (take len (rest b)) mod 2 ^ (8 * len - 2)"
    and b': "b' = b\<lparr>o_off := o_off b + len\<rparr>"
    using assms(1) by (auto simp: get_varint_rest fr len_def Let_def split: if_splits)
  have "take len (rest d) = take len (rest b)" "\<not> length (rest d) < len"
    using d len by simp_all
  then have "get_varint d = Some (Inr (v, d\<lparr>o_off := o_off d + len\<rparr>))"
    using d fr v by (simp add: get_varint_rest len_def Let_def)
  moreover have "rest (d\<lparr>o_off := o_off d + len\<rparr>) = rest b' @ t"
    using len by (simp add: rest_advance d b')
  ultimately show thesis by (rule that)
qed

lemma capsule_next_append:
  assumes "capsule_next buf = Some (buf', r)" and "r \<noteq> Inr None"
  shows "capsule_next (buf @ t) = Some (buf' @ t, r)"
proof (cases buf rule: capsule_next_cases)
  case wait
  with assms show ?thesis by simp
next
  case (frame kind b1 len b2 c)
  have "rest (with_slice (buf @ t)) = rest (with_slice buf) @ t" by simp
  then obtain d1 where d1: "get_varint (with_slice (buf @ t)) = Some (Inr (kind, d1))" "rest d1 = rest b1 @ t"
    by (rule get_varint_append [OF frame(1)])
  obtain d2 where d2: "get_varint d1 = Some (Inr (len, d2))" "rest d2 = rest b2 @ t"
    by (rule get_varint_append [OF frame(2) d1(2)])
  have "len \<le> length (rest d2)" using d2(2) frame(3) by simp
  from capsule_next_frame [OF d1(1) d2(1) this]
  have "capsule_next (buf @ t) = Some (drop len (rest b2) @ t, map_sum id Some c)"
    using frame(3,4) by (auto simp: d2(2))
  then show ?thesis using frame(5) assms(1) by simp
qed

section \<open>The encoder and the parser agree\<close>

lemma masque_varint_len_eq: "masque_varint_len v = varint_size v"
  by (auto simp: masque_varint_len_def varint_size_def)

definition capsule_bytes :: "nat \<Rightarrow> bytes \<Rightarrow> bytes" where
  "capsule_bytes kind value = varint_bytes kind @ varint_bytes (length value) @ value"

lemma put_varint_at:
  assumes "v \<le> max_var_int" and "varint_size v \<le> n"
  shows "put_varint v \<lparr>o_buf = xs @ replicate n 0, o_off = length xs\<rparr>
    = Some (Inr \<lparr>o_buf = (xs @ varint_bytes v) @ replicate (n - varint_size v) 0,
                 o_off = length (xs @ varint_bytes v)\<rparr>)"
  using put_varint_spec [of "\<lparr>o_buf = xs @ replicate n 0, o_off = length xs\<rparr>" v] assms
  by (simp add: octets_wf_def cap_def)

lemma put_bytes_at:
  "put_bytes v \<lparr>o_buf = xs @ replicate (length v) 0, o_off = length xs\<rparr>
    = Inr \<lparr>o_buf = xs @ v, o_off = length (xs @ v)\<rparr>"
  by (auto simp: put_bytes_def cap_def)

lemma encode_capsule_eq:
  assumes "kind \<le> max_var_int" and "length value \<le> max_var_int"
  shows "encode_capsule kind value = Some (capsule_bytes kind value)"
proof -
  let ?n = "varint_size kind + varint_size (length value) + length value"
  note p1 = put_varint_at [OF assms(1), of ?n "[]"]
  note p2 = put_varint_at [OF assms(2), of "varint_size (length value) + length value" "[] @ varint_bytes kind"]
  note p3 = put_bytes_at [of "value" "([] @ varint_bytes kind) @ varint_bytes (length value)"]
  show ?thesis
    using p1 p2 p3
    by (simp add: encode_capsule_def masque_varint_len_eq with_slice_def discard_def
        capsule_bytes_def Let_def)
qed

lemma capsule_next_bytes:
  assumes "kind \<le> max_var_int" and "length value \<le> max_var_int"
    and c: "capsule_of kind value = Some c"
  shows "capsule_next (capsule_bytes kind value @ t) = Some (t, map_sum id Some c)"
proof -
  have "rest (with_slice (capsule_bytes kind value @ t))
      = varint_bytes kind @ varint_bytes (length value) @ value @ t"
    by (simp add: capsule_bytes_def)
  then obtain b1 where b1: "get_varint (with_slice (capsule_bytes kind value @ t)) = Some (Inr (kind, b1))"
      "rest b1 = varint_bytes (length value) @ value @ t"
    by (rule get_varint_bytes) (rule assms)
  obtain b2 where b2: "get_varint b1 = Some (Inr (length value, b2))" "rest b2 = value @ t"
    by (rule get_varint_bytes [OF b1(2) assms(2)])
  show ?thesis
    using capsule_next_frame [OF b1(1) b2(1)] c by (auto simp: b2(2))
qed


lemma put_bytes_last:
  "put_bytes v \<lparr>o_buf = xs @ replicate (length v) 0, o_off = length xs\<rparr>
    = Inr \<lparr>o_buf = xs @ v, o_off = length (xs @ v)\<rparr>"
  by (rule put_bytes_at)

lemma encode_ip_datagram_eq:
  assumes "quarter_stream_id sid \<le> max_var_int"
  shows "encode_ip_datagram sid pkt
    = Some (Inr (varint_bytes (quarter_stream_id sid) @ varint_bytes 0 @ pkt))"
proof -
  have ctx: "0 \<le> max_var_int" by simp
  note p1 = put_varint_at [OF assms, of "varint_size (quarter_stream_id sid) + varint_size 0 + length pkt" "[]"]
  note p2 = put_varint_at [OF ctx, of "varint_size 0 + length pkt" "[] @ varint_bytes (quarter_stream_id sid)"]
  note p3 = put_bytes_at [of "pkt" "([] @ varint_bytes (quarter_stream_id sid)) @ varint_bytes 0"]
  show ?thesis
    using p1 p2 p3
    by (simp add: encode_ip_datagram_def masque_varint_len_eq with_slice_def
        connect_ip_context_id_def Let_def)
qed

lemma decode_ip_datagram_eq:
  assumes "q \<le> max_var_int" and "c \<le> max_var_int"
  shows "decode_ip_datagram (varint_bytes q @ varint_bytes c @ pkt) sid
    = Some (Inr (if q = quarter_stream_id sid \<and> c = 0 then Some pkt else None))"
proof -
  have "rest (with_slice (varint_bytes q @ varint_bytes c @ pkt)) = varint_bytes q @ varint_bytes c @ pkt"
    by simp
  then obtain b1 where b1: "get_varint (with_slice (varint_bytes q @ varint_bytes c @ pkt)) = Some (Inr (q, b1))"
      "rest b1 = varint_bytes c @ pkt"
    by (rule get_varint_bytes) (rule assms)
  obtain b2 where b2: "get_varint b1 = Some (Inr (c, b2))" "rest b2 = pkt"
    by (rule get_varint_bytes [OF b1(2) assms(2)])
  show ?thesis
    using b1 b2 by (simp add: decode_ip_datagram_def connect_ip_context_id_def get_bytes_rest cap_rest)
qed

lemma runs_decode_ip_datagram [no_panic]: "runs (decode_ip_datagram d sid)"
  unfolding decode_ip_datagram_def by (intro no_panic)

lemma runs_strip_datagram_context [no_panic]: "runs (strip_datagram_context payload)"
  unfolding strip_datagram_context_def Let_def by (intro no_panic) simp_all

text \<open>
  A bare IP packet survives \<open>strip_datagram_context\<close>: its first byte, \<open>0x4_\<close> or \<open>0x6_\<close>,
  opens a two-byte varint, which is the context id zero only for the two bytes \<open>0x40 0x00\<close>,
  an IPv4 header of length zero.
\<close>

lemma strip_context_ip_packet:
  assumes ip: "looks_like_ip_packet pkt" and ihl: "pkt ! 0 \<noteq> 0x40"
  shows "strip_datagram_context pkt = Some (Some pkt)"
proof -
  obtain f g r where pkt: "pkt = f # g # r" using ip
    by (cases pkt; cases "tl pkt") (auto simp: looks_like_ip_packet_def)
  have len: "20 \<le> length pkt" using ip by (simp add: looks_like_ip_packet_def pkt)
  have "unat (drop_bit 4 f) = unat f div 16"
    by (simp only: unat_drop_bit_eq) (simp add: drop_bit_eq_div)
  then have "unat f div 16 = 4 \<or> unat f div 16 = 6"
    using ip by (auto simp: looks_like_ip_packet_def pkt dest: arg_cong [of _ _ unat])
  then have div: "unat f div 64 = 1" and ge: "64 \<le> unat f" "unat f < 128" by linarith+
  have "unat f \<noteq> 64"
  proof
    assume "unat f = 64"
    then have "f = of_nat 64" by (metis of_nat_unat_u8)
    with ihl pkt show False by simp
  qed
  with ge have f: "64 < unat f" by simp
  have v: "get_varint (with_slice pkt)
      = Some (Inr (from_be [f, g] mod 16384, (with_slice pkt)\<lparr>o_off := 2\<rparr>))"
    using len by (simp add: get_varint_rest pkt div Let_def) (simp add: with_slice_def)
  have "256 * unat f + unat g < 32768"
    using ge unat_u8_less [of g] by linarith
  then have "from_be [f, g] mod 16384 = from_be [f, g] - 16384"
    using f by (simp add: from_be_pair mod_if)
  moreover have "16384 < from_be [f, g]" using f by (simp add: from_be_pair)
  ultimately have "from_be [f, g] mod 16384 \<noteq> 0" by simp
  then show ?thesis
    using ip v by (simp add: strip_datagram_context_def pkt connect_ip_context_id_def)
qed

lemma strip_context_prefixed:
  assumes "looks_like_ip_packet pkt"
  shows "strip_datagram_context (varint_bytes 0 @ pkt) = Some (Some pkt)"
proof -
  have z: "varint_bytes 0 = [0]" by (simp add: varint_bytes_def)
  have "get_varint (with_slice (0 # pkt)) = Some (Inr (0, (with_slice (0 # pkt))\<lparr>o_off := 1\<rparr>))"
    by (simp add: get_varint_rest Let_def) (simp add: with_slice_def from_be_def)
  then show ?thesis
    using assms by (simp add: strip_datagram_context_def z connect_ip_context_id_def cap_def with_slice_def)
qed


section \<open>Properties\<close>

text \<open>A varint written by \<open>put_varint\<close> is read back by \<open>get_varint\<close>, which stops right
  behind it.\<close>

theorem varint_roundtrip:
  assumes "octets_wf b" and "v \<le> max_var_int" and "varint_size v \<le> cap b"
  shows "\<exists>b'. put_varint v b = Some (Inr b') \<and> octets_wf b' \<and>
    get_varint (b'\<lparr>o_off := o_off b\<rparr>) = Some (Inr (v, b'))"
proof -
  let ?b' = "\<lparr>o_buf = take (o_off b) (o_buf b) @ varint_bytes v @ drop (o_off b + varint_size v) (o_buf b),
     o_off = o_off b + varint_size v\<rparr>"
  have fits: "o_off b + varint_size v \<le> length (o_buf b)" "o_off b \<le> length (o_buf b)"
    using assms by (simp_all add: octets_wf_def cap_def)
  have "rest (?b'\<lparr>o_off := o_off b\<rparr>) = varint_bytes v @ drop (o_off b + varint_size v) (o_buf b)"
    using fits by (simp add: rest_def)
  from get_varint_spec [OF this assms(2)] put_varint_spec [OF assms] fits
  show ?thesis by (intro exI [of _ ?b']) (simp add: octets_wf_def)
qed

theorem varint_roundtrip_witness:
  "\<exists>b'. put_varint 15293 (with_slice [9, 9, 9]) = Some (Inr b') \<and> octets_wf b' \<and>
    get_varint (b'\<lparr>o_off := o_off (with_slice [9, 9, 9])\<rparr>) = Some (Inr (15293, b'))"
  by (rule varint_roundtrip) (simp_all add: max_var_int_def varint_size_def cap_def with_slice_def octets_wf_def)

text \<open>An IP packet encoded for a request stream decodes to itself on that stream and is
  ignored, not delivered, on any stream with another quarter id.\<close>

theorem ip_datagram_roundtrip:
  assumes "quarter_stream_id sid \<le> max_var_int"
  shows "\<exists>d. encode_ip_datagram sid pkt = Some (Inr d)
    \<and> decode_ip_datagram d other = Some (Inr (if quarter_stream_id sid = quarter_stream_id other
        then Some pkt else None))"
  using encode_ip_datagram_eq [OF assms, of pkt] decode_ip_datagram_eq [OF assms, of 0 pkt other]
  by simp

theorem ip_datagram_roundtrip_witness:
  "quarter_stream_id 8 \<le> max_var_int
   \<and> (\<exists>d. encode_ip_datagram 8 [0x45, 1] = Some (Inr d)
        \<and> decode_ip_datagram d 12 = Some (Inr (if quarter_stream_id 8 = quarter_stream_id 12
            then Some [0x45, 1] else None)))"
proof -
  have "quarter_stream_id 8 \<le> max_var_int" by (simp add: quarter_stream_id_def max_var_int_def)
  with ip_datagram_roundtrip [OF this] show ?thesis by blast
qed

text \<open>C6: The address list of an ADDRESS_ASSIGN capsule and the ranges of a
  ROUTE_ADVERTISEMENT capsule, laid out as RFC 9484 says, come out of the parser as they
  went in, behind any bytes that follow the capsule. A capsule of any other kind is taken off
  the front whole as well: a datagram with its payload, a request for addresses, and an unknown
  kind with its value, so that the parser is at the next capsule in every case.\<close>

theorem control_capsules_parse:
  assumes "\<forall>a \<in> set as. assigned_ok a" and "\<forall>r \<in> set rs. route_ok r"
    and "length (concat (map assigned_bytes as)) \<le> max_var_int"
    and "length (concat (map route_bytes rs)) \<le> max_var_int"
    and "kind \<le> max_var_int" and "kind \<noteq> 1" and "kind \<noteq> 3" and "length v \<le> max_var_int"
  shows "capsule_next (capsule_bytes 1 (concat (map assigned_bytes as)) @ t) = Some (t, Inr (Some (AddressAssign as)))
    \<and> capsule_next (capsule_bytes 3 (concat (map route_bytes rs)) @ t) = Some (t, Inr (Some (RouteAdvertisement rs)))
    \<and> capsule_next (capsule_bytes kind v @ t) = Some (t, Inr (Some
        (if kind = 0 then Datagram v else if kind = 2 then AddressRequest else UnknownCapsule kind v)))"
proof -
  have k: "(1 :: nat) \<le> max_var_int" "(3 :: nat) \<le> max_var_int" by (simp_all add: max_var_int_def)
  have "capsule_next (capsule_bytes 1 (concat (map assigned_bytes as)) @ t) = Some (t, Inr (Some (AddressAssign as)))"
    using capsule_next_bytes [OF k(1) assms(3), of "Inr (AddressAssign as)" t]
      parse_address_assign_bytes [OF assms(1)] by (simp add: capsule_of_def)
  moreover have "capsule_next (capsule_bytes 3 (concat (map route_bytes rs)) @ t) = Some (t, Inr (Some (RouteAdvertisement rs)))"
    using capsule_next_bytes [OF k(2) assms(4), of "Inr (RouteAdvertisement rs)" t]
      parse_route_advertisement_bytes [OF assms(2)] by (simp add: capsule_of_def)
  moreover have "capsule_of kind v = Some (Inr (if kind = 0 then Datagram v else if kind = 2 then AddressRequest
      else UnknownCapsule kind v))"
    using assms(6,7) by (simp add: capsule_of_def)
  with capsule_next_bytes [OF assms(5,8)] have "capsule_next (capsule_bytes kind v @ t) = Some (t, Inr (Some
      (if kind = 0 then Datagram v else if kind = 2 then AddressRequest else UnknownCapsule kind v)))"
    by simp
  ultimately show ?thesis by blast
qed

theorem control_capsules_parse_witness:
  "capsule_next (capsule_bytes 1 [7, 4, 198, 18, 0, 1, 32] @ [0xff])
     = Some ([0xff], Inr (Some (AddressAssign
         [\<lparr>aa_request_id = 7, aa_ip_version = 4, aa_address = [198, 18, 0, 1], aa_prefix_len = 32\<rparr>])))
   \<and> capsule_next (capsule_bytes 4919 [1, 2] @ [0xff]) = Some ([0xff], Inr (Some (UnknownCapsule 4919 [1, 2])))"
  using control_capsules_parse [of
      "[\<lparr>aa_request_id = 7, aa_ip_version = 4, aa_address = [198, 18, 0, 1], aa_prefix_len = 32\<rparr>]"
      "[]" 4919 "[1, 2]" "[0xff]"]
  by (simp add: assigned_ok_def ip_length_ok_def assigned_bytes_def varint_bytes_def max_var_int_def)

end
