(* ===== verification/Dns.thy ===== *)
theory Dns
  imports Prelude
begin

text \<open>
  The program's DNS messages: the ECH bootstrap of \<^verbatim>\<open>dns.rs\<close>, the exit-address probe of
  \<^verbatim>\<open>exitip.rs\<close> and the resolver of \<^verbatim>\<open>socks.rs\<close>. Each builds a query, checks that a reply
  answers it, and walks the reply's records; the three are near copies. The random
  transaction id is a parameter. The theory shows that no reply can make a parser panic,
  that an accepted reply carries the id and the question asked, that the echo of the
  question is accepted, and that the record walk finds the first matching record.
\<close>

section \<open>Queries\<close>

definition dot :: "char \<Rightarrow> bool" where
  "dot c \<longleftrightarrow> c = CHR ''.''"

definition label_bytes :: "string \<Rightarrow> bytes" where
  "label_bytes l = of_nat (length l) # as_bytes l"

text \<open>The label loops of the three builders.\<close>

fun dns_query_labels :: "string list \<Rightarrow> bytes" where
  "dns_query_labels [] = []"
| "dns_query_labels (l # ls) =
     (if l = [] then dns_query_labels ls else label_bytes l @ dns_query_labels ls)"

fun exit_query_labels :: "string list \<Rightarrow> bytes" where
  "exit_query_labels [] = []"
| "exit_query_labels (l # ls) =
     (if l = [] then exit_query_labels ls
      else of_nat (min (length l) 63) # take (min (length l) 63) (as_bytes l) @ exit_query_labels ls)"

fun socks_query_labels :: "string list \<Rightarrow> bytes" where
  "socks_query_labels [] = []"
| "socks_query_labels (l # ls) = label_bytes l @ socks_query_labels ls"

definition query_header :: "u16 \<Rightarrow> bytes" where
  "query_header i = be16_bytes i @ [0x01, 0x00] @ [0x00, 0x01] @ [0, 0, 0, 0, 0, 0]"

definition dns_build_query :: "string \<Rightarrow> u16 \<Rightarrow> u16 \<Rightarrow> bytes" where
  "dns_build_query name qtype i =
     query_header i @ dns_query_labels (split_by dot name) @ [0] @ be16_bytes qtype @ [0x00, 0x01]"

definition exit_build_query :: "u16 \<Rightarrow> string \<Rightarrow> u16 \<Rightarrow> u16 \<Rightarrow> bytes" where
  "exit_build_query i name qtype qclass =
     query_header i @ exit_query_labels (split_by dot name) @ [0] @ be16_bytes qtype @ be16_bytes qclass"

definition socks_build_query :: "string \<Rightarrow> u16 \<Rightarrow> u16 \<Rightarrow> bytes" where
  "socks_build_query name qtype i =
     query_header i @ socks_query_labels (split_by dot name) @ [0] @ be16_bytes qtype @ [0x00, 0x01]"

section \<open>Matching a reply\<close>

text \<open>
  The loop over the labels of the expected name. \<open>Some None\<close> is \<open>return false\<close>;
  \<open>Some (Some pos)\<close> is the position behind the last label.
\<close>

fun match_labels :: "bytes \<Rightarrow> nat \<Rightarrow> string list \<Rightarrow> nat option panics" where
  "match_labels msg pos [] = Some (Some pos)"
| "match_labels msg pos (label # ls) =
     (if label = [] then match_labels msg pos ls
      else (case get msg pos of
              None \<Rightarrow> Some None
            | Some len \<Rightarrow>
                if unat len \<noteq> length label then Some None
                else if pos + 1 + unat len \<le> length msg
                then do {
                  found \<leftarrow> slice msg (pos + 1) (pos + 1 + unat len);
                  if eq_ignore_ascii_case found (as_bytes label)
                  then match_labels msg (pos + 1 + unat len) ls
                  else Some None
                }
                else Some None))"

text \<open>The checks the three matchers share, up to the position of the question's type.\<close>

definition question_prefix :: "bytes \<Rightarrow> u16 \<Rightarrow> string \<Rightarrow> nat option panics" where
  "question_prefix msg expected_id expected_name =
     (if length msg < 12 then Some None
      else do {
        b0 \<leftarrow> idx msg 0; b1 \<leftarrow> idx msg 1;
        if be16 b0 b1 \<noteq> expected_id then Some None
        else do {
          b2 \<leftarrow> idx msg 2;
          if b2 AND 0x80 = 0 then Some None
          else do {
            b4 \<leftarrow> idx msg 4; b5 \<leftarrow> idx msg 5;
            if be16 b4 b5 \<noteq> 1 then Some None
            else do {
              r \<leftarrow> match_labels msg 12 (split_by dot expected_name);
              (case r of
                 None \<Rightarrow> Some None
               | Some pos \<Rightarrow>
                   if get msg pos \<noteq> Some 0 then Some None
                   else if pos + 1 + 4 > length msg then Some None
                   else Some (Some (pos + 1)))
            }
          }
        }
      })"

definition response_matches :: "bytes \<Rightarrow> u16 \<Rightarrow> string \<Rightarrow> u16 \<Rightarrow> bool panics" where
  "response_matches msg expected_id expected_name expected_qtype = do {
     r \<leftarrow> question_prefix msg expected_id expected_name;
     (case r of
        None \<Rightarrow> Some False
      | Some pos \<Rightarrow> do {
          t0 \<leftarrow> idx msg pos; t1 \<leftarrow> idx msg (pos + 1);
          Some (be16 t0 t1 = expected_qtype)
        })
   }"

definition question_matches :: "bytes \<Rightarrow> u16 \<Rightarrow> string \<Rightarrow> u16 \<Rightarrow> u16 \<Rightarrow> bool panics" where
  "question_matches msg i name qtype qclass = do {
     r \<leftarrow> question_prefix msg i name;
     (case r of
        None \<Rightarrow> Some False
      | Some pos \<Rightarrow> do {
          t0 \<leftarrow> idx msg pos; t1 \<leftarrow> idx msg (pos + 1);
          if be16 t0 t1 = qtype then do {
            c0 \<leftarrow> idx msg (pos + 2); c1 \<leftarrow> idx msg (pos + 3);
            Some (be16 c0 c1 = qclass)
          } else Some False
        })
   }"

definition dns_response_matches :: "bytes \<Rightarrow> u16 \<Rightarrow> string \<Rightarrow> u16 \<Rightarrow> bool panics" where
  "dns_response_matches resp expected_id expected_name expected_qtype = do {
     r \<leftarrow> question_prefix resp expected_id expected_name;
     (case r of
        None \<Rightarrow> Some False
      | Some pos \<Rightarrow> do {
          t0 \<leftarrow> idx resp pos; t1 \<leftarrow> idx resp (pos + 1);
          Some (be16 t0 t1 = expected_qtype)
        })
   }"

section \<open>Walking the records\<close>

text \<open>
  \<open>skip_name\<close> of \<^verbatim>\<open>dns.rs\<close> and \<^verbatim>\<open>socks.rs\<close>, and the stricter one of \<^verbatim>\<open>exitip.rs\<close>,
  which also keeps the result inside the message.
\<close>

function dns_skip_name :: "bytes \<Rightarrow> nat \<Rightarrow> nat option" where
  "dns_skip_name buf pos =
     (case get buf pos of
        None \<Rightarrow> None
      | Some len \<Rightarrow>
          if len AND 0xc0 = 0xc0 then Some (pos + 2)
          else if len = 0 then Some (pos + 1)
          else dns_skip_name buf (pos + (1 + unat len)))"
  by pat_completeness auto
termination
  by (relation "measure (\<lambda>(buf, pos). length buf - pos)") (auto simp: get_eq_Some_conv)

function exit_skip_name :: "bytes \<Rightarrow> nat \<Rightarrow> nat option" where
  "exit_skip_name buf pos =
     (case get buf pos of
        None \<Rightarrow> None
      | Some len \<Rightarrow>
          if len AND 0xc0 = 0xc0 then (if pos + 2 \<le> length buf then Some (pos + 2) else None)
          else if len = 0 then (if pos + 1 \<le> length buf then Some (pos + 1) else None)
          else if pos + (1 + unat len) > length buf then None
          else exit_skip_name buf (pos + (1 + unat len)))"
  by pat_completeness auto
termination
  by (relation "measure (\<lambda>(buf, pos). length buf - pos)") (auto simp: get_eq_Some_conv)

declare dns_skip_name.simps [simp del] exit_skip_name.simps [simp del]

text \<open>\<open>for _ in 0..qd\<close>: skip the questions.\<close>

fun skip_questions :: "(bytes \<Rightarrow> nat \<Rightarrow> nat option) \<Rightarrow> bytes \<Rightarrow> nat \<Rightarrow> nat \<Rightarrow> nat option" where
  "skip_questions skip msg 0 pos = Some pos"
| "skip_questions skip msg (Suc n) pos =
     (case skip msg pos of None \<Rightarrow> None | Some p \<Rightarrow> skip_questions skip msg n (p + 4))"

text \<open>
  \<open>for _ in 0..an\<close>: the walk over the answers, with what each parser does at a record,
  \<open>at rtype pos rdlen\<close>: return (\<open>Some r\<close>) or go on (\<open>None\<close>).
\<close>

fun walk_answers ::
  "(bytes \<Rightarrow> nat \<Rightarrow> nat option) \<Rightarrow> (u16 \<Rightarrow> nat \<Rightarrow> nat \<Rightarrow> 'r option option panics)
   \<Rightarrow> bytes \<Rightarrow> nat \<Rightarrow> nat \<Rightarrow> 'r option panics" where
  "walk_answers skip at msg 0 pos = Some None"
| "walk_answers skip at msg (Suc n) pos =
     (case skip msg pos of
        None \<Rightarrow> Some None
      | Some pos \<Rightarrow>
          if pos + 10 > length msg then Some None
          else do {
            t0 \<leftarrow> idx msg pos; t1 \<leftarrow> idx msg (pos + 1);
            l0 \<leftarrow> idx msg (pos + 8); l1 \<leftarrow> idx msg (pos + 9);
            let rdlen = unat (be16 l0 l1);
            if pos + 10 + rdlen > length msg then Some None
            else do {
              r \<leftarrow> at (be16 t0 t1) (pos + 10) rdlen;
              (case r of
                 Some ret \<Rightarrow> Some ret
               | None \<Rightarrow> walk_answers skip at msg n (pos + 10 + rdlen))
            }
          })"

definition walk_message ::
  "(bytes \<Rightarrow> nat \<Rightarrow> nat option) \<Rightarrow> (u16 \<Rightarrow> nat \<Rightarrow> nat \<Rightarrow> 'r option option panics)
   \<Rightarrow> bytes \<Rightarrow> 'r option panics" where
  "walk_message skip at msg =
     (if length msg < 12 then Some None
      else do {
        q0 \<leftarrow> idx msg 4; q1 \<leftarrow> idx msg 5;
        a0 \<leftarrow> idx msg 6; a1 \<leftarrow> idx msg 7;
        (case skip_questions skip msg (unat (be16 q0 q1)) 12 of
           None \<Rightarrow> Some None
         | Some pos \<Rightarrow> walk_answers skip at msg (unat (be16 a0 a1)) pos)
      })"

text \<open>\<^verbatim>\<open>dns.rs\<close>: the \<open>ech\<close> parameter of an HTTPS record.\<close>

function svcparams_from :: "bytes \<Rightarrow> nat \<Rightarrow> nat \<Rightarrow> bytes option panics" where
  "svcparams_from msg end_pos p =
     (if p + 4 \<le> end_pos
      then do {
        k0 \<leftarrow> idx msg p; k1 \<leftarrow> idx msg (p + 1);
        l0 \<leftarrow> idx msg (p + 2); l1 \<leftarrow> idx msg (p + 3);
        let len = unat (be16 l0 l1);
        if p + 4 + len > end_pos then Some None
        else if be16 k0 k1 = 5 then do { v \<leftarrow> slice msg (p + 4) (p + 4 + len); Some (Some v) }
        else svcparams_from msg end_pos (p + 4 + len)
      }
      else Some None)"
  by pat_completeness auto
termination
  by (relation "measure (\<lambda>(msg, end_pos, p). end_pos - p)") auto

declare svcparams_from.simps [simp del]

definition parse_svcparams_ech :: "bytes \<Rightarrow> nat \<Rightarrow> nat \<Rightarrow> bytes option panics" where
  "parse_svcparams_ech msg rdata_start rdlen =
     (let end_pos = rdata_start + rdlen
      in if rdata_start + 2 > end_pos then Some None
         else (case dns_skip_name msg (rdata_start + 2) of
                 None \<Rightarrow> Some None
               | Some p \<Rightarrow> svcparams_from msg end_pos p))"

definition parse_https_ech :: "bytes \<Rightarrow> bytes option panics" where
  "parse_https_ech msg =
     walk_message dns_skip_name
       (\<lambda>rtype pos rdlen.
          if rtype = 65 then do {
            r \<leftarrow> parse_svcparams_ech msg pos rdlen;
            Some (case r of Some ech \<Rightarrow> Some (Some ech) | None \<Rightarrow> None)
          } else Some None)
       msg"

text \<open>\<^verbatim>\<open>socks.rs\<close>: the first A record.\<close>

definition parse_dns_a :: "bytes \<Rightarrow> ip_addr option panics" where
  "parse_dns_a resp =
     walk_message dns_skip_name
       (\<lambda>rtype pos rdlen.
          if rtype = 1 \<and> rdlen = 4 then do {
            a \<leftarrow> idx resp pos; b \<leftarrow> idx resp (pos + 1);
            c \<leftarrow> idx resp (pos + 2); d \<leftarrow> idx resp (pos + 3);
            Some (Some (Some (V4 (ipv4_of a b c d))))
          } else Some None)
       resp"

text \<open>\<^verbatim>\<open>exitip.rs\<close>: the character-strings of the first TXT record, joined.\<close>

function txt_strings_from :: "bytes \<Rightarrow> nat \<Rightarrow> nat \<Rightarrow> string \<Rightarrow> string option panics" where
  "txt_strings_from msg end_pos p out =
     (if p < end_pos
      then do {
        len \<leftarrow> idx msg p;
        if p + 1 + unat len > end_pos then Some None
        else do {
          s \<leftarrow> slice msg (p + 1) (p + 1 + unat len);
          txt_strings_from msg end_pos (p + 1 + unat len) (out @ of_bytes (utf8_lossy s))
        }
      }
      else Some (Some out))"
  by pat_completeness auto
termination
  by (relation "measure (\<lambda>(msg, end_pos, p, out). end_pos - p)") auto

declare txt_strings_from.simps [simp del]

definition first_txt_record :: "bytes \<Rightarrow> string option panics" where
  "first_txt_record msg =
     walk_message exit_skip_name
       (\<lambda>rtype pos rdlen.
          if rtype = 16 then do {
            r \<leftarrow> txt_strings_from msg (pos + rdlen) pos [];
            Some (Some (case r of
                None \<Rightarrow> None
              | Some out \<Rightarrow> if out = [] then None else Some out))
          } else Some None)
       msg"

section \<open>No reply can make a parser panic\<close>

lemma runs_match_labels [no_panic]: "runs (match_labels msg pos ls)"
  by (induction msg pos ls rule: match_labels.induct) (auto intro!: no_panic)

lemma question_prefix_eq:
  "question_prefix msg i name =
     (if 12 \<le> length msg \<and> be16 (msg ! 0) (msg ! 1) = i \<and> msg ! 2 AND 0x80 \<noteq> 0 \<and> be16 (msg ! 4) (msg ! 5) = 1
      then Option.bind (match_labels msg 12 (split_by dot name)) (\<lambda>r.
        case r of None \<Rightarrow> Some None
        | Some pos \<Rightarrow> Some (if get msg pos = Some 0 \<and> pos + 5 \<le> length msg then Some (pos + 1) else None))
      else Some None)"
proof (cases "length msg < 12")
  case False
  then have "msg \<noteq> []" by auto
  with False show ?thesis
    by (cases "match_labels msg 12 (split_by dot name)") (simp_all add: question_prefix_def split: option.split)
qed (simp add: question_prefix_def)

lemma runs_question_prefix [no_panic]: "runs (question_prefix msg i name)"
  unfolding question_prefix_eq by (intro no_panic)

lemma question_prefix_bound: "question_prefix msg i name = Some (Some pos) \<Longrightarrow> pos + 4 \<le> length msg"
  by (auto simp: question_prefix_eq bind_eq_Some_conv split: if_splits option.splits)

lemma runs_response_matches [no_panic]: "runs (response_matches msg i name qtype)"
  unfolding response_matches_def by (intro no_panic) (auto dest: question_prefix_bound)

lemma runs_dns_response_matches [no_panic]: "runs (dns_response_matches msg i name qtype)"
  unfolding dns_response_matches_def by (intro no_panic) (auto dest: question_prefix_bound)

lemma runs_question_matches [no_panic]: "runs (question_matches msg i name qtype qclass)"
  unfolding question_matches_def by (intro no_panic) (auto dest: question_prefix_bound)

lemma runs_walk_answers:
  assumes "\<And>rtype pos rdlen. pos + rdlen \<le> length msg \<Longrightarrow> runs (at rtype pos rdlen)"
  shows "runs (walk_answers skip at msg n pos)"
  using assms
  by (induction skip at msg n pos rule: walk_answers.induct) (auto intro!: no_panic)

lemma runs_walk_message [no_panic]:
  assumes "\<And>rtype pos rdlen. pos + rdlen \<le> length msg \<Longrightarrow> runs (at rtype pos rdlen)"
  shows "runs (walk_message skip at msg)"
  unfolding walk_message_def by (intro no_panic runs_walk_answers assms) simp_all

lemma runs_svcparams_from: "end_pos \<le> length msg \<Longrightarrow> runs (svcparams_from msg end_pos p)"
proof (induction msg end_pos p rule: svcparams_from.induct)
  case (1 msg end_pos p)
  show ?case
    using 1 by (subst svcparams_from.simps) (auto simp: Let_def intro!: no_panic)
qed

lemma runs_parse_svcparams_ech [no_panic]:
  "start + rdlen \<le> length msg \<Longrightarrow> runs (parse_svcparams_ech msg start rdlen)"
  unfolding parse_svcparams_ech_def Let_def by (intro no_panic runs_svcparams_from)

lemma runs_parse_https_ech [no_panic]: "runs (parse_https_ech msg)"
  unfolding parse_https_ech_def by (intro no_panic) simp_all

lemma runs_parse_dns_a [no_panic]: "runs (parse_dns_a msg)"
  unfolding parse_dns_a_def by (intro no_panic) simp_all

lemma runs_txt_strings_from: "end_pos \<le> length msg \<Longrightarrow> runs (txt_strings_from msg end_pos p out)"
proof (induction msg end_pos p out rule: txt_strings_from.induct)
  case (1 msg end_pos p out)
  show ?case
    using 1 by (subst txt_strings_from.simps) (auto intro!: no_panic)
qed

lemma runs_first_txt_record [no_panic]: "runs (first_txt_record msg)"
  unfolding first_txt_record_def by (intro no_panic runs_txt_strings_from)

section \<open>The question of an accepted reply\<close>

definition name_labels :: "string \<Rightarrow> string list" where
  "name_labels name = filter (\<lambda>l. l \<noteq> []) (split_by dot name)"

definition labels_wire :: "string list \<Rightarrow> bytes" where
  "labels_wire ls = concat (map label_bytes ls)"

lemma length_label_bytes [simp]: "length (label_bytes l) = Suc (length l)"
  by (simp add: label_bytes_def)

text \<open>Two texts of a name that differ in letter case only.\<close>

definition same_name :: "string list \<Rightarrow> string list \<Rightarrow> bool" where
  "same_name as bs \<longleftrightarrow> list_all2 (\<lambda>a b. eq_ignore_ascii_case (as_bytes a) (as_bytes b)) as bs"

lemma same_name_refl [simp]: "same_name ls ls"
  by (simp add: same_name_def list_all2_refl)

lemma eq_ignore_ascii_case_length: "eq_ignore_ascii_case a b \<Longrightarrow> length a = length b"
  by (metis eq_ignore_ascii_case_def length_map)

lemma match_labels_sound:
  "match_labels msg pos ls = Some (Some p) \<Longrightarrow>
   \<exists>as. same_name as (filter (\<lambda>l. l \<noteq> []) ls) \<and> pos \<le> p \<and> take (p - pos) (drop pos msg) = labels_wire as"
proof (induction msg pos ls arbitrary: p rule: match_labels.induct)
  case (1 msg pos)
  then show ?case by (intro exI [of _ "[]"]) (simp add: labels_wire_def)
next
  case (2 msg pos label ls)
  show ?case
  proof (cases "label = []")
    case True
    with 2 show ?thesis by simp
  next
    case False
    with "2.prems" obtain len where len: "get msg pos = Some len" "unat len = length label"
      and fit: "pos + 1 + unat len \<le> length msg"
      and eq: "eq_ignore_ascii_case (take (unat len) (drop (pos + 1) msg)) (as_bytes label)"
      and counts: "match_labels msg (pos + 1 + unat len) ls = Some (Some p)"
      by (auto split: option.splits if_splits)
    let ?w = "take (unat len) (drop (pos + 1) msg)"
    let ?q = "pos + 1 + unat len"
    obtain as where as: "same_name as (filter (\<lambda>l. l \<noteq> []) ls)" "?q \<le> p"
      "take (p - ?q) (drop ?q msg) = labels_wire as"
      using "2.IH"(2) [OF False len(1)] len(2) fit eq counts by auto
    have w: "length ?w = unat len" using fit by simp
    have lb: "label_bytes (of_bytes ?w) = msg ! pos # ?w"
      using len(1) w by (simp add: label_bytes_def get_eq_Some_conv of_nat_unat_u8)
    have "take (p - pos) (drop pos msg) = msg ! pos # take (p - (pos + 1)) (drop (pos + 1) msg)"
      using len(1) as(2) by (simp add: get_eq_Some_conv Cons_nth_drop_Suc [symmetric] take_Cons')
    also have "take (p - (pos + 1)) (drop (pos + 1) msg) = ?w @ take (p - ?q) (drop ?q msg)"
    proof -
      have "p - (pos + 1) = unat len + (p - ?q)" using as(2) by simp
      then show ?thesis by (simp only: take_add drop_drop) (simp add: add.commute add.left_commute)
    qed
    finally have "take (p - pos) (drop pos msg) = labels_wire (of_bytes ?w # as)"
      using as(3) lb by (simp add: labels_wire_def)
    moreover have "same_name (of_bytes ?w # as) (filter (\<lambda>l. l \<noteq> []) (label # ls))"
      using eq as(1) False by (simp add: same_name_def)
    ultimately show ?thesis using as(2) by (intro exI [of _ "of_bytes ?w # as"]) simp
  qed
qed

lemma match_labels_complete:
  assumes "same_name as (filter (\<lambda>l. l \<noteq> []) ls)" and "\<forall>l \<in> set ls. length l < 256"
    and "msg = xs @ labels_wire as @ ys"
  shows "match_labels msg (length xs) ls = Some (Some (length xs + length (labels_wire as)))"
  using assms
proof (induction ls arbitrary: as xs)
  case Nil
  then show ?case by (simp add: same_name_def labels_wire_def)
next
  case (Cons l ls)
  show ?case
  proof (cases "l = []")
    case True
    with Cons show ?thesis by simp
  next
    case False
    then obtain a as' where as: "as = a # as'" "eq_ignore_ascii_case (as_bytes a) (as_bytes l)"
      "same_name as' (filter (\<lambda>l. l \<noteq> []) ls)"
      using Cons.prems(1) by (auto simp: same_name_def list_all2_Cons2)
    have la: "length a = length l" "length a < 256"
      using eq_ignore_ascii_case_length [OF as(2)] Cons.prems(2) by simp_all
    have msg: "msg = (xs @ label_bytes a) @ labels_wire as' @ ys"
      using Cons.prems(3) as(1) by (simp add: labels_wire_def)
    have ih: "match_labels msg (length (xs @ label_bytes a)) ls
        = Some (Some (length (xs @ label_bytes a) + length (labels_wire as')))"
      by (rule Cons.IH [OF as(3) _ msg]) (use Cons.prems(2) in simp)
    have "get msg (length xs) = Some (of_nat (length a))"
      by (simp add: msg get_def nth_append label_bytes_def)
    moreover have "take (length a) (drop (Suc (length xs)) msg) = as_bytes a"
      by (simp add: msg label_bytes_def)
    moreover have "length xs + 1 + length a \<le> length msg" by (simp add: msg)
    moreover have "unat (of_nat (length a) :: u8) = length a" using la by simp
    ultimately show ?thesis
      using ih as(1,2) la False by (simp add: labels_wire_def add.assoc)
  qed
qed


section \<open>The record walk, over any name skipper\<close>

definition wire_name :: "string list \<Rightarrow> bytes" where
  "wire_name ls = labels_wire ls @ [0]"

definition wire_label :: "string \<Rightarrow> bool" where
  "wire_label l \<longleftrightarrow> 0 < length l \<and> length l < 64"

text \<open>A resource record: its name spelled out or a compression pointer.\<close>

datatype rr_name = Spelled "string list" | Pointer u8

record rr =
  rr_name :: rr_name
  rr_type :: u16
  rr_class_ttl :: bytes
  rr_data :: bytes

fun rr_name_bytes :: "rr_name \<Rightarrow> bytes" where
  "rr_name_bytes (Spelled ls) = wire_name ls"
| "rr_name_bytes (Pointer k) = [0xc0, k]"

definition rr_bytes :: "rr \<Rightarrow> bytes" where
  "rr_bytes r = rr_name_bytes (rr_name r) @ be16_bytes (rr_type r) @ rr_class_ttl r
     @ be16_bytes (of_nat (length (rr_data r))) @ rr_data r"

definition rr_ok :: "rr \<Rightarrow> bool" where
  "rr_ok r \<longleftrightarrow> length (rr_class_ttl r) = 6 \<and> length (rr_data r) < 65536
     \<and> (\<forall>ls. rr_name r = Spelled ls \<longrightarrow> (\<forall>l \<in> set ls. wire_label l))"

text \<open>
  What the walk relies on: a skipper steps over one label, stops behind the root label or
  a pointer. \<^verbatim>\<open>dns.rs\<close>/\<^verbatim>\<open>socks.rs\<close> and \<^verbatim>\<open>exitip.rs\<close> each provide one.
\<close>

locale name_skipper =
  fixes skip :: "bytes \<Rightarrow> nat \<Rightarrow> nat option"
  assumes skip_label: "pos + 1 + unat (buf ! pos) < length buf \<Longrightarrow> 0 < unat (buf ! pos) \<Longrightarrow>
      unat (buf ! pos) < 64 \<Longrightarrow> skip buf pos = skip buf (pos + 1 + unat (buf ! pos))"
    and skip_root: "pos < length buf \<Longrightarrow> buf ! pos = 0 \<Longrightarrow> skip buf pos = Some (pos + 1)"
    and skip_pointer: "pos + 1 < length buf \<Longrightarrow> buf ! pos = 0xc0 \<Longrightarrow> skip buf pos = Some (pos + 2)"
begin

lemma skip_wire_name:
  "\<forall>l \<in> set ls. wire_label l \<Longrightarrow>
   skip (xs @ wire_name ls @ ys) (length xs) = Some (length xs + length (wire_name ls))"
proof (induction ls arbitrary: xs)
  case Nil
  then show ?case by (simp add: wire_name_def labels_wire_def skip_root)
next
  case (Cons l ls)
  let ?buf = "xs @ wire_name (l # ls) @ ys"
  have buf: "?buf = (xs @ label_bytes l) @ wire_name ls @ ys"
    by (simp add: wire_name_def labels_wire_def)
  have l: "0 < length l" "length l < 64" using Cons.prems by (simp_all add: wire_label_def)
  have first: "?buf ! length xs = of_nat (length l)"
    by (simp add: wire_name_def labels_wire_def label_bytes_def)
  have u: "unat (?buf ! length xs) = length l" using l unfolding first by simp
  have "length xs + 1 + length l < length ?buf" by (simp add: wire_name_def labels_wire_def)
  then have "skip ?buf (length xs) = skip ?buf (length xs + 1 + length l)"
    using skip_label [of "length xs" ?buf] u l by simp
  also have "\<dots> = Some (length (xs @ label_bytes l) + length (wire_name ls))"
    using Cons.IH [of "xs @ label_bytes l"] Cons.prems by (simp only: buf) simp
  finally show ?case by (simp add: wire_name_def labels_wire_def)
qed

lemma skip_rr_name:
  assumes "rr_ok r" and "ys \<noteq> []"
  shows "skip (xs @ rr_name_bytes (rr_name r) @ ys) (length xs)
    = Some (length xs + length (rr_name_bytes (rr_name r)))"
proof (cases "rr_name r")
  case (Spelled ls)
  with assms(1) show ?thesis by (simp add: skip_wire_name rr_ok_def)
next
  case (Pointer k)
  with assms(2) show ?thesis by (simp add: skip_pointer nth_append)
qed

text \<open>The first record on which the handler returns.\<close>

fun pick :: "(u16 \<Rightarrow> bytes \<Rightarrow> 'r option option) \<Rightarrow> rr list \<Rightarrow> 'r option" where
  "pick g [] = None"
| "pick g (r # rs) = (case g (rr_type r) (rr_data r) of Some ret \<Rightarrow> ret | None \<Rightarrow> pick g rs)"

lemma walk_answers_step:
  assumes ok: "rr_ok r" and msg: "msg = xs @ rr_bytes r @ ys"
    and at: "\<And>pos. slice msg pos (pos + length (rr_data r)) = Some (rr_data r) \<Longrightarrow>
      at (rr_type r) pos (length (rr_data r)) = Some (g (rr_type r) (rr_data r))"
  shows "walk_answers skip at msg (Suc n) (length xs) =
    (case g (rr_type r) (rr_data r) of Some ret \<Rightarrow> Some ret
     | None \<Rightarrow> walk_answers skip at msg n (length (xs @ rr_bytes r)))"
proof -
  let ?d = "rr_data r" and ?nm = "rr_name_bytes (rr_name r)"
  let ?f = "be16_bytes (rr_type r) @ rr_class_ttl r @ be16_bytes (of_nat (length ?d))"
  let ?p = "length xs + length ?nm"
  have lf: "length ?f = 10" using ok by (simp add: rr_ok_def)
  have m: "msg = (xs @ ?nm) @ ?f @ (?d @ ys)" using msg by (simp add: rr_bytes_def)
  have tail: "?f @ ?d @ ys \<noteq> []" using lf by auto
  have skip: "skip msg (length xs) = Some ?p"
    using skip_rr_name [OF ok tail, of xs] by (simp add: m)
  have lm: "length msg = ?p + 10 + length ?d + length ys"
    using lf by (simp add: m)
  have n: "msg ! (?p + i) = ?f ! i" if "i < 10" for i
  proof -
    have "msg ! (length (xs @ ?nm) + i) = (?f @ (?d @ ys)) ! i" unfolding m by (rule nth_append_length_plus)
    then show ?thesis using that lf by (simp add: nth_append)
  qed
  obtain t0 t1 where t: "be16_bytes (rr_type r) = [t0, t1]" "be16 t0 t1 = rr_type r"
    by (rule be16_bytes_cases)
  obtain l0 l1 where l: "be16_bytes (of_nat (length ?d)) = [l0, l1]" "be16 l0 l1 = of_nat (length ?d)"
    by (rule be16_bytes_cases)
  have c6: "length (rr_class_ttl r) = 6" using ok by (simp add: rr_ok_def)
  have f: "?f ! 0 = t0" "?f ! 1 = t1" "?f ! 8 = l0" "?f ! 9 = l1"
    using c6 by (simp_all add: t(1) l(1) nth_append)
  have ty: "get msg ?p = Some t0" "get msg (?p + 1) = Some t1" "get msg (?p + 8) = Some l0" "get msg (?p + 9) = Some l1"
    using n [of 0] n [of 1] n [of 8] n [of 9] f by (simp_all add: get_def lm)
  have rdlen: "unat (be16 l0 l1) = length ?d"
    using ok unfolding l(2) by (simp only: rr_ok_def unat_of_nat_u16)
  have "slice msg (?p + 10) (?p + 10 + length ?d) = Some ?d"
    using slice_append_mid [of "(xs @ ?nm) @ ?f" ?d ys] lf by (simp add: m add.assoc)
  then have at': "at (rr_type r) (?p + 10) (length ?d) = Some (g (rr_type r) ?d)" by (rule at)
  have "length (xs @ rr_bytes r) = ?p + 10 + length ?d" using lf by (simp add: rr_bytes_def)
  then show ?thesis
    using skip lm ty rdlen at' t(2)
    by (simp only: walk_answers.simps option.case) (simp add: Let_def split: option.split)
qed

lemma walk_answers_pick:
  assumes "\<forall>r \<in> set rs. rr_ok r" and "msg = xs @ concat (map rr_bytes rs) @ ys"
    and "\<And>ty d pos. slice msg pos (pos + length d) = Some d \<Longrightarrow> at ty pos (length d) = Some (g ty d)"
  shows "walk_answers skip at msg (length rs) (length xs) = Some (pick g rs)"
  using assms(1,2)
proof (induction rs arbitrary: xs)
  case (Cons r rs)
  have "walk_answers skip at msg (Suc (length rs)) (length xs) =
    (case g (rr_type r) (rr_data r) of Some ret \<Rightarrow> Some ret
     | None \<Rightarrow> walk_answers skip at msg (length rs) (length (xs @ rr_bytes r)))"
    by (rule walk_answers_step [where ys = "concat (map rr_bytes rs) @ ys"])
      (use Cons.prems assms(3) in simp_all)
  moreover have "walk_answers skip at msg (length rs) (length (xs @ rr_bytes r)) = Some (pick g rs)"
    by (rule Cons.IH) (use Cons.prems in simp_all)
  ultimately show ?case by (simp split: option.split)
qed simp

lemma walk_message_pick:
  assumes "length h = 12" and "be16 (h ! 4) (h ! 5) = 1" and "be16 (h ! 6) (h ! 7) = of_nat (length rs)"
    and "length rs < 65536" and "\<forall>l \<in> set ls. wire_label l" and "length q = 4"
    and "\<forall>r \<in> set rs. rr_ok r"
    and msg: "msg = h @ wire_name ls @ q @ concat (map rr_bytes rs) @ ys"
    and "\<And>ty d pos. slice msg pos (pos + length d) = Some d \<Longrightarrow> at ty pos (length d) = Some (g ty d)"
  shows "walk_message skip at msg = Some (pick g rs)"
proof -
  let ?xs = "h @ wire_name ls @ q"
  have "msg ! i = h ! i" if "i < 12" for i using that assms(1) by (simp add: msg nth_append)
  then have c: "be16 (msg ! 4) (msg ! 5) = 1" "be16 (msg ! 6) (msg ! 7) = of_nat (length rs)"
    using assms(2,3) by simp_all
  have n: "unat (be16 (msg ! 6) (msg ! 7)) = length rs"
    using assms(4) unfolding c(2) by (simp only: unat_of_nat_u16)
  have one: "unat (be16 (msg ! 4) (msg ! 5)) = Suc 0" unfolding c(1) by simp
  have "skip msg 12 = Some (12 + length (wire_name ls))"
    using skip_wire_name [OF assms(5), of h "q @ concat (map rr_bytes rs) @ ys"] assms(1) by (simp add: msg)
  then have sq: "skip_questions skip msg (Suc 0) 12 = Some (length ?xs)"
    using assms(1,6) by simp
  have "12 \<le> length msg" "msg \<noteq> []" using assms(1) by (auto simp: msg)
  moreover have "walk_answers skip at msg (length rs) (length ?xs) = Some (pick g rs)"
    by (rule walk_answers_pick [OF assms(7), where ys = ys]) (use assms(9) in \<open>simp_all add: msg\<close>)
  ultimately show ?thesis
    using sq n one by (simp add: walk_message_def)
qed

end

lemma and_c0_small: "unat (b :: u8) < 64 \<Longrightarrow> b AND 0xc0 \<noteq> 0xc0"
proof -
  assume "unat b < 64"
  moreover have "\<forall>k \<in> set [0..<64]. (of_nat k :: u8) AND 0xc0 \<noteq> 0xc0" by code_simp
  ultimately have "(of_nat (unat b) :: u8) AND 0xc0 \<noteq> 0xc0" by (metis atLeastLessThan_iff set_upt zero_le)
  then show ?thesis unfolding of_nat_unat_u8 .
qed

interpretation dns: name_skipper dns_skip_name
proof (unfold_locales, goal_cases)
  case (1 pos buf)
  then show ?case
    by (subst dns_skip_name.simps) (auto simp: and_c0_small split: option.split)
next
  case (2 pos buf)
  then show ?case by (subst dns_skip_name.simps) simp
next
  case (3 pos buf)
  then show ?case by (subst dns_skip_name.simps) simp
qed

interpretation exit: name_skipper exit_skip_name
proof (unfold_locales, goal_cases)
  case (1 pos buf)
  then show ?case
    by (subst exit_skip_name.simps) (auto simp: and_c0_small split: option.split)
next
  case (2 pos buf)
  then show ?case by (subst exit_skip_name.simps) simp
next
  case (3 pos buf)
  then show ?case by (subst exit_skip_name.simps) simp
qed


section \<open>Properties\<close>

text \<open>No datagram, however truncated or hostile, makes any of the program's DNS parsers panic:
  every index and slice they take is inside the message.\<close>

theorem dns_parsers_never_panic:
  "runs (response_matches msg i name qtype) \<and> runs (dns_response_matches msg i name qtype)
   \<and> runs (question_matches msg i name qtype qclass) \<and> runs (parse_https_ech msg)
   \<and> runs (parse_dns_a msg) \<and> runs (first_txt_record msg)"
  by (intro conjI no_panic)

lemma question_prefix_sound:
  assumes "question_prefix msg i name = Some (Some pos)"
  shows "\<exists>as. same_name as (name_labels name) \<and> be16 (msg ! 0) (msg ! 1) = i \<and> msg ! 2 AND 0x80 \<noteq> 0
    \<and> be16 (msg ! 4) (msg ! 5) = 1 \<and> pos + 4 \<le> length msg
    \<and> take (pos - 12) (drop 12 msg) = wire_name as"
proof -
  from assms obtain p where p: "match_labels msg 12 (split_by dot name) = Some (Some p)"
    "get msg p = Some 0" "p + 5 \<le> length msg" "pos = p + 1"
    and h: "be16 (msg ! 0) (msg ! 1) = i" "msg ! 2 AND 0x80 \<noteq> 0" "be16 (msg ! 4) (msg ! 5) = 1"
    by (auto simp: question_prefix_eq bind_eq_Some_conv split: if_splits option.splits)
  obtain as where as: "same_name as (name_labels name)" "12 \<le> p" "take (p - 12) (drop 12 msg) = labels_wire as"
    using match_labels_sound [OF p(1)] by (auto simp: name_labels_def)
  have "pos - 12 = Suc (p - 12)" using p(4) as(2) by simp
  then have "take (pos - 12) (drop 12 msg) = take (p - 12) (drop 12 msg) @ [drop 12 msg ! (p - 12)]"
    using p(3) as(2) by (simp only: take_Suc_conv_app_nth length_drop)
  also have "drop 12 msg ! (p - 12) = 0" using p(2,3) as(2) by (simp add: get_eq_Some_conv)
  finally have "take (pos - 12) (drop 12 msg) = wire_name as" by (simp add: as(3) wire_name_def)
  with as(1) h p(3,4) show ?thesis by auto
qed

lemma question_prefix_split:
  assumes "question_prefix msg i name = Some (Some pos)"
  shows "\<exists>as. same_name as (name_labels name) \<and> be16 (msg ! 0) (msg ! 1) = i \<and> msg ! 2 AND 0x80 \<noteq> 0
    \<and> be16 (msg ! 4) (msg ! 5) = 1 \<and> 12 < pos \<and> pos + 4 \<le> length msg
    \<and> drop 12 msg = wire_name as @ drop pos msg"
proof -
  from question_prefix_sound [OF assms] obtain as where as: "same_name as (name_labels name)"
    "be16 (msg ! 0) (msg ! 1) = i" "msg ! 2 AND 0x80 \<noteq> 0" "be16 (msg ! 4) (msg ! 5) = 1"
    "pos + 4 \<le> length msg" "take (pos - 12) (drop 12 msg) = wire_name as" by blast
  have "wire_name as \<noteq> []" by (simp add: wire_name_def)
  with as(6) have "0 < pos - 12" by (cases "pos - 12") auto
  then have p12: "12 < pos" by simp
  have "drop 12 msg = take (pos - 12) (drop 12 msg) @ drop pos msg"
    using p12 by (metis append_take_drop_id drop_drop le_add_diff_inverse2 less_imp_le)
  with as p12 show ?thesis by auto
qed

lemma drop_be16:
  assumes "get msg pos = Some a" and "get msg (pos + 1) = Some b" and "be16 a b = w"
  shows "drop pos msg = be16_bytes w @ drop (pos + 2) msg"
proof -
  have "drop pos msg = a # b # drop (pos + 2) msg"
    using assms(1,2) Cons_nth_drop_Suc [of pos msg] Cons_nth_drop_Suc [of "Suc pos" msg]
    by (simp add: get_eq_Some_conv)
  moreover have "be16_bytes w = [a, b]" using assms(3) by auto
  ultimately show ?thesis by simp
qed

lemma question_matches_sound:
  assumes "question_matches msg i name qtype qclass = Some True"
  shows "\<exists>as qrest. same_name as (name_labels name) \<and> 12 \<le> length msg
    \<and> be16 (msg ! 0) (msg ! 1) = i \<and> msg ! 2 AND 0x80 \<noteq> 0
    \<and> drop 12 msg = wire_name as @ be16_bytes qtype @ be16_bytes qclass @ qrest"
proof -
  from assms obtain pos t0 t1 c0 c1 where pos: "question_prefix msg i name = Some (Some pos)"
    "get msg pos = Some t0" "get msg (pos + 1) = Some t1" "be16 t0 t1 = qtype"
    "get msg (pos + 2) = Some c0" "get msg (pos + 3) = Some c1" "be16 c0 c1 = qclass"
    by (auto simp: question_matches_def bind_eq_Some_conv split: option.splits if_splits)
  from question_prefix_split [OF pos(1)] obtain as where as: "same_name as (name_labels name)"
    "be16 (msg ! 0) (msg ! 1) = i" "msg ! 2 AND 0x80 \<noteq> 0" "12 < pos"
    "pos + 4 \<le> length msg" "drop 12 msg = wire_name as @ drop pos msg" by blast
  have "drop pos msg = be16_bytes qtype @ drop (pos + 2) msg" by (rule drop_be16 [OF pos(2-4)])
  moreover have "drop (pos + 2) msg = be16_bytes qclass @ drop (pos + 2 + 2) msg"
    by (rule drop_be16) (use pos(5-7) in \<open>simp_all add: numeral_3_eq_3\<close>)
  ultimately show ?thesis using as by auto
qed

lemma question_prefix_echo:
  assumes "same_name as (name_labels name)" and "\<forall>l \<in> set (split_by dot name). length l < 256"
    and "length h = 12" and "be16 (h ! 0) (h ! 1) = i" and "h ! 2 AND 0x80 \<noteq> 0" and "be16 (h ! 4) (h ! 5) = 1"
    and "4 \<le> length q"
  shows "question_prefix (h @ wire_name as @ q) i name = Some (Some (12 + length (wire_name as)))"
proof -
  let ?msg = "h @ wire_name as @ q"
  have "match_labels ?msg (length h) (split_by dot name) = Some (Some (length h + length (labels_wire as)))"
    by (rule match_labels_complete [where ys = "0 # q"])
      (use assms(1,2) in \<open>simp_all add: name_labels_def wire_name_def\<close>)
  moreover have "get ?msg (length h + length (labels_wire as)) = Some 0"
    by (simp add: get_def wire_name_def nth_append)
  moreover have "?msg ! k = h ! k" if "k < 12" for k using that assms(3) by (simp add: nth_append)
  ultimately show ?thesis using assms by (simp add: question_prefix_eq wire_name_def)
qed

text \<open>A reply is accepted only if it carries the query's transaction id, is marked as a
  response, has exactly one question, and that question is the name asked, up to letter
  case, and the type asked: a spoofed answer must guess all of these.\<close>

theorem accepted_reply_answers_the_query:
  assumes "dns_response_matches msg i name qtype = Some True"
  shows "\<exists>as rest. same_name as (name_labels name) \<and> 12 \<le> length msg
    \<and> be16 (msg ! 0) (msg ! 1) = i \<and> msg ! 2 AND 0x80 \<noteq> 0 \<and> be16 (msg ! 4) (msg ! 5) = 1
    \<and> drop 12 msg = wire_name as @ be16_bytes qtype @ rest"
proof -
  from assms obtain pos t0 t1 where pos: "question_prefix msg i name = Some (Some pos)"
    "get msg pos = Some t0" "get msg (pos + 1) = Some t1" "be16 t0 t1 = qtype"
    by (auto simp: dns_response_matches_def bind_eq_Some_conv split: option.splits)
  from question_prefix_split [OF pos(1)] obtain as where as: "same_name as (name_labels name)"
    "be16 (msg ! 0) (msg ! 1) = i" "msg ! 2 AND 0x80 \<noteq> 0" "be16 (msg ! 4) (msg ! 5) = 1" "12 < pos"
    "pos + 4 \<le> length msg" "drop 12 msg = wire_name as @ drop pos msg" by blast
  have "drop pos msg = be16_bytes qtype @ drop (pos + 2) msg"
    by (rule drop_be16) (use pos as(6) in simp_all)
  with as show ?thesis by auto
qed

definition example_reply :: bytes where
  "example_reply = [0x12, 0x34, 0x81, 0x80, 0, 1, 0, 1, 0, 0, 0, 0, 1, 0x41, 2, 0x69, 0x72, 0, 0, 1, 0, 1,
     0xc0, 0x0c, 0, 1, 0, 1, 0, 0, 0, 60, 0, 4, 93, 184, 216, 34]"

lemma example_reply_accepted: "dns_response_matches example_reply 0x1234 ''a.ir'' 1 = Some True"
  by code_simp

theorem accepted_reply_answers_the_query_witness:
  "\<exists>as rest. same_name as (name_labels ''a.ir'') \<and> 12 \<le> length example_reply
    \<and> be16 (example_reply ! 0) (example_reply ! 1) = 0x1234 \<and> example_reply ! 2 AND 0x80 \<noteq> 0
    \<and> be16 (example_reply ! 4) (example_reply ! 5) = 1
    \<and> drop 12 example_reply = wire_name as @ be16_bytes 1 @ rest"
  by (rule accepted_reply_answers_the_query [OF example_reply_accepted])


lemma dns_query_labels_wire: "dns_query_labels ls = labels_wire (filter (\<lambda>l. l \<noteq> []) ls)"
  by (induction ls) (auto simp: labels_wire_def)

lemma socks_query_labels_wire: "socks_query_labels ls = labels_wire ls"
  by (induction ls) (auto simp: labels_wire_def)

lemma exit_query_labels_wire:
  "\<forall>l \<in> set ls. length l < 64 \<Longrightarrow> exit_query_labels ls = labels_wire (filter (\<lambda>l. l \<noteq> []) ls)"
  by (induction ls) (auto simp: labels_wire_def label_bytes_def)

text \<open>
  The header of a reply: the query's id, flags \<open>f0 f1\<close> with the response bit, one question,
  and the record counts.
\<close>

definition reply_header :: "u16 \<Rightarrow> u8 \<Rightarrow> u8 \<Rightarrow> u16 \<Rightarrow> bytes \<Rightarrow> bytes" where
  "reply_header i f0 f1 ancount counts = be16_bytes i @ [f0, f1, 0, 1] @ be16_bytes ancount @ counts"

lemma reply_header_fields:
  assumes "length counts = 4"
  shows "length (reply_header i f0 f1 an counts) = 12"
    "be16 (reply_header i f0 f1 an counts ! 0) (reply_header i f0 f1 an counts ! 1) = i"
    "reply_header i f0 f1 an counts ! 2 = f0"
    "be16 (reply_header i f0 f1 an counts ! 4) (reply_header i f0 f1 an counts ! 5) = 1"
    "be16 (reply_header i f0 f1 an counts ! 6) (reply_header i f0 f1 an counts ! 7) = an"
proof -
  obtain a b where ab: "be16_bytes i = [a, b]" "be16 a b = i" by (rule be16_bytes_cases)
  obtain c d where cd: "be16_bytes an = [c, d]" "be16 c d = an" by (rule be16_bytes_cases)
  have h: "reply_header i f0 f1 an counts = a # b # f0 # f1 # 0 # 1 # c # d # counts"
    by (simp add: reply_header_def ab cd)
  have one: "be16 0 1 = 1" by (simp add: be16_def from_be_def)
  show "length (reply_header i f0 f1 an counts) = 12"
    "be16 (reply_header i f0 f1 an counts ! 0) (reply_header i f0 f1 an counts ! 1) = i"
    "reply_header i f0 f1 an counts ! 2 = f0"
    "be16 (reply_header i f0 f1 an counts ! 4) (reply_header i f0 f1 an counts ! 5) = 1"
    "be16 (reply_header i f0 f1 an counts ! 6) (reply_header i f0 f1 an counts ! 7) = an"
    unfolding h using assms ab(2) cd(2) one by simp_all
qed

text \<open>A well-formed answer to the resolver's question is accepted (the server may change the
  letter case of the name) and yields the first A record of the answer section, past any
  records of other types such as a CNAME chain; without an A record it yields none.\<close>

theorem resolver_reads_first_a_record:
  assumes "same_name as (name_labels name)" and "\<forall>l \<in> set as. wire_label l"
    and "\<forall>l \<in> set (split_by dot name). length l < 256"
    and "f0 AND 0x80 \<noteq> 0" and "length counts = 4" and "\<forall>r \<in> set rs. rr_ok r" and "length rs < 65536"
    and msg: "msg = reply_header i f0 f1 (of_nat (length rs)) counts @ wire_name as
      @ (be16_bytes 1 @ [0, 1]) @ concat (map rr_bytes rs) @ ys"
  shows "dns_response_matches msg i name 1 = Some True
    \<and> parse_dns_a msg = Some (case filter (\<lambda>r. rr_type r = 1 \<and> length (rr_data r) = 4) rs of
        [] \<Rightarrow> None
      | r # _ \<Rightarrow> Some (V4 (ipv4_of (rr_data r ! 0) (rr_data r ! 1) (rr_data r ! 2) (rr_data r ! 3))))"
proof
  let ?h = "reply_header i f0 f1 (of_nat (length rs)) counts"
  let ?q = "(be16_bytes 1 @ [0, 1]) @ concat (map rr_bytes rs) @ ys"
  note h = reply_header_fields [OF assms(5), of i f0 f1 "of_nat (length rs)"]
  have bit: "?h ! 2 AND 0x80 \<noteq> 0" using assms(4) unfolding h(3) .
  have "4 \<le> length ?q" by simp
  from question_prefix_echo [OF assms(1,3) h(1,2) bit h(4) this]
  have qp: "question_prefix msg i name = Some (Some (12 + length (wire_name as)))"
    by (simp only: msg append_assoc)
  have "get msg (12 + length (wire_name as) + k) = get ?q k" for k
    using get_append_right [of "?h @ wire_name as" ?q k] h(1) by (simp only: msg append_assoc length_append)
  then have "get msg (12 + length (wire_name as)) = get ?q 0" "get msg (12 + length (wire_name as) + 1) = get ?q 1"
    by (metis add_0_right, blast)
  moreover have "be16_bytes 1 = [0, 1]" by (simp add: be16_bytes_def to_be_2)
  ultimately have "get msg (12 + length (wire_name as)) = Some 0" "get msg (12 + length (wire_name as) + 1) = Some 1"
    by (simp_all add: get_def)
  then show "dns_response_matches msg i name 1 = Some True"
    by (simp add: dns_response_matches_def qp) (simp add: be16_def from_be_def)
next
  let ?h = "reply_header i f0 f1 (of_nat (length rs)) counts"
  note h = reply_header_fields [OF assms(5), of i f0 f1 "of_nat (length rs)"]
  define g where "g ty d = (if ty = (1 :: u16) \<and> length (d :: bytes) = 4
    then Some (Some (V4 (ipv4_of (d ! 0) (d ! 1) (d ! 2) (d ! 3)))) else None)" for ty d
  have at: "(if ty = 1 \<and> length d = 4 then do {
            a \<leftarrow> idx msg pos; b \<leftarrow> idx msg (pos + 1);
            c \<leftarrow> idx msg (pos + 2); d \<leftarrow> idx msg (pos + 3);
            Some (Some (Some (V4 (ipv4_of a b c d))))
          } else Some None) = Some (g ty d)"
    if sl: "slice msg pos (pos + length d) = Some d" for ty d pos
  proof (cases "ty = 1 \<and> length d = 4")
    case True
    with sl have "pos + 4 \<le> length msg" "d = take 4 (drop pos msg)"
      by (auto simp: slice_def split: if_splits)
    then have "msg ! pos = d ! 0" "msg ! Suc pos = d ! 1" "msg ! (pos + 2) = d ! 2" "msg ! (pos + 3) = d ! 3"
      by simp_all
    with True \<open>pos + 4 \<le> length msg\<close> show ?thesis by (simp add: g_def)
  qed (auto simp: g_def)
  have "parse_dns_a msg = Some (dns.pick g rs)"
    unfolding parse_dns_a_def
    by (rule dns.walk_message_pick [OF h(1,4,5) assms(7,2) _ assms(6) msg]) (simp, rule at)
  moreover have "dns.pick g rs = (case filter (\<lambda>r. rr_type r = 1 \<and> length (rr_data r) = 4) rs of
        [] \<Rightarrow> None
      | r # _ \<Rightarrow> Some (V4 (ipv4_of (rr_data r ! 0) (rr_data r ! 1) (rr_data r ! 2) (rr_data r ! 3))))"
    by (induction rs) (auto simp: g_def)
  ultimately show "parse_dns_a msg = Some (case filter (\<lambda>r. rr_type r = 1 \<and> length (rr_data r) = 4) rs of
        [] \<Rightarrow> None
      | r # _ \<Rightarrow> Some (V4 (ipv4_of (rr_data r ! 0) (rr_data r ! 1) (rr_data r ! 2) (rr_data r ! 3))))" by simp
qed

definition example_cname :: rr where
  "example_cname = \<lparr>rr_name = Pointer 0x0c, rr_type = 5, rr_class_ttl = [0, 1, 0, 0, 0, 60], rr_data = [1, 0x62, 0]\<rparr>"

definition example_a :: rr where
  "example_a = \<lparr>rr_name = Spelled [''b''], rr_type = 1, rr_class_ttl = [0, 1, 0, 0, 0, 60], rr_data = [93, 184, 216, 34]\<rparr>"

theorem resolver_reads_first_a_record_witness:
  "let msg = reply_header 7 0x80 0x80 2 [0, 0, 0, 0] @ wire_name [''A'', ''ir''] @ (be16_bytes 1 @ [0, 1])
     @ concat (map rr_bytes [example_cname, example_a])
   in dns_response_matches msg 7 ''a.ir'' 1 = Some True
     \<and> parse_dns_a msg = Some (Some (V4 (ipv4_of 93 184 216 34)))"
proof -
  have n: "name_labels ''a.ir'' = [''a'', ''ir'']" by (simp add: name_labels_def dot_def)
  have c: "same_name [''A'', ''ir''] (name_labels ''a.ir'')"
    unfolding n by (simp add: same_name_def eq_ignore_ascii_case_def ascii_lower_def byte_of_def)
  have w: "\<forall>l \<in> set [''A'', ''ir'']. wire_label l" by (simp add: wire_label_def)
  have l: "\<forall>l \<in> set (split_by dot ''a.ir''). length l < 256" by (simp add: dot_def)
  have r: "\<forall>r \<in> set [example_cname, example_a]. rr_ok r"
    by (simp add: rr_ok_def example_cname_def example_a_def wire_label_def)
  have f: "(0x80 :: u8) AND 0x80 \<noteq> 0" by simp
  have n4: "length [0 :: u8, 0, 0, 0] = 4" and n2: "length [example_cname, example_a] < 65536" by simp_all
  from resolver_reads_first_a_record [OF c w l f n4 r n2 refl, of "7" "0x80" "[]"] show ?thesis
    by (simp add: example_cname_def example_a_def Let_def)
qed

text \<open>A name with a trailing dot is not resolvable through the SOCKS resolver: its query has an
  empty label before the root, which ends the name early, so the reply that repeats the
  query's question is rejected (the matcher skips empty labels, the builder does not).\<close>

theorem trailing_dot_query_is_rejected:
  assumes "\<forall>l \<in> set (name_labels name). length l < 256"
    and "split_by dot name = name_labels name @ [[]]"
    and "f0 AND 0x80 \<noteq> 0" and "length counts = 4"
    and "socks_build_query name 1 i = query_header i @ question"
  shows "dns_response_matches (reply_header i f0 f1 an counts @ question @ answers) i name 1 = Some False"
proof -
  let ?h = "reply_header i f0 f1 an counts" and ?ls = "name_labels name"
  let ?q = "[0] @ be16_bytes 1 @ [0, 1] @ answers"
  note h = reply_header_fields [OF assms(4), of i f0 f1 an]
  have "question = wire_name ?ls @ [0] @ be16_bytes 1 @ [0, 1]"
    using assms(5) by (simp add: socks_build_query_def socks_query_labels_wire assms(2) labels_wire_def
        wire_name_def label_bytes_def)
  then have msg: "?h @ question @ answers = ?h @ wire_name ?ls @ ?q" by simp
  have bit: "?h ! 2 AND 0x80 \<noteq> 0" using assms(3) unfolding h(3) .
  have small: "\<forall>l \<in> set (split_by dot name). length l < 256" using assms(1,2) by simp
  have "4 \<le> length ?q" by simp
  from question_prefix_echo [OF same_name_refl small h(1,2) bit h(4) this]
  have qp: "question_prefix (?h @ question @ answers) i name = Some (Some (12 + length (wire_name ?ls)))"
    unfolding msg .
  have "get (?h @ wire_name ?ls @ ?q) (12 + length (wire_name ?ls) + k) = get ?q k" for k
    using get_append_right [of "?h @ wire_name ?ls" ?q k] h(1) by (simp only: append_assoc length_append)
  then have "get (?h @ wire_name ?ls @ ?q) (12 + length (wire_name ?ls)) = get ?q 0"
    "get (?h @ wire_name ?ls @ ?q) (12 + length (wire_name ?ls) + 1) = get ?q 1"
    by (metis add_0_right, blast)
  then have "get (?h @ wire_name ?ls @ ?q) (12 + length (wire_name ?ls)) = Some 0"
    "get (?h @ wire_name ?ls @ ?q) (12 + length (wire_name ?ls) + 1) = Some 0"
    by (simp_all add: get_def be16_bytes_def to_be_2)
  then show ?thesis
    unfolding msg [symmetric]
    by (simp add: dns_response_matches_def qp) (simp add: be16_def from_be_def)
qed

theorem trailing_dot_query_is_rejected_witness:
  "socks_build_query ''a.'' 1 7 = query_header 7 @ [1, 0x61, 0, 0, 0, 1, 0, 1]
   \<and> dns_response_matches (reply_header 7 0x80 0x80 0 [0, 0, 0, 0] @ [1, 0x61, 0, 0, 0, 1, 0, 1] @ []) 7 ''a.'' 1
     = Some False"
proof -
  have s: "split_by dot ''a.'' = [''a'', []]" by (simp add: dot_def)
  have n: "name_labels ''a.'' = [''a'']" by (simp add: name_labels_def dot_def)
  have q: "socks_build_query ''a.'' 1 7 = query_header 7 @ [1, 0x61, 0, 0, 0, 1, 0, 1]"
    by (simp add: socks_build_query_def dot_def label_bytes_def byte_of_def be16_bytes_def to_be_2)
  show ?thesis
    using q trailing_dot_query_is_rejected [of "''a.''" "0x80" "[0, 0, 0, 0]" "7" "[1, 0x61, 0, 0, 0, 1, 0, 1]" "0x80" "0" "[]"]
    by (simp add: s n dot_def)
qed

end
