(* ===== verification/Ipv4_Text.thy ===== *)
theory Ipv4_Text
  imports Prelude
begin

text \<open>
  The dotted decimal text of an IPv4 address: what \<open>to_string\<close> prints, \<open>parse\<close> reads back, with
  blanks around it or not.
\<close>

lemma of_char_neq: "(of_char c :: nat) \<noteq> of_char d \<Longrightarrow> c \<noteq> d"
  by auto

lemma digit_char:
  assumes "d < 10"
  shows "digit_val (char_of (48 + d)) = Some d" "\<not> is_ws (char_of (48 + d))" "char_of (48 + d) \<noteq> CHR ''.''"
    "byte_of (char_of (48 + d)) < 0x80" "char_of (48 + d) = CHR ''0'' \<longleftrightarrow> d = 0"
proof -
  have n: "(of_char (char_of (48 + d) :: char) :: nat) = 48 + d" using assms by simp
  show "digit_val (char_of (48 + d)) = Some d" "\<not> is_ws (char_of (48 + d))"
    using assms by (simp_all add: digit_val_def is_ws_def Let_def)
  show "char_of (48 + d) \<noteq> CHR ''.''"
    by (rule of_char_neq) (simp only: n, simp)
  have "d \<noteq> 0 \<Longrightarrow> char_of (48 + d) \<noteq> CHR ''0''"
    by (rule of_char_neq) (simp only: n, simp)
  then show "char_of (48 + d) = CHR ''0'' \<longleftrightarrow> d = 0"
    by (cases "d = 0") (simp_all add: char_of_eq_iff)
  have "unat (byte_of (char_of (48 + d))) = 48 + d"
    using assms by (simp only: byte_of_def n unat_of_nat_u8) simp
  then show "byte_of (char_of (48 + d)) < 0x80"
    using assms by (simp add: word_less_nat_alt)
qed

lemma show_nat_digit: "n < 10 \<Longrightarrow> show_nat n = [char_of (48 + n)]"
  by (subst show_nat.simps) simp

lemma show_nat_step: "10 \<le> n \<Longrightarrow> show_nat n = show_nat (n div 10) @ [char_of (48 + n mod 10)]"
  by (subst show_nat.simps) simp

lemma octet_text:
  assumes "n < 256"
  shows "parse_octet (show_nat n) = Some (of_nat n)" "\<not> is_ws (hd (show_nat n))" "\<not> is_ws (last (show_nat n))"
     "\<forall>c \<in> set (show_nat n). c \<noteq> CHR ''.''" "\<forall>c \<in> set (show_nat n). byte_of c < 0x80"
     "length (show_nat n) \<le> 3" "show_nat n \<noteq> []"
proof -
  let ?c = "\<lambda>d. char_of (48 + d)"
  obtain ds where ds: "show_nat n = map ?c ds" "ds \<noteq> []" "length ds \<le> 3" "\<forall>d \<in> set ds. d < 10"
    "length ds \<noteq> 1 \<longrightarrow> hd ds \<noteq> 0" "foldl (\<lambda>a d. 10 * a + d) 0 ds = n"
  proof -
    consider "n < 10" | "10 \<le> n" "n < 100" | "100 \<le> n" using assms by linarith
    then show thesis
    proof cases
      case 1
      then show thesis by (intro that [of "[n]"]) (simp_all add: show_nat_digit)
    next
      case 2
      then have "n div 10 < 10" "n div 10 \<noteq> 0" "10 * (n div 10) + n mod 10 = n" by presburger+
      moreover from this 2 have "show_nat n = map ?c [n div 10, n mod 10]"
        by (simp add: show_nat_step [of n] show_nat_digit [of "n div 10"])
      ultimately show thesis
        by (intro that [of "[n div 10, n mod 10]"]) simp_all
    next
      case 3
      have q: "n div 10 div 10 = n div 100" by (simp add: div_mult2_eq [of n 10 10, symmetric])
      have b: "10 \<le> n" "10 \<le> n div 10" "n div 100 < 10" "n div 100 \<noteq> 0" using 3 assms by linarith+
      have "10 * (10 * (n div 100) + n div 10 mod 10) + n mod 10 = n"
        using mult_div_mod_eq [of 10 n] mult_div_mod_eq [of 10 "n div 10"] unfolding q by (simp only:)
      moreover have "show_nat n = map ?c [n div 100, n div 10 mod 10, n mod 10]"
        using b by (simp add: show_nat_step [of n] show_nat_step [of "n div 10"] show_nat_digit [of "n div 100"] q)
      moreover note b
      ultimately show thesis
        by (intro that [of "[n div 100, n div 10 mod 10, n mod 10]"]) simp_all
    qed
  qed
  have digits: "parse_digits 255 a (map ?c ds) = Some (foldl (\<lambda>a d. 10 * a + d) a ds)"
    if "\<forall>d \<in> set ds. d < 10" "foldl (\<lambda>a d. 10 * a + d) a ds \<le> 255" for a ds
    using that
  proof (induction ds arbitrary: a)
    case (Cons d ds)
    have "b \<le> foldl (\<lambda>a d. 10 * a + d) b ds" for b
    proof (induction ds arbitrary: b)
      case (Cons d ds)
      show ?case using Cons.IH [of "10 * b + d"] by simp
    qed simp
    from this [of "10 * a + d"] show ?case using Cons by (simp add: digit_char(1))
  qed simp
  have "hd (map ?c ds) = CHR ''0'' \<longleftrightarrow> hd ds = 0"
    using ds(2,4) by (cases ds) (simp_all add: digit_char(5))
  then show "parse_octet (show_nat n) = Some (of_nat n)"
    using ds digits [OF ds(4), of 0] assms by (auto simp: parse_octet_def)
  show "\<not> is_ws (hd (show_nat n))" "\<not> is_ws (last (show_nat n))"
    using ds by (simp_all add: hd_map last_map digit_char(2))
  show "\<forall>c \<in> set (show_nat n). c \<noteq> CHR ''.''" "\<forall>c \<in> set (show_nat n). byte_of c < 0x80"
    using ds by (auto simp: digit_char(3,4))
  show "length (show_nat n) \<le> 3" "show_nat n \<noteq> []" using ds by simp_all
qed

lemma split_by_no_sep: "\<forall>c \<in> set s. \<not> p c \<Longrightarrow> split_by p s = [s]"
  by (induction s) simp_all

lemma split_by_append: "\<forall>c \<in> set a. \<not> p c \<Longrightarrow> p x \<Longrightarrow> split_by p (a @ x # b) = a # split_by p b"
  by (induction a) simp_all

lemma trim_id: "s \<noteq> [] \<Longrightarrow> \<not> is_ws (hd s) \<Longrightarrow> \<not> is_ws (last s) \<Longrightarrow> trim s = s"
proof -
  assume a: "s \<noteq> []" "\<not> is_ws (hd s)" "\<not> is_ws (last s)"
  have "dropWhile is_ws s = s" using a(1,2) by (cases s) simp_all
  moreover have "dropWhile is_ws (rev s) = rev s"
    using a(1,3) by (cases s rule: rev_cases) simp_all
  ultimately show ?thesis by (simp add: trim_def trim_start_by_def trim_end_by_def)
qed

lemma show_ipv4_text:
  obtains s where "show_ipv4 w = s" "parse_ipv4 (trim s) = Some w" "s \<noteq> []" "length s < 16"
    "\<forall>b \<in> set (as_bytes s). b < 0x80"
proof -
  obtain a b c d where w: "ipv4_octets w = [a, b, c, d]" "w = ipv4_of a b c d" by (rule ipv4_octets_cases)
  let ?t = "\<lambda>x :: u8. show_nat (unat x)"
  note t = octet_text [OF unat_u8_less, unfolded of_nat_unat_u8]
  let ?s = "?t a @ ''.'' @ ?t b @ ''.'' @ ?t c @ ''.'' @ ?t d"
  have s: "show_ipv4 w = ?s" by (simp add: show_ipv4_def w(1))
  have "split_by (\<lambda>c. c = CHR ''.'') ?s = [?t a, ?t b, ?t c, ?t d]"
    using t(4) by (simp add: split_by_append split_by_no_sep)
  moreover have "trim ?s = ?s"
    by (rule trim_id) (use t(2,3,7) in \<open>simp_all add: hd_append\<close>)
  ultimately have "parse_ipv4 (trim ?s) = Some w" by (simp add: parse_ipv4_def t(1) w(2))
  moreover have "length ?s < 16" using t(6) [of a] t(6) [of b] t(6) [of c] t(6) [of d] by simp
  moreover have "\<forall>b \<in> set (as_bytes ?s). b < 0x80"
    using t(5) by (auto simp: as_bytes_def byte_of_def)
  ultimately show thesis using that [OF s] t(7) by simp
qed

end
