(* ===== verification/Exit_Probe.thy ===== *)
theory Exit_Probe
  imports Checksum Dns Ipv4_Text
begin

text \<open>
  The measurement of the tunnel's exit address: \<^verbatim>\<open>exitip.rs\<close> (the probe packet and the
  recognition of its answer) and the state machine \<open>ExitProbe\<close> of \<^verbatim>\<open>tun.rs\<close>. Random values
  are arguments, instants are nanoseconds on a natural number, the exit address the code
  hands to the embedding app is returned by \<open>consume\<close>.
\<close>

section \<open>The probe\<close>

definition dns_port :: u16 where
  "dns_port = 53"

definition resolver :: ipv4 where
  "resolver = ipv4_of 1 1 1 1"

definition whoami_name :: string where
  "whoami_name = ''whoami.cloudflare''"

record probe =
  pb_packet :: bytes
  pb_sport :: u16
  pb_id :: u16
  pb_name :: string

definition build_udp_ipv4 :: "ipv4 \<Rightarrow> ipv4 \<Rightarrow> u16 \<Rightarrow> u16 \<Rightarrow> bytes \<Rightarrow> u16 \<Rightarrow> bytes panics" where
  "build_udp_ipv4 src dst sport dport payload ident = (
     let udp_len = 8 + length payload; total_len = 20 + udp_len;
       pkt = [0x45, 0x00] @ be16_bytes (of_nat total_len) @ be16_bytes ident @ [0x00, 0x00] @ [64] @ [17]
         @ [0x00, 0x00] @ ipv4_octets src @ ipv4_octets dst
     in do {
       head \<leftarrow> slice pkt 0 20;
       pkt \<leftarrow> put_slice pkt 10 (be16_bytes (fold_checksum (ones_complement_sum head 0)));
       let pkt = pkt @ be16_bytes sport @ be16_bytes dport @ be16_bytes (of_nat udp_len) @ [0x00, 0x00] @ payload;
       addrs \<leftarrow> slice pkt 12 20;
       udp \<leftarrow> slice pkt 20 (length pkt);
       let sum = ones_complement_sum addrs 0 + 17 + of_nat udp_len;
       let csum = fold_checksum (ones_complement_sum udp sum);
       let csum = (if csum = 0 then 0xffff else csum);
       put_slice pkt 26 (be16_bytes csum)
     })"

text \<open>\<open>whoami\<close> draws the transaction id, the port and the IP identification at random.\<close>

record probe_random =
  rnd_id :: u16
  rnd_port :: u16
  rnd_ident :: u16

definition whoami :: "ipv4 \<Rightarrow> probe_random \<Rightarrow> probe panics" where
  "whoami src r = (
     let i = rnd_id r; sport = 20000 + (rnd_port r mod 40000);
       query = exit_build_query i whoami_name 16 3
     in do {
       packet \<leftarrow> build_udp_ipv4 src resolver sport dns_port query (rnd_ident r);
       Some \<lparr>pb_packet = packet, pb_sport = sport, pb_id = i, pb_name = whoami_name\<rparr>
     })"

definition udp_payload :: "bytes \<Rightarrow> ipv4 \<Rightarrow> u16 \<Rightarrow> u16 \<Rightarrow> bytes option panics" where
  "udp_payload packet src sport dport =
     (if length packet < 20 then Some None
      else do {
        b0 \<leftarrow> idx packet 0;
        if drop_bit 4 b0 \<noteq> 4 then Some None
        else let ihl = unat (b0 AND 0x0f) * 4 in
          if ihl < 20 \<or> length packet < ihl + 8 then Some None
          else do {
            proto \<leftarrow> idx packet 9;
            if proto \<noteq> 17 then Some None
            else do {
              f0 \<leftarrow> idx packet 6; f1 \<leftarrow> idx packet 7;
              if be16 f0 f1 AND 0x1fff \<noteq> 0 then Some None
              else do {
                a \<leftarrow> idx packet 12; b \<leftarrow> idx packet 13; c \<leftarrow> idx packet 14; d \<leftarrow> idx packet 15;
                if ipv4_of a b c d \<noteq> src then Some None
                else do {
                  udp \<leftarrow> slice packet ihl (length packet);
                  s0 \<leftarrow> idx udp 0; s1 \<leftarrow> idx udp 1;
                  d0 \<leftarrow> idx udp 2; d1 \<leftarrow> idx udp 3;
                  if be16 s0 s1 \<noteq> sport \<or> be16 d0 d1 \<noteq> dport then Some None
                  else do {
                    l0 \<leftarrow> idx udp 4; l1 \<leftarrow> idx udp 5;
                    let len = unat (be16 l0 l1);
                    if len < 8 \<or> len > length udp then Some None
                    else map_option Some (slice udp 8 len)
                  }
                }
              }
            }
          }
      })"

definition probe_matches :: "probe \<Rightarrow> bytes \<Rightarrow> bool panics" where
  "probe_matches p packet = do {
     r \<leftarrow> udp_payload packet resolver dns_port (pb_sport p);
     (case r of
        None \<Rightarrow> Some False
      | Some payload \<Rightarrow> question_matches payload (pb_id p) (pb_name p) 16 3)
   }"

definition probe_read :: "probe \<Rightarrow> bytes \<Rightarrow> ipv4 option panics" where
  "probe_read p packet = do {
     r \<leftarrow> udp_payload packet resolver dns_port (pb_sport p);
     (case r of
        None \<Rightarrow> Some None
      | Some payload \<Rightarrow> do {
          txt \<leftarrow> first_txt_record payload;
          Some (case txt of None \<Rightarrow> None | Some s \<Rightarrow> parse_ipv4 (trim s))
        })
   }"

section \<open>The state machine\<close>

type_synonym instant = nat

definition from_millis :: "nat \<Rightarrow> nat" where
  "from_millis n = n * 1000000"

definition from_secs :: "nat \<Rightarrow> nat" where
  "from_secs n = n * 1000000000"

definition first_delay :: nat where
  "first_delay = from_millis 1200"

definition retry_gap :: nat where
  "retry_gap = from_secs 3"

definition max_attempts :: nat where
  "max_attempts = 4"

datatype probe_state =
    Idle
  | Waiting (wt_probe: probe) (wt_attempts: nat) (wt_next: instant)
  | Done

record exit_probe =
  ep_local_ipv4 :: ipv4
  ep_state :: probe_state
  ep_start_after :: "instant option"

definition probe_new :: "ipv4 \<Rightarrow> exit_probe" where
  "probe_new local = \<lparr>ep_local_ipv4 = local, ep_state = Idle, ep_start_after = None\<rparr>"

definition needs_ticking :: "exit_probe \<Rightarrow> bool" where
  "needs_ticking e \<longleftrightarrow> ep_state e \<noteq> Done"

definition arm :: "instant \<Rightarrow> exit_probe \<Rightarrow> exit_probe" where
  "arm now e = (case ep_start_after e of
      None \<Rightarrow> e\<lparr>ep_start_after := Some (now + first_delay)\<rparr>
    | Some _ \<Rightarrow> e)"

definition due :: "instant \<Rightarrow> probe_random \<Rightarrow> exit_probe \<Rightarrow> (exit_probe \<times> bytes option) panics" where
  "due now r e =
     (if ep_local_ipv4 e = 0 then Some (e\<lparr>ep_state := Done\<rparr>, None)
      else case ep_state e of
          Idle \<Rightarrow>
            (if \<not> (case ep_start_after e of Some t \<Rightarrow> t \<le> now | None \<Rightarrow> False) then Some (e, None)
             else do {
               p \<leftarrow> whoami (ep_local_ipv4 e) r;
               Some (e\<lparr>ep_state := Waiting p 1 (now + retry_gap)\<rparr>, Some (pb_packet p))
             })
        | Waiting p attempts next \<Rightarrow>
            (if now < next then Some (e, None)
             else if max_attempts \<le> attempts then Some (e\<lparr>ep_state := Done\<rparr>, None)
             else Some (e\<lparr>ep_state := Waiting p (attempts + 1) (now + retry_gap)\<rparr>, Some (pb_packet p)))
        | Done \<Rightarrow> Some (e, None))"

text \<open>The new state, the address reported, and whether the packet was the probe's.\<close>

definition consume :: "bytes \<Rightarrow> exit_probe \<Rightarrow> (exit_probe \<times> ipv4 option \<times> bool) panics" where
  "consume packet e =
     (case ep_state e of
        Waiting p attempts next \<Rightarrow> do {
          m \<leftarrow> probe_matches p packet;
          if \<not> m then Some (e, None, False)
          else do {
            ip \<leftarrow> probe_read p packet;
            Some (case ip of
                Some ip \<Rightarrow> (e\<lparr>ep_state := Done\<rparr>, Some ip, True)
              | None \<Rightarrow> (e, None, True))
          }
        }
      | _ \<Rightarrow> Some (e, None, False))"

section \<open>The packet that is built\<close>

definition udp_ip_head :: "nat \<Rightarrow> u16 \<Rightarrow> bytes" where
  "udp_ip_head tot ident = [0x45, 0x00] @ be16_bytes (of_nat tot) @ be16_bytes ident @ [0, 0, 64, 17]"

definition ip_addrs :: "ipv4 \<Rightarrow> ipv4 \<Rightarrow> bytes" where
  "ip_addrs src dst = ipv4_octets src @ ipv4_octets dst"

definition udp_ports :: "u16 \<Rightarrow> u16 \<Rightarrow> nat \<Rightarrow> bytes" where
  "udp_ports sport dport n = be16_bytes sport @ be16_bytes dport @ be16_bytes (of_nat n)"

lemma udp_part_lengths [simp]:
  "length (udp_ip_head tot ident) = 10" "length (ip_addrs src dst) = 8" "length (udp_ports s d n) = 6"
  by (simp_all add: udp_ip_head_def ip_addrs_def udp_ports_def)

lemma build_udp_ipv4_eq:
  "build_udp_ipv4 src dst sport dport payload ident = (
     let H = udp_ip_head (28 + length payload) ident; A = ip_addrs src dst;
       P = udp_ports sport dport (8 + length payload);
       ic = fold_checksum (ones_complement_sum (H @ [0, 0] @ A) 0);
       us = ones_complement_sum A 0 + 17 + of_nat (8 + length payload);
       uc = never_zero (fold_checksum (ones_complement_sum (P @ [0, 0] @ payload) us))
     in Some ((H @ be16_bytes ic @ A @ P) @ be16_bytes uc @ payload))"
proof -
  define H where "H = udp_ip_head (28 + length payload) ident"
  define A where "A = ip_addrs src dst"
  define P where "P = udp_ports sport dport (8 + length payload)"
  define ic where "ic = fold_checksum (ones_complement_sum (H @ [0, 0] @ A) 0)"
  define us where "us = ones_complement_sum A 0 + 17 + of_nat (8 + length payload)"
  define uc where "uc = never_zero (fold_checksum (ones_complement_sum (P @ [0, 0] @ payload) us))"
  have l: "length H = 10" "length A = 8" "length P = 6" by (simp_all add: H_def A_def P_def)
  have p0: "[0x45, 0x00] @ be16_bytes (of_nat (20 + (8 + length payload))) @ be16_bytes ident @ [0x00, 0x00] @ [64] @ [17]
         @ [0x00, 0x00] @ ipv4_octets src @ ipv4_octets dst = H @ [0, 0] @ A"
    by (simp add: H_def A_def udp_ip_head_def ip_addrs_def)
  have p1: "(H @ be16_bytes ic @ A) @ be16_bytes sport @ be16_bytes dport @ be16_bytes (of_nat (8 + length payload))
        @ [0x00, 0x00] @ payload = H @ be16_bytes ic @ A @ P @ [0, 0] @ payload"
    by (simp add: P_def udp_ports_def)
  have s0: "slice (H @ [0, 0] @ A) 0 20 = Some (H @ [0, 0] @ A)"
    by (simp add: slice_def l)
  have w0: "put_slice (H @ [0, 0] @ A) 10 (be16_bytes ic) = Some (H @ be16_bytes ic @ A)"
    by (rule put_slice_mid) (simp_all add: l)
  have s1: "slice (H @ be16_bytes ic @ A @ P @ [0, 0] @ payload) 12 20 = Some A"
    using slice_mid [of "H @ be16_bytes ic" 12 A 20 "P @ [0, 0] @ payload"] by (simp add: l)
  have s2: "slice (H @ be16_bytes ic @ A @ P @ [0, 0] @ payload) 20 (length (H @ be16_bytes ic @ A @ P @ [0, 0] @ payload))
      = Some (P @ [0, 0] @ payload)"
    using slice_to_end [of "H @ be16_bytes ic @ A" 20 "P @ [0, 0] @ payload"] by (simp add: l)
  have w1: "put_slice (H @ be16_bytes ic @ A @ P @ [0, 0] @ payload) 26 (be16_bytes uc)
      = Some ((H @ be16_bytes ic @ A @ P) @ be16_bytes uc @ payload)"
    using put_slice_mid [of "H @ be16_bytes ic @ A @ P" 26 "be16_bytes uc" "[0, 0]" payload] by (simp add: l)
  show ?thesis
    unfolding build_udp_ipv4_def Let_def p0 s0 ic_def [symmetric] w0 bind.bind_lunit p1 s1 s2
      H_def [symmetric] A_def [symmetric] P_def [symmetric] us_def [symmetric] uc_def [symmetric]
      never_zero_def [symmetric] w1
    by (simp add: w0 p1 s1 s2 w1 [simplified] uc_def [symmetric])
qed

lemma build_udp_ipv4_shape:
  obtains ic uc where
    "build_udp_ipv4 src dst sport dport payload ident =
      Some ((udp_ip_head (28 + length payload) ident @ be16_bytes ic @ ip_addrs src dst
        @ udp_ports sport dport (8 + length payload)) @ be16_bytes uc @ payload)"
  using that unfolding build_udp_ipv4_eq Let_def by blast

lemma runs_build_udp_ipv4 [no_panic]: "runs (build_udp_ipv4 src dst sport dport payload ident)"
  by (simp add: build_udp_ipv4_eq Let_def)

lemma runs_whoami [no_panic]: "runs (whoami src r)"
  unfolding whoami_def Let_def by (intro no_panic)

lemma runs_udp_payload [no_panic]: "runs (udp_payload packet src sport dport)"
  unfolding udp_payload_def Let_def
  by (intro no_panic) (auto simp: slice_def split: if_splits)

lemma runs_probe_matches [no_panic]: "runs (probe_matches p packet)"
  unfolding probe_matches_def by (intro no_panic)

lemma runs_probe_read [no_panic]: "runs (probe_read p packet)"
  unfolding probe_read_def by (intro no_panic)

lemma runs_due [no_panic]: "runs (due now r e)"
  unfolding due_def by (intro no_panic) (auto split: probe_state.split intro!: no_panic)

lemma runs_consume [no_panic]: "runs (consume packet e)"
  unfolding consume_def by (cases "ep_state e") (auto intro!: no_panic)

lemma udp_checksum_of_built:
  assumes "length payload \<le> 65507" and "build_udp_ipv4 src dst sport dport payload ident = Some pkt"
  shows "checksum_ok (take 20 pkt) \<and>
    checksum_ok (pseudo_header (ip_addrs src dst) 17 (8 + length payload) @ drop 20 pkt)"
proof -
  define H where "H = udp_ip_head (28 + length payload) ident"
  define A where "A = ip_addrs src dst"
  define P where "P = udp_ports sport dport (8 + length payload)"
  define ic where "ic = fold_checksum (ones_complement_sum (H @ [0, 0] @ A) 0)"
  define us where "us = ones_complement_sum (P @ [0, 0] @ payload)
     (ones_complement_sum A 0 + ucast (17 :: u8) + of_nat (8 + length payload))"
  define uc where "uc = never_zero (fold_checksum us)"
  have l: "length H = 10" "length A = 8" "length P = 6" by (simp_all add: H_def A_def P_def)
  have pkt: "pkt = (H @ be16_bytes ic @ A) @ (P @ be16_bytes uc @ payload)"
    using assms(2) unfolding build_udp_ipv4_eq Let_def H_def [symmetric] A_def [symmetric] P_def [symmetric]
    by (simp add: ic_def us_def uc_def)
  have "length (H @ be16_bytes ic @ A) = 20" by (simp add: l)
  then have "take 20 pkt = H @ be16_bytes ic @ A" "drop 20 pkt = P @ be16_bytes uc @ payload"
    unfolding pkt by (simp_all only: take_append drop_append) simp_all
  moreover have "checksum_ok (H @ be16_bytes ic @ A)"
    by (rule header_checksum_ok) (simp_all add: l ic_def)
  moreover have "checksum_ok (pseudo_header A 17 (8 + length payload) @ P @ be16_bytes uc @ payload)"
    by (rule transport_checksum_ok [OF _ _ _ _ _ us_def]) (use assms(1) in \<open>simp_all add: l uc_def\<close>)
  ultimately show ?thesis by (simp add: A_def)
qed

lemma nth_append_at: "length a = i \<Longrightarrow> (a @ b) ! (i + k) = b ! k"
  by (simp add: nth_append)

lemma udp_payload_of_built:
  assumes "length payload \<le> 65527" and "build_udp_ipv4 src dst sport dport payload ident = Some pkt"
  shows "udp_payload pkt src sport dport = Some (Some payload)"
proof -
  obtain ic uc where pkt: "pkt = (udp_ip_head (28 + length payload) ident @ be16_bytes ic @ ip_addrs src dst)
      @ udp_ports sport dport (8 + length payload) @ be16_bytes uc @ payload"
    using build_udp_ipv4_shape [of src dst sport dport payload ident] assms(2) by auto
  obtain t0 t1 where t: "be16_bytes (of_nat (28 + length payload)) = [t0, t1]" by (rule be16_bytes_cases)
  obtain i0 i1 where i: "be16_bytes ident = [i0, i1]" by (rule be16_bytes_cases)
  obtain c0 c1 where c: "be16_bytes ic = [c0, c1]" by (rule be16_bytes_cases)
  obtain a b d e where s: "ipv4_octets src = [a, b, d, e]" "src = ipv4_of a b d e" by (rule ipv4_octets_cases)
  obtain a' b' d' e' where s': "ipv4_octets dst = [a', b', d', e']" by (rule ipv4_octets_cases)
  let ?udp = "udp_ports sport dport (8 + length payload) @ be16_bytes uc @ payload"
  have p: "pkt = [0x45, 0, t0, t1, i0, i1, 0, 0, 64, 17, c0, c1, a, b, d, e, a', b', d', e'] @ ?udp"
    by (simp only: pkt udp_ip_head_def ip_addrs_def t i c s(1) s' append.simps append_assoc)
  have sl: "slice pkt 20 (length pkt) = Some ?udp"
    unfolding p by (rule slice_to_end) simp_all
  obtain p0 p1 where sp: "be16_bytes sport = [p0, p1]" "be16 p0 p1 = sport" by (rule be16_bytes_cases)
  obtain q0 q1 where dp: "be16_bytes dport = [q0, q1]" "be16 q0 q1 = dport" by (rule be16_bytes_cases)
  obtain l0 l1 where ln: "be16_bytes (of_nat (8 + length payload)) = [l0, l1]" "be16 l0 l1 = of_nat (8 + length payload)"
    by (rule be16_bytes_cases)
  obtain u0 u1 where u: "be16_bytes uc = [u0, u1]" by (rule be16_bytes_cases)
  have udp: "?udp = [p0, p1, q0, q1, l0, l1, u0, u1] @ payload" by (simp only: udp_ports_def sp(1) dp(1) ln(1) u append.simps append_assoc)
  have len: "unat (be16 l0 l1) = 8 + length payload"
    unfolding ln(2) using assms(1) by (intro unat_of_nat_u16) simp
  have len': "256 * unat l0 + unat l1 = 8 + length payload" using len by simp
  have pay: "slice ?udp 8 (8 + length payload) = Some payload"
    unfolding udp by (rule slice_to_end) simp_all
  have z: "be16 0 0 = 0" by (simp add: be16_def from_be_def)
  show ?thesis
    unfolding udp_payload_def
    using sl pay by (simp add: p udp s(2) sp(2) dp(2) len' z Let_def)
qed

section \<open>Runs of the state machine\<close>

text \<open>
  What the bridge does to the probe: it arms it when traffic leaves, asks it for a packet on
  every wake-up, and shows it every inbound packet. A run keeps the history of the events
  and the packets sent, with the instant of each.
\<close>

datatype probe_event = Arm instant | Due instant probe_random | Inbound bytes

inductive probe_step :: "exit_probe \<Rightarrow> probe_event \<Rightarrow> (instant \<times> bytes) list \<Rightarrow> exit_probe \<Rightarrow> bool" where
  step_arm: "probe_step e (Arm now) [] (arm now e)"
| step_due: "due now r e = Some (e', out) \<Longrightarrow>
    probe_step e (Due now r) (case out of None \<Rightarrow> [] | Some p \<Rightarrow> [(now, p)]) e'"
| step_inbound: "consume packet e = Some (e', ip, own) \<Longrightarrow> probe_step e (Inbound packet) [] e'"

inductive probe_run :: "ipv4 \<Rightarrow> probe_event list \<Rightarrow> (instant \<times> bytes) list \<Rightarrow> exit_probe \<Rightarrow> bool" where
  run_new: "probe_run local [] [] (probe_new local)"
| run_step: "probe_run local evs sent e \<Longrightarrow> probe_step e ev out e' \<Longrightarrow>
    probe_run local (evs @ [ev]) (sent @ out) e'"

inductive_cases probe_stepE: "probe_step e ev out e'"

fun first_arm :: "probe_event list \<Rightarrow> instant option" where
  "first_arm [] = None"
| "first_arm (Arm now # evs) = Some now"
| "first_arm (ev # evs) = first_arm evs"

lemma first_arm_snoc:
  "first_arm (evs @ [ev]) = (case first_arm evs of Some t \<Rightarrow> Some t | None \<Rightarrow> first_arm [ev])"
  by (induction evs rule: first_arm.induct) simp_all

definition spaced :: "(instant \<times> bytes) list \<Rightarrow> bool" where
  "spaced sent \<longleftrightarrow> successively (\<lambda>a b. fst a + retry_gap \<le> fst b) sent"

definition probe_inv :: "ipv4 \<Rightarrow> probe_event list \<Rightarrow> (instant \<times> bytes) list \<Rightarrow> exit_probe \<Rightarrow> bool" where
  "probe_inv local evs sent e \<longleftrightarrow>
     ep_local_ipv4 e = local
     \<and> ep_start_after e = map_option (\<lambda>t. t + first_delay) (first_arm evs)
     \<and> spaced sent \<and> length sent \<le> max_attempts
     \<and> (\<forall>x \<in> set sent. snd x = snd (hd sent))
     \<and> (sent \<noteq> [] \<longrightarrow> local \<noteq> 0 \<and> (\<exists>t. first_arm evs = Some t \<and> t + first_delay \<le> fst (hd sent)))
     \<and> (case ep_state e of
          Idle \<Rightarrow> sent = []
        | Waiting p n next \<Rightarrow> sent \<noteq> [] \<and> length sent = n \<and> snd (hd sent) = pb_packet p
            \<and> next = fst (last sent) + retry_gap
        | Done \<Rightarrow> True)"

lemma successively_snoc:
  "successively P (xs @ [x]) \<longleftrightarrow> successively P xs \<and> (xs \<noteq> [] \<longrightarrow> P (last xs) x)"
  by (auto simp: successively_append_iff)

lemma arm_inv: "probe_inv local evs sent e \<Longrightarrow> probe_inv local (evs @ [Arm now]) sent (arm now e)"
  by (auto simp: probe_inv_def arm_def first_arm_snoc split: option.splits)

lemma consume_state: "consume packet e = Some (e', ip, own) \<Longrightarrow> e' = e \<or> e' = e\<lparr>ep_state := Done\<rparr>"
  by (auto simp: consume_def bind_eq_Some_conv split: probe_state.splits if_splits option.splits)

lemma done_inv:
  "probe_inv local evs sent e \<Longrightarrow> first_arm [ev] = None \<Longrightarrow>
   probe_inv local (evs @ [ev]) sent e \<and> probe_inv local (evs @ [ev]) sent (e\<lparr>ep_state := Done\<rparr>)"
  by (auto simp: probe_inv_def first_arm_snoc split: option.splits)

lemma due_inv:
  assumes inv: "probe_inv local evs sent e" and "due now r e = Some (e', out)"
  shows "probe_inv local (evs @ [Due now r]) (sent @ (case out of None \<Rightarrow> [] | Some p \<Rightarrow> [(now, p)])) e'"
proof -
  have fa: "first_arm (evs @ [Due now r]) = first_arm evs" by (simp add: first_arm_snoc split: option.split)
  have stay: "out = None \<Longrightarrow> e' = e \<or> e' = e\<lparr>ep_state := Done\<rparr> \<Longrightarrow> ?thesis"
    using done_inv [OF inv, of "Due now r"] by auto
  show ?thesis
  proof (cases "ep_local_ipv4 e = 0")
    case True
    then show ?thesis using assms(2) stay by (simp add: due_def)
  next
    case loc: False
    show ?thesis
    proof (cases "ep_state e")
      case Idle
      then have sent: "sent = []" using inv by (simp add: probe_inv_def)
      show ?thesis
        using assms loc Idle stay
        by (cases "first_arm evs")
          (auto simp: due_def probe_inv_def fa sent spaced_def max_attempts_def bind_eq_Some_conv split: if_splits)
    next
      case (Waiting p n nxt)
      then have sent: "sent \<noteq> []" "length sent = n" "snd (hd sent) = pb_packet p" "nxt = fst (last sent) + retry_gap"
        using inv by (simp_all add: probe_inv_def)
      show ?thesis
        using assms loc Waiting stay sent
        by (auto simp: due_def probe_inv_def fa spaced_def successively_snoc split: if_splits)
    next
      case Done
      then show ?thesis using assms(2) loc stay by (simp add: due_def)
    qed
  qed
qed

lemma probe_run_inv: "probe_run local evs sent e \<Longrightarrow> probe_inv local evs sent e"
proof (induction rule: probe_run.induct)
  case (run_new local)
  then show ?case by (simp add: probe_inv_def probe_new_def spaced_def)
next
  case (run_step local evs sent e ev out e')
  show ?case
    using run_step.hyps(2) arm_inv [OF run_step.IH] due_inv [OF run_step.IH] done_inv [OF run_step.IH]
    by (auto elim!: probe_stepE dest!: consume_state)
qed

section \<open>The answer\<close>

text \<open>The message of the answer: the probe's question, then one TXT record.\<close>

definition whoami_answer :: "u16 \<Rightarrow> string list \<Rightarrow> rr \<Rightarrow> bytes" where
  "whoami_answer i as r =
     reply_header i 0x81 0x80 1 [0, 0, 0, 0] @ wire_name as @ (be16_bytes 16 @ be16_bytes 3) @ rr_bytes r"

text \<open>The strings of a TXT record depend on its data alone.\<close>

lemma txt_strings_shift:
  assumes "slice msg pos (pos + length d) = Some d" and "p \<le> length d"
  shows "txt_strings_from msg (pos + length d) (pos + p) out = txt_strings_from d (length d) p out"
  using assms(2)
proof (induction "length d - p" arbitrary: p out rule: less_induct)
  case less
  from assms(1) have fit: "pos + length d \<le> length msg" and d: "d = take (length d) (drop pos msg)"
    by (auto simp: slice_def split: if_splits)
  show ?case
  proof (cases "p < length d")
    case True
    then have at: "msg ! (pos + p) = d ! p" using fit by (subst d) simp
    show ?thesis
    proof (cases "p + 1 + unat (d ! p) \<le> length d")
      case fits: True
      let ?q = "p + 1 + unat (d ! p)"
      have "take (unat (d ! p)) (drop (p + 1) d) = take (unat (d ! p)) (drop (pos + (p + 1)) msg)"
        using fits by (subst (2) d) (simp add: drop_take min_def add.commute)
      then have "slice msg (pos + p + 1) (pos + p + 1 + unat (d ! p)) = slice d (p + 1) ?q"
        using fits fit by (simp add: slice_def add.assoc)
      moreover have "txt_strings_from msg (pos + length d) (pos + ?q) out' = txt_strings_from d (length d) ?q out'" for out'
        by (rule less.hyps) (use True fits in auto)
      ultimately show ?thesis
        using True fits fit at by (subst (1 2) txt_strings_from.simps) (simp add: add.assoc [symmetric])
    next
      case False
      then show ?thesis
        using True fit at by (subst (1 2) txt_strings_from.simps) (simp add: add.assoc [symmetric])
    qed
  next
    case False
    then show ?thesis using less.prems by (subst (1 2) txt_strings_from.simps) simp
  qed
qed

definition txt_of :: "bytes \<Rightarrow> string option" where
  "txt_of d = (case txt_strings_from d (length d) 0 [] of
      Some (Some out) \<Rightarrow> if out = [] then None else Some out
    | _ \<Rightarrow> None)"

definition txt_handler :: "u16 \<Rightarrow> bytes \<Rightarrow> string option option" where
  "txt_handler ty d = (if ty = 16 then Some (txt_of d) else None)"

lemma txt_record_value:
  assumes "slice msg pos (pos + length d) = Some d"
  shows "Option.bind (txt_strings_from msg (pos + length d) pos []) (\<lambda>r. Some (Some (case r of
      None \<Rightarrow> None | Some out \<Rightarrow> if out = [] then None else Some out))) = Some (Some (txt_of d))"
proof -
  have "runs (txt_strings_from d (length d) 0 [])" by (rule runs_txt_strings_from) simp
  then show ?thesis
    using txt_strings_shift [OF assms, of 0 "[]"]
    by (cases "txt_strings_from d (length d) 0 []") (simp_all add: txt_of_def split: option.split)
qed

lemma txt_of_one:
  assumes "t \<noteq> []" and "length t < 256" and "\<forall>b \<in> set t. b < 0x80"
  shows "txt_of (of_nat (length t) # t) = Some (of_bytes t)"
proof -
  have "unat (of_nat (length t) :: u8) = length t" using assms(2) by simp
  moreover have "txt_strings_from (of_nat (length t) # t) (Suc (length t)) (Suc (length t)) out = Some (Some out)" for out
    by (subst txt_strings_from.simps) simp
  moreover have "slice (of_nat (length t) # t) (Suc 0) (Suc (length t)) = Some t" by (simp add: slice_def)
  ultimately have "txt_strings_from (of_nat (length t) # t) (Suc (length t)) 0 [] = Some (Some (of_bytes t))"
    by (subst txt_strings_from.simps) (simp add: utf8_lossy_ascii [OF assms(3)])
  then show ?thesis using assms(1) by (simp add: txt_of_def of_bytes_def)
qed

lemma whoami_answer_read:
  assumes "rr_ok r" and "rr_type r = 16" and "same_name as (name_labels name)"
    and "\<forall>l \<in> set as. wire_label l" and "\<forall>l \<in> set (split_by dot name). length l < 256"
  shows "question_matches (whoami_answer i as r) i name 16 3 = Some True"
    "first_txt_record (whoami_answer i as r) = Some (txt_of (rr_data r))"
proof -
  let ?h = "reply_header i 0x81 0x80 1 [0, 0, 0, 0]" and ?q = "be16_bytes 16 @ be16_bytes 3"
  let ?msg = "whoami_answer i as r"
  have l4: "length [0 :: u8, 0, 0, 0] = 4" by simp
  note h = reply_header_fields [OF l4, of i "0x81" "0x80" "1"]
  have msg: "?msg = ?h @ wire_name as @ ?q @ concat (map rr_bytes [r]) @ []"
    by (simp add: whoami_answer_def)
  have "first_txt_record ?msg = Some (exit.pick txt_handler [r])"
    unfolding first_txt_record_def
    by (rule exit.walk_message_pick [OF h(1,4) _ _ assms(4) _ _ msg])
      (use h(5) assms(1) in \<open>simp_all add: txt_handler_def txt_record_value\<close>)
  then show "first_txt_record ?msg = Some (txt_of (rr_data r))"
    by (simp add: txt_handler_def assms(2))
  have bit: "?h ! 2 AND 0x80 \<noteq> 0" unfolding h(3) by simp
  have "4 \<le> length (?q @ rr_bytes r)" by simp
  from question_prefix_echo [OF assms(3,5) h(1,2) bit h(4) this]
  have "question_prefix ?msg i name = Some (Some (12 + length (wire_name as)))"
    by (simp add: whoami_answer_def)
  moreover have "get ?msg (12 + length (wire_name as) + k) = get (?q @ rr_bytes r) k" for k
    using get_append_right [of "?h @ wire_name as" "?q @ rr_bytes r" k] h(1)
    by (simp only: whoami_answer_def append_assoc length_append)
  note g = this [of 0] this [of 1] this [of 2] this [of 3]
  ultimately show "question_matches ?msg i name 16 3 = Some True"
    using g by (simp add: question_matches_def get_def be16_bytes_def to_be_2) (simp add: be16_def from_be_def)
qed

section \<open>Properties\<close>

text \<open>Every probe packet is a valid IPv4/UDP datagram: the header checksum and the UDP checksum
  over the pseudo header both verify at a receiver, the lengths are the packet's, and reading
  the packet back by its addresses and ports gives exactly the payload.\<close>

theorem probe_datagram_valid:
  assumes "length payload \<le> 65507"
  shows "\<exists>pkt. build_udp_ipv4 src dst sport dport payload ident = Some pkt
    \<and> length pkt = 28 + length payload
    \<and> checksum_ok (take 20 pkt)
    \<and> checksum_ok (pseudo_header (ip_addrs src dst) 17 (8 + length payload) @ drop 20 pkt)
    \<and> udp_payload pkt src sport dport = Some (Some payload)"
proof -
  obtain pkt where pkt: "build_udp_ipv4 src dst sport dport payload ident = Some pkt" "length pkt = 28 + length payload"
    by (rule build_udp_ipv4_shape [of src dst sport dport payload ident]) auto
  then show ?thesis
    using udp_checksum_of_built [OF assms pkt(1)] udp_payload_of_built [OF _ pkt(1)] assms by auto
qed

theorem probe_datagram_valid_witness:
  "\<exists>pkt. build_udp_ipv4 (ipv4_of 10 0 0 2) resolver 20000 53 [1, 2, 3] 7 = Some pkt
    \<and> length pkt = 31
    \<and> checksum_ok (take 20 pkt)
    \<and> checksum_ok (pseudo_header (ip_addrs (ipv4_of 10 0 0 2) resolver) 17 11 @ drop 20 pkt)
    \<and> udp_payload pkt (ipv4_of 10 0 0 2) 20000 53 = Some (Some [1, 2, 3])"
  using probe_datagram_valid [of "[1, 2, 3]" "ipv4_of 10 0 0 2" resolver 20000 53 7] by simp

text \<open>C8: In every run of the bridge, whatever arrives and whenever it wakes up, at most four probe
  packets are sent, all of them the same packet, the first no earlier than the settling delay
  after the first traffic, each next one at least three seconds after the one before, and none
  when the tunnel has no usable address.\<close>

theorem probe_send_discipline:
  assumes "probe_run local evs sent e"
  shows "length sent \<le> 4
    \<and> (\<forall>x \<in> set sent. snd x = snd (hd sent))
    \<and> successively (\<lambda>a b. fst a + from_secs 3 \<le> fst b) sent
    \<and> (sent \<noteq> [] \<longrightarrow> local \<noteq> 0 \<and> (\<exists>t. first_arm evs = Some t \<and> t + from_millis 1200 \<le> fst (hd sent)))"
  using probe_run_inv [OF assms]
  by (auto simp: probe_inv_def spaced_def max_attempts_def retry_gap_def first_delay_def)

theorem probe_send_discipline_witness:
  "\<exists>sent e. probe_run (ipv4_of 10 0 0 2) [Arm 5, Due 2000000000 \<lparr>rnd_id = 1, rnd_port = 2, rnd_ident = 3\<rparr>] sent e
     \<and> length sent = 1 \<and> 5 + from_millis 1200 \<le> fst (hd sent)"
proof -
  let ?r = "\<lparr>rnd_id = 1, rnd_port = 2, rnd_ident = 3\<rparr>" and ?l = "ipv4_of 10 0 0 2"
  let ?e = "arm 5 (probe_new ?l)"
  obtain p where p: "whoami ?l ?r = Some p" using runs_whoami [of ?l ?r] by (auto simp: runs_iff)
  have l: "?l \<noteq> 0" by (simp add: ipv4_of_def from_be_def)
  have "probe_run ?l ([] @ [Arm 5]) ([] @ []) ?e"
    by (rule run_step [OF run_new step_arm])
  moreover have "due 2000000000 ?r ?e
      = Some (?e\<lparr>ep_state := Waiting p 1 (2000000000 + retry_gap)\<rparr>, Some (pb_packet p))"
    using l p by (simp add: due_def arm_def probe_new_def first_delay_def from_millis_def)
  ultimately have "probe_run ?l (([] @ [Arm 5]) @ [Due 2000000000 ?r])
      (([] @ []) @ (case Some (pb_packet p) of None \<Rightarrow> [] | Some p \<Rightarrow> [(2000000000, p)]))
      (?e\<lparr>ep_state := Waiting p 1 (2000000000 + retry_gap)\<rparr>)"
    by (intro run_step [OF _ step_due])
  then have r: "probe_run ?l [Arm 5, Due 2000000000 ?r] [(2000000000, pb_packet p)]
      (?e\<lparr>ep_state := Waiting p 1 (2000000000 + retry_gap)\<rparr>)" by simp
  show ?thesis
    using probe_send_discipline [OF r] r by (auto intro!: exI [of _ "[(2000000000, pb_packet p)]"])
qed

text \<open>
  A schedule of wake-ups without an answer: the bridge asks for a packet at each instant.
\<close>

fun due_all :: "(instant \<times> probe_random) list \<Rightarrow> exit_probe \<Rightarrow> (exit_probe \<times> bytes list) panics" where
  "due_all [] e = Some (e, [])"
| "due_all ((now, r) # ws) e = do {
     (e, out) \<leftarrow> due now r e;
     (e, outs) \<leftarrow> due_all ws e;
     Some (e, (case out of None \<Rightarrow> outs | Some p \<Rightarrow> p # outs))
   }"

lemma due_all_done: "ep_state e = Done \<Longrightarrow> due_all ws e = Some (if ws = [] then e else e\<lparr>ep_state := Done\<rparr>, [])"
  by (induction ws arbitrary: e) (auto simp: due_def)

lemma due_waiting:
  assumes "ep_local_ipv4 e \<noteq> 0" and "ep_state e = Waiting p n t" and "t \<le> now"
  shows "due now r e = Some (if 4 \<le> n then (e\<lparr>ep_state := Done\<rparr>, None)
    else (e\<lparr>ep_state := Waiting p (n + 1) (now + retry_gap)\<rparr>, Some (pb_packet p)))"
  using assms by (simp add: due_def max_attempts_def)

text \<open>The measurement never keeps the timer alive for ever: once traffic has been seen, five
  wake-ups three seconds apart without an answer send the packet four times and then release
  the timer, and from then on no packet, no inbound traffic and no wake-up changes that.\<close>

theorem probing_ends:
  assumes "ep_local_ipv4 e \<noteq> 0" and "ep_state e = Idle" and "ep_start_after e = Some t0"
    and "t0 \<le> t1" and "t1 + from_secs 3 \<le> t2" and "t2 + from_secs 3 \<le> t3" and "t3 + from_secs 3 \<le> t4"
    and "t4 + from_secs 3 \<le> t5"
  shows "\<exists>p e'. whoami (ep_local_ipv4 e) r1 = Some p
    \<and> due_all ([(t1, r1), (t2, r2), (t3, r3), (t4, r4), (t5, r5)] @ ws) e = Some (e', replicate 4 (pb_packet p))
    \<and> \<not> needs_ticking e' \<and> (\<forall>packet. consume packet e' = Some (e', None, False))"
proof -
  obtain p where p: "whoami (ep_local_ipv4 e) r1 = Some p"
    using runs_whoami [of "ep_local_ipv4 e" r1] by (auto simp: runs_iff)
  let ?w = "\<lambda>n t. e\<lparr>ep_state := Waiting p n t\<rparr>"
  have d1: "due t1 r1 e = Some (?w 1 (t1 + retry_gap), Some (pb_packet p))"
    using assms(1-4) p by (simp add: due_def)
  have d: "due t' r' (?w n t) = Some (if 4 \<le> n then (e\<lparr>ep_state := Done\<rparr>, None)
      else (?w (n + 1) (t' + retry_gap), Some (pb_packet p)))" if "t \<le> t'" for t t' r' n
    using due_waiting [of "?w n t" p n t t' r'] assms(1) that by simp
  have g: "t1 + retry_gap \<le> t2" "t2 + retry_gap \<le> t3" "t3 + retry_gap \<le> t4" "t4 + retry_gap \<le> t5"
    using assms by (simp_all add: retry_gap_def)
  have "due_all ([(t1, r1), (t2, r2), (t3, r3), (t4, r4), (t5, r5)] @ ws) e
      = Some (e\<lparr>ep_state := Done\<rparr>, replicate 4 (pb_packet p))"
    using due_all_done [of "e\<lparr>ep_state := Done\<rparr>" ws]
    by (simp add: d1 d [OF g(1)] d [OF g(2)] d [OF g(3)] d [OF g(4)] eval_nat_numeral)
  then show ?thesis using p by (auto simp: needs_ticking_def consume_def)
qed

theorem probing_ends_witness:
  "let r = \<lparr>rnd_id = 1, rnd_port = 2, rnd_ident = 3\<rparr> in
   \<exists>(p :: probe) e'. due_all ([(10^9 * 2, r), (10^9 * 5, r), (10^9 * 8, r), (10^9 * 11, r), (10^9 * 14, r)] @ [])
     (arm 0 (probe_new (ipv4_of 10 0 0 2))) = Some (e', replicate 4 (pb_packet p)) \<and> \<not> needs_ticking e'"
proof -
  let ?e = "arm 0 (probe_new (ipv4_of 10 0 0 2))"
  have e: "ep_local_ipv4 ?e \<noteq> 0" "ep_state ?e = Idle" "ep_start_after ?e = Some (from_millis 1200)"
    by (simp_all add: arm_def probe_new_def first_delay_def ipv4_of_def from_be_def)
  have t: "from_millis 1200 \<le> 10^9 * 2" "(10::nat)^9 * 2 + from_secs 3 \<le> 10^9 * 5" "(10::nat)^9 * 5 + from_secs 3 \<le> 10^9 * 8"
    "(10::nat)^9 * 8 + from_secs 3 \<le> 10^9 * 11" "(10::nat)^9 * 11 + from_secs 3 \<le> 10^9 * 14"
    by (simp_all add: from_millis_def from_secs_def)
  let ?r = "\<lparr>rnd_id = 1, rnd_port = 2, rnd_ident = 3\<rparr>"
  show ?thesis
    using probing_ends [OF e t, of ?r ?r ?r ?r ?r "[]"] unfolding Let_def by blast
qed

text \<open>C11: The resolver's answer is recognised and its address is reported: a datagram from the
  resolver's port 53 to the probe's port that repeats the probe's id and question (in any
  letter case) and holds one TXT record with the text of an IPv4 address makes the probe report
  exactly that address, finish, and keep the datagram from the user's traffic.\<close>

theorem exit_address_is_reported:
  assumes "ep_state e = Waiting p n t" and "whoami local r = Some p"
    and "same_name as (name_labels whoami_name)" and "\<forall>l \<in> set as. wire_label l"
    and "rr_ok a" and "rr_type a = 16"
    and "rr_data a = of_nat (length (show_ipv4 ip)) # as_bytes (show_ipv4 ip)"
    and "length (whoami_answer (pb_id p) as a) \<le> 65527"
    and "build_udp_ipv4 resolver dst 53 (pb_sport p) (whoami_answer (pb_id p) as a) ident = Some pkt"
  shows "consume pkt e = Some (e\<lparr>ep_state := Done\<rparr>, Some ip, True)"
proof -
  have name: "pb_name p = whoami_name"
    using assms(2) by (auto simp: whoami_def Let_def bind_eq_Some_conv)
  obtain s where s: "show_ipv4 ip = s" "parse_ipv4 (trim s) = Some ip" "s \<noteq> []" "length s < 16"
    "\<forall>b \<in> set (as_bytes s). b < 0x80"
    by (rule show_ipv4_text)
  have small: "\<forall>l \<in> set (split_by dot whoami_name). length l < 256"
    by (simp add: whoami_name_def dot_def)
  have pay: "udp_payload pkt resolver dns_port (pb_sport p) = Some (Some (whoami_answer (pb_id p) as a))"
    using udp_payload_of_built [OF assms(8,9)] by (simp add: dns_port_def)
  have "txt_of (rr_data a) = Some (of_bytes (as_bytes s))"
    using txt_of_one [of "as_bytes s"] s by (simp add: assms(7) as_bytes_def)
  then have "txt_of (rr_data a) = Some s" by simp
  then show ?thesis
    using whoami_answer_read [OF assms(5,6,3,4) small, of "pb_id p"] pay s(2)
    by (simp add: consume_def assms(1) probe_matches_def probe_read_def name)
qed

text \<open>Nothing else is taken for an answer: a packet leaves the probe as it is and goes on to the
  device unless it is a UDP datagram from 1.1.1.1, port 53, to the probe's own port, whose
  payload is a response with the probe's transaction id and exactly its question; and no packet
  makes the recognition panic.\<close>

theorem consume_is_selective:
  "\<exists>e' ip own. consume packet e = Some (e', ip, own)
    \<and> (if own then \<exists>p n t payload as qrest. ep_state e = Waiting p n t
        \<and> udp_payload packet (ipv4_of 1 1 1 1) 53 (pb_sport p) = Some (Some payload)
        \<and> 12 \<le> length payload \<and> be16 (payload ! 0) (payload ! 1) = pb_id p \<and> payload ! 2 AND 0x80 \<noteq> 0
        \<and> same_name as (name_labels (pb_name p))
        \<and> drop 12 payload = wire_name as @ be16_bytes 16 @ be16_bytes 3 @ qrest
      else e' = e \<and> ip = None)"
proof -
  obtain e' ip own where c: "consume packet e = Some (e', ip, own)"
    using runs_consume [of packet e] by (auto simp: runs_iff)
  have "\<not> own \<longrightarrow> e' = e \<and> ip = None"
    using c by (auto simp: consume_def bind_eq_Some_conv split: probe_state.splits if_splits option.splits)
  moreover have "\<exists>p n t payload as qrest. ep_state e = Waiting p n t
        \<and> udp_payload packet (ipv4_of 1 1 1 1) 53 (pb_sport p) = Some (Some payload)
        \<and> 12 \<le> length payload \<and> be16 (payload ! 0) (payload ! 1) = pb_id p \<and> payload ! 2 AND 0x80 \<noteq> 0
        \<and> same_name as (name_labels (pb_name p))
        \<and> drop 12 payload = wire_name as @ be16_bytes 16 @ be16_bytes 3 @ qrest" if own
  proof -
    from c that obtain p n t where w: "ep_state e = Waiting p n t" "probe_matches p packet = Some True"
      by (auto simp: consume_def bind_eq_Some_conv split: probe_state.splits if_splits)
    then obtain payload where pl: "udp_payload packet resolver dns_port (pb_sport p) = Some (Some payload)"
      "question_matches payload (pb_id p) (pb_name p) 16 3 = Some True"
      by (auto simp: probe_matches_def bind_eq_Some_conv split: option.splits)
    from question_matches_sound [OF pl(2)] w(1) pl(1) show ?thesis
      unfolding resolver_def dns_port_def by blast
  qed
  ultimately show ?thesis using c by (intro exI [of _ e'] exI [of _ ip] exI [of _ own]) simp
qed

definition whoami_rr :: "ipv4 \<Rightarrow> rr" where
  "whoami_rr ip = \<lparr>rr_name = Pointer 12, rr_type = 16, rr_class_ttl = [0, 3, 0, 0, 0, 0],
     rr_data = of_nat (length (show_ipv4 ip)) # as_bytes (show_ipv4 ip)\<rparr>"

theorem exit_address_is_reported_witness:
  "\<exists>p pkt. whoami (ipv4_of 10 0 0 2) \<lparr>rnd_id = 1, rnd_port = 2, rnd_ident = 3\<rparr> = Some p
     \<and> consume pkt \<lparr>ep_local_ipv4 = ipv4_of 10 0 0 2, ep_state = Waiting p 1 5, ep_start_after = Some 0\<rparr>
       = Some (\<lparr>ep_local_ipv4 = ipv4_of 10 0 0 2, ep_state = Done, ep_start_after = Some 0\<rparr>,
           Some (ipv4_of 104 28 214 161), True)"
proof -
  let ?r = "\<lparr>rnd_id = 1, rnd_port = 2, rnd_ident = 3\<rparr>" and ?l = "ipv4_of 10 0 0 2"
  let ?ip = "ipv4_of 104 28 214 161"
  obtain p where p: "whoami ?l ?r = Some p" using runs_whoami [of ?l ?r] by (auto simp: runs_iff)
  let ?e = "\<lparr>ep_local_ipv4 = ?l, ep_state = Waiting p 1 5, ep_start_after = Some 0\<rparr>"
  obtain s where s: "show_ipv4 ?ip = s" "length s < 16" by (rule show_ipv4_text)
  have n: "name_labels whoami_name = [''whoami'', ''cloudflare'']"
    by (simp add: name_labels_def whoami_name_def dot_def)
  have same: "same_name [''whoami'', ''cloudflare''] (name_labels whoami_name)" by (simp add: n)
  have lab: "\<forall>l \<in> set [''whoami'', ''cloudflare'']. wire_label l" by (simp add: wire_label_def)
  have rr: "rr_ok (whoami_rr ?ip)" "rr_type (whoami_rr ?ip) = 16"
    "rr_data (whoami_rr ?ip) = of_nat (length (show_ipv4 ?ip)) # as_bytes (show_ipv4 ?ip)"
    using s by (simp_all add: whoami_rr_def rr_ok_def)
  have len: "length (whoami_answer (pb_id p) [''whoami'', ''cloudflare''] (whoami_rr ?ip)) \<le> 65527"
    using s by (simp add: whoami_answer_def whoami_rr_def reply_header_def wire_name_def labels_wire_def rr_bytes_def)
  obtain pkt where pkt: "build_udp_ipv4 resolver ?l 53 (pb_sport p)
      (whoami_answer (pb_id p) [''whoami'', ''cloudflare''] (whoami_rr ?ip)) 9 = Some pkt"
    using runs_build_udp_ipv4 [of resolver ?l 53 "pb_sport p"] by (auto simp: runs_iff)
  have st: "ep_state ?e = Waiting p 1 5" by simp
  from exit_address_is_reported [OF st p same lab rr len pkt] p show ?thesis by auto
qed

end
