(* ===== verification/Tun_Mss.thy ===== *)
theory Tun_Mss
  imports Checksum
begin

text \<open>
  \<open>clamp_tcp_mss\<close> of \<^verbatim>\<open>tun.rs\<close>: the MSS option of a SYN is lowered to what the tunnel has proved
  it can carry, and the TCP checksum is redone. The result is the packet and whether it was
  rewritten.
\<close>

definition ip_tcp_overhead :: nat where
  "ip_tcp_overhead = 40 + 20"

definition recompute_tcp_checksum :: "bytes \<Rightarrow> nat \<Rightarrow> u8 \<Rightarrow> bytes panics" where
  "recompute_tcp_checksum packet ip_header_len version = do {
     let tcp_len = length packet - ip_header_len;
     packet \<leftarrow> put_slice packet (ip_header_len + 16) [0, 0];
     addrs \<leftarrow> (if version = 4 then slice packet 12 20 else slice packet 8 40);
     seg \<leftarrow> slice packet ip_header_len (length packet);
     let sum = ones_complement_sum addrs 0 + 6 + of_nat tcp_len;
     put_slice packet (ip_header_len + 16) (be16_bytes (fold_checksum (ones_complement_sum seg sum)))
   }"

text \<open>The walk over the options, from \<open>i\<close> up to \<open>options_end\<close>.\<close>

function mss_scan :: "bytes \<Rightarrow> nat \<Rightarrow> u8 \<Rightarrow> u16 \<Rightarrow> nat \<Rightarrow> nat \<Rightarrow> (bytes \<times> bool) panics" where
  "mss_scan packet ip_header_len version target options_end i =
     (if i + 1 < options_end then do {
        kind \<leftarrow> idx packet i;
        if kind = 0 then Some (packet, False)
        else if kind = 1 then mss_scan packet ip_header_len version target options_end (i + 1)
        else do {
          len \<leftarrow> idx packet (i + 1);
          if kind = 2 then
            (if len \<noteq> 4 \<or> i + 4 > options_end then Some (packet, False)
             else do {
               c0 \<leftarrow> idx packet (i + 2); c1 \<leftarrow> idx packet (i + 3);
               if be16 c0 c1 \<le> target then Some (packet, False)
               else do {
                 packet \<leftarrow> put_slice packet (i + 2) (be16_bytes target);
                 packet \<leftarrow> recompute_tcp_checksum packet ip_header_len version;
                 Some (packet, True)
               }
             })
          else if unat len < 2 then Some (packet, False)
          else mss_scan packet ip_header_len version target options_end (i + unat len)
        }
      }
      else Some (packet, False))"
  by pat_completeness auto
termination
  by (relation "measure (\<lambda>(packet, ip_header_len, version, target, options_end, i). options_end - i)") auto

declare mss_scan.simps [simp del]

text \<open>The header length and the protocol, when the version is known and the header complete.\<close>

definition ip_header :: "bytes \<Rightarrow> (nat \<times> u8) option panics" where
  "ip_header packet = do {
     b0 \<leftarrow> idx packet 0;
     let version = drop_bit 4 b0;
     if version = 4 then
       (if length packet < 20 then Some None
        else do { proto \<leftarrow> idx packet 9; Some (Some (unat (b0 AND 0x0f) * 4, proto)) })
     else if version = 6 then
       (if length packet < 40 then Some None
        else do { proto \<leftarrow> idx packet 6; Some (Some (40, proto)) })
     else Some None
   }"

definition clamp_tcp_mss :: "bytes \<Rightarrow> nat \<Rightarrow> (bytes \<times> bool) panics" where
  "clamp_tcp_mss packet max_inner =
     (if packet = [] then Some (packet, False)
      else do {
        b0 \<leftarrow> idx packet 0;
        h \<leftarrow> ip_header packet;
        (case h of
           None \<Rightarrow> Some (packet, False)
         | Some (ip_header_len, protocol) \<Rightarrow>
             if protocol \<noteq> 6 \<or> length packet < ip_header_len + 20 then Some (packet, False)
             else do {
               let tcp = ip_header_len;
               flags \<leftarrow> idx packet (tcp + 13);
               if flags AND 0x02 = 0 then Some (packet, False)
               else do {
                 off \<leftarrow> idx packet (tcp + 12);
                 let data_offset = unat (drop_bit 4 off) * 4;
                 if data_offset < 20 \<or> length packet < tcp + data_offset then Some (packet, False)
                 else let target = max_inner - ip_tcp_overhead in
                   if target = 0 \<or> target > 65535 then Some (packet, False)
                   else mss_scan packet ip_header_len (drop_bit 4 b0) (of_nat target) (tcp + data_offset) (tcp + 20)
               }
             })
      })"

section \<open>The MSS option, as the TCP options define it\<close>

text \<open>The offset of the MSS value in a list of options: a kind, a length and the data, with two
  one-byte kinds, the end of the list and the no-op.\<close>

function mss_pos :: "bytes \<Rightarrow> nat option" where
  "mss_pos (k # l # r) =
     (if k = 0 then None
      else if k = 1 then map_option Suc (mss_pos (l # r))
      else if k = 2 then (if l = 4 \<and> 2 \<le> length r then Some 2 else None)
      else if unat l < 2 then None
      else map_option (\<lambda>j. j + unat l) (mss_pos (drop (unat l - 2) r)))"
| "mss_pos [k] = None"
| "mss_pos [] = None"
  by pat_completeness auto
termination
  by (relation "measure length") auto

text \<open>The options of a packet the code would clamp: a TCP SYN whose header is complete.\<close>

definition syn_header :: "bytes \<Rightarrow> (nat \<times> nat) option" where
  "syn_header packet =
     (case packet of
        [] \<Rightarrow> None
      | b0 # _ \<Rightarrow>
          let v = drop_bit 4 b0;
            h = (if v = 4 \<and> 20 \<le> length packet \<and> packet ! 9 = 6 then Some (unat (b0 AND 0x0f) * 4)
                 else if v = 6 \<and> 40 \<le> length packet \<and> packet ! 6 = 6 then Some 40 else None)
          in (case h of
                None \<Rightarrow> None
              | Some tcp \<Rightarrow>
                  let off = unat (drop_bit 4 (packet ! (tcp + 12))) * 4
                  in if tcp + 20 \<le> length packet \<and> packet ! (tcp + 13) AND 0x02 \<noteq> 0
                       \<and> 20 \<le> off \<and> tcp + off \<le> length packet
                     then Some (tcp, off) else None))"

definition mss_at :: "bytes \<Rightarrow> nat option" where
  "mss_at packet =
     (case syn_header packet of
        None \<Rightarrow> None
      | Some (tcp, off) \<Rightarrow> map_option (\<lambda>j. tcp + 20 + j) (mss_pos (take (off - 20) (drop (tcp + 20) packet))))"

definition syn_mss :: "bytes \<Rightarrow> u16 option" where
  "syn_mss packet = map_option (\<lambda>i. be16 (packet ! i) (packet ! (i + 1))) (mss_at packet)"

lemma mss_pos_bound: "mss_pos opts = Some j \<Longrightarrow> 2 \<le> j \<and> j + 2 \<le> length opts"
  by (induction opts arbitrary: j rule: mss_pos.induct) (auto split: if_splits)

section \<open>The walk finds the option\<close>

lemma recompute_cong: "runs m \<Longrightarrow> runs (map_option (\<lambda>p. (p, True)) m)"
  by (rule no_panic)

definition rewrite_mss :: "bytes \<Rightarrow> nat \<Rightarrow> u8 \<Rightarrow> u16 \<Rightarrow> nat \<Rightarrow> (bytes \<times> bool) panics" where
  "rewrite_mss packet ihl version target i =
     (if be16 (packet ! i) (packet ! (i + 1)) \<le> target then Some (packet, False)
      else do {
        packet \<leftarrow> put_slice packet i (be16_bytes target);
        packet \<leftarrow> recompute_tcp_checksum packet ihl version;
        Some (packet, True)
      })"

lemma take_drop_two:
  assumes "i + 1 < e" and "e \<le> length xs"
  shows "take (e - i) (drop i xs) = xs ! i # xs ! (i + 1) # take (e - (i + 2)) (drop (i + 2) xs)"
proof -
  have "drop i xs = xs ! i # xs ! (i + 1) # drop (i + 2) xs"
    using assms Cons_nth_drop_Suc [of i xs] Cons_nth_drop_Suc [of "Suc i" xs] by simp
  moreover have "e - i = Suc (Suc (e - (i + 2)))" using assms(1) by linarith
  ultimately show ?thesis by simp
qed

lemma mss_scan_eq:
  "oe \<le> length packet \<Longrightarrow>
   mss_scan packet ihl version target oe i =
     (case mss_pos (take (oe - i) (drop i packet)) of
        None \<Rightarrow> Some (packet, False)
      | Some j \<Rightarrow> rewrite_mss packet ihl version target (i + j))"
proof (induction packet ihl version target oe i rule: mss_scan.induct)
  case (1 packet ihl version target oe i)
  note oe = "1.prems"
  show ?case
  proof (cases "i + 1 < oe")
    case False
    then have "oe - i = 0 \<or> oe - i = 1" by linarith
    then have "mss_pos (take (oe - i) (drop i packet)) = None"
      by (cases "drop i packet") auto
    with False show ?thesis by (subst mss_scan.simps) simp
  next
    case True
    let ?k = "packet ! i" and ?l = "packet ! (i + 1)" and ?r = "take (oe - (i + 2)) (drop (i + 2) packet)"
    have opts: "take (oe - i) (drop i packet) = ?k # ?l # ?r" by (rule take_drop_two [OF True oe])
    have g: "get packet i = Some ?k" "get packet (i + 1) = Some ?l" using True oe by simp_all
    have len: "length ?r = oe - (i + 2)" using oe by simp
    have one: "take (oe - (i + 1)) (drop (i + 1) packet) = ?l # ?r"
      using arg_cong [OF opts, of tl] by (simp add: tl_take drop_Suc tl_drop)
    have step: "mss_scan packet ihl version target oe i =
       (if ?k = 0 then Some (packet, False)
        else if ?k = 1 then mss_scan packet ihl version target oe (i + 1)
        else if ?k = 2 then
          (if ?l = 4 \<and> i + 4 \<le> oe then rewrite_mss packet ihl version target (i + 2) else Some (packet, False))
        else if unat ?l < 2 then Some (packet, False)
        else mss_scan packet ihl version target oe (i + unat ?l))" (is "_ = ?step")
    proof (cases "i + 4 \<le> oe")
      case fit: True
      then have "\<not> oe < i + 4" "get packet (i + 2) = Some (packet ! (i + 2))" "get packet (i + 3) = Some (packet ! (i + 2 + 1))"
        using oe by (simp_all add: numeral_3_eq_3)
      then show ?thesis
        by (subst mss_scan.simps) (simp only: True g fit bind.bind_lunit rewrite_mss_def if_True, simp)
    next
      case False
      then show ?thesis
        by (subst mss_scan.simps) (simp only: True g bind.bind_lunit if_True, simp)
    qed
    have fit: "i + 4 \<le> oe \<longleftrightarrow> 2 \<le> length ?r" using len True by linarith
    show ?thesis
    proof (cases "?k = 0 \<or> ?k = 1 \<or> ?k = 2 \<or> unat ?l < 2")
      case True
      show ?thesis
        unfolding step opts fit using True "1.IH"(1) [OF \<open>i + 1 < oe\<close> g(1) _ _ oe] unfolding one
        by (auto simp: one split: option.split)
    next
      case False
      then have "i + unat ?l = i + 2 + (unat ?l - 2)" by linarith
      then have dr: "take (oe - (i + unat ?l)) (drop (i + unat ?l) packet) = drop (unat ?l - 2) ?r"
        by (simp only: drop_take drop_drop) (simp add: diff_diff_add add.commute)
      have "mss_scan packet ihl version target oe (i + unat ?l) =
         (case mss_pos (take (oe - (i + unat ?l)) (drop (i + unat ?l) packet)) of
            None \<Rightarrow> Some (packet, False) | Some j \<Rightarrow> rewrite_mss packet ihl version target (i + unat ?l + j))"
        by (rule "1.IH"(2) [OF True g(1) _ _ g(2) _ _ oe]) (use False in auto)
      then show ?thesis
        unfolding step opts using False unfolding dr by (simp add: ac_simps split: option.split)
    qed
  qed
qed

lemma mss_pos_update:
  "mss_pos opts = Some j \<Longrightarrow> mss_pos (take j opts @ [a, b] @ drop (j + 2) opts) = Some j"
proof (induction opts arbitrary: j rule: mss_pos.induct)
  case (1 k l r)
  consider "k = 1" | "k = 2" | "k \<noteq> 0" "k \<noteq> 1" "k \<noteq> 2" using "1.prems" by (auto split: if_splits)
  then show ?case
  proof cases
    case 1
    then obtain j' where j': "mss_pos (l # r) = Some j'" "j = Suc j'" using "1.prems" by auto
    then have "mss_pos (take j' (l # r) @ [a, b] @ drop (j' + 2) (l # r)) = Some j'"
      using "1.IH"(1) 1 by simp
    moreover have "2 \<le> j'" using mss_pos_bound [OF j'(1)] by simp
    ultimately show ?thesis using 1 j'(2) by (cases j') simp_all
  next
    case 2
    then show ?thesis using "1.prems" by (auto split: if_splits)
  next
    case 3
    then obtain j' where j': "mss_pos (drop (unat l - 2) r) = Some j'" "j = j' + unat l" "2 \<le> unat l"
      using "1.prems" by (auto split: if_splits)
    have "mss_pos (take j' (drop (unat l - 2) r) @ [a, b] @ drop (j' + 2) (drop (unat l - 2) r)) = Some j'"
      using "1.IH"(2) 3 j' by simp
    moreover have fit: "unat l - 2 + j' + 2 \<le> length r" using mss_pos_bound [OF j'(1)] by (simp only: length_drop) linarith
    define u where "u = unat l - 2"
    have jl: "j = Suc (Suc (u + j'))" using j'(2,3) by (simp add: u_def)
    have "take j (k # l # r) @ [a, b] @ drop (j + 2) (k # l # r)
        = k # l # (take (u + j') r @ [a, b] @ drop (u + j' + 2) r)" by (simp add: jl)
    moreover have "drop u (take (u + j') r @ [a, b] @ drop (u + j' + 2) r)
        = take j' (drop u r) @ [a, b] @ drop (j' + 2) (drop u r)"
      using fit by (simp add: u_def take_drop add.commute add.left_commute)
    ultimately show ?thesis using 3 j' by (simp add: u_def)
  qed
qed simp_all

section \<open>The clamp, in terms of the option\<close>

lemma clamp_eq:
  "clamp_tcp_mss packet m =
     (case syn_header packet of
        None \<Rightarrow> Some (packet, False)
      | Some (tcp, off) \<Rightarrow>
          if m \<le> 60 \<or> 65595 < m then Some (packet, False)
          else (case mss_at packet of
              None \<Rightarrow> Some (packet, False)
            | Some i \<Rightarrow> rewrite_mss packet tcp (drop_bit 4 (hd packet)) (of_nat (m - 60)) i))"
proof (cases packet)
  case Nil
  then show ?thesis by (simp add: clamp_tcp_mss_def syn_header_def)
next
  case (Cons b0 ps)
  have hd: "get packet 0 = Some b0" "packet \<noteq> []" "packet ! 0 = b0" using Cons by simp_all
  show ?thesis
  proof (cases "ip_header packet")
    case None
    then have False using hd by (auto simp: ip_header_def Let_def bind_eq_None_conv split: if_splits)
    then show ?thesis by simp
  next
    case (Some h)
    have hh: "h = (if drop_bit 4 b0 = 4 \<and> 20 \<le> length packet then Some (unat (b0 AND 0x0f) * 4, packet ! 9)
        else if drop_bit 4 b0 = 6 \<and> 40 \<le> length packet then Some (40, packet ! 6) else None)"
      using Some hd by (auto simp: ip_header_def Let_def split: if_splits)
    have sh: "syn_header packet = (case h of None \<Rightarrow> None | Some (tcp, proto) \<Rightarrow>
        let off = unat (drop_bit 4 (packet ! (tcp + 12))) * 4 in
        if proto = 6 \<and> tcp + 20 \<le> length packet \<and> packet ! (tcp + 13) AND 0x02 \<noteq> 0
           \<and> 20 \<le> off \<and> tcp + off \<le> length packet then Some (tcp, off) else None)"
      unfolding hh using Cons by (auto simp: syn_header_def Let_def)
    let ?out = "Some (packet, False)"
    have clamp: "clamp_tcp_mss packet m = (case h of None \<Rightarrow> ?out | Some (tcp, proto) \<Rightarrow>
        let off = unat (drop_bit 4 (packet ! (tcp + 12))) * 4 in
        if proto \<noteq> 6 \<or> length packet < tcp + 20 then ?out
        else if packet ! (tcp + 13) AND 0x02 = 0 then ?out
        else if off < 20 \<or> length packet < tcp + off then ?out
        else if m \<le> 60 \<or> 65595 < m then ?out
        else mss_scan packet tcp (drop_bit 4 b0) (of_nat (m - 60)) (tcp + off) (tcp + 20))"
    proof -
      have "65535 < m - 60 \<longleftrightarrow> 65595 < m" by linarith
      then show ?thesis
        unfolding clamp_tcp_mss_def using hd(1,2) Some
        by (cases h) (simp_all add: ip_tcp_overhead_def Let_def split: prod.split)
    qed
    show ?thesis
    proof (cases "syn_header packet")
      case None
      then show ?thesis
        unfolding clamp using sh by (cases h) (auto simp: Let_def)
    next
      case syn: (Some to)
      then obtain tcp off where to: "to = (tcp, off)" "h = Some (tcp, 6)" "tcp + 20 \<le> length packet"
        "packet ! (tcp + 13) AND 0x02 \<noteq> 0" "unat (drop_bit 4 (packet ! (tcp + 12))) * 4 = off"
        "20 \<le> off" "tcp + off \<le> length packet"
        using sh by (auto simp: Let_def split: option.splits if_splits)
      have d: "tcp + off - (tcp + 20) = off - 20" by simp
      have hp: "hd packet = b0" using Cons by simp
      show ?thesis
        unfolding clamp to(2) using to(3,4,6,7) syn
        by (simp add: Let_def to(1,5) mss_at_def mss_scan_eq d hp split: option.split)
    qed
  qed
qed

lemma two_updates: "j + 2 \<le> length xs \<Longrightarrow> xs[j := a, Suc j := b] = take j xs @ [a, b] @ drop (j + 2) xs"
proof -
  assume "j + 2 \<le> length xs"
  then have "xs[j := a] = take j xs @ a # drop (Suc j) xs" and l: "length (take j xs) = j"
    by (simp_all add: upd_conv_take_nth_drop)
  moreover have "drop (Suc j) xs = xs ! Suc j # drop (Suc (Suc j)) xs"
    using \<open>j + 2 \<le> length xs\<close> by (simp add: Cons_nth_drop_Suc)
  ultimately show ?thesis using l by (simp add: list_update_append)
qed

lemma put_slice_two: "j + 2 \<le> length xs \<Longrightarrow> put_slice xs j [a, b] = Some (xs[j := a, Suc j := b])"
  unfolding two_updates by (simp add: put_slice_def)

text \<open>The address bytes of the pseudo header.\<close>

definition pseudo_addrs :: "u8 \<Rightarrow> bytes \<Rightarrow> bytes" where
  "pseudo_addrs version packet = (if version = 4 then take 8 (drop 12 packet) else take 32 (drop 8 packet))"

definition tcp_sum :: "u8 \<Rightarrow> nat \<Rightarrow> bytes \<Rightarrow> u32" where
  "tcp_sum version ihl packet = ones_complement_sum (drop ihl packet)
     (ones_complement_sum (pseudo_addrs version packet) 0 + ucast (6 :: u8) + of_nat (length packet - ihl))"

lemma recompute_eq:
  assumes "ihl + 20 \<le> length packet" and "(if version = 4 then 20 else 40) \<le> length packet"
    and "be16_bytes (fold_checksum (tcp_sum version ihl (packet[ihl + 16 := 0, Suc (ihl + 16) := 0]))) = [a, b]"
  shows "recompute_tcp_checksum packet ihl version = Some (packet[ihl + 16 := a, Suc (ihl + 16) := b])"
proof -
  let ?p = "packet[ihl + 16 := 0, Suc (ihl + 16) := 0]"
  have z: "put_slice packet (ihl + 16) [0, 0] = Some ?p" by (rule put_slice_two) (use assms(1) in simp)
  have ad: "(if version = 4 then slice ?p 12 20 else slice ?p 8 40) = Some (pseudo_addrs version ?p)"
    using assms(2) by (simp add: slice_def pseudo_addrs_def split: if_splits)
  have seg: "slice ?p ihl (length ?p) = Some (drop ihl ?p)" using assms(1) by (simp add: slice_def)
  have "put_slice ?p (ihl + 16) [a, b] = Some (?p[ihl + 16 := a, Suc (ihl + 16) := b])"
    by (rule put_slice_two) (use assms(1) in simp)
  then have w: "put_slice ?p (ihl + 16) [a, b] = Some (packet[ihl + 16 := a, Suc (ihl + 16) := b])"
    by (simp add: list_update_swap)
  have sm: "ones_complement_sum (drop ihl ?p)
      (ones_complement_sum (pseudo_addrs version ?p) 0 + 6 + of_nat (length packet - ihl)) = tcp_sum version ihl ?p"
    by (simp add: tcp_sum_def)
  show ?thesis
    unfolding recompute_tcp_checksum_def Let_def z bind.bind_lunit ad seg sm assms(3) w ..
qed

lemma syn_header_bounds:
  assumes "syn_header packet = Some (tcp, off)"
  shows "packet \<noteq> []" "tcp + 20 \<le> length packet" "20 \<le> off" "tcp + off \<le> length packet"
    "drop_bit 4 (hd packet) = 4 \<and> 20 \<le> length packet \<or> drop_bit 4 (hd packet) = 6 \<and> 40 \<le> length packet \<and> tcp = 40"
  using assms by (auto simp: syn_header_def Let_def split: list.splits option.splits if_splits)

lemma mss_at_bounds:
  assumes "syn_header packet = Some (tcp, off)" and "mss_at packet = Some i"
  shows "tcp + 22 \<le> i" "i + 2 \<le> tcp + off"
    "mss_pos (take (off - 20) (drop (tcp + 20) packet)) = Some (i - (tcp + 20))"
proof -
  from assms obtain j where j: "mss_pos (take (off - 20) (drop (tcp + 20) packet)) = Some j" "i = tcp + 20 + j"
    by (auto simp: mss_at_def)
  have "2 \<le> j" "j + 2 \<le> off - 20" using mss_pos_bound [OF j(1)] by simp_all
  then show "tcp + 22 \<le> i" "i + 2 \<le> tcp + off"
    "mss_pos (take (off - 20) (drop (tcp + 20) packet)) = Some (i - (tcp + 20))"
    using j syn_header_bounds(3) [OF assms(1)] by simp_all
qed

text \<open>What a rewrite does: four bytes change, the option's value and the checksum.\<close>

lemma rewrite_result:
  assumes "syn_header packet = Some (tcp, off)" and "mss_at packet = Some i"
    and "target < be16 (packet ! i) (packet ! (i + 1))"
  obtains a b c d where "be16_bytes target = [a, b]"
    "be16_bytes (fold_checksum (tcp_sum (drop_bit 4 (hd packet)) tcp
        (packet[i := a, Suc i := b, tcp + 16 := 0, Suc (tcp + 16) := 0]))) = [c, d]"
    "rewrite_mss packet tcp (drop_bit 4 (hd packet)) target i
      = Some (packet[i := a, Suc i := b, tcp + 16 := c, Suc (tcp + 16) := d], True)"
proof -
  note h = syn_header_bounds [OF assms(1)] and m = mss_at_bounds [OF assms(1,2)]
  obtain a b where ab: "be16_bytes target = [a, b]" by (rule be16_bytes_cases)
  let ?p = "packet[i := a, Suc i := b]"
  obtain c d where cd: "be16_bytes (fold_checksum (tcp_sum (drop_bit 4 (hd packet)) tcp
      (?p[tcp + 16 := 0, Suc (tcp + 16) := 0]))) = [c, d]" by (rule be16_bytes_cases)
  have "put_slice packet i [a, b] = Some ?p" by (rule put_slice_two) (use m h in linarith)
  moreover have "recompute_tcp_checksum ?p tcp (drop_bit 4 (hd packet)) = Some (?p[tcp + 16 := c, Suc (tcp + 16) := d])"
    by (rule recompute_eq [OF _ _ cd]) (use h in auto)
  ultimately have "rewrite_mss packet tcp (drop_bit 4 (hd packet)) target i
      = Some (?p[tcp + 16 := c, Suc (tcp + 16) := d], True)"
    using assms(3) by (simp add: rewrite_mss_def ab)
  with ab cd show thesis by (rule that)
qed

section \<open>The clamped packet\<close>

lemma hd_update [simp]: "0 < k \<Longrightarrow> hd (xs[k := x]) = hd xs"
  by (cases xs; cases k) simp_all

lemma window_update: "take n (drop m (xs[m + j := x])) = (take n (drop m xs))[j := x]"
  by (simp add: drop_update_swap take_update_swap)

lemma syn_header_update:
  assumes "syn_header packet = Some (tcp, off)" and "tcp + 22 \<le> i"
  shows "syn_header (packet[i := a, Suc i := b, tcp + 16 := c, Suc (tcp + 16) := d]) = Some (tcp, off)"
proof -
  obtain b0 ps where p: "packet = b0 # ps" using syn_header_bounds(1) [OF assms(1)] by (cases packet) auto
  let ?q = "packet[i := a, Suc i := b, tcp + 16 := c, Suc (tcp + 16) := d]"
  have "hd ?q = hd packet" "?q \<noteq> []" using assms(2) syn_header_bounds(1) [OF assms(1)] by simp_all
  moreover have "hd packet = b0" using p by simp
  ultimately obtain qs where q: "?q = b0 # qs" by (metis list.collapse)
  have n: "?q ! k = packet ! k" if "k \<notin> {i, Suc i, tcp + 16, Suc (tcp + 16)}" for k
    using that by (simp add: nth_list_update)
  have "9 \<notin> {i, Suc i, tcp + 16, Suc (tcp + 16)}" "6 \<notin> {i, Suc i, tcp + 16, Suc (tcp + 16)}"
    "tcp + 12 \<notin> {i, Suc i, tcp + 16, Suc (tcp + 16)}" "tcp + 13 \<notin> {i, Suc i, tcp + 16, Suc (tcp + 16)}"
    using assms(2) by auto
  note k = this [THEN n]
  have "length ?q = length packet" by simp
  with assms(1) show ?thesis
    using k unfolding syn_header_def
    by (simp only: p list.case q [unfolded p]) (auto simp: Let_def split: if_splits)
qed

lemma mss_at_update:
  assumes "syn_header packet = Some (tcp, off)" and "mss_at packet = Some i"
  shows "mss_at (packet[i := a, Suc i := b, tcp + 16 := c, Suc (tcp + 16) := d]) = Some i"
proof -
  note h = syn_header_bounds [OF assms(1)] and m = mss_at_bounds [OF assms(1,2)]
  define o0 where "o0 = tcp + 20"
  define j where "j = i - o0"
  have i: "i = o0 + j" using m(1) by (simp add: j_def o0_def)
  let ?opts = "take (off - 20) (drop o0 packet)"
  have fit: "j + 2 \<le> length ?opts" using mss_pos_bound [OF m(3)] by (simp add: j_def o0_def)
  have "take (off - 20) (drop o0 (packet[i := a, Suc i := b, tcp + 16 := c, Suc (tcp + 16) := d]))
      = ?opts[j := a, Suc j := b]"
  proof -
    have "drop o0 (packet[i := a, Suc i := b, tcp + 16 := c, Suc (tcp + 16) := d]) = drop o0 (packet[i := a, Suc i := b])"
      by (simp add: o0_def drop_update_cancel)
    then show ?thesis
      unfolding i using window_update [of "off - 20" o0 "packet[o0 + j := a]" "Suc j" b]
        window_update [of "off - 20" o0 packet j a] by simp
  qed
  also have "mss_pos \<dots> = Some j"
    unfolding two_updates [OF fit] by (rule mss_pos_update) (use m(3) in \<open>simp add: j_def o0_def\<close>)
  finally have "mss_pos (take (off - 20) (drop o0 (packet[i := a, Suc i := b, tcp + 16 := c, Suc (tcp + 16) := d]))) = Some j" .
  then show ?thesis
    using syn_header_update [OF assms(1) m(1)] by (simp add: mss_at_def o0_def i)
qed

text \<open>The checksum a receiver verifies.\<close>

definition tcp_checksum_ok :: "bytes \<Rightarrow> nat \<Rightarrow> bool" where
  "tcp_checksum_ok packet tcp \<longleftrightarrow>
     checksum_ok (pseudo_header (pseudo_addrs (drop_bit 4 (hd packet)) packet) 6 (length packet - tcp) @ drop tcp packet)"

lemma drop_two_updates:
  assumes "k + 18 \<le> length xs"
  shows "drop k (xs[k + 16 := c, Suc (k + 16) := d]) = take 16 (drop k xs) @ [c, d] @ drop (k + 18) xs"
proof -
  have "k + 16 + 2 \<le> length xs" using assms by simp
  then show ?thesis by (simp only: two_updates) (simp add: drop_take add.commute)
qed

lemma pseudo_addrs_update:
  assumes "version = 4 \<and> 20 \<le> k \<or> 40 \<le> k"
  shows "pseudo_addrs version (xs[k := c]) = pseudo_addrs version xs"
  using assms by (auto simp: pseudo_addrs_def drop_update_swap)

lemma pseudo_addrs_length: "length (pseudo_addrs version xs) \<le> 32"
  by (simp add: pseudo_addrs_def min_def)

lemma pseudo_addrs_even:
  "(if version = 4 then 20 else 40) \<le> length xs \<Longrightarrow> even (length (pseudo_addrs version xs))"
  by (simp add: pseudo_addrs_def split: if_splits)

lemma checksum_written:
  assumes "tcp + 20 \<le> length p" and "length p - tcp < 65536" and "p \<noteq> []" and "20 \<le> tcp"
    and v: "drop_bit 4 (hd p) = 4 \<and> 20 \<le> length p \<or> drop_bit 4 (hd p) \<noteq> 4 \<and> 40 \<le> tcp"
    and cd: "be16_bytes (fold_checksum (tcp_sum (drop_bit 4 (hd p)) tcp (p[tcp + 16 := 0, Suc (tcp + 16) := 0]))) = [c, d]"
  shows "tcp_checksum_ok (p[tcp + 16 := c, Suc (tcp + 16) := d]) tcp"
proof -
  let ?v = "drop_bit 4 (hd p)"
  let ?q = "\<lambda>c d. p[tcp + 16 := c, Suc (tcp + 16) := d]"
  let ?a = "take 16 (drop tcp p)" and ?b = "drop (tcp + 18) p"
  have dr: "drop tcp (?q c d) = ?a @ [c, d] @ ?b" for c d
    by (rule drop_two_updates) (use assms(1) in linarith)
  have ad: "pseudo_addrs ?v (?q c d) = pseudo_addrs ?v p" for c d
    using v assms(4) pseudo_addrs_update [of ?v "tcp + 16" p c] pseudo_addrs_update [of ?v "Suc (tcp + 16)" "p[tcp + 16 := c]" d]
    by auto
  have hd: "hd (?q c d) = hd p" for c d
    by simp
  have ev: "even (length (pseudo_addrs ?v p))"
    by (rule pseudo_addrs_even) (use v assms(1) in auto)
  have len: "length (?a @ [0, 0] @ ?b) = length p - tcp" using assms(1) by simp
  have "tcp_sum ?v tcp (?q 0 0) = ones_complement_sum (?a @ [0, 0] @ ?b)
      (ones_complement_sum (pseudo_addrs ?v p) 0 + ucast (6 :: u8) + of_nat (length p - tcp))"
    unfolding tcp_sum_def dr ad by simp
  note tsum = this
  have "checksum_ok (pseudo_header (pseudo_addrs ?v p) 6 (length p - tcp) @ ?a
      @ be16_bytes (fold_checksum (tcp_sum ?v tcp (?q 0 0))) @ ?b)"
    by (rule transport_checksum_ok [OF ev pseudo_addrs_length len assms(2) _ tsum disjI1 [OF refl]])
      (use assms(1) in simp)
  then have "checksum_ok (pseudo_header (pseudo_addrs ?v p) 6 (length p - tcp) @ ?a @ [c, d] @ ?b)"
    by (simp only: cd)
  then show ?thesis by (simp only: tcp_checksum_ok_def dr ad hd) simp
qed

lemma clamp_cases:
  obtains "clamp_tcp_mss packet m = Some (packet, False)"
      "\<And>v. 60 < m \<Longrightarrow> m \<le> 65595 \<Longrightarrow> syn_mss packet = Some v \<Longrightarrow> unat v \<le> m - 60"
  | tcp off i a b c d where "60 < m" "m \<le> 65595" "syn_header packet = Some (tcp, off)" "mss_at packet = Some i"
      "be16_bytes (of_nat (m - 60)) = [a, b]"
      "be16_bytes (fold_checksum (tcp_sum (drop_bit 4 (hd packet)) tcp
        (packet[i := a, Suc i := b, tcp + 16 := 0, Suc (tcp + 16) := 0]))) = [c, d]"
      "clamp_tcp_mss packet m = Some (packet[i := a, Suc i := b, tcp + 16 := c, Suc (tcp + 16) := d], True)"
proof (cases "60 < m \<and> m \<le> 65595 \<and> mss_at packet \<noteq> None")
  case False
  then have "clamp_tcp_mss packet m = Some (packet, False)"
    by (auto simp: clamp_eq split: option.split)
  then show thesis using that(1) False by (auto simp: syn_mss_def)
next
  case True
  then obtain i where i: "mss_at packet = Some i" by blast
  then obtain tcp off where h: "syn_header packet = Some (tcp, off)"
    by (auto simp: mss_at_def split: option.splits)
  let ?t = "of_nat (m - 60) :: u16"
  have "m \<le> 65595" using True by simp
  then have t: "unat ?t = m - 60" by (intro unat_of_nat_u16) simp
  have c: "clamp_tcp_mss packet m = rewrite_mss packet tcp (drop_bit 4 (hd packet)) ?t i"
    using True by (auto simp: clamp_eq h i)
  show thesis
  proof (cases "?t < be16 (packet ! i) (packet ! (i + 1))")
    case lt: True
    from rewrite_result [OF h i lt] obtain a b c' d where "be16_bytes ?t = [a, b]"
      "be16_bytes (fold_checksum (tcp_sum (drop_bit 4 (hd packet)) tcp
        (packet[i := a, Suc i := b, tcp + 16 := 0, Suc (tcp + 16) := 0]))) = [c', d]"
      "rewrite_mss packet tcp (drop_bit 4 (hd packet)) ?t i
        = Some (packet[i := a, Suc i := b, tcp + 16 := c', Suc (tcp + 16) := d], True)" .
    then show thesis using that(2) [OF _ _ h i] True c by simp
  next
    case False
    then have le: "be16 (packet ! i) (packet ! (i + 1)) \<le> ?t" by simp
    then have "clamp_tcp_mss packet m = Some (packet, False)" using c by (simp add: rewrite_mss_def)
    moreover have "unat (be16 (packet ! i) (packet ! (i + 1))) \<le> m - 60"
      using le t by (simp only: word_le_nat_alt)
    ultimately show thesis using that(1) i by (auto simp: syn_mss_def simp del: unat_be16)
  qed
qed

lemma runs_clamp [no_panic]: "runs (clamp_tcp_mss packet m)"
  by (rule clamp_cases [of packet m]) simp_all

section \<open>Properties\<close>

text \<open>C5: After the clamp no SYN offers more than the tunnel carries: whatever the packet and its
  options, the MSS that a reader of the TCP options finds in the result is at most the proven
  inner MTU less 60, the result is left alone by a second clamp, and the length never
  changes.\<close>

theorem clamped_mss_fits:
  assumes "60 < m" and "m \<le> 65595"
  shows "\<exists>p' b. clamp_tcp_mss packet m = Some (p', b) \<and> length p' = length packet
    \<and> (\<forall>v. syn_mss p' = Some v \<longrightarrow> unat v \<le> m - 60) \<and> clamp_tcp_mss p' m = Some (p', False)"
proof (cases rule: clamp_cases [of packet m])
  case 1
  then show ?thesis using assms by auto
next
  case (2 tcp off i a b c d)
  let ?p = "packet[i := a, Suc i := b, tcp + 16 := c, Suc (tcp + 16) := d]"
  note h = syn_header_bounds [OF 2(3)] and m = mss_at_bounds [OF 2(3,4)]
  have at: "mss_at ?p = Some i" by (rule mss_at_update [OF 2(3,4)])
  have "i \<notin> {Suc i, tcp + 16, Suc (tcp + 16)}" "Suc i \<notin> {i, tcp + 16, Suc (tcp + 16)}" "Suc i < length packet"
    using h m by auto
  then have "?p ! i = a" "?p ! (i + 1) = b" by (simp_all add: nth_list_update)
  then have v: "be16 (?p ! i) (?p ! (i + 1)) = of_nat (m - 60)" using 2(5) be16_of_bytes by simp
  have t: "unat (of_nat (m - 60) :: u16) = m - 60" using assms by (intro unat_of_nat_u16) simp
  have fits: "\<forall>w. syn_mss ?p = Some w \<longrightarrow> unat w \<le> m - 60"
    unfolding syn_mss_def at using v t by auto
  have "clamp_tcp_mss ?p m = Some (?p, False)"
    unfolding clamp_eq syn_header_update [OF 2(3) m(1)] at using v
    by (simp add: rewrite_mss_def)
  then show ?thesis using 2(7) fits by auto
qed

text \<open>The clamp rewrites nothing else: every byte of the packet but the two of the MSS value and
  the two of the TCP checksum stays what it was, and a packet it does not rewrite is the packet
  it was given.\<close>

theorem clamp_touches_only_the_option:
  "\<exists>p' b. clamp_tcp_mss packet m = Some (p', b) \<and>
    (if b then \<exists>tcp off i. syn_header packet = Some (tcp, off) \<and> mss_at packet = Some i
         \<and> p' = packet[i := p' ! i, i + 1 := p' ! (i + 1), tcp + 16 := p' ! (tcp + 16), tcp + 17 := p' ! (tcp + 17)]
     else p' = packet)"
proof (cases rule: clamp_cases [of packet m])
  case 1
  then show ?thesis by auto
next
  case (2 tcp off i a b c d)
  let ?p = "packet[i := a, Suc i := b, tcp + 16 := c, Suc (tcp + 16) := d]"
  note h = syn_header_bounds [OF 2(3)] and m = mss_at_bounds [OF 2(3,4)]
  have t17: "tcp + 17 = Suc (tcp + 16)" by simp
  have n: "?p ! i = a" "?p ! Suc i = b" "?p ! (tcp + 16) = c" "?p ! Suc (tcp + 16) = d"
    using h m by (simp_all add: nth_list_update)
  have upd: "?p = packet[i := ?p ! i, i + 1 := ?p ! (i + 1), tcp + 16 := ?p ! (tcp + 16), tcp + 17 := ?p ! (tcp + 17)]"
    by (simp only: n t17 Suc_eq_plus1 [symmetric])
  show ?thesis
  proof (intro exI conjI)
    show "clamp_tcp_mss packet m = Some (?p, True)" by (rule 2(7))
    show "if True then \<exists>tcp off i. syn_header packet = Some (tcp, off) \<and> mss_at packet = Some i
         \<and> ?p = packet[i := ?p ! i, i + 1 := ?p ! (i + 1), tcp + 16 := ?p ! (tcp + 16), tcp + 17 := ?p ! (tcp + 17)]
     else ?p = packet"
      unfolding if_True by (intro exI conjI) (rule 2(3) 2(4) upd)+
  qed
qed

text \<open>A rewritten SYN carries a TCP checksum that verifies at the receiver, for IPv4 (with its
  20-byte header or a longer one) and for IPv6.\<close>

theorem clamp_checksum_valid:
  assumes "clamp_tcp_mss packet m = Some (p', True)" and "length packet < 65536"
    and "syn_header packet = Some (tcp, off)" and "20 \<le> tcp"
  shows "tcp_checksum_ok p' tcp"
proof (cases rule: clamp_cases [of packet m])
  case 1
  then show ?thesis using assms(1) by simp
next
  case (2 tcp' off' i a b c d)
  have t: "tcp' = tcp" using 2(3) assms(3) by simp
  let ?q = "packet[i := a, Suc i := b]"
  note h = syn_header_bounds [OF assms(3)] and m = mss_at_bounds [OF assms(3) 2(4)]
  have hd: "hd ?q = hd packet" using m by simp
  have "tcp_checksum_ok (?q[tcp + 16 := c, Suc (tcp + 16) := d]) tcp"
    by (rule checksum_written) (use h m assms(2,4) 2(6) hd t in auto)
  then show ?thesis using 2(7) assms(1) t by simp
qed

text \<open>A SYN from 10.0.0.2 to 1.1.1.1, port 443, whose options are two no-ops and an MSS of 1460.\<close>

definition example_syn :: bytes where
  "example_syn =
     [0x45, 0, 0, 48, 0, 0, 0, 0, 64, 6, 0, 0, 10, 0, 0, 2, 1, 1, 1, 1,
      0x9c, 0x40, 1, 0xbb, 0, 0, 0, 0, 0, 0, 0, 0, 0x70, 2, 0, 0, 0, 0, 0, 0,
      1, 1, 2, 4, 0x05, 0xb4, 0, 0]"

lemma example_syn_header: "syn_header example_syn = Some (20, 28)"
  by code_simp

lemma example_syn_mss: "syn_mss example_syn = Some 1460"
  by code_simp

lemma example_syn_clamped:
  obtains p' where "clamp_tcp_mss example_syn 1200 = Some (p', True)"
proof -
  have at: "mss_at example_syn = Some 44" by code_simp
  have "of_nat (1200 - 60) < be16 (example_syn ! 44) (example_syn ! (44 + 1))" by code_simp
  from rewrite_result [OF example_syn_header at this] that show thesis
    by (auto simp: clamp_eq example_syn_header at)
qed

theorem clamped_mss_fits_witness:
  "syn_mss example_syn = Some 1460 \<and> (\<exists>p' b. clamp_tcp_mss example_syn 1200 = Some (p', b) \<and> length p' = 48
    \<and> (\<forall>v. syn_mss p' = Some v \<longrightarrow> unat v \<le> 1140))"
  using clamped_mss_fits [of 1200 example_syn] example_syn_mss by (auto simp: example_syn_def)

theorem clamp_checksum_valid_witness:
  "\<exists>p'. clamp_tcp_mss example_syn 1200 = Some (p', True) \<and> tcp_checksum_ok p' 20"
proof -
  obtain p' where "clamp_tcp_mss example_syn 1200 = Some (p', True)" by (rule example_syn_clamped)
  then show ?thesis
    using clamp_checksum_valid [OF _ _ example_syn_header] by (auto simp: example_syn_def)
qed

end
