(* ===== verification/Tun_Bridge.thy ===== *)
theory Tun_Bridge
  imports Exit_Probe Tun_Mss
begin

text \<open>
  The packet loop \<open>bridge\<close> of \<^verbatim>\<open>tun.rs\<close>, between the device's TUN descriptor and the tunnel's
  channels. One step is one turn of the loop: the arm of \<open>select!\<close> that fired, then the probe
  and the traffic report. What the environment decides in a turn (instants, random values,
  the MTU hint, whether a write or a send fails) is an argument; what the turn sends, writes and
  reports is appended to the state. The timer's arm fires only while probing. Descriptor set-up
  is not modelled.
\<close>

record bridge =
  br_probe :: exit_probe
  br_probing :: bool
  br_rx_total :: nat
  br_tx_total :: nat
  br_clamped :: nat
  br_last_report :: instant
  br_tun :: "bytes list"
  br_outbound :: "bytes list"
  br_exit_ips :: "ipv4 list"
  br_reports :: "(nat \<times> nat) list"

datatype bridge_event =
    Tunnel_Packet "bytes option"
  | Device_Packet "aether_error + bytes"
  | Probe_Tick

record turn =
  tn_arm :: instant
  tn_due :: instant
  tn_report :: instant
  tn_random :: probe_random
  tn_mtu :: nat
  tn_write_error :: "aether_error option"
  tn_outbound_closed :: bool

datatype flow = Goes_On bridge | Returns "aether_error + unit"

definition bridge_new :: "ipv4 \<Rightarrow> instant \<Rightarrow> bridge" where
  "bridge_new local now =
     \<lparr>br_probe = probe_new local, br_probing = True, br_rx_total = 0, br_tx_total = 0, br_clamped = 0,
      br_last_report = now, br_tun = [], br_outbound = [], br_exit_ips = [], br_reports = []\<rparr>"

definition outbound_closed :: flow where
  "outbound_closed = Returns (Inl (E_Other ''tunnel outbound channel closed''))"

text \<open>After the \<open>select!\<close>: the probe that is due, then the report.\<close>

definition bridge_probe :: "turn \<Rightarrow> bridge \<Rightarrow> flow panics" where
  "bridge_probe t b =
     (if \<not> br_probing b then Some (Goes_On b)
      else do {
        (e, out) \<leftarrow> due (tn_due t) (tn_random t) (br_probe b);
        let b = b\<lparr>br_probe := e\<rparr>;
        (case out of
           Some probe \<Rightarrow>
             if tn_outbound_closed t then Some outbound_closed
             else Some (Goes_On (b\<lparr>br_outbound := br_outbound b @ [probe], br_probing := needs_ticking e\<rparr>))
         | None \<Rightarrow> Some (Goes_On (b\<lparr>br_probing := needs_ticking e\<rparr>)))
      })"

definition bridge_report :: "turn \<Rightarrow> bridge \<Rightarrow> bridge" where
  "bridge_report t b =
     (if from_millis 1000 \<le> tn_report t - br_last_report b
      then b\<lparr>br_reports := br_reports b @ [(br_tx_total b, br_rx_total b)],
             br_clamped := 0, br_last_report := tn_report t\<rparr>
      else b)"

definition bridge_after :: "turn \<Rightarrow> bridge \<Rightarrow> flow panics" where
  "bridge_after t b = do {
     f \<leftarrow> bridge_probe t b;
     Some (case f of Goes_On b \<Rightarrow> Goes_On (bridge_report t b) | Returns r \<Rightarrow> Returns r)
   }"

definition count_clamped :: "bool \<Rightarrow> bridge \<Rightarrow> bridge" where
  "count_clamped c b = (if c then b\<lparr>br_clamped := br_clamped b + 1\<rparr> else b)"

definition bridge_forward_in :: "turn \<Rightarrow> bytes \<Rightarrow> bridge \<Rightarrow> flow panics" where
  "bridge_forward_in t packet b = do {
     (packet, c) \<leftarrow> clamp_tcp_mss packet (tn_mtu t);
     let b = count_clamped c b;
     (case tn_write_error t of
        Some e \<Rightarrow> Some (Returns (Inl e))
      | None \<Rightarrow> bridge_after t (b\<lparr>br_tun := br_tun b @ [packet]\<rparr>))
   }"

definition bridge_step :: "turn \<Rightarrow> bridge_event \<Rightarrow> bridge \<Rightarrow> flow panics" where
  "bridge_step t ev b =
     (case ev of
        Tunnel_Packet None \<Rightarrow> Some (Returns (Inr ()))
      | Tunnel_Packet (Some packet) \<Rightarrow>
          let b = b\<lparr>br_rx_total := br_rx_total b + length packet\<rparr> in
          if br_probing b then do {
            (e, ip, own) \<leftarrow> consume packet (br_probe b);
            let b = b\<lparr>br_probe := e,
              br_exit_ips := br_exit_ips b @ (case ip of Some ip \<Rightarrow> [ip] | None \<Rightarrow> [])\<rparr>;
            if own then Some (Goes_On b) else bridge_forward_in t packet b
          }
          else bridge_forward_in t packet b
      | Device_Packet (Inl e) \<Rightarrow> Some (Returns (Inl e))
      | Device_Packet (Inr packet) \<Rightarrow>
          if packet = [] then Some (Returns (Inr ()))
          else do {
            let b = b\<lparr>br_tx_total := br_tx_total b + length packet\<rparr>;
            let b = (if br_probing b then b\<lparr>br_probe := arm (tn_arm t) (br_probe b)\<rparr> else b);
            (packet, c) \<leftarrow> clamp_tcp_mss packet (tn_mtu t);
            let b = count_clamped c b;
            if tn_outbound_closed t then Some outbound_closed
            else bridge_after t (b\<lparr>br_outbound := br_outbound b @ [packet]\<rparr>)
          }
      | Probe_Tick \<Rightarrow> bridge_after t b)"

fun bridge_run :: "(turn \<times> bridge_event) list \<Rightarrow> bridge \<Rightarrow> flow panics" where
  "bridge_run [] b = Some (Goes_On b)"
| "bridge_run ((t, ev) # evs) b = do {
     f \<leftarrow> bridge_step t ev b;
     (case f of Goes_On b \<Rightarrow> bridge_run evs b | Returns r \<Rightarrow> Some (Returns r))
   }"

section \<open>No packet stops the bridge by a panic\<close>

lemma runs_bridge_after [no_panic]: "runs (bridge_after t b)"
  unfolding bridge_after_def bridge_probe_def by (intro no_panic)

lemma runs_bridge_forward_in [no_panic]: "runs (bridge_forward_in t packet b)"
  unfolding bridge_forward_in_def by (intro no_panic)

lemma runs_bridge_step [no_panic]: "runs (bridge_step t ev b)"
  unfolding bridge_step_def
  by (cases ev) (auto split: option.split sum.split simp: Let_def intro!: no_panic)

lemma runs_bridge_run: "runs (bridge_run evs b)"
  by (induction evs b rule: bridge_run.induct) (auto split: flow.split intro!: no_panic)

section \<open>What one turn forwards\<close>

text \<open>The packet as it leaves: the clamped one.\<close>

definition clamped :: "nat \<Rightarrow> bytes \<Rightarrow> bytes" where
  "clamped mtu packet = (case clamp_tcp_mss packet mtu of Some (p, _) \<Rightarrow> p | None \<Rightarrow> packet)"

lemma clamp_clamped: obtains c where "clamp_tcp_mss packet mtu = Some (clamped mtu packet, c)"
  using runs_clamp [of packet mtu] that by (auto simp: runs_iff clamped_def)

lemma bridge_after_effect:
  assumes "bridge_after t b = Some (Goes_On b')"
  shows "br_tun b' = br_tun b \<and> br_exit_ips b' = br_exit_ips b \<and>
    (\<exists>ps. br_outbound b' = br_outbound b @ ps \<and> length ps \<le> 1 \<and> (\<not> br_probing b \<longrightarrow> ps = []))
    \<and> (\<not> br_probing b \<longrightarrow> \<not> br_probing b' \<and> br_probe b' = br_probe b)"
  using assms
  by (auto simp: bridge_after_def bridge_probe_def bridge_report_def outbound_closed_def bind_eq_Some_conv Let_def
      split: if_splits option.splits flow.splits)

lemma count_clamped_fields [simp]:
  "br_tun (count_clamped c b) = br_tun b" "br_outbound (count_clamped c b) = br_outbound b"
  "br_probing (count_clamped c b) = br_probing b" "br_probe (count_clamped c b) = br_probe b"
  "br_exit_ips (count_clamped c b) = br_exit_ips b"
  by (simp_all add: count_clamped_def)

text \<open>A packet the probe keeps for itself.\<close>

definition probes_own :: "bridge \<Rightarrow> bytes \<Rightarrow> bool" where
  "probes_own b packet \<longleftrightarrow>
     br_probing b \<and> (case consume packet (br_probe b) of Some (_, _, own) \<Rightarrow> own | None \<Rightarrow> False)"

lemma forward_in_effect:
  assumes "bridge_forward_in t packet b = Some (Goes_On b')"
  shows "br_tun b' = br_tun b @ [clamped (tn_mtu t) packet] \<and> br_exit_ips b' = br_exit_ips b \<and>
    (\<exists>ps. br_outbound b' = br_outbound b @ ps \<and> length ps \<le> 1 \<and> (\<not> br_probing b \<longrightarrow> ps = []))
    \<and> (\<not> br_probing b \<longrightarrow> \<not> br_probing b' \<and> br_probe b' = br_probe b)"
proof -
  obtain c where c: "clamp_tcp_mss packet (tn_mtu t) = Some (clamped (tn_mtu t) packet, c)" by (rule clamp_clamped)
  with assms have "bridge_after t (count_clamped c b\<lparr>br_tun := br_tun (count_clamped c b) @ [clamped (tn_mtu t) packet]\<rparr>)
      = Some (Goes_On b')"
    by (simp add: bridge_forward_in_def Let_def split: option.splits)
  from bridge_after_effect [OF this] show ?thesis by simp
qed

lemma tunnel_packet_effect:
  assumes "bridge_step t (Tunnel_Packet (Some packet)) b = Some (Goes_On b')"
  shows "br_tun b' = br_tun b @ (if probes_own b packet then [] else [clamped (tn_mtu t) packet])"
    "\<exists>ps. br_outbound b' = br_outbound b @ ps \<and> length ps \<le> 1 \<and> (\<not> br_probing b \<longrightarrow> ps = [])"
    "\<not> br_probing b \<longrightarrow> \<not> br_probing b' \<and> br_exit_ips b' = br_exit_ips b"
proof -
  obtain e ip own where c: "consume packet (br_probe b) = Some (e, ip, own)"
    using runs_consume [of packet "br_probe b"] by (auto simp: runs_iff)
  show "br_tun b' = br_tun b @ (if probes_own b packet then [] else [clamped (tn_mtu t) packet])"
    "\<exists>ps. br_outbound b' = br_outbound b @ ps \<and> length ps \<le> 1 \<and> (\<not> br_probing b \<longrightarrow> ps = [])"
    "\<not> br_probing b \<longrightarrow> \<not> br_probing b' \<and> br_exit_ips b' = br_exit_ips b"
    using assms c by (auto simp: bridge_step_def probes_own_def Let_def split: if_splits dest!: forward_in_effect)
qed

lemma device_packet_effect:
  assumes "bridge_step t (Device_Packet (Inr packet)) b = Some (Goes_On b')"
  shows "br_tun b' = br_tun b \<and> br_exit_ips b' = br_exit_ips b
    \<and> (\<exists>ps. br_outbound b' = br_outbound b @ clamped (tn_mtu t) packet # ps \<and> length ps \<le> 1
        \<and> (\<not> br_probing b \<longrightarrow> ps = []))
    \<and> (\<not> br_probing b \<longrightarrow> \<not> br_probing b')"
proof -
  obtain c where c: "clamp_tcp_mss packet (tn_mtu t) = Some (clamped (tn_mtu t) packet, c)" by (rule clamp_clamped)
  define b1 where "b1 = (if br_probing b then b\<lparr>br_tx_total := br_tx_total b + length packet,
      br_probe := arm (tn_arm t) (br_probe b)\<rparr> else b\<lparr>br_tx_total := br_tx_total b + length packet\<rparr>)"
  have f: "br_tun b1 = br_tun b" "br_outbound b1 = br_outbound b" "br_probing b1 = br_probing b" "br_exit_ips b1 = br_exit_ips b"
    by (simp_all add: b1_def)
  have "bridge_after t (count_clamped c b1\<lparr>br_outbound := br_outbound (count_clamped c b1) @ [clamped (tn_mtu t) packet]\<rparr>)
      = Some (Goes_On b')"
    using assms c by (cases "br_probing b") (simp_all add: bridge_step_def Let_def outbound_closed_def b1_def split: if_splits)
  from bridge_after_effect [OF this] show ?thesis by (auto simp: f)
qed

text \<open>The packets of a run, as they leave.\<close>

fun from_tunnel :: "(turn \<times> bridge_event) list \<Rightarrow> bytes list" where
  "from_tunnel [] = []"
| "from_tunnel ((t, Tunnel_Packet (Some p)) # evs) = clamped (tn_mtu t) p # from_tunnel evs"
| "from_tunnel (_ # evs) = from_tunnel evs"

fun from_device :: "(turn \<times> bridge_event) list \<Rightarrow> bytes list" where
  "from_device [] = []"
| "from_device ((t, Device_Packet (Inr p)) # evs) = clamped (tn_mtu t) p # from_device evs"
| "from_device (_ # evs) = from_device evs"

lemma quiet_step:
  assumes "\<not> br_probing b" and "bridge_step t ev b = Some (Goes_On b')"
  shows "br_tun b' = br_tun b @ from_tunnel [(t, ev)]" "br_outbound b' = br_outbound b @ from_device [(t, ev)]"
    "\<not> br_probing b'" "br_exit_ips b' = br_exit_ips b"
proof -
  have own: "\<not> probes_own b p" for p using assms(1) by (simp add: probes_own_def)
  have "br_tun b' = br_tun b @ from_tunnel [(t, ev)] \<and> br_outbound b' = br_outbound b @ from_device [(t, ev)]
    \<and> \<not> br_probing b' \<and> br_exit_ips b' = br_exit_ips b"
  proof (cases ev)
    case (Tunnel_Packet p)
    show ?thesis
    proof (cases p)
      case None
      then show ?thesis using assms(2) Tunnel_Packet by (simp add: bridge_step_def)
    next
      case (Some packet)
      show ?thesis
        using tunnel_packet_effect [OF assms(2) [unfolded Tunnel_Packet Some]] assms(1) own
        unfolding Tunnel_Packet Some by auto
    qed
  next
    case (Device_Packet r)
    show ?thesis
    proof (cases r)
      case (Inl e)
      then show ?thesis using assms(2) Device_Packet by (simp add: bridge_step_def)
    next
      case (Inr packet)
      show ?thesis
        using device_packet_effect [OF assms(2) [unfolded Device_Packet Inr]] assms(1)
        unfolding Device_Packet Inr by auto
    qed
  next
    case Probe_Tick
    then show ?thesis using assms bridge_after_effect [of t b b'] by (auto simp: bridge_step_def)
  qed
  then show "br_tun b' = br_tun b @ from_tunnel [(t, ev)]" "br_outbound b' = br_outbound b @ from_device [(t, ev)]"
    "\<not> br_probing b'" "br_exit_ips b' = br_exit_ips b" by blast+
qed

lemma from_tunnel_Cons: "from_tunnel (x # evs) = from_tunnel [x] @ from_tunnel evs"
  by (cases "[x]" rule: from_tunnel.cases) simp_all

lemma from_device_Cons: "from_device (x # evs) = from_device [x] @ from_device evs"
  by (cases "[x]" rule: from_device.cases) simp_all

section \<open>Properties\<close>

text \<open>No packet from the device or from the tunnel makes the bridge panic, however long it runs,
  and each turn forwards its packet exactly once, in order and changed only by the MSS clamp:
  a packet of the tunnel is written to the device unless it is the probe's own answer, a packet
  of the device goes out to the tunnel, followed by at most one probe packet.\<close>

theorem bridge_forwards_each_packet:
  "\<exists>f. bridge_run evs b = Some f
    \<and> (case bridge_step t ev b of
         Some (Goes_On b') \<Rightarrow>
           (case ev of
              Tunnel_Packet (Some packet) \<Rightarrow>
                br_tun b' = br_tun b @ (if probes_own b packet then [] else [clamped (tn_mtu t) packet])
                \<and> (\<exists>ps. br_outbound b' = br_outbound b @ ps \<and> length ps \<le> 1)
            | Device_Packet (Inr packet) \<Rightarrow>
                br_tun b' = br_tun b
                \<and> (\<exists>ps. br_outbound b' = br_outbound b @ clamped (tn_mtu t) packet # ps \<and> length ps \<le> 1)
            | Probe_Tick \<Rightarrow>
                br_tun b' = br_tun b \<and> (\<exists>ps. br_outbound b' = br_outbound b @ ps \<and> length ps \<le> 1)
            | _ \<Rightarrow> False)
       | Some (Returns r) \<Rightarrow> True
       | None \<Rightarrow> False)"
proof -
  have "case bridge_step t ev b of
         Some (Goes_On b') \<Rightarrow>
           (case ev of
              Tunnel_Packet (Some packet) \<Rightarrow>
                br_tun b' = br_tun b @ (if probes_own b packet then [] else [clamped (tn_mtu t) packet])
                \<and> (\<exists>ps. br_outbound b' = br_outbound b @ ps \<and> length ps \<le> 1)
            | Device_Packet (Inr packet) \<Rightarrow>
                br_tun b' = br_tun b
                \<and> (\<exists>ps. br_outbound b' = br_outbound b @ clamped (tn_mtu t) packet # ps \<and> length ps \<le> 1)
            | Probe_Tick \<Rightarrow>
                br_tun b' = br_tun b \<and> (\<exists>ps. br_outbound b' = br_outbound b @ ps \<and> length ps \<le> 1)
            | _ \<Rightarrow> False)
       | Some (Returns r) \<Rightarrow> True
       | None \<Rightarrow> False"
  proof (cases "bridge_step t ev b")
    case None
    then show ?thesis using runs_bridge_step [of t ev b] by simp
  next
    case (Some f)
    show ?thesis
    proof (cases f)
      case (Goes_On b')
      note step = Some [unfolded Goes_On]
      show ?thesis
      proof (cases ev)
        case (Tunnel_Packet p)
        show ?thesis
        proof (cases p)
          case None
          then show ?thesis using step Tunnel_Packet by (simp add: bridge_step_def)
        next
          case (Some packet)
          show ?thesis
            using step tunnel_packet_effect(1,2) [of t packet b b'] unfolding Tunnel_Packet Some by auto
        qed
      next
        case (Device_Packet r)
        show ?thesis
        proof (cases r)
          case (Inl e)
          then show ?thesis using step Device_Packet by (simp add: bridge_step_def)
        next
          case (Inr packet)
          show ?thesis
            using step device_packet_effect [of t packet b b'] unfolding Device_Packet Inr by auto
        qed
      next
        case Probe_Tick
        then show ?thesis using step bridge_after_effect [of t b b'] by (auto simp: bridge_step_def)
      qed
    qed (simp add: Some)
  qed
  then show ?thesis using runs_bridge_run [of evs b] by (auto simp: runs_iff)
qed

text \<open>Once the measurement is over the bridge is a plain pipe: over any further run that does not
  end, what the device receives is exactly the tunnel's packets in order, what the tunnel
  receives is exactly the device's packets in order, each only clamped, no address is reported
  any more and the timer stays off.\<close>

theorem quiet_bridge_is_a_pipe:
  assumes "\<not> br_probing b" and "bridge_run evs b = Some (Goes_On b')"
  shows "br_tun b' = br_tun b @ from_tunnel evs \<and> br_outbound b' = br_outbound b @ from_device evs
    \<and> br_exit_ips b' = br_exit_ips b \<and> \<not> br_probing b'"
  using assms
proof (induction evs b rule: bridge_run.induct)
  case (2 t ev evs b)
  from "2.prems"(2) obtain b1 where b1: "bridge_step t ev b = Some (Goes_On b1)" "bridge_run evs b1 = Some (Goes_On b')"
    by (cases "bridge_step t ev b") (auto split: flow.splits)
  note q = quiet_step [OF "2.prems"(1) b1(1)]
  have "br_tun b' = br_tun b1 @ from_tunnel evs \<and> br_outbound b' = br_outbound b1 @ from_device evs
    \<and> br_exit_ips b' = br_exit_ips b1 \<and> \<not> br_probing b'"
    by (rule "2.IH" [OF b1(1) refl q(3) b1(2)])
  then show ?case
    using q from_tunnel_Cons [of "(t, ev)" evs] from_device_Cons [of "(t, ev)" evs] by simp
qed simp

definition quiet_bridge :: bridge where
  "quiet_bridge = (bridge_new (ipv4_of 10 0 0 2) 0)\<lparr>br_probing := False\<rparr>"

definition quiet_turn :: turn where
  "quiet_turn = \<lparr>tn_arm = 0, tn_due = 0, tn_report = 0, tn_random = \<lparr>rnd_id = 0, rnd_port = 0, rnd_ident = 0\<rparr>,
     tn_mtu = 1200, tn_write_error = None, tn_outbound_closed = False\<rparr>"

theorem quiet_bridge_is_a_pipe_witness:
  "\<exists>b'. bridge_run [(quiet_turn, Tunnel_Packet (Some [0x75, 1])), (quiet_turn, Device_Packet (Inr [0x75, 2]))] quiet_bridge
      = Some (Goes_On b')
    \<and> br_tun b' = [[0x75, 1]] \<and> br_outbound b' = [[0x75, 2]]"
proof -
  let ?evs = "[(quiet_turn, Tunnel_Packet (Some [0x75, 1])), (quiet_turn, Device_Packet (Inr [0x75, 2]))]"
  have q: "\<not> br_probing quiet_bridge" by (simp add: quiet_bridge_def)
  have c: "clamp_tcp_mss [0x75, k] 1200 = Some ([0x75, k], False)" for k :: u8
    by (simp add: clamp_tcp_mss_def ip_header_def Let_def)
  have "\<exists>b'. bridge_run ?evs quiet_bridge = Some (Goes_On b')"
    by (simp add: bridge_step_def quiet_bridge_def bridge_new_def quiet_turn_def c bridge_forward_in_def
        bridge_after_def bridge_probe_def bridge_report_def count_clamped_def from_millis_def Let_def)
  then obtain b' where b': "bridge_run ?evs quiet_bridge = Some (Goes_On b')" by blast
  from quiet_bridge_is_a_pipe [OF q b'] b' show ?thesis
    by (simp add: c clamped_def quiet_turn_def quiet_bridge_def bridge_new_def)
qed

end
