(* ===== verification/T2s_Wire.thy ===== *)
theory T2s_Wire
  imports Checksum
begin

text \<open>
  The packets of the tun2socks bridge (\<^verbatim>\<open>socks_upstream.rs\<close>): its checksums, the TCP and UDP
  packets it writes to the device, and the reading of a TCP header. Writing to the
  descriptor itself is a step of the bridge's state machine (theory \<open>Tun2Socks\<close>).
\<close>

section \<open>Checksums\<close>

text \<open>\<open>ones_complement_sum\<close> of this file folds and complements: it is \<open>checksum\<close> of theory \<open>Checksum\<close>.\<close>

definition ip_checksum :: "bytes \<Rightarrow> u16 panics" where
  "ip_checksum pkt = map_option checksum (slice pkt 0 20)"

definition tcp_checksum :: "ipv4 \<Rightarrow> ipv4 \<Rightarrow> bytes \<Rightarrow> u16" where
  "tcp_checksum src_ip dst_ip tcp_segment =
     checksum (ipv4_octets src_ip @ ipv4_octets dst_ip @ [0] @ [6]
       @ be16_bytes (of_nat (length tcp_segment)) @ tcp_segment)"

definition udp_checksum :: "ipv4 \<Rightarrow> ipv4 \<Rightarrow> bytes \<Rightarrow> u16" where
  "udp_checksum src_ip dst_ip udp_segment = (
     let cksum = checksum (ipv4_octets src_ip @ ipv4_octets dst_ip @ [0] @ [17]
       @ be16_bytes (of_nat (length udp_segment)) @ udp_segment)
     in if cksum = 0 then 0xffff else cksum)"

section \<open>The packets written to the device\<close>

text \<open>\<open>send_tcp_ex\<close> up to the write; \<open>send_tcp\<close> is the case without the MSS option.\<close>

definition build_tcp ::
  "ipv4 \<Rightarrow> ipv4 \<Rightarrow> u16 \<Rightarrow> u16 \<Rightarrow> u32 \<Rightarrow> u32 \<Rightarrow> u8 \<Rightarrow> bytes \<Rightarrow> bool \<Rightarrow> bytes panics" where
  "build_tcp src_ip dst_ip src_port dst_port seq ack flags payload with_mss = (
     let mss_opt_len = (if with_mss then 4 else 0);
       tcp_hdr_len = 20 + mss_opt_len;
       tcp_len = tcp_hdr_len + length payload;
       ip_len = 20 + tcp_len;
       pkt = replicate ip_len 0;
       o20 = 20
     in do {
       pkt \<leftarrow> put_slice pkt 0 [0x45];
       pkt \<leftarrow> put_slice pkt 1 [0x00];
       pkt \<leftarrow> put_slice pkt 2 (be16_bytes (of_nat ip_len));
       pkt \<leftarrow> put_slice pkt 4 [0, 0];
       pkt \<leftarrow> put_slice pkt 6 [0x40, 0x00];
       pkt \<leftarrow> put_slice pkt 8 [64];
       pkt \<leftarrow> put_slice pkt 9 [6];
       pkt \<leftarrow> put_slice pkt 12 (ipv4_octets src_ip);
       pkt \<leftarrow> put_slice pkt 16 (ipv4_octets dst_ip);
       ip_cksum \<leftarrow> ip_checksum pkt;
       pkt \<leftarrow> put_slice pkt 10 (be16_bytes ip_cksum);
       pkt \<leftarrow> put_slice pkt o20 (be16_bytes src_port);
       pkt \<leftarrow> put_slice pkt (o20 + 2) (be16_bytes dst_port);
       pkt \<leftarrow> put_slice pkt (o20 + 4) (be32_bytes seq);
       pkt \<leftarrow> put_slice pkt (o20 + 8) (be32_bytes ack);
       pkt \<leftarrow> put_slice pkt (o20 + 12) [push_bit 4 (of_nat (tcp_hdr_len div 4))];
       pkt \<leftarrow> put_slice pkt (o20 + 13) [flags];
       pkt \<leftarrow> put_slice pkt (o20 + 14) (be16_bytes 65535);
       pkt \<leftarrow> put_slice pkt (o20 + 18) (be16_bytes 0);
       pkt \<leftarrow> (if with_mss
               then do {
                 pkt \<leftarrow> put_slice pkt (o20 + 20) [0x02];
                 pkt \<leftarrow> put_slice pkt (o20 + 20 + 1) [0x04];
                 put_slice pkt (o20 + 20 + 2) (be16_bytes 1240)
               }
               else Some pkt);
       pkt \<leftarrow> (if payload = [] then Some pkt else put_slice pkt (o20 + tcp_hdr_len) payload);
       seg \<leftarrow> slice pkt 20 (length pkt);
       put_slice pkt (o20 + 16) (be16_bytes (tcp_checksum src_ip dst_ip seg))
     })"

definition build_udp :: "ipv4 \<Rightarrow> ipv4 \<Rightarrow> u16 \<Rightarrow> u16 \<Rightarrow> bytes \<Rightarrow> bytes panics" where
  "build_udp src_ip dst_ip src_port dst_port payload = (
     let udp_len = 8 + length payload;
       ip_len = 20 + udp_len;
       pkt = replicate ip_len 0;
       o20 = 20
     in do {
       pkt \<leftarrow> put_slice pkt 0 [0x45];
       pkt \<leftarrow> put_slice pkt 1 [0x00];
       pkt \<leftarrow> put_slice pkt 2 (be16_bytes (of_nat ip_len));
       pkt \<leftarrow> put_slice pkt 4 [0, 0];
       pkt \<leftarrow> put_slice pkt 6 [0x40, 0x00];
       pkt \<leftarrow> put_slice pkt 8 [64];
       pkt \<leftarrow> put_slice pkt 9 [17];
       pkt \<leftarrow> put_slice pkt 12 (ipv4_octets src_ip);
       pkt \<leftarrow> put_slice pkt 16 (ipv4_octets dst_ip);
       ip_cksum \<leftarrow> ip_checksum pkt;
       pkt \<leftarrow> put_slice pkt 10 (be16_bytes ip_cksum);
       pkt \<leftarrow> put_slice pkt o20 (be16_bytes src_port);
       pkt \<leftarrow> put_slice pkt (o20 + 2) (be16_bytes dst_port);
       pkt \<leftarrow> put_slice pkt (o20 + 4) (be16_bytes (of_nat udp_len));
       pkt \<leftarrow> put_slice pkt (o20 + 8) payload;
       seg \<leftarrow> slice pkt 20 (length pkt);
       put_slice pkt (o20 + 6) (be16_bytes (udp_checksum src_ip dst_ip seg))
     })"

section \<open>Their shape\<close>

definition ip_words :: "nat \<Rightarrow> u8 \<Rightarrow> bytes" where
  "ip_words n proto = [0x45, 0] @ be16_bytes (of_nat n) @ [0, 0, 0x40, 0, 64, proto]"

definition tcp_words :: "u16 \<Rightarrow> u16 \<Rightarrow> u32 \<Rightarrow> u32 \<Rightarrow> nat \<Rightarrow> u8 \<Rightarrow> bytes" where
  "tcp_words sport dport seq ack hdr flags =
     be16_bytes sport @ be16_bytes dport @ be32_bytes seq @ be32_bytes ack
     @ [push_bit 4 (of_nat (hdr div 4)), flags] @ be16_bytes 65535"

definition mss_option :: "bool \<Rightarrow> bytes" where
  "mss_option with_mss = (if with_mss then [2, 4] @ be16_bytes 1240 else [])"

lemma word_lengths [simp]:
  "length (ip_words n proto) = 10" "length (tcp_words sport dport seq ack hdr flags) = 16"
  "length (mss_option w) = (if w then 4 else 0)"
  by (simp_all add: ip_words_def tcp_words_def mss_option_def)

text \<open>Evaluation of a chain of writes into a buffer whose first bytes are written out.\<close>

lemma put_slice_Nil: "put_slice xs 0 [] = Some xs"
  by (simp add: put_slice_def)

lemma put_slice_Cons_0: "put_slice (x # xs) 0 (y # ys) = map_option (Cons y) (put_slice xs 0 ys)"
  by (simp add: put_slice_def)

lemma put_slice_Cons_Suc: "put_slice (x # xs) (Suc i) v = map_option (Cons x) (put_slice xs i v)"
  by (simp add: put_slice_def)

lemma put_slice_Cons_numeral:
  "put_slice (x # xs) (numeral k) v = map_option (Cons x) (put_slice xs (pred_numeral k) v)"
  by (simp only: numeral_eq_Suc put_slice_Cons_Suc)

lemma put_slice_all: "length v = length q \<Longrightarrow> put_slice q 0 v = Some v"
  by (simp add: put_slice_def)

lemmas write_simps = put_slice_Nil put_slice_Cons_0 put_slice_Cons_Suc put_slice_Cons_numeral put_slice_all slice_def

lemma be32_bytes_cases: obtains a b c d where "be32_bytes w = [a, b, c, d]" "be32 a b c d = w"
proof -
  let ?o = "be32_bytes w"
  have o: "?o = [?o ! 0, ?o ! 1, ?o ! 2, ?o ! 3]" by (rule list4_eq) simp
  have "from_be ?o = unat w"
    unfolding be32_bytes_def from_be_to_be by (rule mod_less) simp
  then have "be32 (?o ! 0) (?o ! 1) (?o ! 2) (?o ! 3) = w"
    using o unat_cast_back [of w] by (metis be32_def)
  with o show thesis using that by blast
qed

lemma zeros_40: "replicate 40 (0 :: u8) =
    [0, 0, 0, 0, 0, 0, 0, 0, 0, 0, 0, 0, 0, 0, 0, 0, 0, 0, 0, 0,
     0, 0, 0, 0, 0, 0, 0, 0, 0, 0, 0, 0, 0, 0, 0, 0, 0, 0, 0, 0]"
  by (simp add: numeral_eq_Suc)

lemma zeros_44: "replicate 44 (0 :: u8) =
    [0, 0, 0, 0, 0, 0, 0, 0, 0, 0, 0, 0, 0, 0, 0, 0, 0, 0, 0, 0,
     0, 0, 0, 0, 0, 0, 0, 0, 0, 0, 0, 0, 0, 0, 0, 0, 0, 0, 0, 0, 0, 0, 0, 0]"
  by (simp add: numeral_eq_Suc)

lemma replicate_28: "replicate (28 + n) (0 :: u8) = replicate 28 0 @ replicate n 0"
  by (simp add: replicate_add)

lemma build_udp_eq:
  "build_udp src dst sport dport payload = (
     let H = ip_words (28 + length payload) 17; A = ipv4_octets src @ ipv4_octets dst;
       P = be16_bytes sport @ be16_bytes dport @ be16_bytes (of_nat (8 + length payload));
       ic = checksum (H @ [0, 0] @ A);
       uc = udp_checksum src dst (P @ [0, 0] @ payload)
     in Some ((H @ be16_bytes ic @ A) @ P @ be16_bytes uc @ payload))"
proof -
  obtain t0 t1 where t: "be16_bytes (of_nat (28 + length payload)) = [t0, t1]" by (rule be16_bytes_cases)
  obtain l0 l1 where l: "be16_bytes (of_nat (8 + length payload)) = [l0, l1]" by (rule be16_bytes_cases)
  obtain p0 p1 where sp: "be16_bytes sport = [p0, p1]" by (rule be16_bytes_cases)
  obtain q0 q1 where dp: "be16_bytes dport = [q0, q1]" by (rule be16_bytes_cases)
  obtain a b c d where sa: "ipv4_octets src = [a, b, c, d]" by (rule ipv4_octets_cases)
  obtain a' b' c' d' where da: "ipv4_octets dst = [a', b', c', d']" by (rule ipv4_octets_cases)
  define ic where "ic = checksum [0x45, 0, t0, t1, 0, 0, 0x40, 0, 64, 17, 0, 0, a, b, c, d, a', b', c', d']"
  obtain i0 i1 where i: "be16_bytes ic = [i0, i1]" by (rule be16_bytes_cases)
  define uc where "uc = udp_checksum src dst (p0 # p1 # q0 # q1 # l0 # l1 # 0 # 0 # payload)"
  obtain u0 u1 where u: "be16_bytes uc = [u0, u1]" by (rule be16_bytes_cases)
  have n: "20 + (8 + length payload) = 28 + length payload" by simp
  have "build_udp src dst sport dport payload
      = Some ([0x45, 0, t0, t1, 0, 0, 0x40, 0, 64, 17, i0, i1, a, b, c, d, a', b', c', d', p0, p1, q0, q1, l0, l1, u0, u1] @ payload)"
    unfolding build_udp_def Let_def n replicate_28 t l sp dp sa da
    by (simp add: write_simps ip_checksum_def ic_def [symmetric] i uc_def [symmetric] u numeral_eq_Suc)
  then show ?thesis
    unfolding Let_def ip_words_def t l sp dp sa da
    by (simp add: ic_def [symmetric] i uc_def [symmetric] u)
qed

lemma build_tcp_bytes:
  assumes "be16_bytes (of_nat (20 + (20 + (if w then 4 else 0) + length payload))) = [t0, t1]"
    and "be16_bytes sport = [p0, p1]" and "be16_bytes dport = [q0, q1]"
    and "be32_bytes seq = [s0, s1, s2, s3]" and "be32_bytes ack = [k0, k1, k2, k3]"
    and "ipv4_octets src = [a, b, c, d]" and "ipv4_octets dst = [a', b', c', d']"
    and "be16_bytes (65535 :: u16) = [w0, w1]"
    and "be16_bytes (checksum [0x45, 0, t0, t1, 0, 0, 0x40, 0, 64, 6, 0, 0, a, b, c, d, a', b', c', d']) = [i0, i1]"
    and off: "off = (if w then 0x60 else 0x50)"
    and u: "be16_bytes (tcp_checksum src dst
      (p0 # p1 # q0 # q1 # s0 # s1 # s2 # s3 # k0 # k1 # k2 # k3 # off # flags # w0 # w1 # 0 # 0 # 0 # 0 # mss_option w @ payload))
      = [u0, u1]"
  shows "build_tcp src dst sport dport seq ack flags payload w
      = Some ([0x45, 0, t0, t1, 0, 0, 0x40, 0, 64, 6, i0, i1, a, b, c, d, a', b', c', d',
          p0, p1, q0, q1, s0, s1, s2, s3, k0, k1, k2, k3, off, flags, w0, w1, u0, u1, 0, 0] @ mss_option w @ payload)"
proof -
  obtain m0 m1 where ms: "be16_bytes (1240 :: u16) = [m0, m1]" by (rule be16_bytes_cases)
  have z: "be16_bytes (0 :: u16) = [0, 0]" by (simp add: be16_bytes_def to_be_2)
  show ?thesis
  proof (cases w)
    case w: True
    have rep: "replicate (20 + (20 + (if w then 4 else 0) + length payload)) (0 :: u8) = replicate 44 0 @ replicate (length payload) 0"
      using w by (simp flip: replicate_add)
    have d: "(20 + 4) div 4 = (6 :: nat)" by simp
    show ?thesis
      unfolding build_tcp_def Let_def unfolding assms(1-8) rep z ms d
      using u w by (cases "payload = []")
        (simp_all add: write_simps ip_checksum_def assms(9) off mss_option_def ms zeros_44)
  next
    case w: False
    have rep: "replicate (20 + (20 + (if w then 4 else 0) + length payload)) (0 :: u8) = replicate 40 0 @ replicate (length payload) 0"
      using w by (simp flip: replicate_add)
    have d: "(20 + 0) div 4 = (5 :: nat)" by simp
    show ?thesis
      unfolding build_tcp_def Let_def unfolding assms(1-8) rep z d
      using u w by (cases "payload = []")
        (simp_all add: write_simps ip_checksum_def assms(9) off mss_option_def zeros_40)
  qed
qed

lemma build_tcp_shape:
  obtains ic off tc where "off = (if w then 0x60 else 0x50)"
    and "ic = checksum (ip_words (40 + (if w then 4 else 0) + length payload) 6 @ [0, 0] @ ipv4_octets src @ ipv4_octets dst)"
    and "tc = tcp_checksum src dst ((be16_bytes sport @ be16_bytes dport @ be32_bytes seq @ be32_bytes ack @ [off, flags]
        @ be16_bytes 65535) @ [0, 0] @ [0, 0] @ mss_option w @ payload)"
    and "build_tcp src dst sport dport seq ack flags payload w =
      Some ((ip_words (40 + (if w then 4 else 0) + length payload) 6 @ be16_bytes ic @ ipv4_octets src @ ipv4_octets dst)
        @ (be16_bytes sport @ be16_bytes dport @ be32_bytes seq @ be32_bytes ack @ [off, flags] @ be16_bytes 65535)
        @ be16_bytes tc @ [0, 0] @ mss_option w @ payload)"
proof -
  let ?n = "20 + (20 + (if w then 4 else 0) + length payload)"
  have n: "40 + (if w then 4 else 0) + length payload = ?n" by simp
  obtain t0 t1 where t: "be16_bytes (of_nat ?n) = [t0, t1]" by (rule be16_bytes_cases)
  obtain p0 p1 where sp: "be16_bytes sport = [p0, p1]" by (rule be16_bytes_cases)
  obtain q0 q1 where dp: "be16_bytes dport = [q0, q1]" by (rule be16_bytes_cases)
  obtain s0 s1 s2 s3 where sq: "be32_bytes seq = [s0, s1, s2, s3]" by (rule be32_bytes_cases)
  obtain k0 k1 k2 k3 where ak: "be32_bytes ack = [k0, k1, k2, k3]" by (rule be32_bytes_cases)
  obtain a b c d where sa: "ipv4_octets src = [a, b, c, d]" by (rule ipv4_octets_cases)
  obtain a' b' c' d' where da: "ipv4_octets dst = [a', b', c', d']" by (rule ipv4_octets_cases)
  obtain w0 w1 where wn: "be16_bytes (65535 :: u16) = [w0, w1]" by (rule be16_bytes_cases)
  define off :: u8 where "off = (if w then 0x60 else 0x50)"
  define ic where "ic = checksum [0x45, 0, t0, t1, 0, 0, 0x40, 0, 64, 6, 0, 0, a, b, c, d, a', b', c', d']"
  obtain i0 i1 where i: "be16_bytes ic = [i0, i1]" by (rule be16_bytes_cases)
  define tc where "tc = tcp_checksum src dst
    (p0 # p1 # q0 # q1 # s0 # s1 # s2 # s3 # k0 # k1 # k2 # k3 # off # flags # w0 # w1 # 0 # 0 # 0 # 0 # mss_option w @ payload)"
  obtain u0 u1 where u: "be16_bytes tc = [u0, u1]" by (rule be16_bytes_cases)
  show thesis
  proof (rule that [OF off_def, of ic tc])
    show "ic = checksum (ip_words (40 + (if w then 4 else 0) + length payload) 6 @ [0, 0] @ ipv4_octets src @ ipv4_octets dst)"
      unfolding n ip_words_def t sa da by (simp add: ic_def)
    show "tc = tcp_checksum src dst ((be16_bytes sport @ be16_bytes dport @ be32_bytes seq @ be32_bytes ack @ [off, flags]
        @ be16_bytes 65535) @ [0, 0] @ [0, 0] @ mss_option w @ payload)"
      unfolding sp dp sq ak wn by (simp add: tc_def)
    show "build_tcp src dst sport dport seq ack flags payload w =
      Some ((ip_words (40 + (if w then 4 else 0) + length payload) 6 @ be16_bytes ic @ ipv4_octets src @ ipv4_octets dst)
        @ (be16_bytes sport @ be16_bytes dport @ be32_bytes seq @ be32_bytes ack @ [off, flags] @ be16_bytes 65535)
        @ be16_bytes tc @ [0, 0] @ mss_option w @ payload)"
      unfolding build_tcp_bytes [OF t sp dp sq ak sa da wn i [unfolded ic_def] off_def u [unfolded tc_def]]
        n ip_words_def t i sa da sp dp sq ak wn u by simp
  qed
qed

lemma runs_build_tcp [no_panic]: "runs (build_tcp src dst sport dport seq ack flags payload w)"
  by (rule build_tcp_shape [of w payload src dst sport dport seq ack flags]) simp

lemma build_tcp_ex: "\<exists>pkt. build_tcp src dst sport dport seq ack flags payload w = Some pkt"
  using runs_build_tcp by (simp only: runs_iff)

lemma runs_build_udp [no_panic]: "runs (build_udp src dst sport dport payload)"
  by (simp add: build_udp_eq Let_def)

text \<open>The checksums verify at a receiver.\<close>

lemma checksum_exact:
  "length bs < 131000 \<Longrightarrow> unat (ones_complement_sum bs 0) = sum16 bs"
proof -
  assume "length bs < 131000"
  note len = this
  have "sum16 bs \<le> 65535 * 65500"
    using sum16_le [of bs] by (rule order_trans) (use len in simp)
  then show ?thesis using ones_complement_sum_exact [of 0 bs] by simp
qed

lemma written_checksum_ok:
  assumes "length (as @ [0, 0] @ bs) < 131000" and "even (length as)"
    and "c = checksum (as @ [0, 0] @ bs) \<or> c = never_zero (checksum (as @ [0, 0] @ bs))"
  shows "checksum_ok (as @ be16_bytes c @ bs)"
  using checksum_ok_written [OF assms(2)] assms(3) checksum_exact [OF assms(1)] unfolding checksum_def by blast

lemma udp_checksum_eq:
  "udp_checksum src dst seg = never_zero (checksum (pseudo_header (ipv4_octets src @ ipv4_octets dst) 17 (length seg) @ seg))"
  by (simp add: udp_checksum_def never_zero_def pseudo_header_def Let_def)

lemma tcp_checksum_eq:
  "tcp_checksum src dst seg = checksum (pseudo_header (ipv4_octets src @ ipv4_octets dst) 6 (length seg) @ seg)"
  by (simp add: tcp_checksum_def pseudo_header_def)

lemma built_tcp_checks:
  assumes "length payload \<le> 65491" and "build_tcp src dst sport dport seq ack flags payload w = Some pkt"
  shows "checksum_ok (take 20 pkt)"
    "checksum_ok (pseudo_header (ipv4_octets src @ ipv4_octets dst) 6 (length pkt - 20) @ drop 20 pkt)"
    "length pkt = 40 + (if w then 4 else 0) + length payload"
proof -
  define H where "H = ip_words (40 + (if w then 4 else 0) + length payload) 6"
  define A where "A = ipv4_octets src @ ipv4_octets dst"
  obtain ic off tc where ic: "ic = checksum (H @ [0, 0] @ A)"
    and tc: "tc = tcp_checksum src dst ((be16_bytes sport @ be16_bytes dport @ be32_bytes seq @ be32_bytes ack @ [off, flags]
        @ be16_bytes 65535) @ [0, 0] @ [0, 0] @ mss_option w @ payload)"
    and pkt: "pkt = (H @ be16_bytes ic @ A)
        @ (be16_bytes sport @ be16_bytes dport @ be32_bytes seq @ be32_bytes ack @ [off, flags] @ be16_bytes 65535)
        @ be16_bytes tc @ [0, 0] @ mss_option w @ payload"
    by (rule build_tcp_shape [of w payload src dst sport dport seq ack flags])
      (use assms(2) in \<open>simp add: H_def A_def\<close>)
  define T where "T = be16_bytes sport @ be16_bytes dport @ be32_bytes seq @ be32_bytes ack @ [off, flags] @ be16_bytes 65535"
  let ?r = "[0, 0] @ mss_option w @ payload"
  have l: "length H = 10" "length A = 8" "length T = 16" by (simp_all add: H_def A_def T_def)
  have hl: "length (H @ be16_bytes ic @ A) = 20" by (simp add: l)
  have td: "take 20 pkt = H @ be16_bytes ic @ A" "drop 20 pkt = T @ be16_bytes tc @ ?r"
    using hl unfolding pkt T_def [symmetric] by (simp_all only: take_append drop_append) simp_all
  show "checksum_ok (take 20 pkt)"
    unfolding td by (rule written_checksum_ok) (simp_all add: l ic)
  show "length pkt = 40 + (if w then 4 else 0) + length payload" by (simp add: pkt l)
  then have n: "length pkt - 20 = length (T @ [0, 0] @ ?r)" by (simp add: l)
  have "tc = checksum ((pseudo_header A 6 (length pkt - 20) @ T) @ [0, 0] @ ?r)"
    unfolding n tc tcp_checksum_eq T_def A_def by simp
  then have "checksum_ok ((pseudo_header A 6 (length pkt - 20) @ T) @ be16_bytes tc @ ?r)"
    by (intro written_checksum_ok) (use assms(1) in \<open>simp_all add: l pseudo_header_def\<close>)
  then show "checksum_ok (pseudo_header (ipv4_octets src @ ipv4_octets dst) 6 (length pkt - 20) @ drop 20 pkt)"
    by (simp add: td A_def)
qed

section \<open>Reading a segment from the device\<close>

definition tcp_flags :: "bytes \<Rightarrow> nat \<Rightarrow> (bool \<times> bool \<times> bool) panics" where
  "tcp_flags buf ihl =
     (if length buf < ihl + 14 then Some (False, False, False)
      else do {
        flags \<leftarrow> idx buf (ihl + 13);
        Some (flags AND 0x02 \<noteq> 0, flags AND 0x10 \<noteq> 0, flags AND 0x01 \<noteq> 0)
      })"

definition is_rst_flag :: "bytes \<Rightarrow> bool panics" where
  "is_rst_flag tcp =
     (if length tcp > 13 then do { f \<leftarrow> idx tcp 13; Some (f AND 0x04 \<noteq> 0) } else Some False)"

text \<open>The fields \<open>handle_tcp\<close> reads before it decides anything.\<close>

record segment =
  sg_sport :: u16
  sg_dport :: u16
  sg_seq :: u32
  sg_ack_num :: u32
  sg_syn :: bool
  sg_ack :: bool
  sg_fin :: bool
  sg_rst :: bool
  sg_payload_len :: nat
  sg_payload :: bytes

definition read_segment :: "bytes \<Rightarrow> nat \<Rightarrow> segment option panics" where
  "read_segment packet ihl =
     (if length packet < ihl + 20 then Some None
      else do {
        tcp \<leftarrow> slice packet ihl (length packet);
        p0 \<leftarrow> idx tcp 0; p1 \<leftarrow> idx tcp 1;
        q0 \<leftarrow> idx tcp 2; q1 \<leftarrow> idx tcp 3;
        s0 \<leftarrow> idx tcp 4; s1 \<leftarrow> idx tcp 5; s2 \<leftarrow> idx tcp 6; s3 \<leftarrow> idx tcp 7;
        a0 \<leftarrow> idx tcp 8; a1 \<leftarrow> idx tcp 9; a2 \<leftarrow> idx tcp 10; a3 \<leftarrow> idx tcp 11;
        off \<leftarrow> idx tcp 12;
        let tcp_hdr_len = unat (drop_bit 4 off) * 4;
        (is_syn, is_ack, is_fin) \<leftarrow> tcp_flags packet ihl;
        let payload_len = (if length tcp > tcp_hdr_len then length tcp - tcp_hdr_len else 0);
        payload \<leftarrow> slice tcp tcp_hdr_len (length tcp);
        is_rst \<leftarrow> is_rst_flag tcp;
        Some (Some \<lparr>sg_sport = be16 p0 p1, sg_dport = be16 q0 q1, sg_seq = be32 s0 s1 s2 s3,
          sg_ack_num = be32 a0 a1 a2 a3, sg_syn = is_syn, sg_ack = is_ack, sg_fin = is_fin,
          sg_rst = is_rst, sg_payload_len = payload_len, sg_payload = payload\<rparr>)
      })"

text \<open>The offset of the payload that a packet claims, and its TCP part.\<close>

definition claimed_header :: "bytes \<Rightarrow> nat \<Rightarrow> nat" where
  "claimed_header packet ihl = unat (drop_bit 4 (packet ! (ihl + 12))) * 4"

lemma read_segment_eq:
  "read_segment packet ihl =
     (if length packet < ihl + 20 then Some None
      else if length packet < ihl + claimed_header packet ihl then None
      else let f = packet ! (ihl + 13) in
        Some (Some \<lparr>sg_sport = be16 (packet ! ihl) (packet ! (ihl + 1)), sg_dport = be16 (packet ! (ihl + 2)) (packet ! (ihl + 3)),
          sg_seq = be32 (packet ! (ihl + 4)) (packet ! (ihl + 5)) (packet ! (ihl + 6)) (packet ! (ihl + 7)),
          sg_ack_num = be32 (packet ! (ihl + 8)) (packet ! (ihl + 9)) (packet ! (ihl + 10)) (packet ! (ihl + 11)),
          sg_syn = (f AND 0x02 \<noteq> 0), sg_ack = (f AND 0x10 \<noteq> 0), sg_fin = (f AND 0x01 \<noteq> 0),
          sg_rst = (f AND 0x04 \<noteq> 0), sg_payload_len = length packet - (ihl + claimed_header packet ihl),
          sg_payload = drop (ihl + claimed_header packet ihl) packet\<rparr>))"
proof (cases "length packet < ihl + 20")
  case True
  then show ?thesis by (simp add: read_segment_def)
next
  case False
  then have ne: "drop ihl packet \<noteq> []" by auto
  have g: "get (drop ihl packet) k = Some (packet ! (ihl + k))" if "k < 20" for k
    using that False by (simp add: get_def)
  have sl: "slice packet ihl (length packet) = Some (drop ihl packet)" using False by (simp add: slice_def)
  show ?thesis
    unfolding read_segment_def sl
    using False ne g [of 0] g [of 1] g [of 2] g [of 3] g [of 4] g [of 5] g [of 6] g [of 7] g [of 8] g [of 9] g [of 10]
      g [of 11] g [of 12] g [of 13]
    by (simp add: tcp_flags_def is_rst_flag_def slice_def Let_def claimed_header_def add.commute add.left_commute) linarith
qed

lemma built_tcp_read:
  assumes "build_tcp src dst sport dport seq ack flags payload w = Some pkt"
  shows "read_segment pkt 20 = Some (Some \<lparr>sg_sport = sport, sg_dport = dport, sg_seq = seq, sg_ack_num = ack,
     sg_syn = (flags AND 0x02 \<noteq> 0), sg_ack = (flags AND 0x10 \<noteq> 0), sg_fin = (flags AND 0x01 \<noteq> 0),
     sg_rst = (flags AND 0x04 \<noteq> 0), sg_payload_len = length payload, sg_payload = payload\<rparr>)"
proof -
  define off :: u8 where "off = (if w then 0x60 else 0x50)"
  define H where "H = ip_words (40 + (if w then 4 else 0) + length payload) 6"
  obtain ic tc where pkt: "pkt = (H @ be16_bytes ic @ ipv4_octets src @ ipv4_octets dst)
        @ (be16_bytes sport @ be16_bytes dport @ be32_bytes seq @ be32_bytes ack @ [off, flags] @ be16_bytes 65535)
        @ be16_bytes tc @ [0, 0] @ mss_option w @ payload"
    by (rule build_tcp_shape [of w payload src dst sport dport seq ack flags])
      (use assms in \<open>simp add: H_def off_def\<close>)
  let ?I = "H @ be16_bytes ic @ ipv4_octets src @ ipv4_octets dst"
  obtain p0 p1 where sp: "be16_bytes sport = [p0, p1]" "be16 p0 p1 = sport" by (rule be16_bytes_cases)
  obtain q0 q1 where dp: "be16_bytes dport = [q0, q1]" "be16 q0 q1 = dport" by (rule be16_bytes_cases)
  obtain s0 s1 s2 s3 where sq: "be32_bytes seq = [s0, s1, s2, s3]" "be32 s0 s1 s2 s3 = seq" by (rule be32_bytes_cases)
  obtain k0 k1 k2 k3 where ak: "be32_bytes ack = [k0, k1, k2, k3]" "be32 k0 k1 k2 k3 = ack" by (rule be32_bytes_cases)
  obtain w0 w1 where wn: "be16_bytes (65535 :: u16) = [w0, w1]" by (rule be16_bytes_cases)
  obtain u0 u1 where u: "be16_bytes tc = [u0, u1]" by (rule be16_bytes_cases)
  let ?T = "[p0, p1, q0, q1, s0, s1, s2, s3, k0, k1, k2, k3, off, flags, w0, w1, u0, u1, 0, 0]"
  have p: "pkt = ?I @ ?T @ mss_option w @ payload" by (simp add: pkt sp dp sq ak wn u)
  have l: "length ?I = 20" by (simp add: H_def)
  have n: "pkt ! (20 + k) = ?T ! k" if "k < 20" for k
  proof -
    have "pkt ! (length ?I + k) = (?T @ mss_option w @ payload) ! k" unfolding p by (rule nth_append_length_plus)
    then show ?thesis using that unfolding l by (simp only: nth_append) simp
  qed
  have hdr: "claimed_header pkt 20 = (if w then 24 else 20)"
    using n [of 12] by (simp add: claimed_header_def off_def)
  have "length pkt = length ?I + (20 + (if w then 4 else 0) + length payload)"
    unfolding p by simp
  then have len: "length pkt = 20 + claimed_header pkt 20 + length payload"
    unfolding hdr l by simp
  have "drop (20 + claimed_header pkt 20) pkt = payload"
    unfolding hdr unfolding p using l by (cases w) (simp_all add: mss_option_def)
  then show ?thesis
    using len n [of 0] n [of 1] n [of 2] n [of 3] n [of 4] n [of 5] n [of 6] n [of 7] n [of 8] n [of 9] n [of 10]
      n [of 11] n [of 13] sp(2) dp(2) sq(2) ak(2)
    by (simp add: read_segment_eq Let_def hdr)
qed

text \<open>The length field of the IP header: the packet's length, reduced to 16 bits.\<close>

definition total_length :: "bytes \<Rightarrow> u16" where
  "total_length pkt = be16 (pkt ! 2) (pkt ! 3)"

lemma built_tcp_length:
  assumes "build_tcp src dst sport dport seq ack flags payload w = Some pkt"
  shows "length pkt = 40 + (if w then 4 else 0) + length payload" "total_length pkt = of_nat (length pkt)"
proof -
  define off :: u8 where "off = (if w then 0x60 else 0x50)"
  define n where "n = 40 + (if w then 4 else 0) + length payload"
  obtain ic tc where pkt: "pkt = (ip_words n 6 @ be16_bytes ic @ ipv4_octets src @ ipv4_octets dst)
        @ (be16_bytes sport @ be16_bytes dport @ be32_bytes seq @ be32_bytes ack @ [off, flags] @ be16_bytes 65535)
        @ be16_bytes tc @ [0, 0] @ mss_option w @ payload"
    by (rule build_tcp_shape [of w payload src dst sport dport seq ack flags])
      (use assms in \<open>simp add: off_def n_def\<close>)
  then have l: "length pkt = n" by (simp add: n_def)
  then show "length pkt = 40 + (if w then 4 else 0) + length payload" by (simp add: n_def)
  obtain a b where ab: "be16_bytes (of_nat n :: u16) = [a, b]" "be16 a b = of_nat n" by (rule be16_bytes_cases)
  have "ip_words n 6 = [0x45, 0, a, b] @ [0, 0, 0x40, 0, 64, 6]" by (simp add: ip_words_def ab(1))
  then have "pkt ! 2 = a" "pkt ! 3 = b" by (simp_all add: pkt)
  then show "total_length pkt = of_nat (length pkt)" by (simp only: total_length_def ab(2) l)
qed

end
