(* ===== verification/Tun2Socks.thy ===== *)
theory Tun2Socks
  imports T2s_Wire
begin

text \<open>
  The TCP half of the tun2socks bridge (\<^verbatim>\<open>socks_upstream.rs\<close>): the table of connections keyed by
  the application's port, the shared \<open>AtomicU32\<close> cells of a connection (an explicit store, since
  the table, the connect task and the response reader share them), the channels towards the
  SOCKS server, and the packets written to the device. \<open>handle_tcp\<close> is split where it releases
  the lock before acknowledging; the tasks it spawns are steps of their own. Whether a write to
  the device succeeds and the random initial sequence number are arguments.
\<close>

section \<open>State\<close>

record tcp_conn =
  cn_data_tx :: "nat option"
  cn_ack :: nat
  cn_seq :: nat
  cn_isn :: u32
  cn_connecting :: bool

record connect_task =
  ct_src :: ipv4
  ct_dst :: ipv4
  ct_sport :: u16
  ct_dport :: u16
  ct_seq_num :: u32
  ct_isn :: u32
  ct_ack :: nat
  ct_seq :: nat

record reader_task =
  rd_tun_ip :: ipv4
  rd_remote_ip :: ipv4
  rd_tun_port :: u16
  rd_remote_port :: u16
  rd_seq :: nat
  rd_ack :: nat

text \<open>An acknowledgement \<open>handle_tcp\<close> still owes when it has released the lock.\<close>

record pending_ack =
  pa_src :: ipv4
  pa_dst :: ipv4
  pa_sport :: u16
  pa_dport :: u16

record t2s =
  ts_conns :: "u16 \<Rightarrow> tcp_conn option"
  ts_cells :: "nat \<Rightarrow> u32"
  ts_next_cell :: nat
  ts_chans :: "nat \<Rightarrow> bytes channel"
  ts_next_chan :: nat
  ts_upstream :: "nat \<Rightarrow> bytes"
  ts_tun :: "bytes list"
  ts_connects :: "connect_task list"
  ts_opening :: "connect_task list"
  ts_answering :: "connect_task list"
  ts_failing :: "connect_task list"
  ts_readers :: "reader_task list"
  ts_writing :: "(reader_task \<times> u32) list"
  ts_ending :: "reader_task list"
  ts_pending :: "pending_ack option"

definition ipv4_is_private :: "ipv4 \<Rightarrow> bool" where
  "ipv4_is_private w =
     (case ipv4_octets w of
        [a, b, c, d] \<Rightarrow> a = 10 \<or> (a = 172 \<and> 16 \<le> b \<and> b \<le> 31) \<or> (a = 192 \<and> b = 168)
      | _ \<Rightarrow> False)"

section \<open>Operations\<close>

definition send_tcp_ex ::
  "bool \<Rightarrow> ipv4 \<Rightarrow> ipv4 \<Rightarrow> u16 \<Rightarrow> u16 \<Rightarrow> u32 \<Rightarrow> u32 \<Rightarrow> u8 \<Rightarrow> bytes \<Rightarrow> bool \<Rightarrow> t2s \<Rightarrow> t2s panics" where
  "send_tcp_ex wr src_ip dst_ip src_port dst_port seq ack flags payload with_mss s = do {
     pkt \<leftarrow> build_tcp src_ip dst_ip src_port dst_port seq ack flags payload with_mss;
     Some (if wr then s\<lparr>ts_tun := ts_tun s @ [pkt]\<rparr> else s)
   }"

definition remove_conn :: "u16 \<Rightarrow> t2s \<Rightarrow> t2s" where
  "remove_conn sport s = s\<lparr>ts_conns := (ts_conns s)(sport := None)\<rparr>"

definition store_cell :: "nat \<Rightarrow> u32 \<Rightarrow> t2s \<Rightarrow> t2s" where
  "store_cell i v s = s\<lparr>ts_cells := (ts_cells s)(i := v)\<rparr>"

text \<open>The SYN branch.\<close>

definition open_conn :: "u32 \<Rightarrow> segment \<Rightarrow> ipv4 \<Rightarrow> ipv4 \<Rightarrow> t2s \<Rightarrow> t2s" where
  "open_conn isn g src_ip dst_ip s = (
     let a = ts_next_cell s; q = a + 1 in
     s\<lparr>ts_cells := (ts_cells s)(a := sg_seq g + 1, q := isn),
       ts_next_cell := q + 1,
       ts_conns := (ts_conns s)(sg_sport g \<mapsto>
         \<lparr>cn_data_tx = None, cn_ack = a, cn_seq = q, cn_isn = isn, cn_connecting = True\<rparr>),
       ts_connects := ts_connects s @
         [\<lparr>ct_src = src_ip, ct_dst = dst_ip, ct_sport = sg_sport g, ct_dport = sg_dport g,
           ct_seq_num = sg_seq g, ct_isn = isn, ct_ack = a, ct_seq = q\<rparr>]\<rparr>)"

definition handle_syn :: "bool \<Rightarrow> u32 \<Rightarrow> segment \<Rightarrow> ipv4 \<Rightarrow> ipv4 \<Rightarrow> t2s \<Rightarrow> t2s panics" where
  "handle_syn wr isn g src_ip dst_ip s =
     (if ipv4_is_private dst_ip
      then send_tcp_ex wr dst_ip src_ip (sg_dport g) (sg_sport g) 0 (sg_seq g + 1) 0x14 [] False s
      else case ts_conns s (sg_sport g) of
          Some conn \<Rightarrow>
            if \<not> cn_connecting conn
            then send_tcp_ex wr dst_ip src_ip (sg_dport g) (sg_sport g) (cn_isn conn)
                   (ts_cells s (cn_ack conn)) 0x12 [] True s
            else Some s
        | None \<Rightarrow> Some (open_conn isn g src_ip dst_ip s))"

text \<open>The data branch: what is new in the segment goes to the SOCKS server.\<close>

datatype action = Forward nat "nat option" | Ack_Only

definition data_action :: "segment \<Rightarrow> tcp_conn \<Rightarrow> t2s \<Rightarrow> t2s \<times> action" where
  "data_action g conn s = (
     let expected = ts_cells s (cn_ack conn);
       behind = sint (expected - sg_seq g);
       after = store_cell (cn_ack conn) (sg_seq g + of_nat (sg_payload_len g)) s
     in if behind = 0 then (after, Forward 0 (cn_data_tx conn))
        else if behind > 0 then
          (if nat behind \<ge> sg_payload_len g then (s, Ack_Only)
           else (after, Forward (nat behind) (cn_data_tx conn)))
        else (s, Ack_Only))"

definition forward_data :: "bytes \<Rightarrow> nat \<Rightarrow> t2s \<Rightarrow> t2s" where
  "forward_data bs ch s =
     (case try_send (ts_chans s ch) bs of
        Inr c \<Rightarrow> s\<lparr>ts_chans := (ts_chans s)(ch := c)\<rparr>
      | Inl _ \<Rightarrow> s)"

definition handle_data :: "segment \<Rightarrow> ipv4 \<Rightarrow> ipv4 \<Rightarrow> t2s \<Rightarrow> (t2s \<times> nat) panics" where
  "handle_data g src_ip dst_ip s =
     (case ts_conns s (sg_sport g) of
        None \<Rightarrow> Some (s, 0)
      | Some conn \<Rightarrow>
          if cn_connecting conn then Some (s, 0)
          else do {
            let (s, act) = data_action g conn s;
            s \<leftarrow> (case act of
                Forward off (Some ch) \<Rightarrow> do {
                  bs \<leftarrow> slice (sg_payload g) off (length (sg_payload g));
                  Some (forward_data bs ch s)
                }
              | _ \<Rightarrow> Some s);
            Some (s\<lparr>ts_pending := Some \<lparr>pa_src = src_ip, pa_dst = dst_ip, pa_sport = sg_sport g,
                pa_dport = sg_dport g\<rparr>\<rparr>, sg_payload_len g)
          })"

text \<open>\<open>handle_tcp\<close> up to the acknowledgement, and the acknowledgement.\<close>

definition handle_tcp ::
  "bool \<Rightarrow> u32 \<Rightarrow> bytes \<Rightarrow> nat \<Rightarrow> ipv4 \<Rightarrow> ipv4 \<Rightarrow> t2s \<Rightarrow> (t2s \<times> nat) panics" where
  "handle_tcp wr isn packet ihl src_ip dst_ip s = do {
     r \<leftarrow> read_segment packet ihl;
     (case r of
        None \<Rightarrow> Some (s, 0)
      | Some g \<Rightarrow>
          if sg_fin g \<or> sg_rst g then Some (remove_conn (sg_sport g) s, 0)
          else if sg_syn g then do {
            s \<leftarrow> handle_syn wr isn g src_ip dst_ip s;
            Some (s, 64)
          }
          else if sg_ack g \<and> 0 < sg_payload_len g then handle_data g src_ip dst_ip s
          else Some (s, 0))
   }"

definition handle_tcp_ack :: "bool \<Rightarrow> pending_ack \<Rightarrow> t2s \<Rightarrow> t2s panics" where
  "handle_tcp_ack wr p s = (
     let s = s\<lparr>ts_pending := None\<rparr> in
     case ts_conns s (pa_sport p) of
       None \<Rightarrow> Some s
     | Some conn \<Rightarrow>
         send_tcp_ex wr (pa_dst p) (pa_src p) (pa_dport p) (pa_sport p)
           (ts_cells s (cn_seq conn)) (ts_cells s (cn_ack conn)) 0x10 [] False s)"

section \<open>The tasks it spawns\<close>

definition data_channel_cap :: nat where
  "data_channel_cap = 128"

text \<open>
  A connect task stops at every lock and every write: other tasks run in between. When the SOCKS
  connection is up it looks whether the application still waits; then it enters the
  connection and starts the reader (\<open>dup_ok\<close>: the reader got its descriptor); then it writes the
  SYN-ACK. When the connection has failed it writes a RST and removes the entry.
\<close>

definition connect_check :: "connect_task \<Rightarrow> t2s \<Rightarrow> t2s" where
  "connect_check t s =
     (case ts_conns s (ct_sport t) of
        Some c \<Rightarrow> if cn_connecting c then s\<lparr>ts_opening := ts_opening s @ [t]\<rparr> else s
      | None \<Rightarrow> s)"

definition connect_ok :: "bool \<Rightarrow> connect_task \<Rightarrow> t2s \<Rightarrow> t2s" where
  "connect_ok dup_ok t s = (
     let ch = ts_next_chan s;
       s = s\<lparr>ts_next_chan := ch + 1,
             ts_chans := (ts_chans s)(ch := \<lparr>ch_queue = [], ch_cap = data_channel_cap, ch_closed = False\<rparr>),
             ts_upstream := (ts_upstream s)(ch := [])\<rparr>;
       s = store_cell (ct_seq t) (ct_isn t + 1) s;
       s = s\<lparr>ts_conns := (ts_conns s)(ct_sport t \<mapsto>
         \<lparr>cn_data_tx = Some ch, cn_ack = ct_ack t, cn_seq = ct_seq t, cn_isn = ct_isn t, cn_connecting = False\<rparr>)\<rparr>;
       s = (if dup_ok then s\<lparr>ts_readers := ts_readers s @
              [\<lparr>rd_tun_ip = ct_src t, rd_remote_ip = ct_dst t, rd_tun_port = ct_sport t,
                rd_remote_port = ct_dport t, rd_seq = ct_seq t, rd_ack = ct_ack t\<rparr>]\<rparr> else s)
     in s\<lparr>ts_answering := ts_answering s @ [t]\<rparr>)"

definition connect_answer :: "bool \<Rightarrow> connect_task \<Rightarrow> t2s \<Rightarrow> t2s panics" where
  "connect_answer wr t s =
     send_tcp_ex wr (ct_dst t) (ct_src t) (ct_dport t) (ct_sport t) (ct_isn t) (ts_cells s (ct_ack t)) 0x12 [] True s"

definition connect_failed :: "bool \<Rightarrow> connect_task \<Rightarrow> t2s \<Rightarrow> t2s panics" where
  "connect_failed wr t s = do {
     s \<leftarrow> send_tcp_ex wr (ct_dst t) (ct_src t) (ct_dport t) (ct_sport t) 0 (ct_seq_num t + 1) 0x04 [] False s;
     Some (s\<lparr>ts_failing := ts_failing s @ [t]\<rparr>)
   }"

text \<open>
  The response reader: a chunk arrives and is written, then the sequence number moves over it,
  whether or not the device took it; or the stream ends (0x11) or fails (0x04), and
  the entry of its port is removed behind the last packet.
\<close>

definition reader_send :: "bool \<Rightarrow> reader_task \<Rightarrow> u8 \<Rightarrow> bytes \<Rightarrow> t2s \<Rightarrow> t2s panics" where
  "reader_send wr r flags payload s =
     send_tcp_ex wr (rd_remote_ip r) (rd_tun_ip r) (rd_remote_port r) (rd_tun_port r)
       (ts_cells s (rd_seq r)) (ts_cells s (rd_ack r)) flags payload False s"

definition reader_chunk :: "bool \<Rightarrow> reader_task \<Rightarrow> bytes \<Rightarrow> t2s \<Rightarrow> t2s panics" where
  "reader_chunk wr r chunk s = (
     let seq = ts_cells s (rd_seq r) in do {
       s \<leftarrow> reader_send wr r 0x18 chunk s;
       Some (s\<lparr>ts_writing := ts_writing s @ [(r, seq + of_nat (length chunk))]\<rparr>)
     })"

definition reader_advance :: "reader_task \<Rightarrow> u32 \<Rightarrow> t2s \<Rightarrow> t2s" where
  "reader_advance r seq s = (store_cell (rd_seq r) seq s)\<lparr>ts_readers := ts_readers s @ [r]\<rparr>"

definition reader_end :: "bool \<Rightarrow> u8 \<Rightarrow> reader_task \<Rightarrow> t2s \<Rightarrow> t2s panics" where
  "reader_end wr flags r s = do {
     s \<leftarrow> reader_send wr r flags [] s;
     Some (s\<lparr>ts_ending := ts_ending s @ [r]\<rparr>)
   }"

text \<open>The writer: takes the next item off the channel and writes it, or its stream fails.\<close>

definition writer_step :: "bool \<Rightarrow> nat \<Rightarrow> t2s \<Rightarrow> t2s" where
  "writer_step ok ch s =
     (case ch_queue (ts_chans s ch) of
        [] \<Rightarrow> s
      | d # ds \<Rightarrow>
          let c = (ts_chans s ch)\<lparr>ch_queue := ds\<rparr> in
          if ok then s\<lparr>ts_chans := (ts_chans s)(ch := c), ts_upstream := (ts_upstream s)(ch := ts_upstream s ch @ d)\<rparr>
          else s\<lparr>ts_chans := (ts_chans s)(ch := c\<lparr>ch_queue := [], ch_closed := True\<rparr>)\<rparr>)"

section \<open>Runs\<close>

definition t2s_init :: t2s where
  "t2s_init = \<lparr>ts_conns = Map.empty, ts_cells = (\<lambda>_. 0), ts_next_cell = 0,
     ts_chans = (\<lambda>_. \<lparr>ch_queue = [], ch_cap = data_channel_cap, ch_closed = False\<rparr>), ts_next_chan = 0,
     ts_upstream = (\<lambda>_. []), ts_tun = [], ts_connects = [], ts_opening = [], ts_answering = [],
     ts_failing = [], ts_readers = [], ts_writing = [], ts_ending = [], ts_pending = None\<rparr>"

text \<open>
  The interleavings: the read loop takes the next packet only when it has sent the
  acknowledgement it owes; the tasks run in between in any order.
\<close>

inductive t2s_step :: "t2s \<Rightarrow> t2s \<Rightarrow> bool" where
  tcp_in: "ts_pending s = None \<Longrightarrow> handle_tcp wr isn packet ihl src_ip dst_ip s = Some (s', n) \<Longrightarrow> t2s_step s s'"
| ack_out: "ts_pending s = Some p \<Longrightarrow> handle_tcp_ack wr p s = Some s' \<Longrightarrow> t2s_step s s'"
| connect_lost: "t \<in> set (ts_connects s) \<Longrightarrow> t2s_step s (s\<lparr>ts_connects := remove1 t (ts_connects s)\<rparr>)"
| connect_seen: "t \<in> set (ts_connects s) \<Longrightarrow> t2s_step s (connect_check t (s\<lparr>ts_connects := remove1 t (ts_connects s)\<rparr>))"
| connect_up: "t \<in> set (ts_opening s) \<Longrightarrow> t2s_step s (connect_ok dup_ok t (s\<lparr>ts_opening := remove1 t (ts_opening s)\<rparr>))"
| connect_answered: "t \<in> set (ts_answering s) \<Longrightarrow>
    connect_answer wr t (s\<lparr>ts_answering := remove1 t (ts_answering s)\<rparr>) = Some s' \<Longrightarrow> t2s_step s s'"
| connect_down: "t \<in> set (ts_connects s) \<Longrightarrow>
    connect_failed wr t (s\<lparr>ts_connects := remove1 t (ts_connects s)\<rparr>) = Some s' \<Longrightarrow> t2s_step s s'"
| connect_gone: "t \<in> set (ts_failing s) \<Longrightarrow>
    t2s_step s (remove_conn (ct_sport t) (s\<lparr>ts_failing := remove1 t (ts_failing s)\<rparr>))"
| chunk_in: "r \<in> set (ts_readers s) \<Longrightarrow> 0 < length chunk \<Longrightarrow> length chunk \<le> 65535 \<Longrightarrow>
    reader_chunk wr r chunk (s\<lparr>ts_readers := remove1 r (ts_readers s)\<rparr>) = Some s' \<Longrightarrow> t2s_step s s'"
| chunk_done: "(r, seq) \<in> set (ts_writing s) \<Longrightarrow>
    t2s_step s (reader_advance r seq (s\<lparr>ts_writing := remove1 (r, seq) (ts_writing s)\<rparr>))"
| stream_end: "r \<in> set (ts_readers s) \<Longrightarrow> flags \<in> {0x11, 0x04} \<Longrightarrow>
    reader_end wr flags r (s\<lparr>ts_readers := remove1 r (ts_readers s)\<rparr>) = Some s' \<Longrightarrow> t2s_step s s'"
| stream_gone: "r \<in> set (ts_ending s) \<Longrightarrow>
    t2s_step s (remove_conn (rd_tun_port r) (s\<lparr>ts_ending := remove1 r (ts_ending s)\<rparr>))"
| data_out: "t2s_step s (writer_step ok ch s)"

inductive t2s_reach :: "t2s \<Rightarrow> bool" where
  reach_init: "t2s_reach t2s_init"
| reach_step: "t2s_reach s \<Longrightarrow> t2s_step s s' \<Longrightarrow> t2s_reach s'"

inductive_cases t2s_stepE: "t2s_step s s'"

text \<open>The tasks that will still use their cells, and which port uses which acknowledgement cell.\<close>

definition dialling :: "t2s \<Rightarrow> connect_task set" where
  "dialling s = set (ts_connects s) \<union> set (ts_opening s)"

definition reading :: "t2s \<Rightarrow> reader_task set" where
  "reading s = set (ts_readers s) \<union> fst ` set (ts_writing s)"

definition holders :: "t2s \<Rightarrow> (u16 \<times> nat) set" where
  "holders s = {(p, cn_ack c) | p c. ts_conns s p = Some c}
     \<union> (\<lambda>t. (ct_sport t, ct_ack t)) ` dialling s
     \<union> (\<lambda>r. (rd_tun_port r, rd_ack r)) ` reading s"

definition conn_wf :: "nat \<Rightarrow> tcp_conn \<Rightarrow> bool" where
  "conn_wf next_chan c \<longleftrightarrow> cn_seq c = Suc (cn_ack c)
     \<and> (case cn_data_tx c of None \<Rightarrow> cn_connecting c | Some ch \<Rightarrow> \<not> cn_connecting c \<and> ch < next_chan)"

definition t2s_wf :: "t2s \<Rightarrow> bool" where
  "t2s_wf s \<longleftrightarrow>
     even (ts_next_cell s)
     \<and> (\<forall>(p, a) \<in> holders s. even a \<and> a < ts_next_cell s)
     \<and> (\<forall>(p, a) \<in> holders s. \<forall>(q, b) \<in> holders s. a = b \<longrightarrow> p = q)
     \<and> (\<forall>p c. ts_conns s p = Some c \<longrightarrow> conn_wf (ts_next_chan s) c)
     \<and> (\<forall>p q c d ch. ts_conns s p = Some c \<longrightarrow> ts_conns s q = Some d \<longrightarrow>
          cn_data_tx c = Some ch \<longrightarrow> cn_data_tx d = Some ch \<longrightarrow> p = q)
     \<and> (\<forall>t \<in> dialling s. ct_seq t = Suc (ct_ack t) \<and> \<not> ipv4_is_private (ct_dst t))
     \<and> (\<forall>r \<in> reading s. rd_seq r = Suc (rd_ack r) \<and> \<not> ipv4_is_private (rd_remote_ip r))
     \<and> (\<forall>ch. channel_wf (ts_chans s ch) \<and> ch_cap (ts_chans s ch) = data_channel_cap)"

lemma send_tcp_ex_state:
  assumes "send_tcp_ex wr src dst sport dport seq ack flags payload w s = Some s'"
  obtains ps where "s' = s\<lparr>ts_tun := ts_tun s @ ps\<rparr>"
proof -
  from assms obtain pkt where "s' = (if wr then s\<lparr>ts_tun := ts_tun s @ [pkt]\<rparr> else s)"
    by (auto simp: send_tcp_ex_def bind_eq_Some_conv)
  then show thesis using that [of "[pkt]"] that [of "[]"] by (cases wr) simp_all
qed

lemma dialling_frame [simp]: "dialling (s\<lparr>ts_tun := x\<rparr>) = dialling s" "dialling (s\<lparr>ts_pending := y\<rparr>) = dialling s"
  "dialling (s\<lparr>ts_cells := z\<rparr>) = dialling s" "dialling (s\<lparr>ts_chans := w\<rparr>) = dialling s"
  "dialling (s\<lparr>ts_upstream := u\<rparr>) = dialling s" "dialling (s\<lparr>ts_answering := a\<rparr>) = dialling s"
  "dialling (s\<lparr>ts_failing := f\<rparr>) = dialling s" "dialling (s\<lparr>ts_ending := e\<rparr>) = dialling s"
  by (simp_all add: dialling_def)

lemma reading_frame [simp]: "reading (s\<lparr>ts_tun := x\<rparr>) = reading s" "reading (s\<lparr>ts_pending := y\<rparr>) = reading s"
  "reading (s\<lparr>ts_cells := z\<rparr>) = reading s" "reading (s\<lparr>ts_chans := w\<rparr>) = reading s"
  "reading (s\<lparr>ts_upstream := u\<rparr>) = reading s" "reading (s\<lparr>ts_answering := a\<rparr>) = reading s"
  "reading (s\<lparr>ts_failing := f\<rparr>) = reading s" "reading (s\<lparr>ts_ending := e\<rparr>) = reading s"
  by (simp_all add: reading_def)

lemma holders_tun [simp]: "holders (s\<lparr>ts_tun := x\<rparr>) = holders s" "holders (s\<lparr>ts_pending := y\<rparr>) = holders s"
  "holders (s\<lparr>ts_cells := z\<rparr>) = holders s" "holders (s\<lparr>ts_chans := w\<rparr>) = holders s"
  "holders (s\<lparr>ts_upstream := u\<rparr>) = holders s" "holders (s\<lparr>ts_answering := a\<rparr>) = holders s"
  "holders (s\<lparr>ts_failing := f\<rparr>) = holders s" "holders (s\<lparr>ts_ending := e\<rparr>) = holders s"
  by (simp_all add: holders_def)

lemma wf_frame [simp]: "t2s_wf (s\<lparr>ts_tun := x\<rparr>) = t2s_wf s" "t2s_wf (s\<lparr>ts_pending := y\<rparr>) = t2s_wf s"
  "t2s_wf (s\<lparr>ts_cells := z\<rparr>) = t2s_wf s" "t2s_wf (s\<lparr>ts_upstream := u\<rparr>) = t2s_wf s"
  "t2s_wf (s\<lparr>ts_answering := a\<rparr>) = t2s_wf s" "t2s_wf (s\<lparr>ts_failing := f\<rparr>) = t2s_wf s"
  "t2s_wf (s\<lparr>ts_ending := e\<rparr>) = t2s_wf s"
  by (simp_all add: t2s_wf_def)

lemma wf_store [simp]: "t2s_wf (store_cell i v s) = t2s_wf s"
  by (simp add: store_cell_def)

lemma wf_send: "send_tcp_ex wr src dst sport dport seq ack flags payload w s = Some s' \<Longrightarrow> t2s_wf s' = t2s_wf s"
  by (erule send_tcp_ex_state) simp

lemma t2s_wfD:
  assumes "t2s_wf s"
  shows "even (ts_next_cell s)" "(p, a) \<in> holders s \<Longrightarrow> even a \<and> a < ts_next_cell s"
    "(p, a) \<in> holders s \<Longrightarrow> (q, a) \<in> holders s \<Longrightarrow> p = q"
    "ts_conns s p = Some c \<Longrightarrow> conn_wf (ts_next_chan s) c"
    "ts_conns s p = Some c \<Longrightarrow> ts_conns s q = Some d \<Longrightarrow> cn_data_tx c = Some ch \<Longrightarrow> cn_data_tx d = Some ch \<Longrightarrow> p = q"
    "t \<in> dialling s \<Longrightarrow> ct_seq t = Suc (ct_ack t) \<and> \<not> ipv4_is_private (ct_dst t)"
    "r \<in> reading s \<Longrightarrow> rd_seq r = Suc (rd_ack r) \<and> \<not> ipv4_is_private (rd_remote_ip r)"
    "channel_wf (ts_chans s ch)" "ch_cap (ts_chans s ch) = data_channel_cap"
  using assms by (simp_all add: t2s_wf_def, blast+)

lemma t2s_wfI:
  assumes "even (ts_next_cell s)" "\<And>p a. (p, a) \<in> holders s \<Longrightarrow> even a \<and> a < ts_next_cell s"
    "\<And>p q a. (p, a) \<in> holders s \<Longrightarrow> (q, a) \<in> holders s \<Longrightarrow> p = q"
    "\<And>p c. ts_conns s p = Some c \<Longrightarrow> conn_wf (ts_next_chan s) c"
    "\<And>p q c d ch. ts_conns s p = Some c \<Longrightarrow> ts_conns s q = Some d \<Longrightarrow> cn_data_tx c = Some ch \<Longrightarrow>
       cn_data_tx d = Some ch \<Longrightarrow> p = q"
    "\<And>t. t \<in> dialling s \<Longrightarrow> ct_seq t = Suc (ct_ack t) \<and> \<not> ipv4_is_private (ct_dst t)"
    "\<And>r. r \<in> reading s \<Longrightarrow> rd_seq r = Suc (rd_ack r) \<and> \<not> ipv4_is_private (rd_remote_ip r)"
    "\<And>ch. channel_wf (ts_chans s ch)" "\<And>ch. ch_cap (ts_chans s ch) = data_channel_cap"
  shows "t2s_wf s"
  using assms by (auto simp: t2s_wf_def)

lemma wf_fewer:
  assumes "t2s_wf s" and "ts_conns s' \<subseteq>\<^sub>m ts_conns s" and "dialling s' \<subseteq> dialling s"
    and "reading s' \<subseteq> reading s" and "ts_next_cell s' = ts_next_cell s"
    and "ts_next_chan s' = ts_next_chan s" and "ts_chans s' = ts_chans s"
  shows "t2s_wf s'"
proof -
  have c: "ts_conns s p = Some c" if "ts_conns s' p = Some c" for p c
    using assms(2) that by (force simp: map_le_def dom_def)
  have h: "x \<in> holders s" if "x \<in> holders s'" for x
    using that c assms(3,4) unfolding holders_def by blast
  note w = t2s_wfD [OF assms(1)]
  show ?thesis
    by (rule t2s_wfI) (use w h c assms(3-7) in \<open>auto dest: w(2-7) c h\<close>)
qed

lemma wf_remove_conn: "t2s_wf s \<Longrightarrow> t2s_wf (remove_conn p s)"
  by (rule wf_fewer) (auto simp: remove_conn_def map_le_def dialling_def reading_def)

lemma wf_chans:
  "t2s_wf s \<Longrightarrow> channel_wf c \<Longrightarrow> ch_cap c = data_channel_cap \<Longrightarrow> t2s_wf (s\<lparr>ts_chans := (ts_chans s)(ch := c)\<rparr>)"
  by (simp add: t2s_wf_def)

lemma wf_forward_data: "t2s_wf s \<Longrightarrow> t2s_wf (forward_data bs ch s)"
proof (cases "try_send (ts_chans s ch) bs")
  case (Inr c)
  assume w: "t2s_wf s"
  have "ch_cap c = ch_cap (ts_chans s ch)" using Inr by (auto simp: try_send_def split: if_splits)
  then show ?thesis
    using wf_chans [OF w try_send_wf [OF t2s_wfD(8) [OF w] Inr]] t2s_wfD(9) [OF w] Inr
    by (simp add: forward_data_def)
qed (simp add: forward_data_def)

lemma wf_writer_step: "t2s_wf s \<Longrightarrow> t2s_wf (writer_step ok ch s)"
proof (cases "ch_queue (ts_chans s ch)")
  case (Cons d ds)
  assume w: "t2s_wf s"
  have l: "length ds \<le> data_channel_cap"
    using t2s_wfD(8,9) [OF w, of ch] Cons by (simp add: channel_wf_def)
  have "t2s_wf (s\<lparr>ts_chans := (ts_chans s)(ch := c)\<rparr>)"
    if "channel_wf c" "ch_cap c = data_channel_cap" for c
    by (rule wf_chans [OF w that])
  then show ?thesis
    using Cons l t2s_wfD(9) [OF w, of ch] by (simp add: writer_step_def Let_def channel_wf_def)
qed (simp add: writer_step_def)

lemma wf_handle_data: "t2s_wf s \<Longrightarrow> handle_data g src dst s = Some (s', n) \<Longrightarrow> t2s_wf s'"
  by (auto simp: handle_data_def data_action_def bind_eq_Some_conv Let_def wf_forward_data
      split: option.splits if_splits action.splits)

lemma wf_open_conn:
  assumes w: "t2s_wf s" and "\<not> ipv4_is_private dst" and "ts_conns s (sg_sport g) = None"
  shows "t2s_wf (open_conn isn g src dst s)"
proof -
  let ?a = "ts_next_cell s" and ?s = "open_conn isn g src dst s"
  have h: "holders ?s = insert (sg_sport g, ?a) (holders s)"
    using assms(3) by (auto simp: holders_def dialling_def reading_def open_conn_def Let_def split: if_splits)
  note d = t2s_wfD [OF w]
  have old: "b < ?a" "even b" if "(q, b) \<in> holders s" for q b using d(2) that by auto
  show ?thesis
  proof (rule t2s_wfI)
    show "even (ts_next_cell ?s)" using d(1) by (simp add: open_conn_def Let_def)
    show "even b \<and> b < ts_next_cell ?s" if "(q, b) \<in> holders ?s" for q b
      using that d(1) old unfolding h by (fastforce simp: open_conn_def Let_def)
    show "p = q" if "(p, b) \<in> holders ?s" "(q, b) \<in> holders ?s" for p q b
      using that d(3) old unfolding h by blast
  qed (use d assms(2) in \<open>auto simp: open_conn_def dialling_def reading_def Let_def conn_wf_def split: if_splits dest: d(4-7)\<close>)
qed

lemma wf_handle_syn: "t2s_wf s \<Longrightarrow> handle_syn wr isn g src dst s = Some s' \<Longrightarrow> t2s_wf s'"
  by (auto simp: handle_syn_def wf_send wf_open_conn split: if_splits option.splits)

lemma wf_handle_tcp: "t2s_wf s \<Longrightarrow> handle_tcp wr isn packet ihl src dst s = Some (s', n) \<Longrightarrow> t2s_wf s'"
  by (auto simp: handle_tcp_def bind_eq_Some_conv wf_remove_conn split: option.splits if_splits
      dest: wf_handle_syn wf_handle_data)

lemma wf_handle_tcp_ack: "t2s_wf s \<Longrightarrow> handle_tcp_ack wr p s = Some s' \<Longrightarrow> t2s_wf s'"
  by (auto simp: handle_tcp_ack_def Let_def split: option.splits dest!: wf_send)

lemma wf_reader_chunk:
  assumes w: "t2s_wf s" and r: "r \<in> set (ts_readers s)"
    and c: "reader_chunk wr r chunk (s\<lparr>ts_readers := remove1 r (ts_readers s)\<rparr>) = Some s'"
  shows "t2s_wf s'"
proof -
  from c obtain s1 seq where s1: "reader_send wr r 0x18 chunk (s\<lparr>ts_readers := remove1 r (ts_readers s)\<rparr>) = Some s1"
    and s': "s' = s1\<lparr>ts_writing := ts_writing s1 @ [(r, seq)]\<rparr>"
    by (auto simp: reader_chunk_def Let_def bind_eq_Some_conv)
  from s1 obtain ps where "s1 = s\<lparr>ts_readers := remove1 r (ts_readers s), ts_tun := ps\<rparr>"
    by (auto simp: reader_send_def elim: send_tcp_ex_state)
  with r show ?thesis unfolding s'
    by (intro wf_fewer [OF w]) (auto simp: reading_def dialling_def dest: subsetD [OF set_remove1_subset])
qed

lemma wf_reader_advance:
  assumes w: "t2s_wf s" and r: "(r, seq) \<in> set (ts_writing s)"
  shows "t2s_wf (reader_advance r seq (s\<lparr>ts_writing := remove1 (r, seq) (ts_writing s)\<rparr>))"
proof (rule wf_fewer [OF w])
  let ?s = "reader_advance r seq (s\<lparr>ts_writing := remove1 (r, seq) (ts_writing s)\<rparr>)"
  have "r \<in> fst ` set (ts_writing s)" using r by force
  moreover have "fst ` set (remove1 (r, seq) (ts_writing s)) \<subseteq> fst ` set (ts_writing s)"
    by (intro image_mono set_remove1_subset)
  ultimately show "reading ?s \<subseteq> reading s" by (auto simp: reader_advance_def store_cell_def reading_def)
qed (simp_all add: reader_advance_def store_cell_def dialling_def)

lemma wf_fewer_tasks:
  assumes "t2s_wf s"
  shows "t2s_wf (s\<lparr>ts_connects := remove1 t (ts_connects s)\<rparr>)" "t2s_wf (s\<lparr>ts_readers := remove1 r (ts_readers s)\<rparr>)"
  by (rule wf_fewer [OF assms]; auto simp: dialling_def reading_def dest: subsetD [OF set_remove1_subset])+

lemma wf_reader_end: "t2s_wf s \<Longrightarrow> reader_end wr flags r s = Some s' \<Longrightarrow> t2s_wf s'"
  by (auto simp: reader_end_def reader_send_def bind_eq_Some_conv dest!: wf_send)

lemma wf_connect_failed: "t2s_wf s \<Longrightarrow> connect_failed wr t s = Some s' \<Longrightarrow> t2s_wf s'"
  by (auto simp: connect_failed_def bind_eq_Some_conv dest!: wf_send)

lemma wf_connect_check:
  assumes w: "t2s_wf s" and t: "t \<in> set (ts_connects s)"
  shows "t2s_wf (connect_check t (s\<lparr>ts_connects := remove1 t (ts_connects s)\<rparr>))"
  by (rule wf_fewer [OF w])
    (use t in \<open>auto simp: connect_check_def dialling_def reading_def split: option.splits dest: subsetD [OF set_remove1_subset]\<close>)

text \<open>The state of an established connection, before its SYN-ACK is written.\<close>

definition established :: "bool \<Rightarrow> connect_task \<Rightarrow> t2s \<Rightarrow> t2s" where
  "established dup_ok t s = (
     let ch = ts_next_chan s in
     s\<lparr>ts_next_chan := ch + 1,
       ts_chans := (ts_chans s)(ch := \<lparr>ch_queue = [], ch_cap = data_channel_cap, ch_closed = False\<rparr>),
       ts_upstream := (ts_upstream s)(ch := []),
       ts_cells := (ts_cells s)(ct_seq t := ct_isn t + 1),
       ts_conns := (ts_conns s)(ct_sport t \<mapsto>
         \<lparr>cn_data_tx = Some ch, cn_ack = ct_ack t, cn_seq = ct_seq t, cn_isn = ct_isn t, cn_connecting = False\<rparr>),
       ts_answering := ts_answering s @ [t],
       ts_readers := ts_readers s @ (if dup_ok then
         [\<lparr>rd_tun_ip = ct_src t, rd_remote_ip = ct_dst t, rd_tun_port = ct_sport t,
           rd_remote_port = ct_dport t, rd_seq = ct_seq t, rd_ack = ct_ack t\<rparr>] else [])\<rparr>)"

lemma connect_ok_eq: "connect_ok dup_ok t s = established dup_ok t s"
  by (cases dup_ok) (simp_all add: connect_ok_def established_def store_cell_def Let_def)

lemma wf_established:
  assumes w: "t2s_wf s" and t: "ct_seq t = Suc (ct_ack t)" "\<not> ipv4_is_private (ct_dst t)"
    and new: "even (ct_ack t) \<and> ct_ack t < ts_next_cell s"
    and own: "\<And>q. (q, ct_ack t) \<in> holders s \<Longrightarrow> q = ct_sport t"
  shows "t2s_wf (established dup_ok t s)"
proof -
  let ?s = "established dup_ok t s"
  note d = t2s_wfD [OF w]
  have h: "holders ?s \<subseteq> insert (ct_sport t, ct_ack t) (holders s)"
    by (auto simp: holders_def dialling_def reading_def established_def Let_def split: if_splits)
  have f: "ts_next_cell ?s = ts_next_cell s" "ts_next_chan ?s = Suc (ts_next_chan s)"
    "dialling ?s = dialling s" "ts_chans ?s = (ts_chans s)(ts_next_chan s :=
       \<lparr>ch_queue = [], ch_cap = data_channel_cap, ch_closed = False\<rparr>)"
    "ts_conns ?s = (ts_conns s)(ct_sport t \<mapsto> \<lparr>cn_data_tx = Some (ts_next_chan s), cn_ack = ct_ack t,
       cn_seq = ct_seq t, cn_isn = ct_isn t, cn_connecting = False\<rparr>)"
    by (simp_all add: established_def dialling_def Let_def)
  have rd: "rd_seq r = Suc (rd_ack r) \<and> \<not> ipv4_is_private (rd_remote_ip r)" if "r \<in> reading ?s" for r
    using that d(7) t by (auto simp: established_def reading_def Let_def split: if_splits)
  have old: "ch < ts_next_chan s" if "ts_conns s p = Some c" "cn_data_tx c = Some ch" for p c ch
    using d(4) [OF that(1)] that(2) by (simp add: conn_wf_def)
  have cw: "conn_wf (Suc (ts_next_chan s)) c" if "ts_conns s p = Some c" for p c
    using d(4) [OF that] by (auto simp: conn_wf_def split: option.splits)
  show ?thesis
  proof (rule t2s_wfI)
    show "p = q" if "(p, b) \<in> holders ?s" "(q, b) \<in> holders ?s" for p q b
      using that h d(3) own by blast
    show "even b \<and> b < ts_next_cell ?s" if "(q, b) \<in> holders ?s" for q b
      using that h d(2) new unfolding f by blast
    show "conn_wf (ts_next_chan ?s) c" if "ts_conns ?s p = Some c" for p c
      using that cw t unfolding f by (auto simp: conn_wf_def split: if_splits)
    show "p = q" if "ts_conns ?s p = Some c" "ts_conns ?s q = Some e" "cn_data_tx c = Some ch" "cn_data_tx e = Some ch"
      for p q c e ch
      using that d(5) unfolding f by (auto split: if_splits dest: old)
    show "channel_wf (ts_chans ?s ch)" "ch_cap (ts_chans ?s ch) = data_channel_cap" for ch
      using d(8,9) [of ch] unfolding f by (simp_all add: channel_wf_def)
  qed (use d(1,6) rd f(1,3) in simp_all)
qed

lemma wf_connect_ok:
  assumes w: "t2s_wf s" and t: "t \<in> set (ts_opening s)"
  shows "t2s_wf (connect_ok dup_ok t (s\<lparr>ts_opening := remove1 t (ts_opening s)\<rparr>))"
proof -
  let ?s = "s\<lparr>ts_opening := remove1 t (ts_opening s)\<rparr>"
  have w': "t2s_wf ?s" by (rule wf_fewer [OF w]) (auto simp: dialling_def reading_def dest: subsetD [OF set_remove1_subset])
  have hs: "x \<in> holders ?s \<Longrightarrow> x \<in> holders s" for x
    by (auto simp: holders_def dialling_def reading_def dest: subsetD [OF set_remove1_subset])
  have d: "t \<in> dialling s" using t by (simp add: dialling_def)
  then have own: "(ct_sport t, ct_ack t) \<in> holders s" by (auto simp: holders_def)
  show ?thesis unfolding connect_ok_eq
    by (rule wf_established [OF w'])
      (use t2s_wfD(2) [OF w own] t2s_wfD(6) [OF w d] in \<open>auto dest!: hs intro: t2s_wfD(3) [OF w _ own]\<close>)
qed

lemma wf_step: "t2s_step s s' \<Longrightarrow> t2s_wf s \<Longrightarrow> t2s_wf s'"
proof (induction rule: t2s_step.induct)
  case (connect_answered t s wr s')
  then show ?case by (auto simp: connect_answer_def dest!: wf_send)
next
  case (connect_down t s wr s')
  then show ?case using wf_connect_failed wf_fewer_tasks(1) by blast
next
  case (stream_end r s flags wr s')
  then show ?case using wf_reader_end wf_fewer_tasks(2) by blast
qed (auto intro: wf_handle_tcp wf_handle_tcp_ack wf_connect_ok wf_connect_check wf_reader_chunk wf_reader_advance
    wf_writer_step wf_fewer_tasks wf_remove_conn)

lemma reach_wf: "t2s_reach s \<Longrightarrow> t2s_wf s"
proof (induction rule: t2s_reach.induct)
  case reach_init
  show ?case by (rule t2s_wfI) (simp_all add: t2s_init_def holders_def dialling_def reading_def channel_wf_def)
next
  case (reach_step s s')
  then show ?case using wf_step by blast
qed

section \<open>One connection: the application's stream\<close>

text \<open>
  The application sends the bytes \<open>data\<close>, the first one with sequence number \<open>base\<close>. A state
  carries the stream on \<open>port\<close> when the first \<open>k\<close> bytes, and nothing else, have gone to the SOCKS
  connection or wait in its channel, and \<open>k\<close> bytes are acknowledged.
\<close>

definition carried :: "t2s \<Rightarrow> nat \<Rightarrow> bytes" where
  "carried s ch = ts_upstream s ch @ concat (ch_queue (ts_chans s ch))"

definition carries :: "bytes \<Rightarrow> u32 \<Rightarrow> u16 \<Rightarrow> nat \<Rightarrow> t2s \<Rightarrow> bool" where
  "carries data base port k s \<longleftrightarrow>
     (\<exists>c ch. ts_conns s port = Some c \<and> \<not> cn_connecting c \<and> cn_data_tx c = Some ch
        \<and> ts_cells s (cn_ack c) = base + of_nat k \<and> k \<le> length data \<and> carried s ch = take k data)"

text \<open>A data segment of that stream: \<open>n\<close> bytes from offset \<open>off\<close>.\<close>

definition segment_of :: "bytes \<Rightarrow> u32 \<Rightarrow> u16 \<Rightarrow> nat \<Rightarrow> nat \<Rightarrow> bytes \<Rightarrow> nat \<Rightarrow> bool" where
  "segment_of data base port off n packet ihl \<longleftrightarrow>
     off + n \<le> length data \<and> 0 < n \<and>
     (\<exists>g. read_segment packet ihl = Some (Some g) \<and> sg_sport g = port \<and> sg_ack g \<and> \<not> sg_syn g
        \<and> \<not> sg_fin g \<and> \<not> sg_rst g \<and> sg_seq g = base + of_nat off
        \<and> sg_payload_len g = n \<and> sg_payload g = take n (drop off data))"

definition has_room :: "u16 \<Rightarrow> nat \<Rightarrow> t2s \<Rightarrow> bool" where
  "has_room port m s \<longleftrightarrow>
     (\<forall>c ch. ts_conns s port = Some c \<longrightarrow> cn_data_tx c = Some ch \<longrightarrow>
        \<not> ch_closed (ts_chans s ch) \<and> length (ch_queue (ts_chans s ch)) + m \<le> ch_cap (ts_chans s ch))"

text \<open>The signed distance between two sequence numbers less than \<open>2 ^ 31\<close> apart.\<close>

lemma signed_distance:
  assumes "k < 2 ^ 31" and "j < 2 ^ 31"
  shows "sint (base + of_nat k - (base + of_nat j) :: u32) = int k - int j"
proof -
  have "base + of_nat k - (base + of_nat j) = (of_int (int k - int j) :: u32)" by simp
  moreover have "sint (of_int (int k - int j) :: u32) = int k - int j"
    using assms by (simp only: signed_of_int) (simp add: signed_take_bit_int_eq_self)
  ultimately show ?thesis by simp
qed

lemma slice_from: "off \<le> length xs \<Longrightarrow> slice xs off (length xs) = Some (drop off xs)"
  by (simp add: slice_def)

lemma forward_fields [simp]:
  "ts_conns (forward_data bs ch s) = ts_conns s" "ts_cells (forward_data bs ch s) = ts_cells s"
  "ts_upstream (forward_data bs ch s) = ts_upstream s" "ts_tun (forward_data bs ch s) = ts_tun s"
  by (simp_all add: forward_data_def split: sum.split)

lemma forward_data_carried:
  assumes "\<not> ch_closed (ts_chans s ch)" and "length (ch_queue (ts_chans s ch)) < ch_cap (ts_chans s ch)"
  shows "carried (forward_data bs ch s) ch = carried s ch @ bs"
    "ts_chans (forward_data bs ch s) = (ts_chans s)(ch := (ts_chans s ch)\<lparr>ch_queue := ch_queue (ts_chans s ch) @ [bs]\<rparr>)"
  using assms by (simp_all add: carried_def forward_data_def try_send_def)

text \<open>The bytes acknowledged after a segment.\<close>

definition advance :: "nat \<Rightarrow> nat \<Rightarrow> nat \<Rightarrow> nat" where
  "advance k off n = (if off \<le> k then max k (off + n) else k)"

lemma data_step:
  assumes c: "carries data base port k s" and g: "segment_of data base port off n packet ihl"
    and room: "has_room port (Suc m) s" and len: "length data < 2 ^ 31"
  shows "\<exists>s'. handle_tcp wr isn packet ihl src dst s = Some (s', n)
    \<and> carries data base port (advance k off n) s' \<and> has_room port m s' \<and> ts_conns s' = ts_conns s"
proof -
  from c obtain cn ch where cn: "ts_conns s port = Some cn" "\<not> cn_connecting cn" "cn_data_tx cn = Some ch"
    "ts_cells s (cn_ack cn) = base + of_nat k" "k \<le> length data" "carried s ch = take k data"
    by (auto simp: carries_def)
  from g obtain sg where sg: "read_segment packet ihl = Some (Some sg)" "sg_sport sg = port" "sg_ack sg" "\<not> sg_syn sg"
    "\<not> sg_fin sg" "\<not> sg_rst sg" "sg_seq sg = base + of_nat off" "sg_payload_len sg = n"
    "sg_payload sg = take n (drop off data)" and n: "off + n \<le> length data" "0 < n"
    by (auto simp: segment_of_def)
  have r: "\<not> ch_closed (ts_chans s ch)" "length (ch_queue (ts_chans s ch)) + Suc m \<le> ch_cap (ts_chans s ch)"
    using room cn(1,3) by (auto simp: has_room_def)
  have behind: "sint (ts_cells s (cn_ack cn) - sg_seq sg) = int k - int off"
    unfolding cn(4) sg(7) by (rule signed_distance) (use len cn(5) n in linarith)+
  have h: "handle_tcp wr isn packet ihl src dst s = handle_data sg src dst s"
    using sg n by (simp add: handle_tcp_def)
  let ?pend = "\<lambda>t. t\<lparr>ts_pending := Some \<lparr>pa_src = src, pa_dst = dst, pa_sport = port, pa_dport = sg_dport sg\<rparr>\<rparr>"
  show ?thesis
  proof (cases "off \<le> k \<and> k < off + n")
    case True
    let ?t = "store_cell (cn_ack cn) (base + of_nat (off + n)) s"
    let ?bs = "drop (k - off) (take n (drop off data))"
    have bs: "?bs = take (off + n - k) (drop k data)"
      using True by (simp add: drop_take add.commute)
    have lp: "length (take n (drop off data)) = n" using n by simp
    have "slice (take n (drop off data)) (k - off) n = Some ?bs"
    proof -
      have "k - off \<le> n" using True by linarith
      then show ?thesis using slice_from [of "k - off" "take n (drop off data)"] unfolding lp by simp
    qed
    then have "handle_data sg src dst s = Some (?pend (forward_data ?bs ch ?t), n)"
      using cn sg behind True n
      by (simp add: handle_data_def data_action_def Let_def lp nat_diff_distrib' split: if_splits) (auto simp: add.assoc)
    moreover have "carried (forward_data ?bs ch ?t) ch = take (off + n) data"
    proof -
      have "carried (forward_data ?bs ch ?t) ch = carried ?t ch @ ?bs"
        by (rule forward_data_carried) (use r in \<open>simp_all add: store_cell_def\<close>)
      also have "carried ?t ch = take k data" using cn(6) by (simp add: carried_def store_cell_def)
      also have "take k data @ ?bs = take (off + n) data"
        unfolding bs using True by (simp flip: take_add)
      finally show ?thesis .
    qed
    moreover have "advance k off n = off + n" using True by (simp add: advance_def)
    moreover have "has_room port m (?pend (forward_data ?bs ch ?t))"
      using cn(1,3) r by (simp add: has_room_def store_cell_def forward_data_carried(2))
    ultimately show ?thesis
      using cn n h by (auto simp: carries_def carried_def store_cell_def)
  next
    case False
    then have adv: "advance k off n = k" by (auto simp: advance_def)
    have "handle_data sg src dst s = Some (?pend s, n)"
      using cn sg behind False n by (auto simp: handle_data_def data_action_def Let_def)
    then show ?thesis
      using cn r h adv by (auto simp: carries_def carried_def has_room_def)
  qed
qed

text \<open>A run of the bridge on that stream: its segments, acknowledgements, and the writer.\<close>

datatype stream_event =
    App_Segment bool u32 bytes nat ipv4 ipv4
  | Ack_Sent bool
  | Written nat

definition stream_step :: "stream_event \<Rightarrow> t2s \<Rightarrow> t2s panics" where
  "stream_step ev s =
     (case ev of
        App_Segment wr isn packet ihl src dst \<Rightarrow> map_option fst (handle_tcp wr isn packet ihl src dst s)
      | Ack_Sent wr \<Rightarrow> (case ts_pending s of None \<Rightarrow> Some s | Some p \<Rightarrow> handle_tcp_ack wr p s)
      | Written ch \<Rightarrow> Some (writer_step True ch s))"

fun stream_run :: "stream_event list \<Rightarrow> t2s \<Rightarrow> t2s panics" where
  "stream_run [] s = Some s"
| "stream_run (ev # evs) s = do { s \<leftarrow> stream_step ev s; stream_run evs s }"

text \<open>The events are segments of the stream, at the given offsets, and no others.\<close>

inductive segments_at :: "bytes \<Rightarrow> u32 \<Rightarrow> u16 \<Rightarrow> (nat \<times> nat) list \<Rightarrow> stream_event list \<Rightarrow> bool" where
  at_nil: "segments_at data base port [] []"
| at_seg: "segment_of data base port off n packet ihl \<Longrightarrow> segments_at data base port segs evs \<Longrightarrow>
    segments_at data base port ((off, n) # segs) (App_Segment wr isn packet ihl src dst # evs)"
| at_ack: "segments_at data base port segs evs \<Longrightarrow> segments_at data base port segs (Ack_Sent wr # evs)"
| at_written: "segments_at data base port segs evs \<Longrightarrow> segments_at data base port segs (Written ch # evs)"

lemma runs_send_tcp_ex [no_panic]: "runs (send_tcp_ex wr src dst sport dport seq ack flags payload w s)"
  unfolding send_tcp_ex_def by (intro no_panic)

lemma runs_handle_tcp_ack [no_panic]: "runs (handle_tcp_ack wr p s)"
  unfolding handle_tcp_ack_def Let_def by (auto split: option.split intro!: no_panic)

lemma ack_keeps:
  assumes "handle_tcp_ack wr p s = Some s'"
  shows "ts_conns s' = ts_conns s" "ts_cells s' = ts_cells s" "ts_chans s' = ts_chans s" "ts_upstream s' = ts_upstream s"
proof -
  have "\<exists>ps. s' = s\<lparr>ts_pending := None, ts_tun := ts_tun s @ ps\<rparr>"
    using assms
    by (auto simp: handle_tcp_ack_def Let_def split: option.splits intro: exI [of _ "[]"] elim!: send_tcp_ex_state)
  then show "ts_conns s' = ts_conns s" "ts_cells s' = ts_cells s" "ts_chans s' = ts_chans s" "ts_upstream s' = ts_upstream s"
    by auto
qed

lemma written_keeps:
  "carried (writer_step True ch' s) ch = carried s ch" "ts_conns (writer_step True ch' s) = ts_conns s"
  "ts_cells (writer_step True ch' s) = ts_cells s"
  "ch_closed (ts_chans (writer_step True ch' s) ch) = ch_closed (ts_chans s ch)"
  "ch_cap (ts_chans (writer_step True ch' s) ch) = ch_cap (ts_chans s ch)"
  "length (ch_queue (ts_chans (writer_step True ch' s) ch)) \<le> length (ch_queue (ts_chans s ch))"
  by (auto simp: carried_def writer_step_def Let_def split: list.split)

lemma stream_run_carries:
  "segments_at data base port segs evs \<Longrightarrow> carries data base port k s \<Longrightarrow> has_room port (length segs) s \<Longrightarrow>
   length data < 2 ^ 31 \<Longrightarrow>
   \<exists>s'. stream_run evs s = Some s' \<and> carries data base port (foldl (\<lambda>k (off, n). advance k off n) k segs) s'"
proof (induction data base port segs evs arbitrary: k s rule: segments_at.induct)
  case (at_nil data base port)
  then show ?case by simp
next
  case (at_seg data base port off n packet ihl segs evs wr isn src dst)
  from data_step [OF at_seg.prems(1) at_seg.hyps(1) _ at_seg.prems(3), of "length segs" wr isn src dst] at_seg.prems(2)
  obtain s1 where s1: "handle_tcp wr isn packet ihl src dst s = Some (s1, n)" "carries data base port (advance k off n) s1"
    "has_room port (length segs) s1" by auto
  from at_seg.IH [OF s1(2,3) at_seg.prems(3)] s1(1) show ?case by (auto simp: stream_step_def)
next
  case (at_ack data base port segs evs wr)
  show ?case
  proof (cases "ts_pending s")
    case None
    then show ?thesis using at_ack.IH [OF at_ack.prems] by (simp add: stream_step_def)
  next
    case (Some p)
    obtain s1 where s1: "handle_tcp_ack wr p s = Some s1" using runs_handle_tcp_ack [of wr p s] by (auto simp: runs_iff)
    note keeps = ack_keeps [OF s1]
    have "carries data base port k s1" "has_room port (length segs) s1"
      using at_ack.prems(1,2) by (simp_all add: carries_def carried_def has_room_def keeps)
    from at_ack.IH [OF this at_ack.prems(3)] Some s1 show ?thesis by (simp add: stream_step_def)
  qed
next
  case (at_written data base port segs evs ch)
  let ?s = "writer_step True ch s"
  have c: "carries data base port k ?s" using at_written.prems(1) by (simp add: carries_def written_keeps)
  have r: "has_room port (length segs) ?s"
    using at_written.prems(2) written_keeps(6) [of ch s] unfolding has_room_def written_keeps
    by (meson add_le_mono1 le_trans)
  from at_written.IH [OF c r at_written.prems(3)] show ?case by (simp add: stream_step_def)
qed

text \<open>A panic of \<open>handle_tcp\<close> is a segment shorter than its own header says.\<close>

lemma runs_handle_syn [no_panic]: "runs (handle_syn wr isn g src dst s)"
  unfolding handle_syn_def by (auto split: option.split intro!: no_panic)

lemma read_segment_payload:
  "read_segment packet ihl = Some (Some g) \<Longrightarrow> length (sg_payload g) = sg_payload_len g"
  by (auto simp: read_segment_eq Let_def split: if_splits)

lemma runs_handle_data: "length (sg_payload g) = sg_payload_len g \<Longrightarrow> runs (handle_data g src dst s)"
  unfolding handle_data_def data_action_def Let_def
  by (auto split: option.split action.split intro!: no_panic)

lemma handle_tcp_panics_iff:
  "handle_tcp wr isn packet ihl src dst s = None \<longleftrightarrow>
     ihl + 20 \<le> length packet \<and> length packet < ihl + claimed_header packet ihl"
proof (cases "read_segment packet ihl")
  case None
  then show ?thesis by (simp add: handle_tcp_def read_segment_eq Let_def split: if_splits)
next
  case (Some r)
  have "runs (handle_tcp wr isn packet ihl src dst s)"
  proof (cases r)
    case (Some g)
    then have "length (sg_payload g) = sg_payload_len g"
      using \<open>read_segment packet ihl = Some r\<close> read_segment_payload by simp
    then show ?thesis
      using \<open>read_segment packet ihl = Some r\<close> Some runs_handle_data
      by (auto simp: handle_tcp_def intro!: no_panic)
  qed (use \<open>read_segment packet ihl = Some r\<close> in \<open>simp add: handle_tcp_def\<close>)
  then show ?thesis using Some by (auto simp: runs_def read_segment_eq Let_def split: if_splits)
qed

section \<open>Properties of the connection\<close>

text \<open>C1: Whatever the order in which the application's segments arrive, with any duplicates, overlaps
  and gaps: as long as the connection's channel has room for all of them (128 items) and the stream is
  shorter than \<open>2^31\<close> bytes, what the SOCKS server receives is always a prefix of the application's
  stream, each byte once, in order, none invented; and the prefix is exactly as long as the segments
  seen so far allow without reordering.\<close>

theorem app_stream_is_carried:
  assumes "segments_at data base port segs evs" and "carries data base port k s"
    and "has_room port (length segs) s" and "length data < 2 ^ 31"
  shows "\<exists>s' c ch. stream_run evs s = Some s' \<and> ts_conns s' port = Some c \<and> cn_data_tx c = Some ch
    \<and> ts_upstream s' ch @ concat (ch_queue (ts_chans s' ch))
        = take (foldl (\<lambda>k (off, n). if off \<le> k then max k (off + n) else k) k segs) data"
  using stream_run_carries [OF assms] by (auto simp: carries_def carried_def advance_def)

definition example_t2s :: t2s where
  "example_t2s = t2s_init\<lparr>ts_conns := [40000 \<mapsto> \<lparr>cn_data_tx = Some 0, cn_ack = 0, cn_seq = 1, cn_isn = 5, cn_connecting = False\<rparr>],
     ts_cells := (\<lambda>_. 0)(0 := 100, 1 := 6), ts_next_cell := 2, ts_next_chan := 1\<rparr>"

lemma example_segment:
  assumes "off + n \<le> 4" and "0 < n"
  obtains pkt where "segment_of [1, 2, 3, 4] 100 40000 off n pkt 20"
proof -
  let ?p = "take n (drop off [1, 2, 3, 4])"
  obtain pkt where pkt: "build_tcp (ipv4_of 10 0 0 2) (ipv4_of 1 1 1 1) 40000 443 (100 + of_nat off) 6 0x18 ?p False = Some pkt"
    using build_tcp_ex by blast
  have l: "length ?p = n" using assms(1) by simp
  have "segment_of [1, 2, 3, 4] 100 40000 off n pkt 20"
    using built_tcp_read [OF pkt] assms unfolding l by (simp add: segment_of_def)
  then show thesis by (rule that)
qed

theorem app_stream_is_carried_witness:
  "\<exists>late first whole s' c ch. segment_of [1, 2, 3, 4] 100 40000 2 2 late 20 \<and> segment_of [1, 2, 3, 4] 100 40000 0 2 first 20
     \<and> segment_of [1, 2, 3, 4] 100 40000 0 4 whole 20
     \<and> stream_run [App_Segment True 0 late 20 0 0, Ack_Sent True, App_Segment True 0 first 20 0 0, Ack_Sent True, Written 0,
         App_Segment True 0 whole 20 0 0] example_t2s = Some s'
     \<and> ts_conns s' 40000 = Some c \<and> cn_data_tx c = Some ch
     \<and> ts_upstream s' ch @ concat (ch_queue (ts_chans s' ch)) = [1, 2, 3, 4]"
proof -
  obtain late where late: "segment_of [1, 2, 3, 4] 100 40000 2 2 late 20" by (rule example_segment [of 2 2]) simp_all
  obtain first where first: "segment_of [1, 2, 3, 4] 100 40000 0 2 first 20" by (rule example_segment [of 0 2]) simp_all
  obtain whole where whole: "segment_of [1, 2, 3, 4] 100 40000 0 4 whole 20" by (rule example_segment [of 0 4]) simp_all
  let ?evs = "[App_Segment True 0 late 20 0 0, Ack_Sent True, App_Segment True 0 first 20 0 0, Ack_Sent True, Written 0,
         App_Segment True 0 whole 20 0 0]"
  have at: "segments_at [1, 2, 3, 4] 100 40000 [(2, 2), (0, 2), (0, 4)] ?evs"
    by (intro segments_at.intros late first whole)
  have c: "carries [1, 2, 3, 4] 100 40000 0 example_t2s"
    by (simp add: carries_def carried_def example_t2s_def t2s_init_def)
  have r: "has_room 40000 (length [(2 :: nat, 2 :: nat), (0, 2), (0, 4)]) example_t2s"
    by (simp add: has_room_def example_t2s_def t2s_init_def data_channel_cap_def)
  have l: "length [1, 2, 3, 4 :: u8] < 2 ^ 31" by simp
  from app_stream_is_carried [OF at c r l] obtain s' d ch where x: "stream_run ?evs example_t2s = Some s'"
    "ts_conns s' 40000 = Some d" "cn_data_tx d = Some ch"
    "ts_upstream s' ch @ concat (ch_queue (ts_chans s' ch)) = [1, 2, 3, 4]"
    by (simp del: stream_run.simps) blast
  show ?thesis
    by (intro exI [of _ late] exI [of _ first] exI [of _ whole] exI [of _ s'] exI [of _ d] exI [of _ ch] conjI)
      (rule late first whole x)+
qed



end
