(* ===== verification/T2s_Properties.thy ===== *)
theory T2s_Properties
  imports Tun2Socks
begin

text \<open>
  What the tun2socks bridge guarantees around a connection (set-up, separation of the
  connections, the server's stream) and where it loses data, panics or mixes connections.
\<close>

section \<open>All interleavings\<close>

text \<open>C7: In every interleaving of the read loop, the connect tasks, the response readers and the
  writers: an entry of the table has a data channel exactly when it is established, no two
  connections share a sequence cell or a channel, no channel holds more than its 128 items, and
  no private address is ever dialled.\<close>

theorem connections_stay_separate:
  assumes "t2s_reach s"
  shows "(\<forall>p c. ts_conns s p = Some c \<longrightarrow> (cn_connecting c \<longleftrightarrow> cn_data_tx c = None))
    \<and> (\<forall>p q c d. ts_conns s p = Some c \<longrightarrow> ts_conns s q = Some d \<longrightarrow> p \<noteq> q \<longrightarrow>
         {cn_ack c, cn_seq c} \<inter> {cn_ack d, cn_seq d} = {} \<and> (cn_data_tx c = cn_data_tx d \<longrightarrow> cn_data_tx c = None))
    \<and> (\<forall>ch. length (ch_queue (ts_chans s ch)) \<le> 128)
    \<and> (\<forall>t \<in> set (ts_connects s). \<not> ipv4_is_private (ct_dst t))"
proof (intro conjI allI impI ballI)
  note w = t2s_wfD [OF reach_wf [OF assms]]
  have h: "(p, cn_ack c) \<in> holders s" if "ts_conns s p = Some c" for p c
    using that by (auto simp: holders_def)
  show "cn_connecting c \<longleftrightarrow> cn_data_tx c = None" if "ts_conns s p = Some c" for p c
    using w(4) [OF that] by (auto simp: conn_wf_def split: option.splits)
  show "{cn_ack c, cn_seq c} \<inter> {cn_ack d, cn_seq d} = {}"
    if "ts_conns s p = Some c" "ts_conns s q = Some d" "p \<noteq> q" for p q c d
  proof -
    have "cn_ack c \<noteq> cn_ack d" using w(3) [of p _ q] h that by metis
    moreover have "even (cn_ack c)" "even (cn_ack d)" using w(2) h that by blast+
    moreover have "cn_seq c = Suc (cn_ack c)" "cn_seq d = Suc (cn_ack d)"
      using w(4) that(1,2) by (simp_all add: conn_wf_def)
    ultimately show ?thesis by auto (metis even_Suc)+
  qed
  show "cn_data_tx c = None"
    if "ts_conns s p = Some c" "ts_conns s q = Some d" "p \<noteq> q" "cn_data_tx c = cn_data_tx d" for p q c d
  proof (rule ccontr)
    assume "cn_data_tx c \<noteq> None"
    then obtain ch where "cn_data_tx c = Some ch" by blast
    then have "p = q" using that(4) by (intro w(5) [OF that(1,2)]) simp_all
    with that(3) show False by simp
  qed
  show "length (ch_queue (ts_chans s ch)) \<le> 128" for ch
    using w(8,9) [of ch] by (simp add: channel_wf_def data_channel_cap_def)
  show "\<not> ipv4_is_private (ct_dst t)" if "t \<in> set (ts_connects s)" for t
    using w(6) [of t] that by (simp add: dialling_def)
qed

theorem connections_stay_separate_witness:
  "\<exists>s. t2s_reach s \<and> ts_next_cell s = 2 \<and> (\<forall>ch. length (ch_queue (ts_chans s ch)) \<le> 128)"
proof -
  obtain pkt where pkt: "build_tcp (ipv4_of 10 0 0 2) (ipv4_of 1 1 1 1) 40000 443 7 0 0x02 [] False = Some pkt"
    using build_tcp_ex by blast
  have np: "\<not> ipv4_is_private (ipv4_of 1 1 1 1)" by (simp add: ipv4_is_private_def)
  obtain g where g: "read_segment pkt 20 = Some (Some g)" "sg_syn g" "\<not> sg_fin g" "\<not> sg_rst g" "sg_sport g = 40000"
    using built_tcp_read [OF pkt] by auto
  let ?s = "open_conn 9 g (ipv4_of 10 0 0 2) (ipv4_of 1 1 1 1) t2s_init"
  have "handle_tcp True 9 pkt 20 (ipv4_of 10 0 0 2) (ipv4_of 1 1 1 1) t2s_init = Some (?s, 64)"
    using g np by (simp add: handle_tcp_def handle_syn_def t2s_init_def)
  then have "t2s_step t2s_init ?s" by (rule tcp_in [rotated]) (simp add: t2s_init_def)
  then have r: "t2s_reach ?s" by (rule reach_step [OF reach_init])
  have "ts_next_cell ?s = 2" by (simp add: open_conn_def Let_def t2s_init_def)
  with r connections_stay_separate [OF r] show ?thesis by blast
qed

section \<open>Setting up a connection\<close>

text \<open>The three-way handshake the application sees is consistent: a SYN to a public address for a
  free port answers nothing until the SOCKS connection is up; then the SYN-ACK acknowledges
  \<open>seq + 1\<close> and carries the initial sequence number, the next byte of the server is numbered
  one above it, and a repeated SYN gets the very same SYN-ACK again, however far the stream has
  moved.\<close>

theorem handshake:
  assumes "read_segment packet ihl = Some (Some g)" and "sg_syn g" and "\<not> sg_fin g" and "\<not> sg_rst g"
    and "\<not> ipv4_is_private dst" and "ts_conns s (sg_sport g) = None"
  shows "\<exists>s1 t s2 synack. handle_tcp wr isn packet ihl src dst s = Some (s1, 64) \<and> ts_tun s1 = ts_tun s
    \<and> ts_connects s1 = ts_connects s @ [t] \<and> ts_opening (connect_check t s1) = ts_opening s1 @ [t]
    \<and> connect_answer True t (connect_ok dup_ok t s1) = Some s2 \<and> ts_tun s2 = ts_tun s @ [synack]
    \<and> build_tcp dst src (sg_dport g) (sg_sport g) isn (sg_seq g + 1) 0x12 [] True = Some synack
    \<and> (\<exists>c. ts_conns s2 (sg_sport g) = Some c \<and> \<not> cn_connecting c
        \<and> ts_cells s2 (cn_seq c) = isn + 1 \<and> ts_cells s2 (cn_ack c) = sg_seq g + 1 \<and> cn_isn c = isn)
    \<and> (\<forall>s3 c. ts_conns s3 (sg_sport g) = Some c \<and> \<not> cn_connecting c \<and> cn_isn c = isn
          \<and> ts_cells s3 (cn_ack c) = sg_seq g + 1 \<longrightarrow>
        handle_tcp True isn' packet ihl src dst s3 = Some (s3\<lparr>ts_tun := ts_tun s3 @ [synack]\<rparr>, 64))"
proof -
  let ?s1 = "open_conn isn g src dst s"
  let ?t = "\<lparr>ct_src = src, ct_dst = dst, ct_sport = sg_sport g, ct_dport = sg_dport g,
      ct_seq_num = sg_seq g, ct_isn = isn, ct_ack = ts_next_cell s, ct_seq = ts_next_cell s + 1\<rparr>"
  obtain synack where sa: "build_tcp dst src (sg_dport g) (sg_sport g) isn (sg_seq g + 1) 0x12 [] True = Some synack"
    using build_tcp_ex by blast
  let ?s2 = "(established dup_ok ?t ?s1)\<lparr>ts_tun := ts_tun s @ [synack]\<rparr>"
  have h: "handle_tcp wr isn packet ihl src dst s = Some (?s1, 64)"
    using assms by (simp add: handle_tcp_def handle_syn_def)
  have f: "ts_tun ?s1 = ts_tun s" "ts_connects ?s1 = ts_connects s @ [?t]" "ts_tun ?s2 = ts_tun s @ [synack]"
    by (simp_all add: open_conn_def Let_def)
  have seen: "ts_opening (connect_check ?t ?s1) = ts_opening ?s1 @ [?t]"
    by (simp add: connect_check_def open_conn_def Let_def)
  have up: "connect_answer True ?t (connect_ok dup_ok ?t ?s1) = Some ?s2"
    using sa by (simp add: connect_answer_def connect_ok_eq established_def open_conn_def Let_def send_tcp_ex_def)
  have est: "\<exists>c. ts_conns ?s2 (sg_sport g) = Some c \<and> \<not> cn_connecting c
        \<and> ts_cells ?s2 (cn_seq c) = isn + 1 \<and> ts_cells ?s2 (cn_ack c) = sg_seq g + 1 \<and> cn_isn c = isn"
    by (simp add: established_def open_conn_def Let_def)
  have again: "handle_tcp True isn' packet ihl src dst s3 = Some (s3\<lparr>ts_tun := ts_tun s3 @ [synack]\<rparr>, 64)"
    if "ts_conns s3 (sg_sport g) = Some c \<and> \<not> cn_connecting c \<and> cn_isn c = isn
          \<and> ts_cells s3 (cn_ack c) = sg_seq g + 1" for s3 c
    using that assms sa by (simp add: handle_tcp_def handle_syn_def send_tcp_ex_def)
  have again': "\<forall>s3 c. ts_conns s3 (sg_sport g) = Some c \<and> \<not> cn_connecting c \<and> cn_isn c = isn
          \<and> ts_cells s3 (cn_ack c) = sg_seq g + 1 \<longrightarrow>
        handle_tcp True isn' packet ihl src dst s3 = Some (s3\<lparr>ts_tun := ts_tun s3 @ [synack]\<rparr>, 64)"
    using again by blast
  show ?thesis
    by (intro exI [of _ ?s1] exI [of _ ?t] exI [of _ ?s2] exI [of _ synack] conjI) (rule h f seen up sa est again')+
qed

theorem handshake_witness:
  "\<exists>packet s1 t s2 synack. handle_tcp True 9 packet 20 (ipv4_of 10 0 0 2) (ipv4_of 1 1 1 1) t2s_init = Some (s1, 64)
    \<and> ts_connects s1 = [t] \<and> connect_answer True t (connect_ok True t s1) = Some s2 \<and> ts_tun s2 = [synack]
    \<and> build_tcp (ipv4_of 1 1 1 1) (ipv4_of 10 0 0 2) 443 40000 9 8 0x12 [] True = Some synack"
proof -
  obtain packet where pkt: "build_tcp (ipv4_of 10 0 0 2) (ipv4_of 1 1 1 1) 40000 443 7 0 0x02 [] False = Some packet"
    using build_tcp_ex by blast
  have np: "\<not> ipv4_is_private (ipv4_of 1 1 1 1)" by (simp add: ipv4_is_private_def)
  obtain g where g: "read_segment packet 20 = Some (Some g)" "sg_syn g" "\<not> sg_fin g" "\<not> sg_rst g" "sg_sport g = 40000"
    "sg_dport g = 443" "sg_seq g = 7"
    using built_tcp_read [OF pkt] by auto
  have free: "ts_conns t2s_init (sg_sport g) = None" "ts_connects t2s_init = []" "ts_tun t2s_init = []"
    by (simp_all add: t2s_init_def)
  from handshake [OF g(1-4) np free(1), of True 9 "ipv4_of 10 0 0 2" True 0] free(2,3) g(5-7)
  obtain s1 t s2 synack where "handle_tcp True 9 packet 20 (ipv4_of 10 0 0 2) (ipv4_of 1 1 1 1) t2s_init = Some (s1, 64)"
    "ts_connects s1 = [t]" "connect_answer True t (connect_ok True t s1) = Some s2" "ts_tun s2 = [synack]"
    "build_tcp (ipv4_of 1 1 1 1) (ipv4_of 10 0 0 2) 443 40000 9 8 0x12 [] True = Some synack"
    by auto
  then show ?thesis
    by (intro exI [of _ packet] exI [of _ s1] exI [of _ t] exI [of _ s2] exI [of _ synack] conjI)
qed

section \<open>The server's stream\<close>

text \<open>
  The reader writes the server's chunks one after the other, and moves the sequence number over each
  chunk behind its write. Its cell is its own in every interleaving, so that
  the other tasks, left out here, change neither its numbers nor its packets. \<open>ws\<close> says which
  writes the device takes.
\<close>

fun reader_chunks :: "bool list \<Rightarrow> reader_task \<Rightarrow> bytes list \<Rightarrow> t2s \<Rightarrow> t2s panics" where
  "reader_chunks (wr # ws) r (c # cs) s = do {
     let seq = ts_cells s (rd_seq r);
     s \<leftarrow> reader_chunk wr r c s;
     reader_chunks ws r cs (reader_advance r (seq + of_nat (length c)) s)
   }"
| "reader_chunks _ r _ s = Some s"


definition taken :: "bool list \<Rightarrow> 'a list \<Rightarrow> 'a list" where
  "taken ws xs = map snd (filter fst (zip ws xs))"

lemma taken_simps [simp]: "taken [] xs = []" "taken ws [] = []"
  "taken (w # ws) (x # xs) = (if w then x # taken ws xs else taken ws xs)"
  by (simp_all add: taken_def)

definition view :: "bytes \<Rightarrow> (u32 \<times> bytes) option" where
  "view pkt = (case read_segment pkt 20 of Some (Some g) \<Rightarrow> Some (sg_seq g, sg_payload g) | _ \<Rightarrow> None)"

lemma reader_turn:
  obtains pkt where "build_tcp (rd_remote_ip r) (rd_tun_ip r) (rd_remote_port r) (rd_tun_port r)
      (ts_cells s (rd_seq r)) (ts_cells s (rd_ack r)) 0x18 c False = Some pkt"
    and "reader_chunk wr r c s = Some (s\<lparr>ts_tun := ts_tun s @ (if wr then [pkt] else []),
      ts_writing := ts_writing s @ [(r, ts_cells s (rd_seq r) + of_nat (length c))]\<rparr>)"
proof -
  obtain pkt where pkt: "build_tcp (rd_remote_ip r) (rd_tun_ip r) (rd_remote_port r) (rd_tun_port r)
      (ts_cells s (rd_seq r)) (ts_cells s (rd_ack r)) 0x18 c False = Some pkt"
    using build_tcp_ex by blast
  then show thesis by (intro that [OF pkt]) (simp add: reader_chunk_def reader_send_def send_tcp_ex_def Let_def)
qed




text \<open>The reader's buffer holds 65535 bytes: a longer chunk than 65495 bytes makes a packet whose length field is wrong.\<close>

lemma long_chunk_has_a_wrong_length:
  assumes "65495 < length c" and "reader_chunk True r c s = Some s'"
  shows "\<exists>pkt. ts_tun s' = ts_tun s @ [pkt] \<and> unat (total_length pkt) < length pkt"
proof -
  obtain pkt where pkt: "build_tcp (rd_remote_ip r) (rd_tun_ip r) (rd_remote_port r) (rd_tun_port r)
      (ts_cells s (rd_seq r)) (ts_cells s (rd_ack r)) 0x18 c False = Some pkt"
    and step: "reader_chunk True r c s = Some (s\<lparr>ts_tun := ts_tun s @ (if True then [pkt] else []),
      ts_writing := ts_writing s @ [(r, ts_cells s (rd_seq r) + of_nat (length c))]\<rparr>)" by (rule reader_turn)
  have "65536 \<le> length pkt" using built_tcp_length(1) [OF pkt] assms(1) by simp
  then have "unat (total_length pkt) < length pkt" using unat_u16_less [of "total_length pkt"] by linarith
  with step assms(2) show ?thesis by auto
qed

section \<open>Where data is lost or misplaced\<close>

text \<open>A full channel loses data for good: an in-order segment that finds the 128-item channel full
  is acknowledged although none of it is carried, so the application will not send it again,
  and if it does the repeat is taken for a duplicate: the server's stream ends there.\<close>

theorem full_channel_loses_acknowledged_data:
  assumes "carries data base port k s" and "segment_of data base port k n packet ihl"
    and "ts_conns s port = Some c" and "cn_data_tx c = Some ch"
    and "\<not> ch_closed (ts_chans s ch)" and "ch_cap (ts_chans s ch) \<le> length (ch_queue (ts_chans s ch))"
    and "length data < 2 ^ 31"
  shows "\<exists>s1 s2. handle_tcp wr isn packet ihl src dst s = Some (s1, n)
    \<and> ts_cells s1 (cn_ack c) = base + of_nat (k + n) \<and> carried s1 ch = take k data
    \<and> handle_tcp wr isn packet ihl src dst (s1\<lparr>ts_pending := None\<rparr>) = Some (s2, n)
    \<and> ts_chans s2 = ts_chans s1 \<and> ts_cells s2 = ts_cells s1"
proof -
  from assms(1,3,4) have c: "\<not> cn_connecting c" "ts_cells s (cn_ack c) = base + of_nat k" "k \<le> length data"
    "carried s ch = take k data"
    by (auto simp: carries_def)
  from assms(2) obtain g where g: "read_segment packet ihl = Some (Some g)" "sg_sport g = port" "sg_ack g" "\<not> sg_syn g"
    "\<not> sg_fin g" "\<not> sg_rst g" "sg_seq g = base + of_nat k" "sg_payload_len g = n"
    "sg_payload g = take n (drop k data)" and n: "k + n \<le> length data" "0 < n"
    by (auto simp: segment_of_def)
  let ?t = "store_cell (cn_ack c) (base + of_nat (k + n)) s"
  let ?p = "Some \<lparr>pa_src = src, pa_dst = dst, pa_sport = port, pa_dport = sg_dport g\<rparr>"
  have full: "forward_data bs ch (store_cell i v s) = store_cell i v s" for bs i v
    using assms(5,6) by (simp add: forward_data_def try_send_def store_cell_def)
  have h: "handle_tcp wr isn packet ihl src dst u = handle_data g src dst u" for u
    using g n by (simp add: handle_tcp_def)
  have l: "length (take n (drop k data)) = n" using n by simp
  have "handle_data g src dst s = Some (?t\<lparr>ts_pending := ?p\<rparr>, n)"
    using g assms(3,4) c by (simp add: handle_data_def data_action_def Let_def l slice_def full add.assoc)
  moreover have "handle_data g src dst (?t\<lparr>ts_pending := None\<rparr>) = Some (?t\<lparr>ts_pending := ?p\<rparr>, n)"
  proof -
    have "sint (base + of_nat (k + n) - (base + of_nat k) :: u32) = int (k + n) - int k"
      by (rule signed_distance) (use n assms(7) in linarith)+
    then have "sint (ts_cells (?t\<lparr>ts_pending := None\<rparr>) (cn_ack c) - sg_seq g) = int n"
      using g(7) by (simp add: store_cell_def)
    then show ?thesis
      using g assms(3) c(1) n by (simp add: handle_data_def data_action_def Let_def store_cell_def)
  qed
  ultimately show ?thesis
    using c(4) unfolding h
    by (intro exI [of _ "?t\<lparr>ts_pending := ?p\<rparr>"]) (simp add: store_cell_def carried_def)
qed

definition full_t2s :: t2s where
  "full_t2s = example_t2s\<lparr>ts_chans := (ts_chans example_t2s)
     (0 := \<lparr>ch_queue = replicate 128 [], ch_cap = 128, ch_closed = False\<rparr>)\<rparr>"

theorem full_channel_loses_acknowledged_data_witness:
  "\<exists>packet s1. segment_of [1, 2, 3, 4] 100 40000 0 4 packet 20
    \<and> handle_tcp True 0 packet 20 0 0 full_t2s = Some (s1, 4) \<and> ts_cells s1 0 = 104 \<and> carried s1 0 = []"
proof -
  obtain packet where g: "segment_of [1, 2, 3, 4] 100 40000 0 4 packet 20" by (rule example_segment [of 0 4]) simp_all
  let ?c = "\<lparr>cn_data_tx = Some 0, cn_ack = 0, cn_seq = 1, cn_isn = 5, cn_connecting = False\<rparr>"
  have z: "concat (replicate 128 []) = ([] :: bytes)" by (simp add: concat_eq_Nil_conv)
  have c: "carries [1, 2, 3, 4] 100 40000 0 full_t2s"
    using z by (simp add: carries_def carried_def full_t2s_def example_t2s_def t2s_init_def)
  have s: "ts_conns full_t2s 40000 = Some ?c" "cn_data_tx ?c = Some 0" "\<not> ch_closed (ts_chans full_t2s 0)"
    "ch_cap (ts_chans full_t2s 0) \<le> length (ch_queue (ts_chans full_t2s 0))"
    by (simp_all add: full_t2s_def example_t2s_def)
  have l: "length [1, 2, 3, 4 :: u8] < 2 ^ 31" by simp
  from full_channel_loses_acknowledged_data [OF c g s l, of True 0 0 0] g show ?thesis by fastforce
qed

text \<open>One malformed packet from an application stops the whole bridge: \<open>handle_tcp\<close> panics exactly
  when a segment of at least 20 bytes claims a TCP header longer than it is, whatever the state
  of the connections; on every other packet it returns.\<close>

theorem malformed_header_panics:
  "handle_tcp wr isn packet ihl src dst s = None \<longleftrightarrow>
     ihl + 20 \<le> length packet \<and> length packet < ihl + unat (drop_bit 4 (packet ! (ihl + 12))) * 4"
  using handle_tcp_panics_iff [of wr isn packet ihl src dst s] by (simp add: claimed_header_def)

text \<open>Connections are keyed by the application's port alone: a data segment to any other address
  and port goes, byte for byte, into the connection that is open for its source port.\<close>

lemma destination_is_ignored:
  "map_option (\<lambda>(s', n). (ts_conns s', ts_cells s', ts_chans s', n)) (handle_data (g\<lparr>sg_dport := dport'\<rparr>) src' dst' s)
   = map_option (\<lambda>(s', n). (ts_conns s', ts_cells s', ts_chans s', n)) (handle_data g src dst s)"
proof (cases "ts_conns s (sg_sport g)")
  case None
  then show ?thesis by (simp add: handle_data_def)
next
  case (Some c)
  have f: "sg_seq (g\<lparr>sg_dport := dport'\<rparr>) = sg_seq g" "sg_payload_len (g\<lparr>sg_dport := dport'\<rparr>) = sg_payload_len g" by simp_all
  have same: "data_action (g\<lparr>sg_dport := dport'\<rparr>) c s = data_action g c s"
    unfolding data_action_def Let_def f ..
  obtain t act where a: "data_action g c s = (t, act)" by fastforce
  then have "data_action (g\<lparr>sg_dport := dport'\<rparr>) c s = (t, act)" unfolding same .
  with a Some show ?thesis
    by (cases act) (auto simp: handle_data_def split: option.split Option.bind_split)
qed

text \<open>A chunk of the server that the device does not take is gone: the reader moves the sequence
  number over it all the same and never sends it again, so the next packet leaves a hole that
  nothing fills.\<close>

lemma refused_write_leaves_a_hole:
  "\<exists>s' pkt. reader_chunks [False, True] r [lost, kept] s = Some s' \<and> ts_tun s' = ts_tun s @ [pkt]
    \<and> view pkt = Some (ts_cells s (rd_seq r) + of_nat (length lost), kept)
    \<and> ts_cells s' (rd_seq r) = ts_cells s (rd_seq r) + of_nat (length lost) + of_nat (length kept)"
proof -
  let ?q = "ts_cells s (rd_seq r) + of_nat (length lost)"
  obtain none where one: "reader_chunk False r lost s = Some (s\<lparr>ts_tun := ts_tun s @ (if False then [none] else []),
      ts_writing := ts_writing s @ [(r, ?q)]\<rparr>)" by (rule reader_turn)
  let ?s = "reader_advance r ?q (s\<lparr>ts_writing := ts_writing s @ [(r, ?q)]\<rparr>)"
  have q: "ts_cells ?s (rd_seq r) = ?q" "ts_tun ?s = ts_tun s" by (simp_all add: reader_advance_def store_cell_def)
  obtain pkt where pkt: "build_tcp (rd_remote_ip r) (rd_tun_ip r) (rd_remote_port r) (rd_tun_port r)
      ?q (ts_cells ?s (rd_ack r)) 0x18 kept False = Some pkt"
    and two: "reader_chunk True r kept ?s = Some (?s\<lparr>ts_tun := ts_tun s @ (if True then [pkt] else []),
      ts_writing := ts_writing ?s @ [(r, ?q + of_nat (length kept))]\<rparr>)"
    by (rule reader_turn [of r ?s kept True]) (simp add: q)
  have "view pkt = Some (?q, kept)" using built_tcp_read [OF pkt] by (simp add: view_def)
  then show ?thesis using one two q by (simp add: Let_def) (simp add: reader_advance_def store_cell_def)
qed

lemma connect_completes:
  assumes "t2s_reach s" and "t \<in> set (ts_connects s)" and "\<exists>c. ts_conns s (ct_sport t) = Some c \<and> cn_connecting c"
    and "ts_opening s = []" and "ts_answering s = []"
    and "connect_answer True t ((established True t (s\<lparr>ts_connects := remove1 t (ts_connects s)\<rparr>))\<lparr>ts_answering := []\<rparr>) = Some s'"
  shows "t2s_reach s'"
proof -
  let ?s = "s\<lparr>ts_connects := remove1 t (ts_connects s)\<rparr>"
  have "connect_check t ?s = ?s\<lparr>ts_opening := [t]\<rparr>" using assms(3,4) by (auto simp: connect_check_def)
  with connect_seen [OF assms(2)] have r1: "t2s_reach (?s\<lparr>ts_opening := [t]\<rparr>)"
    using reach_step [OF assms(1)] by metis
  have "?s\<lparr>ts_opening := []\<rparr> = ?s" using assms(4) by (cases s) simp
  with connect_up [of t "?s\<lparr>ts_opening := [t]\<rparr>" True] have r2: "t2s_reach (established True t ?s)"
    using reach_step [OF r1] by (simp add: connect_ok_eq)
  have a: "ts_answering (established True t ?s) = [t]" using assms(5) by (simp add: established_def Let_def)
  then show ?thesis using assms(6) by (intro reach_step [OF r2] connect_answered [of t]) simp_all
qed

text \<open>
  The application gives up between the check and the insert: the entry comes back as an established
  connection, and the SYN-ACK goes out for a connection that is dead.
\<close>

lemma late_reset_revives_the_connection:
  assumes "ts_opening s = [t]"
  shows "\<exists>s'. t2s_step (remove_conn (ct_sport t) s) s' \<and> (\<exists>c. ts_conns s' (ct_sport t) = Some c \<and> \<not> cn_connecting c)
    \<and> ts_answering s' = ts_answering s @ [t]"
proof -
  let ?s = "remove_conn (ct_sport t) s"
  let ?s' = "connect_ok False t (?s\<lparr>ts_opening := remove1 t (ts_opening ?s)\<rparr>)"
  have "t \<in> set (ts_opening ?s)" using assms by (simp add: remove_conn_def)
  then have "t2s_step ?s ?s'" by (rule connect_up)
  moreover have "\<exists>c. ts_conns ?s' (ct_sport t) = Some c \<and> \<not> cn_connecting c" "ts_answering ?s' = ts_answering s @ [t]"
    by (simp_all add: connect_ok_eq established_def remove_conn_def Let_def)
  ultimately show ?thesis by blast
qed

lemma step_tcp_in:
  "ts_pending s = None \<Longrightarrow> handle_tcp wr isn packet ihl src dst s = Some (s', n) \<Longrightarrow> t2s_reach s \<Longrightarrow> t2s_reach s'"
  by (blast intro: reach_step tcp_in)

text \<open>A response reader outlives its connection and takes the next one down: there is a reachable
  state with an open connection that a reader of an earlier connection of the same port ends,
  with a FIN to the application, although the new connection is sound.\<close>

theorem stale_reader_ends_the_new_connection:
  "\<exists>s s' r c. t2s_reach s \<and> r \<in> set (ts_readers s) \<and> ts_conns s (rd_tun_port r) = Some c \<and> rd_ack r \<noteq> cn_ack c
    \<and> \<not> cn_connecting c \<and> t2s_step\<^sup>*\<^sup>* s s' \<and> ts_conns s' (rd_tun_port r) = None \<and> length (ts_tun s') = Suc (length (ts_tun s))"
proof -
  let ?src = "ipv4_of 10 0 0 2" and ?dst = "ipv4_of 1 1 1 1"
  have np: "\<not> ipv4_is_private ?dst" by (simp add: ipv4_is_private_def)
  obtain syn where syn: "build_tcp ?src ?dst 40000 443 7 0 0x02 [] False = Some syn" using build_tcp_ex by blast
  obtain rst where rst: "build_tcp ?src ?dst 40000 443 8 0 0x04 [] False = Some rst" using build_tcp_ex by blast
  obtain g where g: "read_segment syn 20 = Some (Some g)" "sg_syn g" "\<not> sg_fin g" "\<not> sg_rst g"
    "sg_sport g = 40000" "sg_dport g = 443" "sg_seq g = 7"
    using built_tcp_read [OF syn] by auto
  obtain h where h: "read_segment rst 20 = Some (Some h)" "sg_rst h" "sg_sport h = 40000"
    using built_tcp_read [OF rst] by auto
  let ?t = "\<lambda>a. \<lparr>ct_src = ?src, ct_dst = ?dst, ct_sport = 40000, ct_dport = 443, ct_seq_num = 7, ct_isn = 9,
      ct_ack = a, ct_seq = Suc a\<rparr>"
  obtain sa where sa: "build_tcp ?dst ?src 443 40000 9 8 0x12 [] True = Some sa" using build_tcp_ex by blast
  define s1 where "s1 = open_conn 9 g ?src ?dst t2s_init"
  define s2 where "s2 = (established True (?t 0) (s1\<lparr>ts_connects := []\<rparr>))\<lparr>ts_answering := [], ts_tun := [sa]\<rparr>"
  define s3 where "s3 = remove_conn 40000 s2"
  define s4 where "s4 = open_conn 9 g ?src ?dst s3"
  define s5 where "s5 = (established True (?t 2) (s4\<lparr>ts_connects := []\<rparr>))\<lparr>ts_answering := [], ts_tun := [sa, sa]\<rparr>"
  note defs = s1_def s2_def s3_def s4_def s5_def open_conn_def established_def remove_conn_def t2s_init_def Let_def g(5-7)
  have p: "ts_pending t2s_init = None" "ts_pending s2 = None" "ts_pending s3 = None"
    and free: "ts_conns t2s_init 40000 = None" "ts_conns s3 40000 = None" by (simp_all add: defs)
  have "handle_tcp True 9 syn 20 ?src ?dst t2s_init = Some (s1, 64)"
    using g np free(1) by (simp add: handle_tcp_def handle_syn_def s1_def)
  then have r1: "t2s_reach s1" by (rule step_tcp_in [OF p(1) _ reach_init])
  have r2: "t2s_reach s2"
    by (rule connect_completes [OF r1, of "?t 0"]) (use sa in \<open>simp_all add: send_tcp_ex_def connect_answer_def defs\<close>)
  have "handle_tcp True 9 rst 20 ?src ?dst s2 = Some (s3, 0)"
    using h by (simp add: handle_tcp_def s3_def)
  then have r3: "t2s_reach s3" by (rule step_tcp_in [OF p(2) _ r2])
  have "handle_tcp True 9 syn 20 ?src ?dst s3 = Some (s4, 64)"
    using g np free(2) by (simp add: handle_tcp_def handle_syn_def s4_def)
  then have r4: "t2s_reach s4" by (rule step_tcp_in [OF p(3) _ r3])
  have r5: "t2s_reach s5"
    by (rule connect_completes [OF r4, of "?t 2"]) (use sa in \<open>simp_all add: send_tcp_ex_def connect_answer_def defs\<close>)
  let ?r = "\<lparr>rd_tun_ip = ?src, rd_remote_ip = ?dst, rd_tun_port = 40000, rd_remote_port = 443, rd_seq = 1, rd_ack = 0\<rparr>"
  obtain fin where fin: "build_tcp ?dst ?src 443 40000 (ts_cells s5 1) (ts_cells s5 0) 0x11 [] False = Some fin"
    using build_tcp_ex by blast
  let ?w = "s5\<lparr>ts_readers := remove1 ?r (ts_readers s5), ts_tun := ts_tun s5 @ [fin], ts_ending := [?r]\<rparr>"
  let ?s6 = "remove_conn 40000 (?w\<lparr>ts_ending := []\<rparr>)"
  have old: "?r \<in> set (ts_readers s5)" by (simp add: defs)
  have "reader_end True 0x11 ?r (s5\<lparr>ts_readers := remove1 ?r (ts_readers s5)\<rparr>) = Some ?w"
    using fin by (simp add: reader_end_def reader_send_def send_tcp_ex_def defs)
  then have "t2s_step s5 ?w" by (rule stream_end [OF old, rotated]) simp
  moreover have "t2s_step ?w ?s6" using stream_gone [of ?r ?w] by simp
  ultimately have step: "t2s_step\<^sup>*\<^sup>* s5 ?s6" by (meson r_into_rtranclp rtranclp_trans)
  have "\<exists>c. ts_conns s5 40000 = Some c \<and> cn_ack c = 2 \<and> \<not> cn_connecting c" by (simp add: defs)
  then obtain c where c: "ts_conns s5 40000 = Some c" "cn_ack c = 2" "\<not> cn_connecting c" by blast
  show ?thesis
    by (intro exI [of _ s5] exI [of _ ?s6] exI [of _ ?r] exI [of _ c] conjI)
      (use r5 old c step in \<open>simp_all add: remove_conn_def\<close>)
qed

end
