(* ===== verification/Net_Text.thy ===== *)
theory Net_Text
  imports Ipv4_Text
begin

text \<open>
  The text of \<open>IpAddr\<close> and \<open>SocketAddr\<close>: the parsers of \<^verbatim>\<open>core::net\<close> as functions that read a
  prefix and return what is left (\<open>read_number\<close>, \<open>read_groups\<close>, the two halves of an IPv6
  address around \<open>::\<close> with its embedded IPv4 tail), and \<open>Display\<close>, which compresses the
  longest run of two or more zero groups.
\<close>

section \<open>Parsing\<close>

definition hex_val :: "char \<Rightarrow> nat option" where
  "hex_val c = (let n = of_char c in
     if 48 \<le> n \<and> n \<le> (57 :: nat) then Some (n - 48)
     else if 97 \<le> n \<and> n \<le> 102 then Some (n - 87)
     else if 65 \<le> n \<and> n \<le> 70 then Some (n - 55)
     else None)"

text \<open>The longest run of digits and what follows it.\<close>

definition span_digits :: "(char \<Rightarrow> nat option) \<Rightarrow> string \<Rightarrow> string \<times> string" where
  "span_digits val s = (takeWhile (\<lambda>c. val c \<noteq> None) s, dropWhile (\<lambda>c. val c \<noteq> None) s)"

definition read_number ::
  "(char \<Rightarrow> nat option) \<Rightarrow> nat \<Rightarrow> nat \<Rightarrow> nat option \<Rightarrow> bool \<Rightarrow> string \<Rightarrow> (nat \<times> string) option" where
  "read_number val radix mx max_digits zero_prefix s = (
     let (ds, left) = span_digits val s;
       n = foldl (\<lambda>a c. radix * a + the (val c)) 0 ds
     in if ds = [] then None
        else if (case max_digits of None \<Rightarrow> False | Some k \<Rightarrow> k < length ds) then None
        else if \<not> zero_prefix \<and> hd ds = CHR ''0'' \<and> 1 < length ds then None
        else if mx < n then None
        else Some (n, left))"

fun read_char :: "char \<Rightarrow> string \<Rightarrow> string option" where
  "read_char c [] = None"
| "read_char c (x # xs) = (if x = c then Some xs else None)"

text \<open>\<open>read_separator\<close>: the separator is there from the second item on.\<close>

definition read_separator :: "char \<Rightarrow> nat \<Rightarrow> (string \<Rightarrow> ('a \<times> string) option) \<Rightarrow> string \<Rightarrow> ('a \<times> string) option" where
  "read_separator c i f s = (if 0 < i then Option.bind (read_char c s) f else f s)"

definition read_octet :: "string \<Rightarrow> (nat \<times> string) option" where
  "read_octet = read_number digit_val 10 255 (Some 3) False"

definition read_ipv4 :: "string \<Rightarrow> (ipv4 \<times> string) option" where
  "read_ipv4 s = do {
     (a, s) \<leftarrow> read_octet s;
     (b, s) \<leftarrow> read_separator (CHR ''.'') 1 read_octet s;
     (c, s) \<leftarrow> read_separator (CHR ''.'') 2 read_octet s;
     (d, s) \<leftarrow> read_separator (CHR ''.'') 3 read_octet s;
     Some (ipv4_of (of_nat a) (of_nat b) (of_nat c) (of_nat d), s)
   }"

definition read_group :: "string \<Rightarrow> (nat \<times> string) option" where
  "read_group = read_number hex_val 16 65535 (Some 4) True"

text \<open>
  Up to \<open>limit\<close> groups, the \<open>i\<close>th next: the groups, whether an IPv4 address ended them, and
  what is left.
\<close>

function (sequential) read_groups :: "nat \<Rightarrow> nat \<Rightarrow> string \<Rightarrow> u16 list \<times> bool \<times> string" where
  "read_groups limit i s =
     (if limit \<le> i then ([], False, s)
      else case (if i + 1 < limit then read_separator (CHR '':'') i read_ipv4 s else None) of
        Some (v4, left) \<Rightarrow>
          ([of_nat (unat v4 div 65536), of_nat (unat v4)], True, left)
      | None \<Rightarrow>
          (case read_separator (CHR '':'') i read_group s of
             None \<Rightarrow> ([], False, s)
           | Some (g, left) \<Rightarrow>
               (case read_groups limit (i + 1) left of (gs, v, left') \<Rightarrow> (of_nat g # gs, v, left'))))"
  by pat_completeness auto
termination by (relation "measure (\<lambda>(limit, i, _). limit - i)") auto

declare read_groups.simps [simp del]

definition of_segments :: "u16 list \<Rightarrow> ipv6" where
  "of_segments gs = foldl (\<lambda>a g. a * 65536 + ucast g) 0 gs"

definition read_ipv6 :: "string \<Rightarrow> (ipv6 \<times> string) option" where
  "read_ipv6 s = (
     let (head, head_ipv4, s) = read_groups 8 0 s in
     if length head = 8 then Some (of_segments head, s)
     else if head_ipv4 then None
     else do {
       s \<leftarrow> read_char (CHR '':'') s;
       s \<leftarrow> read_char (CHR '':'') s;
       let (tail, _, s) = read_groups (8 - (length head + 1)) 0 s;
       Some (of_segments (head @ replicate (8 - length head - length tail) 0 @ tail), s)
     })"

definition parse_ip :: "string \<Rightarrow> ip_addr option" where
  "parse_ip s =
     (case parse_ipv4 s of
        Some v \<Rightarrow> Some (V4 v)
      | None \<Rightarrow> (case read_ipv6 s of Some (v, []) \<Rightarrow> Some (V6 v) | _ \<Rightarrow> None))"

text \<open>\<open>SocketAddr\<close>: \<open>a.b.c.d:port\<close> or \<open>[v6]:port\<close>; a scope id is read and not kept.\<close>

definition read_port :: "string \<Rightarrow> (u16 \<times> string) option" where
  "read_port s = do {
     s \<leftarrow> read_char (CHR '':'') s;
     (n, s) \<leftarrow> read_number digit_val 10 65535 None True s;
     Some (of_nat n, s)
   }"

definition read_scope :: "string \<Rightarrow> string" where
  "read_scope s =
     (case Option.bind (read_char (CHR ''%'') s) (read_number digit_val 10 4294967295 None True) of
        Some (_, left) \<Rightarrow> left
      | None \<Rightarrow> s)"

definition parse_socket_addr :: "string \<Rightarrow> socket_addr option" where
  "parse_socket_addr s =
     (case Option.bind (read_ipv4 s) (\<lambda>(ip, s). map_option (\<lambda>(p, s). (ip, p, s)) (read_port s)) of
        Some (ip, port, left) \<Rightarrow> if left = [] then Some \<lparr>sa_ip = V4 ip, sa_port = port\<rparr> else None
      | None \<Rightarrow> do {
          s \<leftarrow> read_char (CHR ''['') s;
          (ip, s) \<leftarrow> read_ipv6 s;
          s \<leftarrow> read_char (CHR '']'') (read_scope s);
          (port, s) \<leftarrow> read_port s;
          if s = [] then Some \<lparr>sa_ip = V6 ip, sa_port = port\<rparr> else None
        })"

section \<open>Display\<close>

definition hex_digit :: "nat \<Rightarrow> char" where
  "hex_digit d = char_of (if d < 10 then 48 + d else 87 + d)"

fun show_hex :: "nat \<Rightarrow> string" where
  "show_hex n = (if n < 16 then [hex_digit n] else show_hex (n div 16) @ [hex_digit (n mod 16)])"

declare show_hex.simps [simp del]

definition segments :: "ipv6 \<Rightarrow> u16 list" where
  "segments w = map (ipv6_segments w) [0..<8]"

text \<open>Start and length of the longest run of zero groups, the first one among equals.\<close>

fun longest_zeros :: "nat \<Rightarrow> nat \<times> nat \<Rightarrow> nat \<times> nat \<Rightarrow> u16 list \<Rightarrow> nat \<times> nat" where
  "longest_zeros i best cur [] = best"
| "longest_zeros i best cur (g # gs) =
     (if g = 0 then
        (let cur = (if snd cur = 0 then (i, 1) else (fst cur, snd cur + 1))
         in longest_zeros (i + 1) (if snd best < snd cur then cur else best) cur gs)
      else longest_zeros (i + 1) best (0, 0) gs)"

fun join_with :: "string \<Rightarrow> string list \<Rightarrow> string" where
  "join_with sep [] = []"
| "join_with sep [x] = x"
| "join_with sep (x # y # ys) = x @ sep @ join_with sep (y # ys)"

definition show_groups :: "u16 list \<Rightarrow> string" where
  "show_groups gs = join_with '':'' (map (show_hex \<circ> unat) gs)"

definition to_ipv4_mapped :: "ipv6 \<Rightarrow> ipv4 option" where
  "to_ipv4_mapped w =
     (if unat w div 2 ^ 32 = 65535 then Some (of_nat (unat w mod 2 ^ 32)) else None)"

definition show_ipv6 :: "ipv6 \<Rightarrow> string" where
  "show_ipv6 w =
     (case to_ipv4_mapped w of
        Some v \<Rightarrow> ''::ffff:'' @ show_ipv4 v
      | None \<Rightarrow>
          (case longest_zeros 0 (0, 0) (0, 0) (segments w) of (start, len) \<Rightarrow>
            if 1 < len
            then show_groups (take start (segments w)) @ ''::'' @ show_groups (drop (start + len) (segments w))
            else show_groups (segments w)))"

fun show_ip :: "ip_addr \<Rightarrow> string" where
  "show_ip (V4 v) = show_ipv4 v"
| "show_ip (V6 v) = show_ipv6 v"

definition show_socket_addr :: "socket_addr \<Rightarrow> string" where
  "show_socket_addr a =
     (case sa_ip a of
        V4 v \<Rightarrow> show_ipv4 v @ '':'' @ show_nat (unat (sa_port a))
      | V6 v \<Rightarrow> ''['' @ show_ipv6 v @ '']:'' @ show_nat (unat (sa_port a)))"

text \<open>What a text without \<open>:\<close> can be, and the addresses the sources write out.\<close>

lemma read_groups_no_colon:
  assumes "CHR '':'' \<notin> set s" and "0 < i"
  shows "read_groups limit i s = ([], False, s)"
proof -
  have "read_char (CHR '':'') s = None" using assms(1) by (cases s) auto
  with assms(2) show ?thesis by (subst read_groups.simps) (simp add: read_separator_def)
qed

lemma span_digits_left: "span_digits val s = (ds, left) \<Longrightarrow> set left \<subseteq> set s"
  by (auto simp: span_digits_def dest: set_dropWhileD)

lemma read_number_left: "read_number val r mx k z s = Some (n, left) \<Longrightarrow> set left \<subseteq> set s"
  by (auto simp: read_number_def Let_def split: prod.splits if_splits option.splits dest: span_digits_left)

lemma read_char_None [simp]: "c \<notin> set s \<Longrightarrow> read_char c s = None"
  by (cases s) auto

lemma read_char_left: "read_char c s = Some left \<Longrightarrow> set left \<subseteq> set s"
  by (cases s) (auto split: if_splits)

lemma read_ipv4_left: "read_ipv4 s = Some (v, left) \<Longrightarrow> set left \<subseteq> set s"
  unfolding read_ipv4_def read_octet_def read_separator_def bind_eq_Some_conv
  by (fastforce simp: bind_eq_Some_conv dest: read_number_left read_char_left)

lemma read_ipv6_no_colon:
  assumes "CHR '':'' \<notin> set s"
  shows "read_ipv6 s = None"
proof -
  obtain head v left where r: "read_groups 8 0 s = (head, v, left)" by (metis prod_cases3)
  note r' = r [unfolded read_groups.simps [of 8 0 s]]
  have "length head < 8 \<and> CHR '':'' \<notin> set left"
  proof (cases "read_ipv4 s")
    case (Some x)
    obtain w left' where x: "x = (w, left')" by fastforce
    with Some have "set left' \<subseteq> set s" using read_ipv4_left by blast
    then show ?thesis using r' assms Some x by (auto simp: read_separator_def)
  next
    case None
    show ?thesis
    proof (cases "read_group s")
      case n: None
      then show ?thesis using r' assms None by (auto simp: read_separator_def)
    next
      case (Some x)
      obtain g left' where x: "x = (g, left')" by fastforce
      have c: "CHR '':'' \<notin> set left'" using Some assms read_number_left x unfolding read_group_def by blast
      then have "read_groups 8 (0 + 1) left' = ([], False, left')" by (intro read_groups_no_colon) simp_all
      then show ?thesis using r' Some None x c by (auto simp: read_separator_def)
    qed
  qed
  with r show ?thesis by (simp add: read_ipv6_def)
qed

lemma parse_ip_no_colon: "CHR '':'' \<notin> set s \<Longrightarrow> parse_ip s = map_option V4 (parse_ipv4 s)"
  by (simp add: parse_ip_def read_ipv6_no_colon split: option.split)

text \<open>Printed numbers are digits and read back.\<close>

lemma show_nat_chars: "c \<in> set (show_nat n) \<Longrightarrow> \<exists>d < (10 :: nat). c = char_of (48 + d)"
proof (induction n rule: show_nat.induct)
  case (1 n)
  show ?case
  proof (cases "n < 10")
    case True
    with 1(2) show ?thesis by (auto simp: show_nat_digit)
  next
    case False
    with 1(2) have "c \<in> set (show_nat (n div 10)) \<or> c = char_of (48 + n mod 10)" by (auto simp: show_nat_step [of n])
    then show ?thesis
    proof
      assume "c \<in> set (show_nat (n div 10))"
      with 1(1) [OF False] show ?thesis by blast
    next
      assume "c = char_of (48 + n mod 10)"
      then show ?thesis by (intro exI [of _ "n mod 10"]) simp
    qed
  qed
qed

lemma show_nat_nonempty [simp]: "show_nat n \<noteq> []"
  by (cases "n < 10") (simp_all add: show_nat_digit show_nat_step)

lemma parse_digits_append:
  "parse_digits mx a (xs @ ys) = Option.bind (parse_digits mx a xs) (\<lambda>a. parse_digits mx a ys)"
  by (induction mx a xs rule: parse_digits.induct) (auto split: option.split)

lemma parse_digits_show: "n \<le> mx \<Longrightarrow> parse_digits mx 0 (show_nat n) = Some n"
proof (induction n rule: show_nat.induct)
  case (1 n)
  show ?case
  proof (cases "n < 10")
    case True
    with 1(2) show ?thesis by (simp add: show_nat_digit digit_char(1))
  next
    case False
    have m: "n mod 10 < 10" "10 * (n div 10) + n mod 10 = n" by simp_all
    have "n div 10 \<le> mx" using 1(2) by (meson div_le_dividend le_trans)
    with 1 False have "parse_digits mx 0 (show_nat (n div 10)) = Some (n div 10)" by simp
    then show ?thesis using False 1(2) m digit_char(1) [OF m(1)]
      by (simp add: show_nat_step [of n] parse_digits_append)
  qed
qed

lemma parse_uint_show: "n \<le> mx \<Longrightarrow> parse_uint mx (show_nat n) = Some n"
proof -
  assume n: "n \<le> mx"
  obtain c cs where c: "show_nat n = c # cs" by (cases "show_nat n") (use show_nat_nonempty in blast)+
  obtain d where d: "d < (10 :: nat)" "c = char_of (48 + d)" using show_nat_chars [of c n] c by auto
  have "digit_val (CHR ''+'') = None" by (simp add: digit_val_def)
  then have "c \<noteq> CHR ''+''" using digit_char(1) [OF d(1)] d(2) by auto
  then show ?thesis using parse_digits_show [OF n] c by (simp add: parse_uint_def)
qed

lemma show_nat_no_ws: "c \<in> set (show_nat n) \<Longrightarrow> \<not> is_ws c \<and> digit_val c \<noteq> None"
  using show_nat_chars [of c n] digit_char(1,2) by fastforce

end
