(* ===== verification/Streams.thy ===== *)
theory Streams
  imports Net_Text
begin

text \<open>
  A TCP stream as the SOCKS and HTTP code sees it: the bytes the peer will still send before it
  closes, the bytes written so far, and whether writes still succeed. A program is a function
  on the stream that ends with an error or a value; \<open>io_bind\<close> is the \<^verbatim>\<open>?\<close> of the sources.
\<close>

record duplex =
  dx_in :: bytes
  dx_out :: bytes
  dx_writable :: bool

type_synonym 'a io = "duplex \<Rightarrow> (aether_error + 'a) \<times> duplex"

definition io_return :: "'a \<Rightarrow> 'a io" where
  "io_return a d = (Inr a, d)"

definition io_fail :: "aether_error \<Rightarrow> 'a io" where
  "io_fail e d = (Inl e, d)"

definition io_bind :: "'a io \<Rightarrow> ('a \<Rightarrow> 'b io) \<Rightarrow> 'b io" where
  "io_bind m f d = (case m d of (Inl e, d') \<Rightarrow> (Inl e, d') | (Inr a, d') \<Rightarrow> f a d')"

text \<open>\<open>read_exact\<close> consumes what there is when the stream ends early.\<close>

definition read_exact :: "nat \<Rightarrow> bytes io" where
  "read_exact n d =
     (if length (dx_in d) < n then (Inl (E_Io ''early eof''), d\<lparr>dx_in := []\<rparr>)
      else (Inr (take n (dx_in d)), d\<lparr>dx_in := drop n (dx_in d)\<rparr>))"

definition write_all :: "bytes \<Rightarrow> unit io" where
  "write_all bs d =
     (if dx_writable d then (Inr (), d\<lparr>dx_out := dx_out d @ bs\<rparr>) else (Inl (E_Io ''broken pipe''), d))"

named_theorems io_simps \<open>evaluation of stream programs\<close>

lemma io_return_run [io_simps]: "io_return a d = (Inr a, d)"
  by (simp add: io_return_def)

lemma io_fail_run [io_simps]: "io_fail e d = (Inl e, d)"
  by (simp add: io_fail_def)

lemma io_bind_Inr: "m d = (Inr a, d') \<Longrightarrow> io_bind m f d = f a d'"
  by (simp add: io_bind_def)

lemma io_bind_Inl: "m d = (Inl e, d') \<Longrightarrow> io_bind m f d = (Inl e, d')"
  by (simp add: io_bind_def)

lemma io_bind_read [io_simps]:
  "n \<le> length (dx_in d) \<Longrightarrow> io_bind (read_exact n) f d = f (take n (dx_in d)) (d\<lparr>dx_in := drop n (dx_in d)\<rparr>)"
  by (simp add: io_bind_def read_exact_def)

lemma io_bind_eof [io_simps]:
  "length (dx_in d) < n \<Longrightarrow> io_bind (read_exact n) f d = (Inl (E_Io ''early eof''), d\<lparr>dx_in := []\<rparr>)"
  by (simp add: io_bind_def read_exact_def)

lemma io_bind_return [io_simps]: "io_bind (io_return a) f d = f a d"
  by (simp add: io_bind_def io_return_def)

lemma io_bind_fail [io_simps]: "io_bind (io_fail e) f d = (Inl e, d)"
  by (simp add: io_bind_def io_fail_def)

lemma write_all_run [io_simps]: "dx_writable d \<Longrightarrow> write_all bs d = (Inr (), d\<lparr>dx_out := dx_out d @ bs\<rparr>)"
  by (simp add: write_all_def)

lemma io_bind_write [io_simps]:
  "dx_writable d \<Longrightarrow> io_bind (write_all bs) f d = f () (d\<lparr>dx_out := dx_out d @ bs\<rparr>)"
  by (simp add: io_bind_def write_all_def)

lemma io_bind_assoc [io_simps]: "io_bind (io_bind m f) g d = io_bind m (\<lambda>a. io_bind (f a) g) d"
  by (simp add: io_bind_def split: prod.split sum.split)

text \<open>
  What a program that only reads with \<open>read_exact\<close> returns does not depend on what follows the
  bytes it needs.
\<close>

definition framed :: "'a io \<Rightarrow> bool" where
  "framed m \<longleftrightarrow> (\<forall>d a d' extra. m d = (Inr a, d') \<longrightarrow>
     (\<exists>used. dx_in d = used @ dx_in d') \<and> m (d\<lparr>dx_in := dx_in d @ extra\<rparr>) = (Inr a, d'\<lparr>dx_in := dx_in d' @ extra\<rparr>))"

lemma framed_return [intro]: "framed (io_return a)"
  by (simp add: framed_def io_return_def)

lemma framed_fail [intro]: "framed (io_fail e)"
  by (simp add: framed_def io_fail_def)

lemma framed_read [intro]: "framed (read_exact n)"
  unfolding framed_def by (auto simp: read_exact_def split: if_splits) (metis append_take_drop_id)

lemma framed_write [intro]: "framed (write_all bs)"
  by (auto simp: framed_def write_all_def split: if_splits)

lemma framed_bind [intro]:
  assumes "framed m" and "\<And>a. framed (f a)"
  shows "framed (io_bind m f)"
  unfolding framed_def
proof (intro allI impI)
  fix d b d' extra
  assume "io_bind m f d = (Inr b, d')"
  then obtain a d1 where m: "m d = (Inr a, d1)" and f: "f a d1 = (Inr b, d')"
    by (auto simp: io_bind_def split: prod.splits sum.splits)
  from assms(1) m have "\<exists>used. dx_in d = used @ dx_in d1"
    and m': "m (d\<lparr>dx_in := dx_in d @ extra\<rparr>) = (Inr a, d1\<lparr>dx_in := dx_in d1 @ extra\<rparr>)"
    unfolding framed_def by blast+
  moreover from assms(2) f have "\<exists>used. dx_in d1 = used @ dx_in d'"
    and f': "f a (d1\<lparr>dx_in := dx_in d1 @ extra\<rparr>) = (Inr b, d'\<lparr>dx_in := dx_in d' @ extra\<rparr>)"
    unfolding framed_def by blast+
  ultimately show "(\<exists>used. dx_in d = used @ dx_in d') \<and>
      io_bind m f (d\<lparr>dx_in := dx_in d @ extra\<rparr>) = (Inr b, d'\<lparr>dx_in := dx_in d' @ extra\<rparr>)"
    using io_bind_Inr [of m _ a _ f, OF m'] by (metis append.assoc)
qed

lemma framed_if [intro]: "framed m \<Longrightarrow> framed n \<Longrightarrow> framed (if c then m else n)"
  by simp

end
