(* ===== verification/Http_Head.thy ===== *)
theory Http_Head
  imports Streams
begin

text \<open>
  Reading an HTTP head chunk by chunk, as the gateway client and the HTTP proxy of \<^verbatim>\<open>socks.rs\<close>
  do: append the chunk, look for the blank line, give up past a limit. \<open>collect_head\<close> is their
  common loop over the chunks a stream delivers, with the search as an argument; the contract of
  a search is the locale \<open>head_scanner\<close>, and both searches of the program satisfy it.
\<close>

definition crlf :: bytes where
  "crlf = [0x0D, 0x0A]"

definition crlf2 :: bytes where
  "crlf2 = [0x0D, 0x0A, 0x0D, 0x0A]"

definition find_head_end :: "bytes \<Rightarrow> nat option" where
  "find_head_end buffer = map_option (\<lambda>at. at + 4) (find_sub buffer crlf2)"

text \<open>The search of \<open>read_head\<close>: only what is new and the three bytes before it.\<close>

definition scan_new :: "nat \<Rightarrow> bytes \<Rightarrow> nat option" where
  "scan_new searched head = (
     let start = searched - 3
     in map_option (\<lambda>pos. start + pos + 4) (find_sub (drop start head) crlf2))"

datatype head_result = Head_Found bytes bytes "bytes list" | Head_Ended | Head_Too_Large

fun collect_head :: "(nat \<Rightarrow> bytes \<Rightarrow> nat option) \<Rightarrow> nat \<Rightarrow> nat \<Rightarrow> bytes \<Rightarrow> bytes list \<Rightarrow> head_result" where
  "collect_head scan limit searched head [] = Head_Ended"
| "collect_head scan limit searched head (chunk # chunks) = (
     let head = head @ chunk in
     case scan searched head of
       Some fin \<Rightarrow> Head_Found (take fin head) (drop fin head) chunks
     | None \<Rightarrow>
         if limit < length head then Head_Too_Large
         else collect_head scan limit (length head) head chunks)"

section \<open>The contract of a search\<close>

lemma find_sub_bound: "find_sub s p = Some i \<Longrightarrow> i + length p \<le> length s"
proof -
  assume "find_sub s p = Some i"
  then have "i \<le> length s" "starts_with (drop i s) p" by (simp_all add: find_sub_Some)
  then obtain t where "drop i s = p @ t" by (auto simp: starts_with_iff)
  then have "length s - i = length p + length t" by (metis length_append length_drop)
  with \<open>i \<le> length s\<close> show ?thesis by linarith
qed

lemma find_sub_unique:
  assumes "starts_with (drop i s) p" and "i \<le> length s" and "\<And>j. j < i \<Longrightarrow> \<not> starts_with (drop j s) p"
  shows "find_sub s p = Some i"
proof (cases "find_sub s p")
  case None
  then show ?thesis using find_sub_None assms(1,2) by blast
next
  case (Some j)
  have "\<not> i < j" using find_sub_first [OF Some] assms(1) by blast
  moreover have "\<not> j < i" using assms(3) find_sub_Some [OF Some] by blast
  ultimately show ?thesis using Some by simp
qed

text \<open>A prefix without an occurrence need not be searched again, but for one byte less than the pattern.\<close>

lemma find_sub_skip:
  assumes "find_sub (take k s) p = None" and "k \<le> length s" and "n + length p \<le> k + 1 \<or> n = 0" and "p \<noteq> []"
  shows "find_sub s p = map_option (\<lambda>i. n + i) (find_sub (drop n s) p)"
proof (cases "n = 0")
  case True
  then show ?thesis by (simp add: option.map_ident)
next
  case False
  with assms(3) have n: "n + length p \<le> k + 1" by simp
  have early: "\<not> starts_with (drop j s) p" if "j < n" for j
  proof
    assume "starts_with (drop j s) p"
    then obtain t where t: "drop j s = p @ t" by (auto simp: starts_with_iff)
    have "take (length p) (drop j (take k s)) = p"
      using t n that by (simp add: drop_take)
    then have "starts_with (drop j (take k s)) p"
      unfolding starts_with_iff by (metis append_take_drop_id)
    moreover have "j \<le> length (take k s)" using that n assms(2) by simp
    ultimately show False using find_sub_None [OF assms(1)] by blast
  qed
  show ?thesis
  proof (cases "find_sub (drop n s) p")
    case None
    have "\<not> starts_with (drop j s) p" if "j \<le> length s" for j
    proof (cases "j < n")
      case False
      then have "drop j s = drop (j - n) (drop n s)" by simp
      then show ?thesis using find_sub_None [OF None, of "j - n"] that by simp
    qed (rule early)
    then have "find_sub s p = None" using find_sub_Some [of s p] by (cases "find_sub s p") blast+
    with None show ?thesis by simp
  next
    case (Some i)
    note i = find_sub_Some [OF Some]
    have "1 \<le> length p" using assms(4) by (cases p) simp_all
    then have "n \<le> length s" using n assms(2) by linarith
    have "find_sub s p = Some (n + i)"
    proof (rule find_sub_unique)
      show "starts_with (drop (n + i) s) p" using i by (simp add: add.commute)
      show "n + i \<le> length s" using conjunct1 [OF i] \<open>n \<le> length s\<close> unfolding length_drop by linarith
      fix j assume j: "j < n + i"
      show "\<not> starts_with (drop j s) p"
      proof (cases "j < n")
        case False
        then have "drop j s = drop (j - n) (drop n s)" by simp
        then show ?thesis using find_sub_first [OF Some, of "j - n"] j False by simp
      qed (rule early)
    qed
    with Some show ?thesis by simp
  qed
qed

locale head_scanner =
  fixes scan :: "nat \<Rightarrow> bytes \<Rightarrow> nat option"
  assumes scan_complete: "find_head_end (take searched head) = None \<Longrightarrow> searched \<le> length head \<Longrightarrow>
    scan searched head = find_head_end head"
begin

lemma collect_reference:
  "find_head_end head = None \<Longrightarrow>
     collect_head scan limit (length head) head chunks = collect_head (\<lambda>_. find_head_end) limit n head chunks"
proof (induction chunks arbitrary: head n)
  case (Cons chunk chunks)
  have s: "scan (length head) (head @ chunk) = find_head_end (head @ chunk)"
    using Cons.prems by (intro scan_complete) simp_all
  show ?case
  proof (cases "find_head_end (head @ chunk)")
    case None
    then show ?thesis using Cons.IH [OF None] by (simp add: s Let_def)
  qed (simp add: s Let_def)
qed simp

text \<open>What is found is the first head of the stream; nothing is lost.\<close>

lemma collect_found:
  assumes "collect_head scan limit 0 [] chunks = Head_Found hd0 pipelined left"
  shows "hd0 @ pipelined @ concat left = concat chunks" "find_head_end (concat chunks) = Some (length hd0)"
proof -
  have none: "find_head_end [] = None" by (simp add: find_head_end_def crlf2_def)
  have *: "hd0 @ pipelined @ concat left = head @ concat chunks \<and> find_head_end (hd0 @ pipelined) = Some (length hd0)"
    if "collect_head (\<lambda>_. find_head_end) limit n head chunks = Head_Found hd0 pipelined left" for n head
    using that
  proof (induction chunks arbitrary: head n)
    case (Cons chunk chunks)
    show ?case
    proof (cases "find_head_end (head @ chunk)")
      case None
      with Cons show ?thesis by (auto simp: Let_def split: if_splits)
    next
      case (Some fin)
      then have "fin \<le> length (head @ chunk)"
        by (auto simp: find_head_end_def crlf2_def dest: find_sub_bound)
      moreover have "hd0 = take fin (head @ chunk)" "pipelined = drop fin (head @ chunk)" "left = chunks"
        using Some Cons.prems by (simp_all add: Let_def del: take_append drop_append)
      ultimately show ?thesis using Some by (simp add: min_absorb2 del: take_append drop_append)
    qed
  qed simp
  from collect_reference [of "[]" limit chunks 0, OF none] assms
  have f: "hd0 @ pipelined @ concat left = concat chunks" "find_head_end (hd0 @ pipelined) = Some (length hd0)"
    using * [of 0 "[]"] by simp_all
  then show "hd0 @ pipelined @ concat left = concat chunks" by simp
  obtain i where i: "find_sub (hd0 @ pipelined) crlf2 = Some i" "i + 4 = length hd0"
    using f(2) by (auto simp: find_head_end_def)
  have "find_sub (concat chunks) crlf2 = Some i"
  proof (rule find_sub_unique)
    have b: "i + 4 \<le> length (hd0 @ pipelined)" using find_sub_bound [OF i(1)] by (simp add: crlf2_def)
    obtain t where t: "drop i (hd0 @ pipelined) = crlf2 @ t"
      using find_sub_Some [OF i(1)] by (auto simp: starts_with_iff)
    have "drop i (concat chunks) = drop i (hd0 @ pipelined) @ concat left"
      using b by (simp add: f(1) [symmetric])
    also have "\<dots> = crlf2 @ t @ concat left" unfolding t by simp
    finally show "starts_with (drop i (concat chunks)) crlf2" unfolding starts_with_iff by blast
    show "i \<le> length (concat chunks)" using b by (simp add: f(1) [symmetric])
    fix j assume j: "j < i"
    show "\<not> starts_with (drop j (concat chunks)) crlf2"
    proof
      assume "starts_with (drop j (concat chunks)) crlf2"
      then obtain u where u: "drop j (concat chunks) = crlf2 @ u" by (auto simp: starts_with_iff)
      have "take 4 (drop j (hd0 @ pipelined)) = take 4 (drop j (concat chunks))"
        using b j by (simp add: f(1) [symmetric] take_append drop_append)
      also have "\<dots> = crlf2" by (simp add: u) (simp add: crlf2_def)
      finally have "starts_with (drop j (hd0 @ pipelined)) crlf2"
        unfolding starts_with_iff by (metis append_take_drop_id)
      then show False using find_sub_first [OF i(1) j] by blast
    qed
  qed
  then show "find_head_end (concat chunks) = Some (length hd0)" by (simp add: find_head_end_def i(2) [symmetric])
qed

end

interpretation plain: head_scanner "\<lambda>_. find_head_end"
  by unfold_locales simp

interpretation windowed: head_scanner scan_new
proof
  fix searched head
  assume none: "find_head_end (take searched head) = None" and le: "searched \<le> length head"
  have "find_sub (take searched head) crlf2 = None" using none by (simp add: find_head_end_def)
  from find_sub_skip [OF this le, of "searched - 3"]
  have "find_sub head crlf2 = map_option (\<lambda>i. (searched - 3) + i) (find_sub (drop (searched - 3) head) crlf2)"
    by (simp add: crlf2_def) linarith
  then show "scan_new searched head = find_head_end head"
    by (simp add: scan_new_def find_head_end_def option.map_comp o_def Let_def)
qed

end
