(* ===== verification/Socks5.thy ===== *)
theory Socks5
  imports Streams
begin

text \<open>
  Both ends of the SOCKS5 protocol: the server of \<^verbatim>\<open>socks.rs\<close> (greeting, request, replies) and
  the client of \<^verbatim>\<open>socks_upstream.rs\<close> with its retry loop. A domain name is kept as the UTF-8
  bytes of the \<^verbatim>\<open>String\<close>.
\<close>

section \<open>The server\<close>

definition socks_ver :: u8 where "socks_ver = 0x05"
definition cmd_connect :: u8 where "cmd_connect = 0x01"
definition cmd_udp_associate :: u8 where "cmd_udp_associate = 0x03"
definition atyp_v4 :: u8 where "atyp_v4 = 0x01"
definition atyp_domain :: u8 where "atyp_domain = 0x03"
definition atyp_v6 :: u8 where "atyp_v6 = 0x04"
definition rep_ok :: u8 where "rep_ok = 0x00"
definition rep_general :: u8 where "rep_general = 0x01"
definition rep_not_allowed :: u8 where "rep_not_allowed = 0x02"
definition rep_not_supported :: u8 where "rep_not_supported = 0x07"

lemmas socks_consts = socks_ver_def cmd_connect_def cmd_udp_associate_def atyp_v4_def atyp_domain_def
  atyp_v6_def rep_ok_def rep_general_def rep_not_allowed_def rep_not_supported_def

datatype target = T_Ip ip_addr | T_Domain string

definition show_target :: "target \<Rightarrow> string" where
  "show_target t = (case t of T_Ip ip \<Rightarrow> show_ip ip | T_Domain name \<Rightarrow> name)"

definition server_handshake :: "unit io" where
  "server_handshake =
     io_bind (read_exact 2) (\<lambda>prefix.
       if prefix ! 0 \<noteq> socks_ver then io_fail (E_Other ''bad greeting version'')
       else io_bind (read_exact (unat (prefix ! 1))) (\<lambda>_. write_all [socks_ver, 0x00]))"

definition read_port_be :: "u16 io" where
  "read_port_be = io_bind (read_exact 2) (\<lambda>p. io_return (be16 (p ! 0) (p ! 1)))"

definition read_target :: "u8 \<Rightarrow> (target \<times> u16) io" where
  "read_target atyp =
     io_bind
       (if atyp = atyp_v4 then
          io_bind (read_exact 4) (\<lambda>b. io_return (T_Ip (V4 (ipv4_of (b ! 0) (b ! 1) (b ! 2) (b ! 3)))))
        else if atyp = atyp_v6 then
          io_bind (read_exact 16) (\<lambda>b. io_return (T_Ip (V6 (ipv6_of_octets b))))
        else if atyp = atyp_domain then
          io_bind (read_exact 1) (\<lambda>len.
            io_bind (read_exact (unat (len ! 0))) (\<lambda>name. io_return (T_Domain (of_bytes (utf8_lossy name)))))
        else io_fail (E_Other ''bad atyp''))
       (\<lambda>t. io_bind read_port_be (\<lambda>port. io_return (t, port)))"

definition reply :: "u8 \<Rightarrow> unit io" where
  "reply code = write_all [socks_ver, code, 0x00, atyp_v4, 0, 0, 0, 0, 0, 0]"

definition addr_bytes :: "ip_addr \<Rightarrow> bytes" where
  "addr_bytes ip =
     (case ip of V4 v4 \<Rightarrow> atyp_v4 # ipv4_octets v4 | V6 v6 \<Rightarrow> atyp_v6 # ipv6_octets v6)"

definition reply_bound :: "socket_addr \<Rightarrow> unit io" where
  "reply_bound bound =
     write_all ([socks_ver, rep_ok, 0x00] @ addr_bytes (sa_ip bound) @ be16_bytes (sa_port bound))"

text \<open>\<open>handle_client\<close> up to the handler it calls; the handlers are in \<open>Socks_Connect\<close> and \<open>Udp_Relay\<close>.\<close>

datatype command = Cmd_Connect target u16 | Cmd_Udp_Associate target u16

definition read_command :: "command io" where
  "read_command =
     io_bind server_handshake (\<lambda>_.
     io_bind (read_exact 4) (\<lambda>head.
       if head ! 0 \<noteq> socks_ver then io_fail (E_Other ''bad socks version'')
       else io_bind (read_target (head ! 3)) (\<lambda>(target, port).
         if head ! 1 = cmd_connect then io_return (Cmd_Connect target port)
         else if head ! 1 = cmd_udp_associate then io_return (Cmd_Udp_Associate target port)
         else io_bind (reply rep_not_supported) (\<lambda>_. io_fail (E_Other ''unsupported socks command'')))))"

section \<open>The client\<close>

definition client_handshake :: "unit io" where
  "client_handshake =
     io_bind (write_all [0x05, 0x01, 0x00]) (\<lambda>_.
     io_bind (read_exact 2) (\<lambda>buf.
       if buf \<noteq> [0x05, 0x00] then io_fail (E_Other ''SOCKS5 auth failure'') else io_return ()))"

definition client_connect :: "socket_addr \<Rightarrow> unit io" where
  "client_connect target =
     io_bind (write_all ([0x05, 0x01, 0x00]
         @ (case sa_ip target of V4 v4 \<Rightarrow> 0x01 # ipv4_octets v4 | V6 v6 \<Rightarrow> 0x04 # ipv6_octets v6)
         @ be16_bytes (sa_port target))) (\<lambda>_.
     io_bind (read_exact 4) (\<lambda>hdr.
       if hdr ! 1 \<noteq> 0x00 then io_fail (E_Other (''SOCKS5 CONNECT reply: '' @ show_nat (unat (hdr ! 1))))
       else
         io_bind
           (if hdr ! 3 = 0x01 then io_bind (read_exact 4) (\<lambda>_. io_return ())
            else if hdr ! 3 = 0x03 then
              io_bind (read_exact 1) (\<lambda>l. io_bind (read_exact (unat (l ! 0))) (\<lambda>_. io_return ()))
            else if hdr ! 3 = 0x04 then io_bind (read_exact 16) (\<lambda>_. io_return ())
            else io_return ())
           (\<lambda>_. io_bind (read_exact 2) (\<lambda>_. io_return ()))))"

definition client_session :: "socket_addr \<Rightarrow> unit io" where
  "client_session target = io_bind client_handshake (\<lambda>_. client_connect target)"

text \<open>
  \<open>connect_through_socks\<close>: the retry loop, in milliseconds. One \<open>turn\<close> holds what the world
  answers in one turn: the clock at the loop test, after the pause and before the attempt, and
  how the attempt ends. \<open>None\<close>: the loop is still running when the turns given are used up.
\<close>

datatype attempt_end = Connected duplex | Failed string | Timed_Out

record attempt =
  at_test :: nat
  at_woken :: nat
  at_start :: nat
  at_end :: attempt_end

definition transient :: "string \<Rightarrow> bool" where
  "transient err \<longleftrightarrow> contains err ''Connection refused'' \<or> contains err ''reset''
     \<or> contains err ''reply: 1'' \<or> contains err ''reply: 4'' \<or> contains err ''reply: 5''"

definition gave_up :: "string \<Rightarrow> nat \<Rightarrow> string option \<Rightarrow> aether_error" where
  "gave_up name n last_err =
     E_Other (''SOCKS5 connect failed for '' @ name @ '' within 4s ('' @ show_nat n @ '' attempts): ''
       @ (case last_err of None \<Rightarrow> [] | Some e \<Rightarrow> e))"

fun connect_loop ::
  "string \<Rightarrow> nat \<Rightarrow> nat \<Rightarrow> string option \<Rightarrow> attempt list \<Rightarrow> (aether_error + duplex) option" where
  "connect_loop name deadline n last_err [] = None"
| "connect_loop name deadline n last_err (a # as) =
     (if deadline \<le> at_test a then Some (Inl (gave_up name n last_err))
      else if 0 < n \<and> deadline \<le> at_woken a then Some (Inl (gave_up name n last_err))
      else if deadline \<le> at_start a then Some (Inl (gave_up name (n + 1) last_err))
      else case at_end a of
          Connected d \<Rightarrow> Some (Inr d)
        | Failed e \<Rightarrow>
            if \<not> transient e then Some (Inl (E_Other e)) else connect_loop name deadline (n + 1) (Some e) as
        | Timed_Out \<Rightarrow> connect_loop name deadline (n + 1) (Some ''timeout'') as)"

definition connect_through_socks :: "nat \<Rightarrow> socket_addr \<Rightarrow> attempt list \<Rightarrow> (aether_error + duplex) option" where
  "connect_through_socks now target as = connect_loop (show_socket_addr target) (now + 4000) 0 None as"

section \<open>Client against server\<close>

definition stream :: "bytes \<Rightarrow> duplex" where
  "stream bs = \<lparr>dx_in = bs, dx_out = [], dx_writable = True\<rparr>"

definition client_bytes :: "socket_addr \<Rightarrow> bytes" where
  "client_bytes target = [0x05, 0x01, 0x00] @ [0x05, 0x01, 0x00] @ addr_bytes (sa_ip target) @ be16_bytes (sa_port target)"

definition server_bytes :: "socket_addr \<Rightarrow> bytes" where
  "server_bytes bound = [0x05, 0x00] @ [0x05, 0x00, 0x00] @ addr_bytes (sa_ip bound) @ be16_bytes (sa_port bound)"

lemma client_run:
  "client_session target (stream (server_bytes bound @ payload))
     = (Inr (), \<lparr>dx_in = payload, dx_out = client_bytes target, dx_writable = True\<rparr>)"
proof -
  obtain p q where p: "be16_bytes (sa_port bound) = [p, q]" by (rule be16_bytes_cases)
  have a: "(case sa_ip target of V4 v4 \<Rightarrow> 0x01 # ipv4_octets v4 | V6 v6 \<Rightarrow> 0x04 # ipv6_octets v6) = addr_bytes (sa_ip target)"
    by (simp add: addr_bytes_def socks_consts split: ip_addr.split)
  show ?thesis
    by (cases "sa_ip bound")
      (simp_all add: client_session_def client_handshake_def client_connect_def a stream_def server_bytes_def client_bytes_def
        io_simps p addr_bytes_def [of "V4 x" for x] addr_bytes_def [of "V6 x" for x] socks_consts)
qed

lemma server_run:
  "io_bind read_command (\<lambda>c. io_bind (reply_bound bound) (\<lambda>_. io_return c)) (stream (client_bytes target @ early))
     = (Inr (Cmd_Connect (T_Ip (sa_ip target)) (sa_port target)),
        \<lparr>dx_in = early, dx_out = server_bytes bound, dx_writable = True\<rparr>)"
proof -
  obtain p q where p: "be16_bytes (sa_port target) = [p, q]" "be16 p q = sa_port target" by (rule be16_bytes_cases)
  show ?thesis
  proof (cases "sa_ip target")
    case (V4 w)
    obtain a b c d where w: "ipv4_octets w = [a, b, c, d]" "w = ipv4_of a b c d" by (rule ipv4_octets_cases)
    show ?thesis
      by (simp add: read_command_def server_handshake_def read_target_def read_port_be_def reply_bound_def stream_def
          server_bytes_def client_bytes_def io_simps p V4 w
          addr_bytes_def [of "V4 w" for w] socks_consts)
  next
    case (V6 w)
    show ?thesis
      by (simp add: read_command_def server_handshake_def read_target_def read_port_be_def reply_bound_def stream_def
          server_bytes_def client_bytes_def io_simps p V6
          addr_bytes_def [of "V6 w" for w] socks_consts)
  qed
qed

text \<open>C14: The SOCKS client and the SOCKS server of the program understand each other: there are byte
  strings such that the client, reading the server's one, sends the other and succeeds, and the
  server, reading the client's one, is asked to connect to exactly the client's target and sends
  its own; neither touches the bytes that follow.\<close>

theorem client_and_server_agree:
  "\<exists>sent answered.
     client_session target (stream (answered @ payload))
       = (Inr (), \<lparr>dx_in = payload, dx_out = sent, dx_writable = True\<rparr>)
     \<and> io_bind read_command (\<lambda>c. io_bind (reply_bound bound) (\<lambda>_. io_return c)) (stream (sent @ early))
       = (Inr (Cmd_Connect (T_Ip (sa_ip target)) (sa_port target)),
          \<lparr>dx_in = early, dx_out = answered, dx_writable = True\<rparr>)"
  by (intro exI [of _ "client_bytes target"] exI [of _ "server_bytes bound"] conjI client_run server_run)

text \<open>A refusal of the server reaches the caller with its code.\<close>

lemma client_refused:
  assumes "code \<noteq> rep_ok"
  shows "fst (client_session target (stream ([0x05, 0x00] @ [socks_ver, code, 0x00, atyp_v4, 0, 0, 0, 0, 0, 0])))
    = Inl (E_Other (''SOCKS5 CONNECT reply: '' @ show_nat (unat code)))"
  using assms by (simp add: client_session_def client_handshake_def client_connect_def stream_def
      io_simps socks_consts)

section \<open>The retry loop\<close>

text \<open>The clock of a run: it never goes back, and the pause before a retry takes its 150 ms.\<close>

fun clock_ok :: "nat \<Rightarrow> bool \<Rightarrow> attempt list \<Rightarrow> bool" where
  "clock_ok now first [] = True"
| "clock_ok now first (a # as) =
     (now \<le> at_test a \<and> (first \<or> at_test a + 150 \<le> at_woken a) \<and> at_test a \<le> at_woken a
      \<and> at_woken a \<le> at_start a \<and> clock_ok (at_start a) False as)"

text \<open>An attempt behind which the loop goes on, and what it remembers of it.\<close>

definition is_retried :: "attempt \<Rightarrow> bool" where
  "is_retried a = (case at_end a of Connected _ \<Rightarrow> False | Failed e \<Rightarrow> transient e | Timed_Out \<Rightarrow> True)"

definition error_text :: "attempt \<Rightarrow> string" where
  "error_text a = (case at_end a of Failed e \<Rightarrow> e | _ \<Rightarrow> ''timeout'')"

fun noted_error :: "string option \<Rightarrow> attempt list \<Rightarrow> string option" where
  "noted_error last_err [] = last_err"
| "noted_error last_err (a # as) = noted_error (Some (error_text a)) as"

text \<open>How the turn \<open>a\<close> ends the loop: with the stream it opened or the lasting error it failed with, both
  only for an attempt that began in time, or because the time was over at one of the three checks.\<close>

definition stops_with :: "string \<Rightarrow> nat \<Rightarrow> nat \<Rightarrow> string option \<Rightarrow> attempt \<Rightarrow> aether_error + duplex \<Rightarrow> bool" where
  "stops_with name deadline n last_err a r = (
     if deadline \<le> at_start a
     then r = Inl (gave_up name (n + (if deadline \<le> at_test a \<or> 0 < n \<and> deadline \<le> at_woken a then 0 else 1)) last_err)
     else case at_end a of
         Connected d \<Rightarrow> r = Inr d
       | Failed e \<Rightarrow> \<not> transient e \<and> r = Inl (E_Other e)
       | Timed_Out \<Rightarrow> False)"

lemma retried_turn:
  assumes "at_test a \<le> at_woken a" "at_woken a \<le> at_start a" "at_start a < deadline" "is_retried a"
  shows "connect_loop name deadline n last_err (a # as) = connect_loop name deadline (Suc n) (Some (error_text a)) as"
  using assms by (auto simp: is_retried_def error_text_def split: attempt_end.splits)

lemma last_turn:
  assumes "at_test a \<le> at_woken a" "at_woken a \<le> at_start a" "deadline \<le> at_start a \<or> \<not> is_retried a"
  shows "\<exists>r. (\<forall>as. connect_loop name deadline n last_err (a # as) = Some r) \<and> stops_with name deadline n last_err a r"
  using assms by (auto simp: is_retried_def stops_with_def split: attempt_end.splits)

text \<open>A run of the loop: retried attempts that began in time, and a turn that ends it.\<close>

definition run_of :: "string \<Rightarrow> nat \<Rightarrow> nat \<Rightarrow> string option \<Rightarrow> attempt list \<Rightarrow> attempt \<Rightarrow> aether_error + duplex \<Rightarrow> bool" where
  "run_of name deadline n last_err before a r \<longleftrightarrow>
     (\<forall>as. connect_loop name deadline n last_err (before @ a # as) = Some r)
     \<and> list_all (\<lambda>b. at_start b < deadline \<and> is_retried b) before
     \<and> stops_with name deadline (n + length before) (noted_error last_err before) a r"

lemma run_ofI:
  assumes "at_test a \<le> at_woken a" "at_woken a \<le> at_start a"
    and next_turn: "at_start a < deadline \<Longrightarrow> \<exists>before b later r. as = before @ b # later
      \<and> run_of name deadline (Suc n) (Some (error_text a)) before b r"
  shows "\<exists>before b later r. a # as = before @ b # later \<and> run_of name deadline n last_err before b r"
proof (cases "at_start a < deadline \<and> is_retried a")
  case True
  then obtain before b later r where "as = before @ b # later" "run_of name deadline (Suc n) (Some (error_text a)) before b r"
    using next_turn by blast
  with True retried_turn [OF assms(1,2)] show ?thesis
    by (intro exI [of _ "a # before"] exI [of _ b] exI [of _ later] exI [of _ r]) (simp add: run_of_def)
next
  case False
  then have "deadline \<le> at_start a \<or> \<not> is_retried a" by auto
  from last_turn [OF assms(1,2) this] obtain r where
    "\<forall>as. connect_loop name deadline n last_err (a # as) = Some r" "stops_with name deadline n last_err a r" by blast
  then show ?thesis
    by (intro exI [of _ "[]"] exI [of _ a] exI [of _ as] exI [of _ r]) (simp add: run_of_def)
qed

lemma retries_end:
  "clock_ok now False as \<Longrightarrow> now < deadline \<Longrightarrow> deadline \<le> now + 150 * length as \<Longrightarrow>
     \<exists>before b later r. as = before @ b # later \<and> run_of name deadline n last_err before b r"
proof (induction as arbitrary: now n last_err)
  case (Cons a as)
  from Cons.prems have "clock_ok (at_start a) False as" "deadline \<le> at_start a + 150 * length as" by auto
  with Cons.IH have "\<exists>before b later r. as = before @ b # later \<and> run_of name deadline (Suc n) (Some (error_text a)) before b r"
    if "at_start a < deadline"
    using that by blast
  with Cons.prems show ?case by (intro run_ofI) auto
qed simp

lemma noted_error_last: "as \<noteq> [] \<Longrightarrow> noted_error e as = Some (error_text (last as))"
  by (induction as arbitrary: e) (auto split: if_splits)

lemma clock_take: "clock_ok now first as \<Longrightarrow> clock_ok now first (take n as)"
  by (induction as arbitrary: now first n) (simp_all add: take_Cons split: nat.split)

text \<open>C15: Connecting through the upstream proxy ends, whatever the proxy does: with a clock that does
  not go back and pauses of 150 ms the loop stops in one of its first 28 turns, whatever would
  come later. Each attempt before that one began within the four seconds and timed out or failed
  with an error that passes for transient. The last one decides the result: the stream it
  opened, the lasting error it failed with, each only when it began in time, or otherwise
  the error that names the number of attempts and the last failure, and only because the four
  seconds are over.\<close>

theorem connecting_ends:
  assumes "clock_ok now True as" and "28 \<le> length as"
  shows "\<exists>before a later r. as = before @ a # later \<and> length before < 28
     \<and> (\<forall>others. connect_through_socks now target (before @ a # others) = Some r)
     \<and> list_all (\<lambda>b. at_start b < now + 4000
          \<and> (case at_end b of Connected _ \<Rightarrow> False | Failed e \<Rightarrow> transient e | Timed_Out \<Rightarrow> True)) before
     \<and> (if now + 4000 \<le> at_start a
        then \<exists>n. n \<in> {length before, Suc (length before)}
          \<and> r = Inl (gave_up (show_socket_addr target) n (if before = [] then None else Some (error_text (last before))))
        else case at_end a of
            Connected d \<Rightarrow> r = Inr d
          | Failed e \<Rightarrow> \<not> transient e \<and> r = Inl (E_Other e)
          | Timed_Out \<Rightarrow> False)"
proof -
  let ?d = "now + 4000" and ?n = "show_socket_addr target" and ?as = "take 28 as"
  obtain a as' where as: "?as = a # as'" using assms(2) by (cases as) auto
  have l: "length as' = 27" using arg_cong [OF as, of length] assms(2) by simp
  have c: "clock_ok now True (a # as')" using clock_take [OF assms(1), of 28] as by simp
  then have "clock_ok (at_start a) False as'" "?d \<le> at_start a + 150 * length as'" by (auto simp: l)
  then have "\<exists>before b later r. as' = before @ b # later \<and> run_of ?n ?d (Suc 0) (Some (error_text a)) before b r"
    if "at_start a < ?d"
    using retries_end that by blast
  with c have "\<exists>before b later r. a # as' = before @ b # later \<and> run_of ?n ?d 0 None before b r"
    by (intro run_ofI) auto
  then obtain before b later r where x: "?as = before @ b # later" and r: "run_of ?n ?d 0 None before b r"
    unfolding as by blast
  have "as = before @ b # (later @ drop 28 as)" using x append_take_drop_id [of 28 as] by simp
  moreover have "length before < 28" using arg_cong [OF x, of length] by simp
  moreover have "noted_error None before = (if before = [] then None else Some (error_text (last before)))"
    using noted_error_last by simp
  ultimately show ?thesis
    using r unfolding run_of_def connect_through_socks_def is_retried_def stops_with_def
    by (intro exI [of _ before] exI [of _ b] exI [of _ "later @ drop 28 as"] exI [of _ r]) (auto split: if_splits)
qed

theorem connecting_ends_witness:
  "\<exists>n e. n < 29 \<and> connect_through_socks 0 \<lparr>sa_ip = V4 0, sa_port = 443\<rparr>
     (map (\<lambda>i. \<lparr>at_test = 200 * i, at_woken = 200 * i + 150, at_start = 200 * i + 150, at_end = Timed_Out\<rparr>) [0..<28])
     = Some (Inl (gave_up (show_socket_addr \<lparr>sa_ip = V4 0, sa_port = 443\<rparr>) n e))"
proof -
  let ?as = "map (\<lambda>i. \<lparr>at_test = 200 * i, at_woken = 200 * i + 150, at_start = 200 * i + 150, at_end = Timed_Out\<rparr>) [0..<28]"
  have "clock_ok 0 True ?as" by (simp add: upt_rec)
  from connecting_ends [OF this, of "\<lparr>sa_ip = V4 0, sa_port = 443\<rparr>"]
  obtain before a later r where as: "?as = before @ a # later" "length before < 28"
    and run: "connect_through_socks 0 \<lparr>sa_ip = V4 0, sa_port = 443\<rparr> (before @ a # later) = Some r"
    and e: "if 4000 \<le> at_start a
        then \<exists>n. n \<in> {length before, Suc (length before)}
          \<and> r = Inl (gave_up (show_socket_addr \<lparr>sa_ip = V4 0, sa_port = 443\<rparr>) n
              (if before = [] then None else Some (error_text (last before))))
        else case at_end a of
            Connected d \<Rightarrow> r = Inr d
          | Failed e \<Rightarrow> \<not> transient e \<and> r = Inl (E_Other e)
          | Timed_Out \<Rightarrow> False"
    by auto
  have "a \<in> set ?as" unfolding as(1) by simp
  then have "at_end a = Timed_Out" by auto
  with e have "\<exists>n. n \<in> {length before, Suc (length before)}
      \<and> r = Inl (gave_up (show_socket_addr \<lparr>sa_ip = V4 0, sa_port = 443\<rparr>) n
          (if before = [] then None else Some (error_text (last before))))"
    by (cases "4000 \<le> at_start a") (simp_all only: if_True if_False attempt_end.case simp_thms)
  then obtain n where n: "n \<in> {length before, Suc (length before)}"
    "r = Inl (gave_up (show_socket_addr \<lparr>sa_ip = V4 0, sa_port = 443\<rparr>) n
          (if before = [] then None else Some (error_text (last before))))"
    by blast
  from n(1) as(2) have "n < 29" by auto
  with run n(2) show ?thesis unfolding as(1) by blast
qed

end
