(* ===== verification/Routing.thy ===== *)
theory Routing
  imports Net_Text
begin

text \<open>
  \<^verbatim>\<open>routing.rs\<close>: the rule language, the rule set and its decision. Regular expressions and
  networks in CIDR notation belong to the crates \<^verbatim>\<open>regex\<close> and \<^verbatim>\<open>ipnet\<close>: \<open>matcher_libs\<close> carries
  their operations, and \<open>'r\<close> and \<open>'n\<close> are their values. Text is ASCII: \<open>to_lowercase\<close> maps
  the letters A to Z.
\<close>

section \<open>Rules\<close>

datatype route_action = Route_Proxy | Route_Direct | Route_Block

definition route_label :: "route_action \<Rightarrow> string" where
  "route_label a = (case a of Route_Proxy \<Rightarrow> ''proxy'' | Route_Direct \<Rightarrow> ''direct'' | Route_Block \<Rightarrow> ''block'')"

datatype host = H_Domain string | H_Ip ip_addr

datatype ('r, 'n) matcher =
    DomainSuffix string | DomainFull string | DomainKeyword string | DomainRegex 'r
  | Net 'n | Ports u16 u16 | Private

record ('r, 'n) matcher_libs =
  regex_new :: "string \<Rightarrow> 'r option"
  regex_is_match :: "'r \<Rightarrow> string \<Rightarrow> bool"
  ipnet_parse :: "string \<Rightarrow> 'n option"
  ipnet_of_ip :: "ip_addr \<Rightarrow> 'n"
  ipnet_contains :: "'n \<Rightarrow> ip_addr \<Rightarrow> bool"

definition normalize_domain :: "string \<Rightarrow> string option" where
  "normalize_domain value = (
     let cleaned = to_lowercase (trim_end_by (\<lambda>c. c = CHR ''.'')
           (trim_start_by (\<lambda>c. c = CHR ''.'') (trim_start_by (\<lambda>c. c = CHR ''*'') (trim value))))
     in if cleaned = [] then None else Some cleaned)"

definition parse_net :: "('r, 'n) matcher_libs \<Rightarrow> string \<Rightarrow> 'n option" where
  "parse_net libs value = (
     let value = trim value in
     case ipnet_parse libs value of
       Some net \<Rightarrow> Some net
     | None \<Rightarrow> map_option (ipnet_of_ip libs) (parse_ip value))"

definition parse_u16 :: "string \<Rightarrow> u16 option" where
  "parse_u16 s = map_option of_nat (parse_uint 65535 s)"

definition parse_ports :: "string \<Rightarrow> (u16 \<times> u16) option" where
  "parse_ports value = (
     let value = trim value in
     case split_once (CHR ''-'') value of
       Some (lo, hi) \<Rightarrow> do {
         lo \<leftarrow> parse_u16 (trim lo);
         hi \<leftarrow> parse_u16 (trim hi);
         Some (if hi < lo then (hi, lo) else (lo, hi))
       }
     | None \<Rightarrow> do {
         single \<leftarrow> parse_u16 value;
         Some (single, single)
       })"

definition matcher_kind :: "string \<Rightarrow> string \<times> string" where
  "matcher_kind entry =
     (case split_once (CHR '':'') entry of
        Some (kind, value) \<Rightarrow>
          if CHR ''.'' \<notin> set kind \<and> CHR ''/'' \<notin> set kind then (to_lowercase (trim kind), trim value)
          else ([], entry)
      | None \<Rightarrow> ([], entry))"

definition matcher_parse :: "('r, 'n) matcher_libs \<Rightarrow> string \<Rightarrow> ('r, 'n) matcher option" where
  "matcher_parse libs entry = (
     let entry = trim entry in
     if entry = [] \<or> hd entry = CHR ''#'' then None
     else let (kind, value) = matcher_kind entry in
       if kind = ''domain'' \<or> kind = ''suffix'' then map_option DomainSuffix (normalize_domain value)
       else if kind = ''full'' \<or> kind = ''exact'' then map_option DomainFull (normalize_domain value)
       else if kind = ''keyword'' then
         (let needle = to_lowercase (trim value) in if needle = [] then None else Some (DomainKeyword needle))
       else if kind = ''regexp'' \<or> kind = ''regex'' then map_option DomainRegex (regex_new libs value)
       else if kind = ''ip'' \<or> kind = ''cidr'' then map_option Net (parse_net libs value)
       else if kind = ''port'' then map_option (\<lambda>(lo, hi). Ports lo hi) (parse_ports value)
       else if kind = ''geoip'' \<or> kind = ''geosite'' then
         (if str_eq_ignore_case value ''private'' then Some Private else None)
       else if kind = [] then
         (if str_eq_ignore_case value ''private'' then Some Private
          else case parse_net libs value of
              Some net \<Rightarrow> Some (Net net)
            | None \<Rightarrow> map_option DomainSuffix (normalize_domain value))
       else None)"

section \<open>Private addresses\<close>

definition octet :: "ipv4 \<Rightarrow> nat \<Rightarrow> u8" where
  "octet w i = ipv4_octets w ! i"

definition v4_is_private :: "ipv4 \<Rightarrow> bool" where
  "v4_is_private w \<longleftrightarrow> octet w 0 = 10 \<or> (octet w 0 = 172 \<and> 16 \<le> octet w 1 \<and> octet w 1 \<le> 31)
     \<or> (octet w 0 = 192 \<and> octet w 1 = 168)"

definition is_private :: "ip_addr \<Rightarrow> bool" where
  "is_private ip =
     (case ip of
        V4 w \<Rightarrow> v4_is_private w
          \<or> octet w 0 = 127
          \<or> (octet w 0 = 169 \<and> octet w 1 = 254)
          \<or> ipv4_octets w = [255, 255, 255, 255]
          \<or> (octet w 0 = 192 \<and> octet w 1 = 0 \<and> octet w 2 = 2)
          \<or> (octet w 0 = 198 \<and> octet w 1 = 51 \<and> octet w 2 = 100)
          \<or> (octet w 0 = 203 \<and> octet w 1 = 0 \<and> octet w 2 = 113)
          \<or> ipv4_octets w = [0, 0, 0, 0]
          \<or> (octet w 0 = 100 \<and> 64 \<le> octet w 1 \<and> octet w 1 < 128)
      | V6 w \<Rightarrow> w = 1 \<or> w = 0
          \<or> ipv6_segments w 0 AND 0xfe00 = 0xfc00
          \<or> ipv6_segments w 0 AND 0xffc0 = 0xfe80)"

section \<open>Matching and deciding\<close>

definition matches :: "('r, 'n) matcher_libs \<Rightarrow> ('r, 'n) matcher \<Rightarrow> host \<Rightarrow> u16 \<Rightarrow> bool" where
  "matches libs m host port =
     (case m of
        Ports lo hi \<Rightarrow> lo \<le> port \<and> port \<le> hi
      | Private \<Rightarrow> (case host of
            H_Ip ip \<Rightarrow> is_private ip
          | H_Domain name \<Rightarrow> str_eq_ignore_case name ''localhost'')
      | Net net \<Rightarrow> (case host of H_Ip ip \<Rightarrow> ipnet_contains libs net ip | H_Domain _ \<Rightarrow> False)
      | DomainSuffix suffix \<Rightarrow> (case host of
            H_Domain name \<Rightarrow> (let name = to_lowercase name in name = suffix \<or> ends_with name (''.'' @ suffix))
          | H_Ip _ \<Rightarrow> False)
      | DomainFull full \<Rightarrow> (case host of H_Domain name \<Rightarrow> str_eq_ignore_case name full | H_Ip _ \<Rightarrow> False)
      | DomainKeyword needle \<Rightarrow> (case host of
            H_Domain name \<Rightarrow> contains (to_lowercase name) needle
          | H_Ip _ \<Rightarrow> False)
      | DomainRegex pattern \<Rightarrow> (case host of
            H_Domain name \<Rightarrow> regex_is_match libs pattern name
          | H_Ip _ \<Rightarrow> False))"

record ('r, 'n) rule_set =
  rs_block :: "('r, 'n) matcher list"
  rs_direct :: "('r, 'n) matcher list"

definition decide :: "('r, 'n) matcher_libs \<Rightarrow> ('r, 'n) rule_set \<Rightarrow> host \<Rightarrow> u16 \<Rightarrow> route_action" where
  "decide libs rs host port =
     (if list_ex (\<lambda>rule. matches libs rule host port) (rs_block rs) then Route_Block
      else if list_ex (\<lambda>rule. matches libs rule host port) (rs_direct rs) then Route_Direct
      else Route_Proxy)"

definition is_separator :: "char \<Rightarrow> bool" where
  "is_separator c \<longleftrightarrow> c = CHR ''\<newline>'' \<or> c = CHR '','' \<or> c = CHR '';''"

definition parse_list :: "('r, 'n) matcher_libs \<Rightarrow> string \<Rightarrow> ('r, 'n) matcher list" where
  "parse_list libs raw = List.map_filter (matcher_parse libs) (split_by is_separator raw)"

definition rules_parse :: "('r, 'n) matcher_libs \<Rightarrow> string \<Rightarrow> string \<Rightarrow> ('r, 'n) rule_set" where
  "rules_parse libs block direct = \<lparr>rs_block = parse_list libs block, rs_direct = parse_list libs direct\<rparr>"

definition rules_empty :: "('r, 'n) rule_set \<Rightarrow> bool" where
  "rules_empty rs \<longleftrightarrow> rs_block rs = [] \<and> rs_direct rs = []"

definition push_list :: "string \<Rightarrow> string \<Rightarrow> string" where
  "push_list target extra =
     (if trim extra = [] then target
      else (if trim target \<noteq> [] then target @ [CHR ''\<newline>''] else target) @ extra)"

text \<open>
  \<open>str::lines\<close>: the pieces between newlines; a carriage return goes with its newline, and no
  empty line follows the last one.
\<close>

definition strip_cr :: "string \<Rightarrow> string" where
  "strip_cr l = (if l \<noteq> [] \<and> last l = CHR 0x0D then butlast l else l)"

definition str_lines :: "string \<Rightarrow> string list" where
  "str_lines text = (
     let ls = split_by (\<lambda>c. c = CHR ''\<newline>'') text
     in map strip_cr (butlast ls) @ (if last ls = [] then [] else [last ls]))"

datatype section_target = In_Block | In_Direct

fun split_lines :: "section_target option \<Rightarrow> string list \<Rightarrow> string \<times> string \<Rightarrow> string \<times> string" where
  "split_lines current [] bd = bd"
| "split_lines current (line # ls) (block, direct) = (
     let trimmed = trim line in
     if trimmed = [] \<or> hd trimmed = CHR ''#'' then split_lines current ls (block, direct)
     else let lowered = to_lowercase trimmed in
       if lowered = ''[block]'' then split_lines (Some In_Block) ls (block, direct)
       else if lowered = ''[direct]'' then split_lines (Some In_Direct) ls (block, direct)
       else if hd lowered = CHR ''['' then split_lines None ls (block, direct)
       else (case current of
           Some In_Block \<Rightarrow> split_lines current ls (block @ trimmed @ [CHR ''\<newline>''], direct)
         | Some In_Direct \<Rightarrow> split_lines current ls (block, direct @ trimmed @ [CHR ''\<newline>''])
         | None \<Rightarrow> split_lines current ls (block, direct)))"

definition split_sections :: "string \<Rightarrow> string \<times> string" where
  "split_sections text = split_lines None (str_lines text) ([], [])"

text \<open>
  \<open>from_env\<close>: the environment as a map, and the result of reading the file of
  \<^verbatim>\<open>AETHER_ROUTES_FILE\<close> (\<open>None\<close> when it cannot be read).
\<close>

definition rules_from_env ::
  "('r, 'n) matcher_libs \<Rightarrow> (string \<Rightarrow> string option) \<Rightarrow> (string \<Rightarrow> string option) \<Rightarrow> ('r, 'n) rule_set" where
  "rules_from_env libs env read_file = (
     let block = (case env ''AETHER_ROUTE_BLOCK'' of Some v \<Rightarrow> v | None \<Rightarrow> []);
       direct = (case env ''AETHER_ROUTE_DIRECT'' of Some v \<Rightarrow> v | None \<Rightarrow> []);
       (block, direct) =
         (case Option.bind (env ''AETHER_ROUTES_FILE'') read_file of
            Some text \<Rightarrow>
              (case split_sections text of
                 (file_block, file_direct) \<Rightarrow> (push_list block file_block, push_list direct file_direct))
          | None \<Rightarrow> (block, direct))
     in rules_parse libs block direct)"

section \<open>What the rules mean\<close>

lemma trim_Nil [simp]: "trim [] = []"
  by (simp add: trim_def trim_start_by_def trim_end_by_def)

lemma trim_ws_Cons [simp]: "is_ws c \<Longrightarrow> trim (c # s) = trim s"
  by (simp add: trim_def trim_start_by_def)

lemma trim_eq_Nil: "trim s = [] \<longleftrightarrow> (\<forall>c \<in> set s. is_ws c)"
proof
  assume "trim s = []"
  then have "\<forall>c \<in> set (dropWhile is_ws s). is_ws c"
    by (simp add: trim_def trim_start_by_def trim_end_by_def)
  then have "dropWhile is_ws s = []" by (metis hd_dropWhile hd_in_set)
  then show "\<forall>c \<in> set s. is_ws c" by simp
next
  show "\<forall>c \<in> set s. is_ws c \<Longrightarrow> trim s = []" by (induction s) simp_all
qed

lemma matcher_parse_Nil [simp]: "matcher_parse libs [] = None"
  by (simp add: matcher_parse_def)

lemma matcher_parse_ws [simp]: "is_ws c \<Longrightarrow> matcher_parse libs (c # s) = matcher_parse libs s"
  by (simp add: matcher_parse_def)

lemma parse_list_Nil [simp]: "parse_list libs [] = []"
  by (simp add: parse_list_def map_filter_def)

lemma parse_list_sep: "is_separator c \<Longrightarrow> parse_list libs (a @ c # b) = parse_list libs a @ parse_list libs b"
proof -
  assume c: "is_separator c"
  have "split_by is_separator (a @ c # b) = split_by is_separator a @ split_by is_separator b"
    using c by (induction a) (auto split: list.split simp: neq_Nil_conv)
  then show ?thesis by (simp add: parse_list_def map_filter_def)
qed

lemma parse_list_ws: "\<forall>c \<in> set a. is_ws c \<Longrightarrow> parse_list libs (a @ b) = parse_list libs b"
proof (induction a)
  case (Cons c a)
  have "parse_list libs (c # s) = parse_list libs s" if c: "is_ws c" for s
  proof (cases "is_separator c")
    case True
    then show ?thesis by (simp add: parse_list_def map_filter_def)
  next
    case False
    obtain y ys where "split_by is_separator s = y # ys" using split_by_nonempty by (meson neq_Nil_conv)
    then show ?thesis using False c by (simp add: parse_list_def map_filter_def)
  qed
  with Cons show ?case by simp
qed simp

lemma parse_list_push: "parse_list libs (push_list a b) = parse_list libs a @ parse_list libs b"
proof -
  have n: "is_separator (CHR ''\<newline>'')" by (simp add: is_separator_def)
  consider "trim b = []" | "trim b \<noteq> []" "trim a = []" | "trim b \<noteq> []" "trim a \<noteq> []" by blast
  then show ?thesis
  proof cases
    case 1
    then have "parse_list libs b = []" using parse_list_ws [of b libs "[]"] by (simp add: trim_eq_Nil)
    with 1 show ?thesis by (simp add: push_list_def)
  next
    case 2
    then have "parse_list libs a = []" "parse_list libs (a @ b) = parse_list libs b"
      using parse_list_ws [of a libs "[]"] parse_list_ws [of a libs b] by (simp_all add: trim_eq_Nil)
    with 2 show ?thesis by (simp add: push_list_def)
  next
    case 3
    with parse_list_sep [OF n, of libs a b] show ?thesis by (simp add: push_list_def)
  qed
qed

definition hits :: "('r, 'n) matcher_libs \<Rightarrow> string \<Rightarrow> host \<Rightarrow> u16 \<Rightarrow> bool" where
  "hits libs raw host port \<longleftrightarrow> (\<exists>rule \<in> set (parse_list libs raw). matches libs rule host port)"

lemma decide_parsed:
  "decide libs (rules_parse libs block direct) host port =
     (if hits libs block host port then Route_Block
      else if hits libs direct host port then Route_Direct else Route_Proxy)"
  by (simp add: decide_def rules_parse_def hits_def list_ex_iff)

lemma hits_push: "hits libs (push_list a b) host port \<longleftrightarrow> hits libs a host port \<or> hits libs b host port"
  by (auto simp: hits_def parse_list_push)

text \<open>The rules of the file add to those of the environment: whatever the two say, a
  connection is blocked when a block rule of either matches, otherwise goes direct when a direct
  rule of either matches, otherwise through the tunnel; without a readable file the environment
  decides alone.\<close>

theorem file_rules_add_to_env_rules:
  "decide libs (rules_from_env libs env read_file) host port = (
     let block = (case env ''AETHER_ROUTE_BLOCK'' of Some v \<Rightarrow> v | None \<Rightarrow> []);
       direct = (case env ''AETHER_ROUTE_DIRECT'' of Some v \<Rightarrow> v | None \<Rightarrow> []);
       (file_block, file_direct) =
         (case Option.bind (env ''AETHER_ROUTES_FILE'') read_file of Some t \<Rightarrow> split_sections t | None \<Rightarrow> ([], []))
     in if hits libs block host port \<or> hits libs file_block host port then Route_Block
        else if hits libs direct host port \<or> hits libs file_direct host port then Route_Direct
        else Route_Proxy)"
proof -
  have e: "\<not> hits libs [] host port" by (simp add: hits_def)
  show ?thesis
    by (cases "Option.bind (env ''AETHER_ROUTES_FILE'') read_file")
      (simp_all add: rules_from_env_def decide_parsed hits_push e Let_def split: prod.split)
qed

text \<open>A plain domain name as a rule.\<close>

definition plain_domain :: "string \<Rightarrow> bool" where
  "plain_domain d \<longleftrightarrow> d \<noteq> [] \<and> to_lowercase d = d \<and> (\<forall>c \<in> set d. \<not> is_separator c \<and> c \<noteq> CHR '':'')
     \<and> \<not> is_ws (hd d) \<and> \<not> is_ws (last d) \<and> hd d \<notin> {CHR ''#'', CHR ''*'', CHR ''.''} \<and> last d \<noteq> CHR ''.''
     \<and> d \<noteq> ''private''"

lemma plain_domainD:
  assumes "plain_domain d"
  shows "d \<noteq> []" "to_lowercase d = d" "c \<in> set d \<Longrightarrow> \<not> is_separator c" "CHR '':'' \<notin> set d"
    "\<not> is_ws (hd d)" "\<not> is_ws (last d)" "hd d \<noteq> CHR ''#''" "hd d \<noteq> CHR ''*''" "hd d \<noteq> CHR ''.''"
    "last d \<noteq> CHR ''.''" "d \<noteq> ''private''"
  using assms unfolding plain_domain_def by blast+

lemma split_once_None: "c \<notin> set s \<Longrightarrow> split_once c s = None"
  by (induction s) auto

lemma trim_start_id: "d = [] \<or> \<not> p (hd d) \<Longrightarrow> trim_start_by p d = d"
  by (cases d) (auto simp: trim_start_by_def)

lemma trim_end_id: "d = [] \<or> \<not> p (last d) \<Longrightarrow> trim_end_by p d = d"
  by (cases d rule: rev_cases) (auto simp: trim_end_by_def)

lemma normalize_plain: "plain_domain d \<Longrightarrow> normalize_domain d = Some d"
proof -
  assume d: "plain_domain d"
  note D = plain_domainD [OF d]
  have "trim d = d" using D by (intro trim_id)
  moreover have "trim_start_by (\<lambda>c. c = CHR ''*'') d = d" "trim_start_by (\<lambda>c. c = CHR ''.'') d = d"
    using D by (simp_all add: trim_start_id)
  moreover have "trim_end_by (\<lambda>c. c = CHR ''.'') d = d" using D by (simp add: trim_end_id)
  ultimately show ?thesis using D(1,2) by (simp only: normalize_domain_def Let_def if_False)
qed

lemma lower_private: "to_lowercase ''private'' = ''private''"
  by (simp add: to_lowercase_def lower_char_def Let_def)

lemma parse_plain:
  assumes d: "plain_domain d" and "ipnet_parse libs d = None" and "parse_ipv4 d = None"
  shows "parse_list libs d = [DomainSuffix d]"
proof -
  note D = plain_domainD [OF d]
  have t: "trim d = d" using D by (intro trim_id)
  have "parse_ip d = None" using D(4) assms(3) by (simp add: parse_ip_no_colon)
  then have n: "parse_net libs d = None" using assms(2) by (simp add: parse_net_def t)
  from D(4) have k: "matcher_kind d = ([], d)" by (simp add: matcher_kind_def split_once_None)
  have p: "\<not> str_eq_ignore_case d ''private''"
    using D(11) unfolding str_eq_ignore_case_def lower_private D(2) .
  have "matcher_parse libs d = Some (DomainSuffix d)"
    using D(1,7) by (simp add: matcher_parse_def t k n p normalize_plain [OF d])
  moreover have "split_by is_separator d = [d]"
    using D(3) by (intro split_by_no_sep) blast
  ultimately show ?thesis by (simp add: parse_list_def map_filter_def)
qed

text \<open>C10: A domain name written alone in the block list blocks that name and its subdomains, in any
  letter case and on every port, and nothing else: no name that merely ends in the same letters
  and no address; the names it does not block go where the direct list says.\<close>

theorem domain_rule_covers_subdomains:
  assumes "plain_domain d" and "ipnet_parse libs d = None" and "parse_ipv4 d = None"
  shows "decide libs (rules_parse libs d direct) host port =
     (if (case host of H_Domain name \<Rightarrow> to_lowercase name = d \<or> (\<exists>sub. to_lowercase name = sub @ ''.'' @ d) | H_Ip _ \<Rightarrow> False)
      then Route_Block
      else if hits libs direct host port then Route_Direct else Route_Proxy)"
  unfolding decide_parsed hits_def parse_plain [OF assms]
  by (simp add: matches_def ends_with_iff Let_def split: host.split)

definition no_libs :: "(unit, unit) matcher_libs" where
  "no_libs = \<lparr>regex_new = \<lambda>_. None, regex_is_match = \<lambda>_ _. False, ipnet_parse = \<lambda>_. None,
     ipnet_of_ip = \<lambda>_. (), ipnet_contains = \<lambda>_ _. False\<rparr>"

theorem domain_rule_covers_subdomains_witness:
  "decide no_libs (rules_parse no_libs ''ads.net'' []) (H_Domain ''X.Ads.Net'') 443 = Route_Block
   \<and> decide no_libs (rules_parse no_libs ''ads.net'' []) (H_Domain ''bads.net'') 443 = Route_Proxy"
proof -
  have p: "plain_domain ''ads.net''"
    by (simp add: plain_domain_def is_separator_def is_ws_def to_lowercase_def lower_char_def Let_def)
  have o: "parse_octet ''ads'' = None" by (simp add: parse_octet_def digit_val_def)
  have i: "parse_ipv4 ''ads.net'' = None" by (simp add: parse_ipv4_def o)
  have h: "\<not> hits no_libs [] (H_Domain ''bads.net'') 443" by (simp add: hits_def)
  note r = domain_rule_covers_subdomains [OF p _ i, of no_libs "[]"]
  have l: "to_lowercase ''X.Ads.Net'' = ''x'' @ ''.'' @ ''ads.net''" by code_simp
  have l': "to_lowercase ''bads.net'' = ''bads.net''" by code_simp
  have n: "\<nexists>sub. ''bads.net'' = sub @ ''.'' @ ''ads.net''"
    unfolding ends_with_iff [symmetric] by (simp add: ends_with_def)
  show ?thesis using r [of "H_Domain ''X.Ads.Net''"] r [of "H_Domain ''bads.net''"] h n
    by (simp add: l l' no_libs_def)
qed

section \<open>The private ranges\<close>

definition private_ranges :: "(ipv4 \<times> ipv4) list" where
  "private_ranges =
    [(ipv4_of 0 0 0 0, ipv4_of 0 0 0 0), (ipv4_of 10 0 0 0, ipv4_of 10 255 255 255),
     (ipv4_of 100 64 0 0, ipv4_of 100 127 255 255), (ipv4_of 127 0 0 0, ipv4_of 127 255 255 255),
     (ipv4_of 169 254 0 0, ipv4_of 169 254 255 255), (ipv4_of 172 16 0 0, ipv4_of 172 31 255 255),
     (ipv4_of 192 0 2 0, ipv4_of 192 0 2 255), (ipv4_of 192 168 0 0, ipv4_of 192 168 255 255),
     (ipv4_of 198 51 100 0, ipv4_of 198 51 100 255), (ipv4_of 203 0 113 0, ipv4_of 203 0 113 255),
     (ipv4_of 255 255 255 255, ipv4_of 255 255 255 255)]"

lemma unat_ipv4_of:
  "unat (ipv4_of a b c d) = 16777216 * unat a + 65536 * unat b + 256 * unat c + unat d"
proof -
  have "from_be [a, b, c, d] < 4294967296" using from_be_less [of "[a, b, c, d]"] by simp
  then have "unat (ipv4_of a b c d) = from_be [a, b, c, d]" unfolding ipv4_of_def by (rule unat_of_nat_u32)
  then show ?thesis by (simp only: from_be_quad)
qed

lemma lex_step:
  fixes k x y r s :: nat
  assumes "r < k" "s < k"
  shows "k * x + r \<le> k * y + s \<longleftrightarrow> x < y \<or> (x = y \<and> r \<le> s)"
proof (cases x y rule: linorder_cases)
  case less
  then have "k * x + k \<le> k * y" using mult_le_mono2 [of "Suc x" y k] by simp
  with less assms show ?thesis by simp
next
  case greater
  then have "k * y + k \<le> k * x" using mult_le_mono2 [of "Suc y" x k] by simp
  with greater assms show ?thesis by simp
qed simp

lemma ipv4_le_iff:
  "ipv4_of a b c d \<le> ipv4_of a' b' c' d' \<longleftrightarrow>
     a < a' \<or> (a = a' \<and> (b < b' \<or> (b = b' \<and> (c < c' \<or> (c = c' \<and> d \<le> d')))))"
proof -
  have b: "unat (x :: u8) < 256" for x by simp
  have s: "256 * unat (x :: u8) + unat (y :: u8) < 65536" for x y using b [of x] b [of y] by linarith
  have r: "65536 * unat (x :: u8) + (256 * unat (y :: u8) + unat (z :: u8)) < 16777216" for x y z
    using b [of x] b [of y] b [of z] by linarith
  have w: "(x :: u8) < y \<longleftrightarrow> unat x < unat y" "x \<le> y \<longleftrightarrow> unat x \<le> unat y" "x = y \<longleftrightarrow> unat x = unat y" for x y
    by (simp_all add: word_less_nat_alt word_le_nat_alt word_unat_eq_iff)
  show ?thesis
    unfolding word_le_nat_alt [of "ipv4_of a b c d"] unat_ipv4_of add.assoc lex_step [OF r r] lex_step [OF s s] lex_step [OF b b] w ..
qed

lemma u8_bounds [simp]: "b \<le> (255 :: u8)" "(0 :: u8) < b \<longleftrightarrow> b \<noteq> 0" "b < (255 :: u8) \<longleftrightarrow> b \<noteq> 255"
    "\<not> (255 :: u8) < b" "(255 :: u8) \<le> b \<longleftrightarrow> b = 255"
proof -
  have "unat b \<le> 255" using unat_u8_less [of b] by linarith
  then show le: "b \<le> (255 :: u8)" by (simp add: word_le_nat_alt)
  then show "\<not> (255 :: u8) < b" "(255 :: u8) \<le> b \<longleftrightarrow> b = 255" by auto
  show "(0 :: u8) < b \<longleftrightarrow> b \<noteq> 0" by (simp add: word_neq_0_conv)
  show "b < (255 :: u8) \<longleftrightarrow> b \<noteq> 255" using le by (auto simp: less_le)
qed

text \<open>An IPv4 address is private to the rules exactly when it lies in one of eleven intervals:
  this network's 0.0.0.0, the three RFC 1918 blocks, carrier-grade NAT, loopback, link-local, the
  three documentation blocks and the broadcast address.\<close>

theorem private_addresses_are_intervals:
  "is_private (V4 w) \<longleftrightarrow> list_ex (\<lambda>(lo, hi). lo \<le> w \<and> w \<le> hi) private_ranges"
proof -
  obtain a b c d where w: "ipv4_octets w = [a, b, c, d]" "w = ipv4_of a b c d" by (rule ipv4_octets_cases)
  have lt: "x < y \<or> x = y \<and> P \<longleftrightarrow> (if x = y then P else x < y)" for x y :: u8 and P by auto
  have one: "ipv4_of a' b' c' d' \<le> w \<and> w \<le> ipv4_of a' b' c' 255 \<longleftrightarrow> a = a' \<and> b = b' \<and> c = c' \<and> d' \<le> d" for a' b' c' d'
    unfolding w(2) ipv4_le_iff by auto
  have two: "ipv4_of a' l 0 0 \<le> w \<and> w \<le> ipv4_of a' h 255 255 \<longleftrightarrow> a = a' \<and> l \<le> b \<and> b \<le> h" for a' l h
    unfolding w(2) ipv4_le_iff u8_bounds by auto
  have list_ex_rules: "list_ex f [] = False" "list_ex f (x # xs) = (f x \<or> list_ex f xs)" for f :: "ipv4 \<times> ipv4 \<Rightarrow> bool" and x xs
    by simp_all
  have sixteen: "b < 128 \<longleftrightarrow> b \<le> 127"
    by (simp add: word_less_nat_alt word_le_nat_alt) linarith
  have zero: "ipv4_of 0 0 0 0 \<le> w \<and> w \<le> ipv4_of 0 0 0 0 \<longleftrightarrow> a = 0 \<and> b = 0 \<and> c = 0 \<and> d = 0"
    unfolding w(2) ipv4_le_iff by auto
  have last: "ipv4_of 255 255 255 255 \<le> w \<and> w \<le> ipv4_of 255 255 255 255 \<longleftrightarrow> a = 255 \<and> b = 255 \<and> c = 255 \<and> d = 255"
    unfolding w(2) ipv4_le_iff by auto
  have nth: "[a, b, c, d] ! 0 = a" "[a, b, c, d] ! 1 = b" "[a, b, c, d] ! 2 = c" by simp_all
  have eqs: "([a, b, c, d] = [a', b', c', d']) = (a = a' \<and> b = b' \<and> c = c' \<and> d = d')" for a' b' c' d' by simp
  have ends: "((0 :: u8) \<le> x) = True" "(x \<le> (255 :: u8)) = True" "((255 :: u8) \<le> x) = (x = 255)"
    "(k \<le> x \<and> x \<le> k) = (x = k)" for x k :: u8 by auto
  show ?thesis
    unfolding is_private_def private_ranges_def list_ex_rules prod.case zero last two one ip_addr.case
      v4_is_private_def octet_def w(1) sixteen nth eqs by (simp only: ends simp_thms) argo
qed

end
