(* ===== verification/Udp_Relay.thy ===== *)
theory Udp_Relay
  imports Socks5 Routing
begin

text \<open>
  UDP ASSOCIATE (\<^verbatim>\<open>socks.rs\<close>): the SOCKS datagram header and the relay loop. The loop is a step
  function over what \<open>select!\<close> delivers; what the world answers during a step (the routing
  decision, the resolver inside the tunnel, the resolver of the system) comes with the event,
  since rules can be reloaded at any time.
\<close>

section \<open>Datagrams\<close>

definition take_target :: "bytes \<Rightarrow> (target \<times> nat) option panics" where
  "take_target buf = do {
     atyp \<leftarrow> idx buf 3;
     let pos = 4;
     if atyp = atyp_v4 then
       if length buf < pos + 4 then Some None
       else do {
         a \<leftarrow> idx buf pos; b \<leftarrow> idx buf (pos + 1); c \<leftarrow> idx buf (pos + 2); d \<leftarrow> idx buf (pos + 3);
         Some (Some (T_Ip (V4 (ipv4_of a b c d)), pos + 4))
       }
     else if atyp = atyp_v6 then
       if length buf < pos + 16 then Some None
       else do {
         b \<leftarrow> slice buf pos (pos + 16);
         Some (Some (T_Ip (V6 (ipv6_of_octets b)), pos + 16))
       }
     else if atyp = atyp_domain then
       (case get buf pos of
          None \<Rightarrow> Some None
        | Some l \<Rightarrow>
            let len = unat l; pos = pos + 1 in
            if length buf < pos + len then Some None
            else do {
              name \<leftarrow> slice buf pos (pos + len);
              Some (Some (T_Domain (of_bytes (utf8_lossy name)), pos + len))
            })
     else Some None
   }"

definition parse_udp_request :: "bytes \<Rightarrow> (target \<times> u16 \<times> bytes) option panics" where
  "parse_udp_request buf =
     (if length buf < 4 then Some None
      else do {
        frag \<leftarrow> idx buf 2;
        if frag \<noteq> 0 then Some None
        else do {
          r \<leftarrow> take_target buf;
          (case r of
             None \<Rightarrow> Some None
           | Some (target, pos) \<Rightarrow>
               if length buf < pos + 2 then Some None
               else do {
                 h \<leftarrow> idx buf pos;
                 l \<leftarrow> idx buf (pos + 1);
                 payload \<leftarrow> slice buf (pos + 2) (length buf);
                 Some (Some (target, be16 h l, payload))
               })
        }
      })"

definition build_udp_reply :: "socket_addr \<Rightarrow> bytes \<Rightarrow> bytes" where
  "build_udp_reply src data = [0x00, 0x00, 0x00] @ addr_bytes (sa_ip src) @ be16_bytes (sa_port src) @ data"

section \<open>Who may use the relay\<close>

fun normalize_ip :: "ip_addr \<Rightarrow> ip_addr" where
  "normalize_ip (V6 v6) = (case to_ipv4_mapped v6 of Some v4 \<Rightarrow> V4 v4 | None \<Rightarrow> V6 v6)"
| "normalize_ip (V4 v4) = V4 v4"

definition is_unspecified :: "ip_addr \<Rightarrow> bool" where
  "is_unspecified ip = (case ip of V4 w \<Rightarrow> w = 0 | V6 w \<Rightarrow> w = 0)"

definition expected_udp_source :: "socket_addr \<Rightarrow> target \<Rightarrow> ip_addr" where
  "expected_udp_source control_peer requested =
     (case requested of
        T_Ip ip \<Rightarrow> if \<not> is_unspecified ip then normalize_ip ip else normalize_ip (sa_ip control_peer)
      | T_Domain _ \<Rightarrow> normalize_ip (sa_ip control_peer))"

definition udp_source_allowed :: "ip_addr \<Rightarrow> socket_addr option \<Rightarrow> socket_addr \<Rightarrow> bool" where
  "udp_source_allowed expected_ip latched src =
     (case latched of
        Some known \<Rightarrow> known = src
      | None \<Rightarrow> normalize_ip (sa_ip src) = normalize_ip expected_ip)"

section \<open>The relay loop\<close>

definition host_of :: "target \<Rightarrow> host" where
  "host_of t = (case t of T_Domain name \<Rightarrow> H_Domain name | T_Ip ip \<Rightarrow> H_Ip ip)"

record world =
  w_route :: "host \<Rightarrow> u16 \<Rightarrow> route_action"
  w_dns :: "string \<Rightarrow> ip_addr option"
  w_lookup :: "string \<Rightarrow> u16 \<Rightarrow> socket_addr option"

record relay =
  rl_expected :: ip_addr
  rl_client :: "socket_addr option"
  rl_refused :: nat
  rl_open :: bool

datatype relay_event =
    Datagram bytes socket_addr | Relay_Error
  | Tunnel_Reply socket_addr bytes | Tunnel_Closed
  | Direct_Reply bytes socket_addr | Direct_Error
  | Control_Data | Control_Closed

datatype relay_out = To_Tunnel socket_addr bytes | To_Direct socket_addr bytes | To_Client socket_addr bytes

definition relay_new :: "socket_addr \<Rightarrow> target \<Rightarrow> relay" where
  "relay_new control_peer requested =
     \<lparr>rl_expected = expected_udp_source control_peer requested, rl_client = None, rl_refused = 0, rl_open = True\<rparr>"

text \<open>Where an accepted datagram goes.\<close>

definition relay_forward :: "world \<Rightarrow> target \<Rightarrow> u16 \<Rightarrow> bytes \<Rightarrow> relay_out list" where
  "relay_forward w dst port payload =
     (case w_route w (host_of dst) port of
        Route_Block \<Rightarrow> []
      | Route_Direct \<Rightarrow>
          (case (case dst of
                   T_Ip ip \<Rightarrow> Some \<lparr>sa_ip = ip, sa_port = port\<rparr>
                 | T_Domain name \<Rightarrow> w_lookup w name port) of
             Some addr \<Rightarrow> [To_Direct addr payload]
           | None \<Rightarrow> [])
      | Route_Proxy \<Rightarrow>
          (case dst of
             T_Ip ip \<Rightarrow> [To_Tunnel \<lparr>sa_ip = ip, sa_port = port\<rparr> payload]
           | T_Domain name \<Rightarrow>
               (case w_dns w name of
                  Some ip \<Rightarrow> [To_Tunnel \<lparr>sa_ip = ip, sa_port = port\<rparr> payload]
                | None \<Rightarrow> [])))"

definition relay_datagram :: "world \<Rightarrow> bytes \<Rightarrow> socket_addr \<Rightarrow> relay \<Rightarrow> (relay \<times> relay_out list) panics" where
  "relay_datagram w buf src r =
     (if \<not> udp_source_allowed (rl_expected r) (rl_client r) src
      then Some (r\<lparr>rl_refused := rl_refused r + 1\<rparr>, [])
      else do {
        let r = (if rl_client r = None then r\<lparr>rl_client := Some src\<rparr> else r);
        q \<leftarrow> parse_udp_request buf;
        (case q of
           None \<Rightarrow> Some (r, [])
         | Some (dst, port, payload) \<Rightarrow> Some (r, relay_forward w dst port payload))
      })"

definition relay_answer :: "socket_addr \<Rightarrow> bytes \<Rightarrow> relay \<Rightarrow> relay_out list" where
  "relay_answer src data r =
     (case rl_client r of Some c \<Rightarrow> [To_Client c (build_udp_reply src data)] | None \<Rightarrow> [])"

definition relay_step :: "world \<Rightarrow> relay_event \<Rightarrow> relay \<Rightarrow> (relay \<times> relay_out list) panics" where
  "relay_step w ev r =
     (case ev of
        Datagram buf src \<Rightarrow> relay_datagram w buf src r
      | Relay_Error \<Rightarrow> Some (r\<lparr>rl_open := False\<rparr>, [])
      | Tunnel_Reply src data \<Rightarrow> Some (r, relay_answer src data r)
      | Tunnel_Closed \<Rightarrow> Some (r\<lparr>rl_open := False\<rparr>, [])
      | Direct_Reply data src \<Rightarrow> Some (r, relay_answer src data r)
      | Direct_Error \<Rightarrow> Some (r, [])
      | Control_Data \<Rightarrow> Some (r, [])
      | Control_Closed \<Rightarrow> Some (r\<lparr>rl_open := False\<rparr>, []))"

text \<open>A run of the loop: every event with what it made the relay send.\<close>

fun relay_run ::
  "(world \<times> relay_event) list \<Rightarrow> relay \<Rightarrow> (world \<times> relay_event \<times> relay_out list) list panics" where
  "relay_run [] r = Some []"
| "relay_run ((w, ev) # evs) r =
     (if \<not> rl_open r then Some []
      else do {
        (r', outs) \<leftarrow> relay_step w ev r;
        tr \<leftarrow> relay_run evs r';
        Some ((w, ev, outs) # tr)
      })"

section \<open>Headers\<close>

lemma runs_take_target [no_panic]: "4 \<le> length buf \<Longrightarrow> runs (take_target buf)"
  unfolding take_target_def Let_def
  by (intro no_panic) (auto simp: get_eq_None_conv)

lemma take_target_pos: "take_target buf = Some (Some (t, pos)) \<Longrightarrow> pos \<le> length buf"
  by (auto simp: take_target_def Let_def bind_eq_Some_conv split: if_splits option.splits)

lemma runs_parse_udp_request [no_panic]: "runs (parse_udp_request buf)"
  unfolding parse_udp_request_def
  by (intro no_panic) (auto dest!: take_target_pos)

text \<open>The header of a relayed datagram: no datagram makes the parser index out of bounds, and
  what the relay sends back reads as a header with the sender's address and port around the
  unchanged payload.\<close>

theorem udp_header_roundtrip:
  "parse_udp_request buf \<noteq> None
   \<and> parse_udp_request (build_udp_reply src data) = Some (Some (T_Ip (sa_ip src), sa_port src, data))"
proof
  show "parse_udp_request buf \<noteq> None" using runs_parse_udp_request by (simp add: runs_def)
  obtain p q where p: "be16_bytes (sa_port src) = [p, q]" "be16 p q = sa_port src" by (rule be16_bytes_cases)
  show "parse_udp_request (build_udp_reply src data) = Some (Some (T_Ip (sa_ip src), sa_port src, data))"
  proof (cases "sa_ip src")
    case (V4 w)
    obtain a b c d where w: "ipv4_octets w = [a, b, c, d]" "w = ipv4_of a b c d" by (rule ipv4_octets_cases)
    show ?thesis
      by (simp add: parse_udp_request_def take_target_def build_udp_reply_def addr_bytes_def V4 w p socks_consts
          slice_def)
  next
    case (V6 w)
    let ?b = "[0, 0, 0, atyp_v6] @ ipv6_octets w @ [p, q] @ data"
    have "slice ?b 4 20 = Some (ipv6_octets w)" by (rule slice_mid) simp_all
    moreover have "slice ?b 22 (length ?b) = Some data" by (simp add: slice_def)
    moreover have "get ?b 20 = Some p" "get ?b 21 = Some q" by (simp_all add: nth_append)
    ultimately show ?thesis
      by (simp add: parse_udp_request_def take_target_def build_udp_reply_def addr_bytes_def V6 p socks_consts)
  qed
qed

section \<open>One client, and the rules\<close>

text \<open>What a step may send, given the client it serves.\<close>

definition out_ok :: "socket_addr \<Rightarrow> world \<Rightarrow> relay_event \<Rightarrow> relay_out \<Rightarrow> bool" where
  "out_ok c w ev out =
     (case out of
        To_Client a pkt \<Rightarrow> a = c \<and>
          (\<exists>src data. (ev = Tunnel_Reply src data \<or> ev = Direct_Reply data src) \<and> pkt = build_udp_reply src data)
      | To_Tunnel dst payload \<Rightarrow>
          (\<exists>buf t. ev = Datagram buf c \<and> parse_udp_request buf = Some (Some (t, sa_port dst, payload))
            \<and> w_route w (host_of t) (sa_port dst) = Route_Proxy)
      | To_Direct dst payload \<Rightarrow>
          (\<exists>buf t port. ev = Datagram buf c \<and> parse_udp_request buf = Some (Some (t, port, payload))
            \<and> w_route w (host_of t) port = Route_Direct))"

lemma relay_forward_ok:
  assumes "out \<in> set (relay_forward w t port payload)" and "parse_udp_request buf = Some (Some (t, port, payload))"
  shows "out_ok c w (Datagram buf c) out"
  using assms
  by (auto simp: relay_forward_def out_ok_def split: route_action.splits target.splits option.splits)

lemma relay_step_ok:
  assumes "relay_step w ev r = Some (r', outs)"
  shows "rl_expected r' = rl_expected r"
    and "rl_client r = Some c \<Longrightarrow> rl_client r' = Some c"
    and "rl_client r = None \<Longrightarrow> rl_client r' = Some c \<Longrightarrow> normalize_ip (sa_ip c) = normalize_ip (rl_expected r)"
    and "rl_client r' = None \<Longrightarrow> outs = []"
    and "out \<in> set outs \<Longrightarrow> rl_client r' = Some c \<Longrightarrow> out_ok c w ev out"
proof -
  have d: "relay_datagram w buf src r = Some (r', outs) \<Longrightarrow>
      rl_expected r' = rl_expected r \<and> (rl_client r = Some c \<longrightarrow> rl_client r' = Some c)
      \<and> (rl_client r = None \<longrightarrow> rl_client r' = Some c \<longrightarrow> normalize_ip (sa_ip c) = normalize_ip (rl_expected r))
      \<and> (rl_client r' = None \<longrightarrow> outs = [])
      \<and> (out \<in> set outs \<longrightarrow> rl_client r' = Some c \<longrightarrow> out_ok c w (Datagram buf src) out)" for buf src
    by (auto simp: relay_datagram_def udp_source_allowed_def Let_def bind_eq_Some_conv
        split: if_splits option.splits) (blast intro: relay_forward_ok)+
  show "rl_expected r' = rl_expected r" "rl_client r = Some c \<Longrightarrow> rl_client r' = Some c"
    "rl_client r = None \<Longrightarrow> rl_client r' = Some c \<Longrightarrow> normalize_ip (sa_ip c) = normalize_ip (rl_expected r)"
    "rl_client r' = None \<Longrightarrow> outs = []"
    "out \<in> set outs \<Longrightarrow> rl_client r' = Some c \<Longrightarrow> out_ok c w ev out"
    using assms d by (auto simp: relay_step_def relay_answer_def out_ok_def split: relay_event.splits option.splits)
qed

lemma relay_run_client:
  "relay_run evs r = Some tr \<Longrightarrow>
     \<exists>c. (\<forall>k. rl_client r = Some k \<longrightarrow> c = k)
       \<and> (rl_client r = None \<longrightarrow> normalize_ip (sa_ip c) = normalize_ip (rl_expected r))
       \<and> (\<forall>(w, ev, outs) \<in> set tr. \<forall>out \<in> set outs. out_ok c w ev out)"
proof (induction evs arbitrary: r tr)
  case Nil
  have "\<exists>c. (\<forall>k. rl_client r = Some k \<longrightarrow> c = k) \<and> (rl_client r = None \<longrightarrow> normalize_ip (sa_ip c) = normalize_ip (rl_expected r))"
    by (cases "rl_client r") (auto intro: exI [of _ "\<lparr>sa_ip = rl_expected r, sa_port = 0\<rparr>"])
  with Nil show ?case by simp
next
  case (Cons x evs)
  obtain w ev where x: "x = (w, ev)" by fastforce
  have e: "\<exists>c. (\<forall>k. rl_client r = Some k \<longrightarrow> c = k) \<and> (rl_client r = None \<longrightarrow> normalize_ip (sa_ip c) = normalize_ip (rl_expected r))"
    by (cases "rl_client r") (auto intro: exI [of _ "\<lparr>sa_ip = rl_expected r, sa_port = 0\<rparr>"])
  show ?case
  proof (cases "rl_open r")
    case False
    with Cons.prems e show ?thesis by (simp add: x)
  next
    case True
    with Cons.prems obtain r' outs tr' where s: "relay_step w ev r = Some (r', outs)" "relay_run evs r' = Some tr'"
      "tr = (w, ev, outs) # tr'" by (auto simp: x bind_eq_Some_conv)
    from Cons.IH [OF s(2)] obtain c where c:
      "\<forall>k. rl_client r' = Some k \<longrightarrow> c = k"
      "rl_client r' = None \<longrightarrow> normalize_ip (sa_ip c) = normalize_ip (rl_expected r')"
      "\<forall>(w, ev, outs) \<in> set tr'. \<forall>out \<in> set outs. out_ok c w ev out" by (elim exE conjE) (rule that)
    note k = relay_step_ok [OF s(1)]
    have "\<forall>out \<in> set outs. out_ok c w ev out"
    proof (cases "rl_client r'")
      case None
      with k(4) show ?thesis by simp
    next
      case (Some c')
      with c(1) have "rl_client r' = Some c" by simp
      then show ?thesis using k(5) by blast
    qed
    moreover have "\<forall>k. rl_client r = Some k \<longrightarrow> c = k" using k(2) c(1) by blast
    moreover have "rl_client r = None \<longrightarrow> normalize_ip (sa_ip c) = normalize_ip (rl_expected r)"
    proof (cases "rl_client r'")
      case None
      then show ?thesis using c(2) k(1) by simp
    next
      case (Some c')
      with c(1) have "rl_client r' = Some c" by simp
      then show ?thesis using k(3) by blast
    qed
    ultimately show ?thesis using c(3) s(3) by auto
  qed
qed

text \<open>C3: An association serves one client and obeys the rules: in every run of the relay there is one
  address, whose IP is the one the control connection announced (an IPv4-mapped one counting as
  IPv4), such that all answers go to it, and everything sent onwards is the payload of a datagram
  that came from it, through the tunnel only when the rules say proxy for its destination, outside
  the tunnel only when they say direct, and never when they say block.\<close>

theorem relay_serves_one_client:
  assumes "relay_run evs (relay_new control_peer requested) = Some tr"
  shows "\<exists>c. normalize_ip (sa_ip c) = normalize_ip (expected_udp_source control_peer requested)
     \<and> (\<forall>w ev outs out. (w, ev, outs) \<in> set tr \<longrightarrow> out \<in> set outs \<longrightarrow>
          (case out of
             To_Client a pkt \<Rightarrow> a = c \<and>
               (\<exists>src data. (ev = Tunnel_Reply src data \<or> ev = Direct_Reply data src) \<and> pkt = build_udp_reply src data)
           | To_Tunnel dst payload \<Rightarrow>
               (\<exists>buf t. ev = Datagram buf c \<and> parse_udp_request buf = Some (Some (t, sa_port dst, payload))
                 \<and> w_route w (host_of t) (sa_port dst) = Route_Proxy)
           | To_Direct dst payload \<Rightarrow>
               (\<exists>buf t port. ev = Datagram buf c \<and> parse_udp_request buf = Some (Some (t, port, payload))
                 \<and> w_route w (host_of t) port = Route_Direct)))"
  using relay_run_client [OF assms] unfolding out_ok_def relay_new_def by fastforce

definition example_world :: world where
  "example_world = \<lparr>w_route = \<lambda>_ _. Route_Proxy, w_dns = \<lambda>_. None, w_lookup = \<lambda>_ _. None\<rparr>"

theorem relay_serves_one_client_witness:
  "\<exists>c out. normalize_ip (sa_ip c) = V4 (ipv4_of 10 0 0 5)
     \<and> relay_run [(example_world, Datagram [0, 0, 0, 1, 8, 8, 8, 8, 0, 53, 7] \<lparr>sa_ip = V4 (ipv4_of 10 0 0 5), sa_port = 40000\<rparr>)]
         (relay_new \<lparr>sa_ip = V4 (ipv4_of 10 0 0 5), sa_port = 1080\<rparr> (T_Domain []))
       = Some [(example_world, Datagram [0, 0, 0, 1, 8, 8, 8, 8, 0, 53, 7] c, [out])]"
proof -
  let ?c = "\<lparr>sa_ip = V4 (ipv4_of 10 0 0 5), sa_port = 40000\<rparr>"
  let ?p = "\<lparr>sa_ip = V4 (ipv4_of 10 0 0 5), sa_port = 1080\<rparr>"
  let ?buf = "[0, 0, 0, 1, 8, 8, 8, 8, 0, 53, 7] :: bytes"
  let ?out = "To_Tunnel \<lparr>sa_ip = V4 (ipv4_of 8 8 8 8), sa_port = be16 0 53\<rparr> [7]"
  have run: "relay_run [(example_world, Datagram ?buf ?c)] (relay_new ?p (T_Domain []))
      = Some [(example_world, Datagram ?buf ?c, [?out])]"
    by (simp add: relay_step_def relay_datagram_def relay_new_def expected_udp_source_def udp_source_allowed_def
        parse_udp_request_def take_target_def slice_def socks_consts relay_forward_def example_world_def)
  from relay_serves_one_client [OF run] obtain c where
    "normalize_ip (sa_ip c) = normalize_ip (expected_udp_source ?p (T_Domain []))" "Datagram ?buf ?c = Datagram ?buf c"
    by fastforce
  with run show ?thesis
    by (intro exI [of _ c] exI [of _ ?out]) (simp add: expected_udp_source_def)
qed

end
