(* ===== verification/Socks_Connect.thy ===== *)
theory Socks_Connect
  imports Http_Head Udp_Relay Dns
begin

text \<open>
  CONNECT (\<^verbatim>\<open>socks.rs\<close>): the gateway proxy and its health, the HTTP CONNECT to it, name
  resolution through the tunnel, and \<open>handle_connect\<close>, which decides by the routing rules
  whether a connection is refused, goes direct, goes through the gateway or straight through the
  tunnel. What the tunnel stack, the gateway and the system answer are arguments.
\<close>

section \<open>The gateway proxy\<close>

record gateway =
  gw_proxy :: "socket_addr option"
  gw_healthy :: bool

definition gateway_init :: gateway where
  "gateway_init = \<lparr>gw_proxy = None, gw_healthy = True\<rparr>"

definition set_gateway_proxy :: "string \<Rightarrow> gateway \<Rightarrow> gateway" where
  "set_gateway_proxy address g = (
     let trimmed = trim address in
     if trimmed = [] then g
     else case parse_socket_addr trimmed of
         Some parsed \<Rightarrow> g\<lparr>gw_proxy := Some parsed, gw_healthy := True\<rparr>
       | None \<Rightarrow> g)"

definition clear_gateway_proxy :: "gateway \<Rightarrow> gateway" where
  "clear_gateway_proxy g = g\<lparr>gw_proxy := None, gw_healthy := True\<rparr>"

definition gateway_proxy :: "gateway \<Rightarrow> socket_addr option" where
  "gateway_proxy g = (if \<not> gw_healthy g then None else gw_proxy g)"

definition retire_gateway :: "gateway \<Rightarrow> gateway" where
  "retire_gateway g = g\<lparr>gw_healthy := False\<rparr>"

definition should_use_gateway :: "u16 \<Rightarrow> bool" where
  "should_use_gateway port \<longleftrightarrow> port = 80 \<or> port = 443"

definition ua_register :: string where
  "ua_register = ''WARP for Android''"

definition crlf_text :: string where
  "crlf_text = [CHR 0x0D, CHR 0x0A]"

definition connect_authority :: "string \<Rightarrow> u16 \<Rightarrow> string" where
  "connect_authority target port =
     (if CHR '':'' \<in> set target \<and> \<not> starts_with target ''[''
      then ''['' @ target @ '']:'' @ show_nat (unat port)
      else target @ '':'' @ show_nat (unat port))"

definition build_proxy_connect :: "string \<Rightarrow> u16 \<Rightarrow> bytes" where
  "build_proxy_connect target port = (
     let authority = connect_authority target port
     in as_bytes (''CONNECT '' @ authority @ '' HTTP/1.1'' @ crlf_text @ ''Host: '' @ authority @ crlf_text
          @ ''User-Agent: '' @ ua_register @ crlf_text @ crlf_text))"

definition str_words :: "string \<Rightarrow> string list" where
  "str_words s = filter (\<lambda>w. w \<noteq> []) (split_by is_ws s)"

definition proxy_connect_succeeded :: "bytes \<Rightarrow> bool option" where
  "proxy_connect_succeeded head = (
     let text = of_bytes (utf8_lossy head) in do {
       line_end \<leftarrow> find_sub text crlf_text;
       word \<leftarrow> get (str_words (take line_end text)) 1;
       status \<leftarrow> parse_u16 word;
       Some (200 \<le> status \<and> status < 300)
     })"

definition gateway_head_limit :: nat where
  "gateway_head_limit = 8192"

text \<open>
  \<open>open_through_gateway\<close>: whether the tunnel reached the proxy and took the request, the chunks
  it answered with and, when they end, whether that was the timeout. The flag of the result
  tells whether the code closed the sender itself.
\<close>

record gateway_world =
  gv_opened :: "aether_error option"
  gv_sent :: "aether_error option"
  gv_chunks :: "bytes list"
  gv_timeout :: bool

definition open_through_gateway ::
  "gateway_world \<Rightarrow> socket_addr \<Rightarrow> string \<Rightarrow> u16 \<Rightarrow> (aether_error + bytes \<times> bytes list) \<times> bool" where
  "open_through_gateway gv proxy authority port = (
     let name = ''gateway '' @ show_socket_addr proxy in
     case gv_opened gv of
       Some e \<Rightarrow> (Inl e, False)
     | None \<Rightarrow>
       (case gv_sent gv of
          Some e \<Rightarrow> (Inl e, False)
        | None \<Rightarrow>
          (case collect_head (\<lambda>_. find_head_end) gateway_head_limit 0 [] (gv_chunks gv) of
             Head_Ended \<Rightarrow>
               (Inl (E_Other (name @ (if gv_timeout gv then '' did not answer in time'' else '' closed the connection''))), False)
           | Head_Too_Large \<Rightarrow> (Inl (E_Other (name @ '' sent an oversized response head'')), True)
           | Head_Found head leftover chunks \<Rightarrow>
               (case proxy_connect_succeeded (head @ leftover) of
                  None \<Rightarrow> (Inl (E_Other (name @ '' sent a malformed response'')), False)
                | Some accepted \<Rightarrow>
                    if \<not> accepted then
                      (let status = trim (case str_lines (of_bytes (utf8_lossy head)) of l # _ \<Rightarrow> l | [] \<Rightarrow> ''no status'')
                       in (Inl (E_Other (''gateway refused '' @ authority @ '':'' @ show_nat (unat port) @ '' ('' @ status @ '')'')), True))
                    else (Inr (leftover, chunks), False)))))"

section \<open>Names\<close>

definition default_resolvers :: "socket_addr list" where
  "default_resolvers = map (\<lambda>ip. \<lparr>sa_ip = V4 ip, sa_port = 53\<rparr>)
     [ipv4_of 1 1 1 1, ipv4_of 1 0 0 1, ipv4_of 8 8 8 8, ipv4_of 9 9 9 9]"

definition resolver_entry :: "string \<Rightarrow> socket_addr option" where
  "resolver_entry entry =
     (case parse_socket_addr entry of
        Some a \<Rightarrow> Some a
      | None \<Rightarrow> map_option (\<lambda>ip. \<lparr>sa_ip = ip, sa_port = 53\<rparr>) (parse_ip entry))"

fun add_resolvers :: "socket_addr list \<Rightarrow> string list \<Rightarrow> socket_addr list" where
  "add_resolvers servers [] = servers"
| "add_resolvers servers (token # tokens) = (
     let entry = trim token in
     if entry = [] then add_resolvers servers tokens
     else case resolver_entry entry of
         Some server \<Rightarrow> add_resolvers (if server \<in> set servers then servers else servers @ [server]) tokens
       | None \<Rightarrow> add_resolvers servers tokens)"

definition resolver_addresses :: "(string \<Rightarrow> string option) \<Rightarrow> socket_addr list" where
  "resolver_addresses env = (
     let configured = (case env ''AETHER_DNS'' of Some v \<Rightarrow> v | None \<Rightarrow> []);
       servers = add_resolvers [] (split_by (\<lambda>c. c = CHR '','' \<or> c = CHR '' '' \<or> c = CHR '';'') configured)
     in if servers = [] then default_resolvers else servers)"

text \<open>
  \<open>dns_exchange\<close>: per server, the transaction id drawn, whether the query could be sent, the
  datagrams received before the five seconds were over, and whether the channel closed instead.
\<close>

record dns_try =
  dt_id :: u16
  dt_send_error :: "aether_error option"
  dt_replies :: "bytes list"
  dt_closed :: bool

fun dns_await :: "u16 \<Rightarrow> string \<Rightarrow> bytes list \<Rightarrow> (aether_error + ip_addr) option panics" where
  "dns_await i name [] = Some None"
| "dns_await i name (resp # resps) = do {
     ok \<leftarrow> dns_response_matches resp i name 1;
     if \<not> ok then dns_await i name resps
     else do {
       a \<leftarrow> parse_dns_a resp;
       (case a of
          Some ip \<Rightarrow> Some (Some (Inr ip))
        | None \<Rightarrow> Some (Some (Inl (E_Other (''no A record for '' @ name)))))
     }
   }"

fun dns_servers :: "string \<Rightarrow> aether_error \<Rightarrow> (socket_addr \<times> dns_try) list \<Rightarrow> (aether_error + ip_addr) panics" where
  "dns_servers name last_err [] = Some (Inl last_err)"
| "dns_servers name last_err ((server, t) # ts) =
     (case dt_send_error t of
        Some e \<Rightarrow> dns_servers name e ts
      | None \<Rightarrow> do {
          r \<leftarrow> dns_await (dt_id t) name (dt_replies t);
          (case r of
             Some result \<Rightarrow> Some result
           | None \<Rightarrow>
               if dt_closed t then Some (Inl (E_Other ''dns channel closed''))
               else dns_servers name (E_Other (''dns timeout from '' @ show_socket_addr server)) ts)
        })"

definition dns_exchange :: "(string \<Rightarrow> string option) \<Rightarrow> string \<Rightarrow> dns_try list \<Rightarrow> (aether_error + ip_addr) panics" where
  "dns_exchange env name tries =
     dns_servers name (E_Other ''dns timeout'') (zip (resolver_addresses env) tries)"

definition resolve_target :: "(string \<Rightarrow> aether_error + ip_addr) \<Rightarrow> target \<Rightarrow> aether_error + ip_addr" where
  "resolve_target dns t =
     (case t of
        T_Ip ip \<Rightarrow> Inr ip
      | T_Domain name \<Rightarrow> (case parse_ip name of Some ip \<Rightarrow> Inr ip | None \<Rightarrow> dns name))"

section \<open>Opening the connection\<close>

record connect_world =
  cw_route :: "host \<Rightarrow> u16 \<Rightarrow> route_action"
  cw_gateway :: gateway_world
  cw_dns :: "string \<Rightarrow> aether_error + ip_addr"
  cw_open_tcp :: "socket_addr \<Rightarrow> aether_error option"
  cw_direct_ok :: "string \<Rightarrow> bool"

text \<open>How a request ends: refused with a reply code, or served over one of the three ways.\<close>

datatype connected =
    Refused u8 "aether_error option"
  | Served_Direct string
  | Served_Tunnel socket_addr
  | Served_Gateway socket_addr bytes "bytes list"

definition open_straight :: "connect_world \<Rightarrow> target \<Rightarrow> u16 \<Rightarrow> connected" where
  "open_straight w target port =
     (case resolve_target (cw_dns w) target of
        Inl e \<Rightarrow> Refused rep_general (Some e)
      | Inr ip \<Rightarrow>
          (case cw_open_tcp w \<lparr>sa_ip = ip, sa_port = port\<rparr> of
             Some e \<Rightarrow> Refused rep_general (Some e)
           | None \<Rightarrow> Served_Tunnel \<lparr>sa_ip = ip, sa_port = port\<rparr>))"

definition handle_direct :: "connect_world \<Rightarrow> target \<Rightarrow> u16 \<Rightarrow> connected" where
  "handle_direct w target port = (
     let address = (case target of
           T_Domain name \<Rightarrow> name @ '':'' @ show_nat (unat port)
         | T_Ip ip \<Rightarrow> show_socket_addr \<lparr>sa_ip = ip, sa_port = port\<rparr>)
     in if cw_direct_ok w address then Served_Direct address else Refused rep_general None)"

definition handle_connect :: "connect_world \<Rightarrow> target \<Rightarrow> u16 \<Rightarrow> gateway \<Rightarrow> gateway \<times> connected" where
  "handle_connect w target port g =
     (case cw_route w (host_of target) port of
        Route_Block \<Rightarrow> (g, Refused rep_not_allowed None)
      | Route_Direct \<Rightarrow> (g, handle_direct w target port)
      | Route_Proxy \<Rightarrow>
          (case (if should_use_gateway port then gateway_proxy g else None) of
             Some proxy \<Rightarrow>
               (case fst (open_through_gateway (cw_gateway w) proxy (show_target target) port) of
                  Inr (leftover, chunks) \<Rightarrow> (g, Served_Gateway proxy leftover chunks)
                | Inl _ \<Rightarrow> (retire_gateway g, open_straight w target port))
           | None \<Rightarrow> (g, open_straight w target port)))"

text \<open>
  The two pumps of an open connection: reads from the client until it ends, and what the client
  gets, the leftover of the gateway first. \<open>ok n\<close>: whether the \<open>n\<close>th write is taken.
\<close>

fun pump :: "(nat \<Rightarrow> bool) \<Rightarrow> nat \<Rightarrow> bytes list \<Rightarrow> bytes list" where
  "pump ok n [] = []"
| "pump ok n (c # cs) = (if ok n then c # pump ok (Suc n) cs else [])"

definition pump_down :: "(nat \<Rightarrow> bool) \<Rightarrow> bytes \<Rightarrow> bytes list \<Rightarrow> bytes list" where
  "pump_down ok leftover chunks =
     (if leftover \<noteq> [] then pump ok 0 (leftover # chunks) else pump ok 0 chunks)"

section \<open>The listener\<close>

datatype io_kind =
    K_ConnectionAborted | K_ConnectionReset | K_ConnectionRefused | K_Interrupted | K_WouldBlock
  | K_TimedOut | K_PermissionDenied | K_InvalidInput | K_AddrNotAvailable | K_Other

record io_error =
  ie_kind :: io_kind
  ie_os :: "nat option"

text \<open>The pause in milliseconds, \<open>None\<close> when the listener cannot go on; error numbers of Linux.\<close>

definition accept_backoff :: "io_error \<Rightarrow> nat option" where
  "accept_backoff e =
     (if ie_kind e \<in> {K_ConnectionAborted, K_ConnectionReset, K_ConnectionRefused, K_Interrupted, K_WouldBlock,
           K_TimedOut, K_PermissionDenied} then Some 0
      else case ie_os e of
          Some n \<Rightarrow> if n \<in> {24, 23, 105, 12} then Some 100 else None
        | None \<Rightarrow> None)"

text \<open>The accept loop over what \<open>accept\<close> returns: the clients handed to tasks, and the error that ended it.\<close>

fun serve_accepts :: "(io_error + 'c) list \<Rightarrow> 'c list \<times> io_error option" where
  "serve_accepts [] = ([], None)"
| "serve_accepts (Inr c # evs) = (case serve_accepts evs of (cs, e) \<Rightarrow> (c # cs, e))"
| "serve_accepts (Inl e # evs) = (if accept_backoff e \<noteq> None then serve_accepts evs else ([], Some e))"

lemma survivable_errors_lose_no_client:
  "\<forall>e \<in> {e. Inl e \<in> set evs}. accept_backoff e \<noteq> None \<Longrightarrow>
     serve_accepts evs = (List.map_filter (\<lambda>x. case x of Inr c \<Rightarrow> Some c | Inl _ \<Rightarrow> None) evs, None)"
  by (induction evs rule: serve_accepts.induct) (auto simp: map_filter_def)

section \<open>The rules are enforced\<close>

lemma open_straight_cases:
  "(\<exists>e. open_straight w target port = Refused rep_general (Some e))
    \<or> (\<exists>ip. resolve_target (cw_dns w) target = Inr ip \<and> open_straight w target port = Served_Tunnel \<lparr>sa_ip = ip, sa_port = port\<rparr>)"
  by (auto simp: open_straight_def split: sum.split option.split)

text \<open>C2: The routing decision is final, whatever the gateway, the resolver and the network answer: a
  blocked request is refused as ``not allowed'' and opens nothing; a direct one is dialled outside
  the tunnel or refused; a proxied one never leaves the tunnel, also when the gateway fails, and
  reaches the gateway only on a web port while the gateway is healthy.\<close>

theorem routing_is_enforced:
  "case cw_route w (host_of target) port of
     Route_Block \<Rightarrow> handle_connect w target port g = (g, Refused rep_not_allowed None)
   | Route_Direct \<Rightarrow> fst (handle_connect w target port g) = g \<and>
       (snd (handle_connect w target port g) = Refused rep_general None \<or>
        (\<exists>a. snd (handle_connect w target port g) = Served_Direct a \<and> cw_direct_ok w a))
   | Route_Proxy \<Rightarrow>
       (case snd (handle_connect w target port g) of
          Refused code e \<Rightarrow> code = rep_general \<and> e \<noteq> None
        | Served_Direct _ \<Rightarrow> False
        | Served_Tunnel dst \<Rightarrow> sa_port dst = port \<and> resolve_target (cw_dns w) target = Inr (sa_ip dst)
        | Served_Gateway proxy _ _ \<Rightarrow> gw_proxy g = Some proxy \<and> gw_healthy g \<and> (port = 80 \<or> port = 443))"
proof -
  have s: "case open_straight w target port of
      Refused code e \<Rightarrow> code = rep_general \<and> e \<noteq> None
    | Served_Tunnel dst \<Rightarrow> sa_port dst = port \<and> resolve_target (cw_dns w) target = Inr (sa_ip dst)
    | _ \<Rightarrow> False"
    by (auto simp: open_straight_def split: sum.split option.split)
  show ?thesis
  proof (cases "cw_route w (host_of target) port")
    case Route_Proxy
    show ?thesis
    proof (cases "if should_use_gateway port then gateway_proxy g else None")
      case None
      with s Route_Proxy show ?thesis by (auto simp: handle_connect_def split: connected.splits)
    next
      case (Some proxy)
      then have g: "gw_proxy g = Some proxy" "gw_healthy g" "port = 80 \<or> port = 443"
        by (auto simp: gateway_proxy_def should_use_gateway_def split: if_splits)
      show ?thesis
      proof (cases "fst (open_through_gateway (cw_gateway w) proxy (show_target target) port)")
        case (Inl e)
        with s Route_Proxy Some show ?thesis by (auto simp: handle_connect_def split: connected.splits)
      next
        case (Inr r)
        with g Route_Proxy Some show ?thesis by (cases r) (simp add: handle_connect_def)
      qed
    qed
  qed (simp_all add: handle_connect_def handle_direct_def Let_def)
qed

lemma gateway_only_when_healthy:
  "snd (handle_connect w target port g) = Served_Gateway p l c \<Longrightarrow> gw_healthy g"
  by (auto simp: handle_connect_def handle_direct_def open_straight_def gateway_proxy_def Let_def
      split: route_action.splits option.splits sum.splits if_splits)

text \<open>
  An address that the client sends as a domain name escapes the address rules, although it is
  then dialled as that address: the code asks the rules about the text, and no network rule
  matches a name.
\<close>

lemma literal_name_evades_network_rules:
  assumes "cw_route w = decide libs \<lparr>rs_block = [Net net], rs_direct = []\<rparr>"
    and "parse_ip name = Some ip" and "cw_open_tcp w = (\<lambda>_. None)" and "\<not> should_use_gateway port"
  shows "snd (handle_connect w (T_Domain name) port g) = Served_Tunnel \<lparr>sa_ip = ip, sa_port = port\<rparr>"
    and "ipnet_contains libs net ip \<Longrightarrow> snd (handle_connect w (T_Ip ip) port g) = Refused rep_not_allowed None"
  using assms by (simp_all add: handle_connect_def host_of_def decide_def matches_def open_straight_def resolve_target_def)

section \<open>The gateway\<close>

text \<open>Successive connections, each in a world of its own.\<close>

fun serve_connects :: "(connect_world \<times> target \<times> u16) list \<Rightarrow> gateway \<Rightarrow> gateway \<times> connected list" where
  "serve_connects [] g = (g, [])"
| "serve_connects ((w, target, port) # cs) g =
     (case handle_connect w target port g of
        (g, r) \<Rightarrow> (case serve_connects cs g of (g, rs) \<Rightarrow> (g, r # rs)))"

lemma handle_connect_gateway:
  "fst (handle_connect w target port g) = g
   \<or> (fst (handle_connect w target port g) = retire_gateway g \<and> (\<forall>p l c. snd (handle_connect w target port g) \<noteq> Served_Gateway p l c))"
  using open_straight_cases [of w target port]
  by (auto simp: handle_connect_def split: route_action.split option.split sum.split)

lemma retired_serves_no_gateway:
  "\<not> gw_healthy g \<Longrightarrow> \<not> gw_healthy (fst (serve_connects cs g))
    \<and> (\<forall>p l c. Served_Gateway p l c \<notin> set (snd (serve_connects cs g)))"
proof (induction cs arbitrary: g)
  case (Cons x cs)
  obtain w target port where x: "x = (w, target, port)" by (metis prod_cases3)
  obtain g' r where h: "handle_connect w target port g = (g', r)" by fastforce
  have "\<not> gw_healthy g'"
    using handle_connect_gateway [of w target port g] h Cons.prems by (auto simp: retire_gateway_def)
  moreover have "\<forall>p l c. r \<noteq> Served_Gateway p l c"
    using gateway_only_when_healthy [of w target port g] h Cons.prems by auto
  ultimately show ?case using Cons.IH [of g'] h by (auto simp: x split: prod.split)
qed simp

text \<open>C16: Once the gateway has failed it is left alone: from the connection that finds it unreachable
  on, no connection is sent to it, whatever their targets, until \<open>set_gateway_proxy\<close> names a
  gateway again.\<close>

theorem failed_gateway_is_retired:
  assumes "cw_route w (host_of target) port = Route_Proxy" and "should_use_gateway port"
    and "gateway_proxy g = Some proxy" and "fst (open_through_gateway (cw_gateway w) proxy (show_target target) port) = Inl e"
  shows "\<not> gw_healthy (fst (serve_connects ((w, target, port) # cs) g))
    \<and> (\<forall>p l c. Served_Gateway p l c \<notin> set (snd (serve_connects ((w, target, port) # cs) g)))"
proof -
  have h: "handle_connect w target port g = (retire_gateway g, open_straight w target port)"
    using assms by (simp add: handle_connect_def)
  have "\<forall>p l c. open_straight w target port \<noteq> Served_Gateway p l c"
    using open_straight_cases [of w target port] by auto
  with h retired_serves_no_gateway [of "retire_gateway g" cs] show ?thesis
    by (auto simp: retire_gateway_def split: prod.split) metis
qed

definition dead_world :: connect_world where
  "dead_world = \<lparr>cw_route = \<lambda>_ _. Route_Proxy,
     cw_gateway = \<lparr>gv_opened = Some (E_Other ''down''), gv_sent = None, gv_chunks = [], gv_timeout = True\<rparr>,
     cw_dns = \<lambda>_. Inr (V4 0), cw_open_tcp = \<lambda>_. None, cw_direct_ok = \<lambda>_. False\<rparr>"

theorem failed_gateway_is_retired_witness:
  "\<not> gw_healthy (fst (serve_connects [(dead_world, T_Domain ''a.ir'', 443), (dead_world, T_Domain ''b.ir'', 80)]
      \<lparr>gw_proxy = Some \<lparr>sa_ip = V4 1, sa_port = 3128\<rparr>, gw_healthy = True\<rparr>))"
proof -
  let ?g = "\<lparr>gw_proxy = Some \<lparr>sa_ip = V4 1, sa_port = 3128\<rparr>, gw_healthy = True\<rparr>"
  have "cw_route dead_world (host_of (T_Domain ''a.ir'')) 443 = Route_Proxy" "should_use_gateway 443"
    "gateway_proxy ?g = Some \<lparr>sa_ip = V4 1, sa_port = 3128\<rparr>"
    "fst (open_through_gateway (cw_gateway dead_world) \<lparr>sa_ip = V4 1, sa_port = 3128\<rparr> (show_target (T_Domain ''a.ir'')) 443)
      = Inl (E_Other ''down'')"
    by (simp_all add: dead_world_def should_use_gateway_def gateway_proxy_def open_through_gateway_def)
  from failed_gateway_is_retired [OF this] show ?thesis by blast
qed

text \<open>What a client reads through the gateway is exactly what the gateway sends behind its
  response head, however the bytes are cut into chunks: the head ends at the first blank line, its
  status line says 2xx, and leftover and later chunks follow in order.\<close>

theorem gateway_stream_starts_behind_the_head:
  assumes "fst (open_through_gateway gv proxy authority port) = Inr (leftover, chunks)"
  shows "\<exists>head. find_head_end (concat (gv_chunks gv)) = Some (length head)
     \<and> concat (gv_chunks gv) = head @ concat (pump_down (\<lambda>_. True) leftover chunks)
     \<and> proxy_connect_succeeded (head @ leftover) = Some True"
proof -
  from assms obtain head where f: "collect_head (\<lambda>_. find_head_end) gateway_head_limit 0 [] (gv_chunks gv) = Head_Found head leftover chunks"
    and ok: "proxy_connect_succeeded (head @ leftover) = Some True"
    by (auto simp: open_through_gateway_def Let_def split: option.splits head_result.splits if_splits)
  have all: "pump (\<lambda>_. True) n cs = cs" for n cs by (induction cs arbitrary: n) simp_all
  show ?thesis
    using plain.collect_found [OF f] ok
    by (intro exI [of _ head]) (cases "leftover = []", simp_all add: pump_down_def all)
qed

definition chatty_gateway :: gateway_world where
  "chatty_gateway = \<lparr>gv_opened = None, gv_sent = None,
     gv_chunks = [as_bytes ''HTTP/1.1 200 OK'', crlf @ [0x0D], [0x0A, 7], [8, 9]], gv_timeout = False\<rparr>"

theorem gateway_stream_starts_behind_the_head_witness:
  "\<exists>head. find_head_end (concat (gv_chunks chatty_gateway)) = Some (length head)
     \<and> concat (gv_chunks chatty_gateway) = head @ concat (pump_down (\<lambda>_. True) [7] [[8, 9]])
     \<and> proxy_connect_succeeded (head @ [7]) = Some True"
proof -
  have "collect_head (\<lambda>_. find_head_end) gateway_head_limit 0 [] (gv_chunks chatty_gateway)
      = Head_Found (as_bytes ''HTTP/1.1 200 OK'' @ crlf2) [7] [[8, 9]]"
    by code_simp
  moreover have "proxy_connect_succeeded ((as_bytes ''HTTP/1.1 200 OK'' @ crlf2) @ [7]) = Some True"
  proof -
    let ?t = "''HTTP/1.1 200 OK'' @ crlf_text @ crlf_text @ [CHR 0x07]"
    have b: "(as_bytes ''HTTP/1.1 200 OK'' @ crlf2) @ [7] = as_bytes ?t"
      by (simp add: as_bytes_def byte_of_def crlf2_def crlf_text_def)
    have u: "utf8_lossy (as_bytes ?t) = as_bytes ?t"
      by (rule utf8_lossy_ascii) (simp add: as_bytes_def byte_of_def crlf_text_def)
    have f: "find_sub ?t crlf_text = Some 15" by (simp add: crlf_text_def)
    have w: "str_words (take 15 ?t) = [''HTTP/1.1'', ''200'', ''OK'']"
      by (simp add: str_words_def is_ws_def)
    have n: "parse_u16 ''200'' = Some 200" by (simp add: parse_u16_def parse_uint_def digit_val_def)
    show ?thesis unfolding b proxy_connect_succeeded_def u of_bytes_as_bytes Let_def f
      using w n by simp
  qed
  ultimately have "fst (open_through_gateway chatty_gateway \<lparr>sa_ip = V4 1, sa_port = 3128\<rparr> ''a.ir'' 443) = Inr ([7], [[8, 9]])"
    by (simp add: open_through_gateway_def Let_def) (simp add: chatty_gateway_def)
  from gateway_stream_starts_behind_the_head [OF this] show ?thesis .
qed

section \<open>Names\<close>

lemma runs_dns_await [no_panic]: "runs (dns_await i name resps)"
proof (induction resps)
  case (Cons resp resps)
  show ?case by (simp only: dns_await.simps) (intro no_panic Cons)
qed simp

lemma dns_await_sound:
  "dns_await i name resps = Some (Some (Inr ip)) \<Longrightarrow>
     \<exists>resp \<in> set resps. dns_response_matches resp i name 1 = Some True \<and> parse_dns_a resp = Some (Some ip)"
  by (induction resps) (auto simp: bind_eq_Some_conv split: if_splits option.splits)

lemma runs_dns_servers [no_panic]: "runs (dns_servers name e ts)"
proof (induction ts arbitrary: e)
  case (Cons x ts)
  obtain server t where x: "x = (server, t)" by fastforce
  show ?case unfolding x dns_servers.simps by (intro no_panic Cons)
qed simp

lemma dns_servers_sound:
  "dns_servers name e ts = Some (Inr ip) \<Longrightarrow>
     \<exists>server t resp. (server, t) \<in> set ts \<and> resp \<in> set (dt_replies t)
       \<and> dns_response_matches resp (dt_id t) name 1 = Some True \<and> parse_dns_a resp = Some (Some ip)"
proof (induction ts arbitrary: e)
  case (Cons x ts)
  obtain server t where x: "x = (server, t)" by fastforce
  from Cons.prems consider "dns_await (dt_id t) name (dt_replies t) = Some (Some (Inr ip))"
    | e' where "dns_servers name e' ts = Some (Inr ip)"
    by (auto simp: x bind_eq_Some_conv split: option.splits if_splits)
  then show ?case
  proof cases
    case 1
    then show ?thesis using dns_await_sound x by fastforce
  next
    case 2
    then show ?thesis using Cons.IH by fastforce
  qed
qed simp

lemma add_resolvers_distinct: "distinct servers \<Longrightarrow> distinct (add_resolvers servers tokens)"
  by (induction servers tokens rule: add_resolvers.induct) (auto simp: Let_def split: option.split)

text \<open>C17: Names are resolved safely: there is always a resolver to ask and none is asked twice; no
  reply makes the exchange panic; and an address it returns is the A record of a reply that one of
  these resolvers' exchanges received and that carries the id and the question sent in it.\<close>

theorem dns_exchange_is_safe:
  "resolver_addresses env \<noteq> [] \<and> distinct (resolver_addresses env)
   \<and> (\<exists>r. dns_exchange env name tries = Some r
        \<and> (case r of
             Inl _ \<Rightarrow> True
           | Inr ip \<Rightarrow> \<exists>server t resp. server \<in> set (resolver_addresses env) \<and> t \<in> set tries \<and> resp \<in> set (dt_replies t)
               \<and> dns_response_matches resp (dt_id t) name 1 = Some True \<and> parse_dns_a resp = Some (Some ip)))"
proof -
  have d: "distinct default_resolvers"
    by (simp add: default_resolvers_def word_unat_eq_iff unat_ipv4_of)
  have "resolver_addresses env \<noteq> []" "distinct (resolver_addresses env)"
    using add_resolvers_distinct [of "[]"] d
    by (auto simp: resolver_addresses_def Let_def) (simp add: default_resolvers_def)
  moreover obtain r where r: "dns_exchange env name tries = Some r"
    using runs_dns_servers unfolding dns_exchange_def runs_iff by blast
  moreover have "case r of
       Inl _ \<Rightarrow> True
     | Inr ip \<Rightarrow> \<exists>server t resp. server \<in> set (resolver_addresses env) \<and> t \<in> set tries \<and> resp \<in> set (dt_replies t)
         \<and> dns_response_matches resp (dt_id t) name 1 = Some True \<and> parse_dns_a resp = Some (Some ip)"
  proof (cases r)
    case (Inr ip)
    with r dns_servers_sound [of name _ "zip (resolver_addresses env) tries" ip]
    show ?thesis unfolding dns_exchange_def by (fastforce dest: set_zip_leftD set_zip_rightD)
  qed simp
  ultimately show ?thesis by blast
qed

end
