(* ===== verification/Http_Proxy.thy ===== *)
theory Http_Proxy
  imports Socks_Connect
begin

text \<open>
  The HTTP proxy of \<^verbatim>\<open>socks.rs\<close>: the request line, the head read chunk by chunk, and the handler,
  which answers, dials outside the tunnel or opens a tunnelled connection and forwards the
  request with its first line rewritten.
\<close>

section \<open>The request line\<close>

record http_request_line =
  hr_method :: string
  hr_authority :: string
  hr_port :: u16
  hr_rewritten :: "string option"

fun strip_prefix :: "string \<Rightarrow> string \<Rightarrow> string option" where
  "strip_prefix [] s = Some s"
| "strip_prefix (p # ps) [] = None"
| "strip_prefix (p # ps) (c # cs) = (if p = c then strip_prefix ps cs else None)"

definition rsplit_once :: "char \<Rightarrow> string \<Rightarrow> (string \<times> string) option" where
  "rsplit_once c s = map_option (\<lambda>(a, b). (rev b, rev a)) (split_once c (rev s))"

definition parse_authority :: "string \<Rightarrow> u16 \<Rightarrow> (string \<times> u16) option" where
  "parse_authority raw default_port = (
     let raw = trim raw in
     if raw = [] then None
     else case strip_prefix ''['' raw of
         Some inner \<Rightarrow> do {
           (host, tail) \<leftarrow> split_once (CHR '']'') inner;
           if host = [] then None
           else case strip_prefix '':'' tail of
               Some value \<Rightarrow> map_option (\<lambda>port. (host, port)) (parse_u16 value)
             | None \<Rightarrow> Some (host, default_port)
         }
       | None \<Rightarrow>
           (case rsplit_once (CHR '':'') raw of
              Some (host, port) \<Rightarrow>
                if CHR '':'' \<notin> set host then
                  (if host = [] then None else map_option (\<lambda>port. (host, port)) (parse_u16 port))
                else Some (raw, default_port)
            | None \<Rightarrow> Some (raw, default_port)))"

definition parse_request_line :: "string \<Rightarrow> http_request_line option" where
  "parse_request_line line = (
     let parts = str_words line in do {
       method \<leftarrow> get parts 0;
       target \<leftarrow> get parts 1;
       let version = (case get parts 2 of Some v \<Rightarrow> v | None \<Rightarrow> ''HTTP/1.1'');
       if str_eq_ignore_case method ''CONNECT'' then do {
         (authority, port) \<leftarrow> parse_authority target 443;
         Some \<lparr>hr_method = method, hr_authority = authority, hr_port = port, hr_rewritten = None\<rparr>
       }
       else do {
         without_scheme \<leftarrow> (case strip_prefix ''http://'' target of
             Some r \<Rightarrow> Some r
           | None \<Rightarrow> strip_prefix ''HTTP://'' target);
         let (authority_part, path) =
           (case find_sub without_scheme ''/'' of
              Some i \<Rightarrow> (take i without_scheme, drop i without_scheme)
            | None \<Rightarrow> (without_scheme, ''/''));
         (authority, port) \<leftarrow> parse_authority authority_part 80;
         Some \<lparr>hr_method = method, hr_authority = authority, hr_port = port,
           hr_rewritten = Some (method @ '' '' @ path @ '' '' @ version @ crlf_text)\<rparr>
       }
     })"

section \<open>The head\<close>

definition http_head_limit :: nat where
  "http_head_limit = 16 * 1024"

text \<open>The chunks the client sends (none is empty), and the error that ends them if it is not the end.\<close>

definition read_head :: "bytes list \<Rightarrow> aether_error option \<Rightarrow> aether_error + bytes \<times> bytes \<times> bytes list" where
  "read_head chunks failure =
     (case collect_head scan_new http_head_limit 0 [] chunks of
        Head_Found head pipelined left \<Rightarrow> Inr (head, pipelined, left)
      | Head_Too_Large \<Rightarrow> Inl (E_Other ''http request head too large'')
      | Head_Ended \<Rightarrow>
          (case failure of
             Some e \<Rightarrow> Inl e
           | None \<Rightarrow> Inl (E_Other ''the http client closed before sending a request'')))"

section \<open>The handler\<close>

definition http_reply :: "string \<Rightarrow> bytes" where
  "http_reply status = as_bytes (''HTTP/1.1 '' @ status @ crlf_text @ ''Connection: close'' @ crlf_text @ crlf_text)"

definition established_reply :: bytes where
  "established_reply = as_bytes (''HTTP/1.1 200 Connection established'' @ crlf_text @ crlf_text)"

text \<open>
  How a client is served: answered and closed, or connected, with what each side is sent before
  the two directions are copied through.
\<close>

datatype http_served =
    Http_Failed aether_error
  | Http_Answered bytes "aether_error option"
  | Http_Connected connected bytes bytes

text \<open>The head with its first line replaced.\<close>

definition http_preamble :: "http_request_line \<Rightarrow> bytes \<Rightarrow> bytes option" where
  "http_preamble request head =
     (case hr_rewritten request of
        None \<Rightarrow> None
      | Some line \<Rightarrow>
          let text = of_bytes (utf8_lossy head);
            tail = (case find_sub text crlf_text of Some i \<Rightarrow> drop (i + 2) text | None \<Rightarrow> [])
          in Some (as_bytes (line @ tail)))"

definition relay_http_direct :: "connect_world \<Rightarrow> http_request_line \<Rightarrow> bytes \<Rightarrow> bytes \<Rightarrow> http_served" where
  "relay_http_direct w request head pipelined = (
     let address = hr_authority request @ '':'' @ show_nat (unat (hr_port request)) in
     if \<not> cw_direct_ok w address then Http_Answered (http_reply ''502 Bad Gateway'') (Some (E_Io ''connect''))
     else case http_preamble request head of
         Some bs \<Rightarrow> Http_Connected (Served_Direct address) [] (bs @ pipelined)
       | None \<Rightarrow> Http_Connected (Served_Direct address) established_reply pipelined)"

definition open_tunneled :: "connect_world \<Rightarrow> target \<Rightarrow> u16 \<Rightarrow> gateway \<Rightarrow> gateway \<times> connected" where
  "open_tunneled w target port g =
     (case (if should_use_gateway port then gateway_proxy g else None) of
        Some proxy \<Rightarrow>
          (case fst (open_through_gateway (cw_gateway w) proxy (show_target target) port) of
             Inr (leftover, chunks) \<Rightarrow> (g, Served_Gateway proxy leftover chunks)
           | Inl _ \<Rightarrow> (retire_gateway g, open_straight w target port))
      | None \<Rightarrow> (g, open_straight w target port))"

definition handle_http_client ::
  "connect_world \<Rightarrow> bytes list \<Rightarrow> aether_error option \<Rightarrow> gateway \<Rightarrow> gateway \<times> http_served" where
  "handle_http_client w chunks failure g =
     (case read_head chunks failure of
        Inl e \<Rightarrow> (g, Http_Failed e)
      | Inr (head, pipelined, _) \<Rightarrow>
          let text = of_bytes (utf8_lossy head);
            first_line = (case str_lines text of l # _ \<Rightarrow> l | [] \<Rightarrow> [])
          in case parse_request_line first_line of
              None \<Rightarrow> (g, Http_Answered (http_reply ''400 Bad Request'')
                  (Some (E_Other (''unsupported http proxy request: '' @ first_line))))
            | Some request \<Rightarrow>
                let target = (case parse_ip (hr_authority request) of
                      Some ip \<Rightarrow> T_Ip ip | None \<Rightarrow> T_Domain (hr_authority request))
                in case cw_route w (host_of target) (hr_port request) of
                    Route_Block \<Rightarrow> (g, Http_Answered (http_reply ''403 Forbidden'') None)
                  | Route_Direct \<Rightarrow> (g, relay_http_direct w request head pipelined)
                  | Route_Proxy \<Rightarrow>
                      (case open_tunneled w target (hr_port request) g of
                         (g, Refused _ e) \<Rightarrow> (g, Http_Answered (http_reply ''502 Bad Gateway'') e)
                       | (g, conn) \<Rightarrow>
                           let leftover = (case conn of Served_Gateway _ l _ \<Rightarrow> l | _ \<Rightarrow> [])
                           in case http_preamble request head of
                               Some bs \<Rightarrow> (g, Http_Connected conn leftover (bs @ pipelined))
                             | None \<Rightarrow> (g, Http_Connected conn (established_reply @ leftover) pipelined)))"

section \<open>The head does not depend on the chunks\<close>

text \<open>C9: Reading the head in chunks with a search window is the same as searching the whole buffer
  after every chunk, for every stream and every way to cut it: the result is the same, and a head
  that is found is the stream up to its first blank line, with the bytes read beyond it handed
  back unchanged.\<close>

theorem read_head_equals_full_search:
  "read_head chunks failure =
     (case collect_head (\<lambda>_. find_head_end) http_head_limit 0 [] chunks of
        Head_Found head pipelined left \<Rightarrow> Inr (head, pipelined, left)
      | Head_Too_Large \<Rightarrow> Inl (E_Other ''http request head too large'')
      | Head_Ended \<Rightarrow> (case failure of
          Some e \<Rightarrow> Inl e | None \<Rightarrow> Inl (E_Other ''the http client closed before sending a request'')))
   \<and> (case read_head chunks failure of
        Inr (head, pipelined, left) \<Rightarrow>
          find_head_end (concat chunks) = Some (length head) \<and> concat chunks = head @ pipelined @ concat left
      | Inl _ \<Rightarrow> True)"
proof -
  have none: "find_head_end [] = None" by (simp add: find_head_end_def crlf2_def)
  have e: "collect_head scan_new http_head_limit 0 [] chunks = collect_head (\<lambda>_. find_head_end) http_head_limit 0 [] chunks"
    using windowed.collect_reference [OF none, of http_head_limit chunks 0] by simp
  show ?thesis
  proof (cases "collect_head scan_new http_head_limit 0 [] chunks")
    case (Head_Found head pipelined left)
    from windowed.collect_found [OF Head_Found] Head_Found e show ?thesis
      by (simp add: read_head_def)
  qed (use e in \<open>simp_all add: read_head_def split: option.split\<close>)
qed

section \<open>The program's own CONNECT request\<close>

text \<open>A host a request can name: not empty, no blanks and no brackets.\<close>

definition plain_host :: "string \<Rightarrow> bool" where
  "plain_host t \<longleftrightarrow> t \<noteq> [] \<and> (\<forall>c \<in> set t. \<not> is_ws c \<and> c \<noteq> CHR ''['' \<and> c \<noteq> CHR '']'')"

lemma port_text:
  assumes "c \<in> set (show_nat n)"
  shows "\<not> is_ws c" "c \<noteq> CHR '':''" "c \<noteq> CHR '']''"
proof -
  have "digit_val (CHR '':'') = None" "digit_val (CHR '']'') = None" by (simp_all add: digit_val_def)
  with show_nat_no_ws [OF assms] show "\<not> is_ws c" "c \<noteq> CHR '':''" "c \<noteq> CHR '']''" by auto
qed

lemma parse_port_text: "parse_u16 (show_nat (unat (p :: u16))) = Some p"
proof -
  have "unat p \<le> 65535" using unat_u16_less [of p] by linarith
  from parse_uint_show [OF this] show ?thesis by (simp add: parse_u16_def unat_cast_back)
qed

lemma rsplit_once_append: "c \<notin> set b \<Longrightarrow> rsplit_once c (a @ c # b) = Some (a, b)"
  by (simp add: rsplit_once_def split_once_append)

lemma no_ws_trim: "\<forall>c \<in> set s. \<not> is_ws c \<Longrightarrow> trim s = s"
  by (cases "s = []") (auto intro: trim_id)

lemma connect_authority_parses:
  assumes "plain_host t"
  shows "parse_authority (connect_authority t port) 443 = Some (t, port)" "\<forall>c \<in> set (connect_authority t port). \<not> is_ws c"
proof -
  note h = assms [unfolded plain_host_def]
  let ?p = "show_nat (unat port)"
  have b: "\<not> starts_with t ''[''" using h by (cases t) auto
  have ws: "\<not> is_ws (CHR '':'')" "\<not> is_ws (CHR ''['')" "\<not> is_ws (CHR '']'')" by (simp_all add: is_ws_def)
  show w: "\<forall>c \<in> set (connect_authority t port). \<not> is_ws c"
    using h port_text(1) ws by (auto simp: connect_authority_def)
  from no_ws_trim [OF w] have tr: "trim (connect_authority t port) = connect_authority t port" .
  have "CHR '']'' \<notin> set t" using h by blast
  have nocol: "CHR '':'' \<notin> set ?p" using port_text(2) by blast
  show "parse_authority (connect_authority t port) 443 = Some (t, port)"
  proof (cases "CHR '':'' \<in> set t")
    case True
    then have a: "connect_authority t port = CHR ''['' # t @ CHR '']'' # CHR '':'' # ?p"
      using b by (simp add: connect_authority_def)
    show ?thesis using \<open>CHR '']'' \<notin> set t\<close> h unfolding parse_authority_def tr Let_def unfolding a
      by (simp add: split_once_append parse_port_text)
  next
    case False
    then have a: "connect_authority t port = t @ CHR '':'' # ?p" by (simp add: connect_authority_def)
    obtain c cs where t: "t = c # cs" "c \<noteq> CHR ''[''" using h by (cases t) auto
    have s: "strip_prefix ''['' (t @ CHR '':'' # ?p) = None" using t by simp
    show ?thesis using False h unfolding parse_authority_def tr Let_def unfolding a s rsplit_once_append [OF nocol]
      by (simp add: parse_port_text)
  qed
qed

lemma first_line:
  assumes "\<forall>c \<in> set l. c \<noteq> CHR ''\<newline>''"
  shows "(case str_lines (l @ crlf_text @ s) of x # _ \<Rightarrow> x | [] \<Rightarrow> []) = l"
proof -
  let ?nl = "\<lambda>c. c = CHR ''\<newline>''"
  have "\<forall>c \<in> set (l @ [CHR 0x0D]). \<not> ?nl c" using assms by auto
  from split_by_append [OF this, of "CHR ''\<newline>''" s]
  have "split_by ?nl (l @ crlf_text @ s) = (l @ [CHR 0x0D]) # split_by ?nl s" by (simp add: crlf_text_def)
  then show ?thesis by (simp add: str_lines_def Let_def strip_cr_def)
qed

lemma words_of_line:
  assumes "\<forall>c \<in> set a. \<not> is_ws c" "\<forall>c \<in> set b. \<not> is_ws c" "\<forall>c \<in> set v. \<not> is_ws c" "a \<noteq> []" "b \<noteq> []" "v \<noteq> []"
  shows "str_words (a @ '' '' @ b @ '' '' @ v) = [a, b, v]"
proof -
  have "is_ws (CHR '' '')" by (simp add: is_ws_def)
  then show ?thesis using assms by (simp add: str_words_def split_by_append split_by_no_sep)
qed

text \<open>The CONNECT request that the program writes to the gateway proxy for a host and a port is one
  its own HTTP proxy reads back as that host and that port, also when the host is an IPv6 address
  and gets its brackets.\<close>

theorem own_connect_request_is_understood:
  assumes "plain_host t"
  shows "parse_request_line (case str_lines (of_bytes (build_proxy_connect t port)) of l # _ \<Rightarrow> l | [] \<Rightarrow> [])
    = Some \<lparr>hr_method = ''CONNECT'', hr_authority = t, hr_port = port, hr_rewritten = None\<rparr>"
proof -
  note p = connect_authority_parses [OF assms, of port]
  let ?a = "connect_authority t port"
  let ?l = "''CONNECT'' @ '' '' @ ?a @ '' '' @ ''HTTP/1.1''"
  have nl: "is_ws (CHR ''\<newline>'')" by (simp add: is_ws_def)
  have s: "of_bytes (build_proxy_connect t port)
      = ?l @ crlf_text @ ''Host: '' @ ?a @ crlf_text @ ''User-Agent: '' @ ua_register @ crlf_text @ crlf_text"
    unfolding build_proxy_connect_def Let_def of_bytes_as_bytes by simp
  have "\<forall>c \<in> set ?l. c \<noteq> CHR ''\<newline>''" using p(2) nl by auto
  then have "(case str_lines (of_bytes (build_proxy_connect t port)) of l # _ \<Rightarrow> l | [] \<Rightarrow> []) = ?l"
    unfolding s by (rule first_line)
  moreover have "?a \<noteq> []" by (simp add: connect_authority_def)
  then have "str_words ?l = [''CONNECT'', ?a, ''HTTP/1.1'']"
    using p(2) by (intro words_of_line) (simp_all add: is_ws_def)
  ultimately show ?thesis
    by (simp add: parse_request_line_def Let_def p(1) str_eq_ignore_case_def)
qed

theorem own_connect_request_is_understood_witness:
  "parse_request_line (case str_lines (of_bytes (build_proxy_connect ''2606:4700::1'' 443)) of l # _ \<Rightarrow> l | [] \<Rightarrow> [])
    = Some \<lparr>hr_method = ''CONNECT'', hr_authority = ''2606:4700::1'', hr_port = 443, hr_rewritten = None\<rparr>"
  by (rule own_connect_request_is_understood) (simp add: plain_host_def is_ws_def)

end
