(* ===== verification/Fragment.thy ===== *)
theory Fragment
  imports Prelude
begin

text \<open>
  \<^verbatim>\<open>fragment.rs\<close>: the stream wrapper that cuts the first writes of a TLS connection into small
  pieces with pauses. The random draws of a write are arguments; \<open>random_range(lo..=hi)\<close> is any
  value of the range, chosen by a number \<open>r\<close>. The pause in progress is a flag: whether the
  timer has fired is part of the event.
\<close>

section \<open>Configuration\<close>

record fragment_config =
  fc_enabled :: bool
  fc_size_min :: nat
  fc_size_max :: nat
  fc_delay_min_ms :: nat
  fc_delay_max_ms :: nat

definition fragment_disabled :: fragment_config where
  "fragment_disabled = \<lparr>fc_enabled = False, fc_size_min = 1, fc_size_max = 1, fc_delay_min_ms = 0, fc_delay_max_ms = 0\<rparr>"

definition is_truthy :: "string \<Rightarrow> bool" where
  "is_truthy v \<longleftrightarrow> to_lowercase (trim v) \<in> {''1'', ''true'', ''yes'', ''on''}"

definition parse_u64 :: "string \<Rightarrow> nat option" where
  "parse_u64 = parse_uint (2 ^ 64 - 1)"

definition parse_range :: "string \<Rightarrow> nat \<times> nat \<Rightarrow> nat \<times> nat" where
  "parse_range spec dflt = (
     let spec = trim spec in
     if spec = [] then dflt
     else case split_once (CHR ''-'') spec of
         Some (a, b) \<Rightarrow>
           let lo = (case parse_u64 (trim a) of Some n \<Rightarrow> n | None \<Rightarrow> fst dflt);
             hi = (case parse_u64 (trim b) of Some n \<Rightarrow> n | None \<Rightarrow> snd dflt)
           in if hi < lo then (hi, lo) else (lo, hi)
       | None \<Rightarrow> (let v = (case parse_u64 spec of Some n \<Rightarrow> n | None \<Rightarrow> fst dflt) in (v, v)))"

definition fragment_from_env :: "(string \<Rightarrow> string option) \<Rightarrow> fragment_config" where
  "fragment_from_env env = (
     let var = (\<lambda>k. case env k of Some v \<Rightarrow> v | None \<Rightarrow> []);
       enabled = (case env ''AETHER_MASQUE_H2_FRAGMENT'' of Some v \<Rightarrow> is_truthy v | None \<Rightarrow> False);
       (size_min, size_max) = parse_range (var ''AETHER_MASQUE_H2_FRAGMENT_SIZE'') (16, 32);
       (delay_min, delay_max) = parse_range (var ''AETHER_MASQUE_H2_FRAGMENT_DELAY'') (2, 10);
       size_min = max size_min 1;
       size_max = max size_max size_min
     in \<lparr>fc_enabled = enabled, fc_size_min = size_min, fc_size_max = size_max,
          fc_delay_min_ms = delay_min, fc_delay_max_ms = max delay_max delay_min\<rparr>)"

text \<open>\<open>random_range(lo..=hi)\<close>; \<open>None\<close> is its panic on an empty range.\<close>

definition random_range :: "nat \<Rightarrow> nat \<Rightarrow> nat \<Rightarrow> nat panics" where
  "random_range r lo hi = (if hi < lo then None else Some (lo + r mod (hi - lo + 1)))"

definition pick_chunk_len :: "nat \<Rightarrow> fragment_config \<Rightarrow> nat \<Rightarrow> nat panics" where
  "pick_chunk_len r cfg remaining = (
     let hi = min (max (fc_size_max cfg) 1) remaining;
       lo = min (max (fc_size_min cfg) 1) hi
     in if lo \<ge> hi then Some hi else random_range r lo hi)"

definition pick_delay :: "nat \<Rightarrow> fragment_config \<Rightarrow> nat panics" where
  "pick_delay r cfg =
     (if fc_delay_max_ms cfg = 0 then Some 0
      else if fc_delay_max_ms cfg \<le> fc_delay_min_ms cfg then Some (fc_delay_min_ms cfg)
      else random_range r (fc_delay_min_ms cfg) (fc_delay_max_ms cfg))"

section \<open>The stream\<close>

record fragmenting_stream =
  fs_cfg :: fragment_config
  fs_fragmenting :: bool
  fs_sleeping :: bool
  fs_written :: "bytes list"

definition fragmenting_new :: "fragment_config \<Rightarrow> fragmenting_stream" where
  "fragmenting_new cfg = \<lparr>fs_cfg = cfg, fs_fragmenting = fc_enabled cfg, fs_sleeping = False, fs_written = []\<rparr>"

text \<open>What the inner stream answers to a write of \<open>n\<close> bytes: at most \<open>n\<close> of them are taken.\<close>

datatype inner_write = Takes nat | Not_Ready | Write_Error

datatype write_poll = Ready_Ok nat | Ready_Err | Pending

definition inner_poll_write :: "inner_write \<Rightarrow> bytes \<Rightarrow> fragmenting_stream \<Rightarrow> write_poll \<times> fragmenting_stream" where
  "inner_poll_write w buf s =
     (case w of
        Takes k \<Rightarrow> let n = min k (length buf) in (Ready_Ok n, s\<lparr>fs_written := fs_written s @ [take n buf]\<rparr>)
      | Not_Ready \<Rightarrow> (Pending, s)
      | Write_Error \<Rightarrow> (Ready_Err, s))"

definition poll_read :: "fragmenting_stream \<Rightarrow> fragmenting_stream" where
  "poll_read s = s\<lparr>fs_fragmenting := False\<rparr>"

record write_event =
  we_timer_fired :: bool
  we_len_random :: nat
  we_delay_random :: nat
  we_inner :: inner_write

definition poll_write :: "write_event \<Rightarrow> bytes \<Rightarrow> fragmenting_stream \<Rightarrow> (write_poll \<times> fragmenting_stream) panics" where
  "poll_write e buf s =
     (if buf = [] \<or> \<not> fs_fragmenting s then Some (inner_poll_write (we_inner e) buf s)
      else if fs_sleeping s \<and> \<not> we_timer_fired e then Some (Pending, s)
      else do {
        let s = s\<lparr>fs_sleeping := False\<rparr>;
        chunk_len \<leftarrow> pick_chunk_len (we_len_random e) (fs_cfg s) (length buf);
        chunk \<leftarrow> slice buf 0 chunk_len;
        let (r, s) = inner_poll_write (we_inner e) chunk s;
        (case r of
           Ready_Ok n \<Rightarrow>
             if n > 0 then do {
               delay \<leftarrow> pick_delay (we_delay_random e) (fs_cfg s);
               Some (Ready_Ok n, if delay \<noteq> 0 then s\<lparr>fs_sleeping := True\<rparr> else s)
             }
             else Some (Ready_Ok n, s)
         | _ \<Rightarrow> Some (r, s))
      })"

text \<open>
  A caller that writes a whole buffer, the way \<open>AsyncWriteExt::write_all\<close> does: it drops what was
  taken and polls again. Reads of the connection may come in between. The result is what is still
  unwritten when the events are over, or the error.
\<close>

datatype stream_poll = Poll_Write write_event | Poll_Read

fun write_polls :: "stream_poll list \<Rightarrow> bytes \<Rightarrow> fragmenting_stream \<Rightarrow> (bytes option \<times> fragmenting_stream) panics" where
  "write_polls [] buf s = Some (Some buf, s)"
| "write_polls (Poll_Read # es) buf s = write_polls es buf (poll_read s)"
| "write_polls (Poll_Write e # es) buf s =
     (if buf = [] then Some (Some [], s)
      else do {
        (r, s) \<leftarrow> poll_write e buf s;
        (case r of
           Ready_Ok n \<Rightarrow> write_polls es (drop n buf) s
         | Pending \<Rightarrow> write_polls es buf s
         | Ready_Err \<Rightarrow> Some (None, s))
      })"

section \<open>Lengths and the stream\<close>

lemma random_range_in: "lo \<le> hi \<Longrightarrow> \<exists>n. random_range r lo hi = Some n \<and> lo \<le> n \<and> n \<le> hi"
proof -
  assume le: "lo \<le> hi"
  have "r mod (hi - lo + 1) < hi - lo + 1" by (rule mod_less_divisor) simp
  with le have "lo + r mod (hi - lo + 1) \<le> hi" by linarith
  with le show ?thesis by (simp add: random_range_def)
qed

lemma pick_chunk_len_in:
  assumes "0 < remaining"
  obtains n where "pick_chunk_len r cfg remaining = Some n" "1 \<le> n" "n \<le> remaining" "n \<le> max (fc_size_max cfg) 1"
    "min (fc_size_min cfg) (min (max (fc_size_max cfg) 1) remaining) \<le> n"
proof -
  let ?hi = "min (max (fc_size_max cfg) 1) remaining"
  let ?lo = "min (max (fc_size_min cfg) 1) ?hi"
  have hi: "1 \<le> ?hi" "?hi \<le> remaining" "?hi \<le> max (fc_size_max cfg) 1" using assms by auto
  show thesis
  proof (cases "?hi \<le> ?lo")
    case True
    then show thesis using hi by (intro that [of ?hi]) (auto simp: pick_chunk_len_def Let_def)
  next
    case False
    then have "?lo \<le> ?hi" by linarith
    then obtain n where n: "random_range r ?lo ?hi = Some n" "?lo \<le> n" "n \<le> ?hi"
      using random_range_in by blast
    show thesis
    proof (rule that)
      show "pick_chunk_len r cfg remaining = Some n" using False n(1) by (auto simp: pick_chunk_len_def Let_def)
      have "1 \<le> ?lo" using hi(1) by auto
      with n(2) show "1 \<le> n" by linarith
      show "n \<le> remaining" "n \<le> max (fc_size_max cfg) 1" using n(3) hi by linarith+
      show "min (fc_size_min cfg) ?hi \<le> n" using n(2) by auto
    qed
  qed
qed

lemma runs_pick_delay [no_panic]: "runs (pick_delay r cfg)"
  using random_range_in [of "fc_delay_min_ms cfg" "fc_delay_max_ms cfg" r]
  by (auto simp: pick_delay_def runs_iff)

lemma inner_poll_write_cases:
  obtains n where "inner_poll_write w buf s = (Ready_Ok n, s\<lparr>fs_written := fs_written s @ [take n buf]\<rparr>)" "n \<le> length buf"
  | "inner_poll_write w buf s = (Pending, s)"
  | "inner_poll_write w buf s = (Ready_Err, s)"
  by (cases w) (auto simp: inner_poll_write_def Let_def)

text \<open>One write: nothing is taken, or a piece from the front of the buffer, of bounded size while fragmenting.\<close>

lemma poll_write_step:
  assumes "buf \<noteq> []"
  obtains r s' where "poll_write e buf s = Some (r, s')" "fs_cfg s' = fs_cfg s" "fs_fragmenting s' = fs_fragmenting s"
    "(\<exists>n. r = Ready_Ok n \<and> n \<le> length buf \<and> fs_written s' = fs_written s @ [take n buf]
        \<and> (fs_fragmenting s \<longrightarrow> n \<le> max (fc_size_max (fs_cfg s)) 1))
     \<or> ((r = Pending \<or> r = Ready_Err) \<and> fs_written s' = fs_written s)"
proof (cases "fs_fragmenting s")
  case False
  with assms show thesis
    by (cases rule: inner_poll_write_cases [of "we_inner e" buf s])
      (auto intro: that simp: poll_write_def)
next
  case True
  show thesis
  proof (cases "fs_sleeping s \<and> \<not> we_timer_fired e")
    case pending: True
    show thesis by (rule that [of Pending s]) (use pending True assms in \<open>auto simp: poll_write_def\<close>)
  next
    case False
    let ?s = "s\<lparr>fs_sleeping := False\<rparr>"
    obtain k where k: "pick_chunk_len (we_len_random e) (fs_cfg s) (length buf) = Some k" "1 \<le> k" "k \<le> length buf"
      "k \<le> max (fc_size_max (fs_cfg s)) 1"
      using assms pick_chunk_len_in [of "length buf" "we_len_random e" "fs_cfg s"] by auto
    obtain d where d: "pick_delay (we_delay_random e) (fs_cfg s) = Some d"
      using runs_pick_delay by (auto simp: runs_iff)
    show thesis
    proof (cases rule: inner_poll_write_cases [of "we_inner e" "take k buf" ?s])
      case (1 n)
      let ?t = "?s\<lparr>fs_written := fs_written s @ [take n buf]\<rparr>"
      have n: "n \<le> k" "take n (take k buf) = take n buf" using 1(2) k(3) by auto
      have "poll_write e buf s = Some (Ready_Ok n, if 0 < n \<and> d \<noteq> 0 then ?t\<lparr>fs_sleeping := True\<rparr> else ?t)"
        using assms True False k 1(1) n(2) d by (auto simp: poll_write_def Let_def)
      then show thesis by (rule that) (use n(1) k in auto)
    next
      case 2
      then have "poll_write e buf s = Some (Pending, ?s)"
        using assms True False k by (auto simp: poll_write_def Let_def)
      then show thesis by (rule that) auto
    next
      case 3
      then have "poll_write e buf s = Some (Ready_Err, ?s)"
        using assms True False k by (auto simp: poll_write_def Let_def)
      then show thesis by (rule that) auto
    qed
  qed
qed

lemma write_polls_prefix:
  "\<exists>left s'. write_polls es buf s = Some (left, s') \<and> fs_cfg s' = fs_cfg s
     \<and> (\<exists>ws. fs_written s' = fs_written s @ ws
          \<and> (case left of Some rest_buf \<Rightarrow> concat ws @ rest_buf = buf | None \<Rightarrow> \<exists>t. concat ws @ t = buf)
          \<and> (fs_fragmenting s \<and> Poll_Read \<notin> set es \<longrightarrow> (\<forall>w \<in> set ws. length w \<le> max (fc_size_max (fs_cfg s)) 1)))"
proof (induction es arbitrary: buf s)
  case (Cons ev es)
  show ?case
  proof (cases ev)
    case Poll_Read
    then show ?thesis using Cons.IH [of buf "poll_read s"] by (auto simp: poll_read_def)
  next
    case (Poll_Write e)
    show ?thesis
    proof (cases "buf = []")
      case True
      with Poll_Write show ?thesis by simp
    next
      case False
      obtain r s1 where p: "poll_write e buf s = Some (r, s1)" "fs_cfg s1 = fs_cfg s" "fs_fragmenting s1 = fs_fragmenting s"
        "(\<exists>n. r = Ready_Ok n \<and> n \<le> length buf \<and> fs_written s1 = fs_written s @ [take n buf]
            \<and> (fs_fragmenting s \<longrightarrow> n \<le> max (fc_size_max (fs_cfg s)) 1))
         \<or> ((r = Pending \<or> r = Ready_Err) \<and> fs_written s1 = fs_written s)"
        using False by (rule poll_write_step)
      from p(4) consider n where "r = Ready_Ok n" "n \<le> length buf" "fs_written s1 = fs_written s @ [take n buf]"
          "fs_fragmenting s \<longrightarrow> n \<le> max (fc_size_max (fs_cfg s)) 1"
        | "r = Pending" "fs_written s1 = fs_written s" | "r = Ready_Err" "fs_written s1 = fs_written s" by blast
      then show ?thesis
      proof cases
        case 1
        obtain left s' ws where i: "write_polls es (drop n buf) s1 = Some (left, s')" "fs_cfg s' = fs_cfg s1"
          "fs_written s' = fs_written s1 @ ws"
          "case left of Some rest_buf \<Rightarrow> concat ws @ rest_buf = drop n buf | None \<Rightarrow> \<exists>t. concat ws @ t = drop n buf"
          "fs_fragmenting s1 \<and> Poll_Read \<notin> set es \<longrightarrow> (\<forall>w \<in> set ws. length w \<le> max (fc_size_max (fs_cfg s1)) 1)"
          using Cons.IH [of "drop n buf" s1] by blast
        have "case left of Some rest_buf \<Rightarrow> concat (take n buf # ws) @ rest_buf = buf
            | None \<Rightarrow> \<exists>t. concat (take n buf # ws) @ t = buf"
          using i(4) by (auto split: option.splits) (metis append_take_drop_id)
        then show ?thesis using Poll_Write False p 1 i
          by (intro exI [of _ left] exI [of _ s'] conjI exI [of _ "take n buf # ws"]) auto
      next
        case 2
        then show ?thesis using Poll_Write False p Cons.IH [of buf s1] by simp
      next
        case 3
        then show ?thesis using Poll_Write False p by simp
      qed
    qed
  qed
qed simp

text \<open>C18: Fragmenting changes where the stream is cut and nothing else: whatever the timers, the
  draws and the inner stream do, writing never panics, the pieces handed to the inner stream are
  the front of the buffer in order with exactly the rest still to be written, and until the first
  read of the connection no piece is longer than the configured maximum.\<close>

theorem fragmenting_keeps_the_stream:
  "\<exists>left s. write_polls es buf (fragmenting_new cfg) = Some (left, s)
     \<and> (case left of
          Some unwritten \<Rightarrow> concat (fs_written s) @ unwritten = buf
        | None \<Rightarrow> \<exists>unwritten. concat (fs_written s) @ unwritten = buf)
     \<and> list_all (\<lambda>w. if fc_enabled cfg \<and> Poll_Read \<notin> set es then length w \<le> max (fc_size_max cfg) 1 else True) (fs_written s)"
  using write_polls_prefix [of es buf "fragmenting_new cfg"]
  by (auto simp: fragmenting_new_def list_all_iff)

text \<open>Every configuration read from the environment is usable: no draw has an empty range.\<close>

lemma fragment_from_env_ok:
  "1 \<le> fc_size_min (fragment_from_env env) \<and> fc_size_min (fragment_from_env env) \<le> fc_size_max (fragment_from_env env)
   \<and> fc_delay_min_ms (fragment_from_env env) \<le> fc_delay_max_ms (fragment_from_env env)"
  by (simp add: fragment_from_env_def Let_def split: prod.split)

end
