(* ===== verification/Obfuscation.thy ===== *)
theory Obfuscation
  imports Fragment T2s_Wire "HOL-Library.Stream"
begin

text \<open>
  The traffic that hides a handshake: the WireGuard obfuscation of \<^verbatim>\<open>aethernoize.rs\<close> (profiles,
  manual parameters, packet patterns, IKEv2 framing, junk) and the MASQUE obfuscation of
  \<^verbatim>\<open>noize.rs\<close>. Randomness is a stream of numbers that is threaded through; the regular
  expression of the tags, hex decoding and JSON belong to other crates and are arguments
  (\<open>noise_libs\<close>, and the parsed manual parameters).
\<close>

section \<open>Configuration of the WireGuard obfuscation\<close>

record noise_config =
  nc_i1 :: "string option"
  nc_i2 :: "string option"
  nc_i3 :: "string option"
  nc_i4 :: "string option"
  nc_i5 :: "string option"
  nc_jc :: nat
  nc_jc_before_hs :: nat
  nc_jc_after_i1 :: nat
  nc_jc_after_hs :: nat
  nc_jmin :: nat
  nc_jmax :: nat
  nc_junk_interval :: nat
  nc_handshake_delay :: nat
  nc_allow_zero_size :: bool

definition noise_off :: noise_config where
  "noise_off = \<lparr>nc_i1 = None, nc_i2 = None, nc_i3 = None, nc_i4 = None, nc_i5 = None, nc_jc = 0, nc_jc_before_hs = 0,
     nc_jc_after_i1 = 0, nc_jc_after_hs = 0, nc_jmin = 0, nc_jmax = 0, nc_junk_interval = 0, nc_handshake_delay = 0,
     nc_allow_zero_size = False\<rparr>"

definition noise_light :: noise_config where
  "noise_light = \<lparr>nc_i1 = Some ''<b 0d0a0d0a><t><r 20-32>'', nc_i2 = Some ''<rc 24-48>'', nc_i3 = None, nc_i4 = None,
     nc_i5 = None, nc_jc = 4, nc_jc_before_hs = 2, nc_jc_after_i1 = 1, nc_jc_after_hs = 1, nc_jmin = 48, nc_jmax = 190,
     nc_junk_interval = 3, nc_handshake_delay = 5, nc_allow_zero_size = False\<rparr>"

definition noise_balanced :: noise_config where
  "noise_balanced = \<lparr>nc_i1 = Some ''<b 0d0a0d0a><t><rc 20-40>'', nc_i2 = Some ''<b 504f5354><rd 10-20><rc 20-30>'',
     nc_i3 = Some ''<r 30-50>'', nc_i4 = None, nc_i5 = None, nc_jc = 6, nc_jc_before_hs = 3, nc_jc_after_i1 = 2,
     nc_jc_after_hs = 1, nc_jmin = 64, nc_jmax = 256, nc_junk_interval = 2, nc_handshake_delay = 8,
     nc_allow_zero_size = False\<rparr>"

definition noise_aggressive :: noise_config where
  "noise_aggressive = \<lparr>nc_i1 = Some ''<b 0d0a0d0a><t><rc 40-64>'',
     nc_i2 = Some ''<b 504f5354><t><rd 15-30><rc 30-50>'', nc_i3 = Some ''<b 474554><rc 40-60>'',
     nc_i4 = Some ''<r 60-100>'', nc_i5 = Some ''<c><rd 20-40>'', nc_jc = 10, nc_jc_before_hs = 4, nc_jc_after_i1 = 3,
     nc_jc_after_hs = 3, nc_jmin = 80, nc_jmax = 384, nc_junk_interval = 1, nc_handshake_delay = 12,
     nc_allow_zero_size = False\<rparr>"

definition noise_is_enabled :: "noise_config \<Rightarrow> bool" where
  "noise_is_enabled c \<longleftrightarrow> 0 < nc_jc c \<or> nc_i1 c \<noteq> None"

definition noise_from_profile :: "string \<Rightarrow> noise_config" where
  "noise_from_profile name =
     (if name = ''off'' \<or> name = ''none'' then noise_off
      else if name = ''light'' then noise_light
      else if name = ''aggressive'' \<or> name = ''heavy'' then noise_aggressive
      else noise_balanced)"

record manual_parameters =
  mp_jc :: "nat option"
  mp_jmin :: "nat option"
  mp_jmax :: "nat option"
  mp_i1 :: "string option"
  mp_i2 :: "string option"

definition opt_above :: "nat \<Rightarrow> nat option \<Rightarrow> bool" where
  "opt_above n v = (case v of Some x \<Rightarrow> n < x | None \<Rightarrow> False)"

definition with_manual :: "string \<Rightarrow> string + manual_parameters \<Rightarrow> string + noise_config" where
  "with_manual profile parsed =
     (case parsed of
        Inl e \<Rightarrow> Inl (''advanced obfuscation parameters: '' @ e)
      | Inr m \<Rightarrow>
          if opt_above 10 (mp_jc m) then Inl ''advanced obfuscation Jc must be 0-10''
          else if opt_above 1024 (mp_jmin m) \<or> opt_above 1024 (mp_jmax m)
          then Inl ''advanced obfuscation Jmin/Jmax must be 0-1024''
          else if (case (mp_jmin m, mp_jmax m) of (Some lo, Some hi) \<Rightarrow> hi < lo | _ \<Rightarrow> False)
          then Inl ''advanced obfuscation Jmax must be at least Jmin''
          else if opt_above 2048 (map_option length (mp_i1 m)) \<or> opt_above 2048 (map_option length (mp_i2 m))
          then Inl ''advanced obfuscation packet patterns are limited to 2048 characters''
          else
            let c = noise_from_profile profile;
              c = (case mp_jc m of
                     Some v \<Rightarrow>
                       let c = c\<lparr>nc_jc := v, nc_jc_before_hs := v div 2\<rparr>
                       in c\<lparr>nc_jc_after_i1 := v - (nc_jc_before_hs c + nc_jc_after_hs c)\<rparr>
                   | None \<Rightarrow> c);
              c = (case mp_jmin m of Some v \<Rightarrow> c\<lparr>nc_jmin := v\<rparr> | None \<Rightarrow> c);
              c = (case mp_jmax m of Some v \<Rightarrow> c\<lparr>nc_jmax := v\<rparr> | None \<Rightarrow> c);
              c = (case mp_i1 m of Some v \<Rightarrow> c\<lparr>nc_i1 := if trim v \<noteq> [] then Some v else None\<rparr> | None \<Rightarrow> c);
              c = (case mp_i2 m of Some v \<Rightarrow> c\<lparr>nc_i2 := if trim v \<noteq> [] then Some v else None\<rparr> | None \<Rightarrow> c)
            in Inr c)"

section \<open>Packet patterns\<close>

record noise_libs =
  nl_captures :: "string \<Rightarrow> (string \<times> string) list"
  nl_hex_decode :: "string \<Rightarrow> bytes option"

type_synonym rng = "nat stream"

definition fill_bytes :: "nat \<Rightarrow> rng \<Rightarrow> bytes \<times> rng" where
  "fill_bytes n g = (map of_nat (stake n g), sdrop n g)"

definition draw_range :: "nat \<Rightarrow> nat \<Rightarrow> rng \<Rightarrow> (nat \<times> rng) panics" where
  "draw_range lo hi g = map_option (\<lambda>n. (n, stl g)) (random_range (shd g) lo hi)"

definition parse_usize_or_0 :: "string \<Rightarrow> nat" where
  "parse_usize_or_0 s = (case parse_u64 s of Some n \<Rightarrow> n | None \<Rightarrow> 0)"

definition noise_parse_range :: "string \<Rightarrow> rng \<Rightarrow> (nat \<times> rng) panics" where
  "noise_parse_range data g = (
     let plain = Some (min (parse_usize_or_0 (trim data)) 2048, g) in
     case split_by (\<lambda>c. c = CHR ''-'') data of
       min_str # max_str # _ \<Rightarrow>
         let lo = parse_usize_or_0 (trim min_str); hi = parse_usize_or_0 (trim max_str) in
         if lo < hi \<and> 0 < lo then map_option (\<lambda>(n, g). (min n 2048, g)) (draw_range lo hi g)
         else plain
     | _ \<Rightarrow> plain)"

definition letters :: bytes where
  "letters = as_bytes ''abcdefghijklmnopqrstuvwxyzABCDEFGHIJKLMNOPQRSTUVWXYZ''"

definition digits :: bytes where
  "digits = as_bytes ''0123456789''"

definition draw_chars :: "bytes \<Rightarrow> nat \<Rightarrow> rng \<Rightarrow> bytes \<times> rng" where
  "draw_chars chars n g = (map (\<lambda>r. chars ! (r mod length chars)) (stake n g), sdrop n g)"

definition cps_tag :: "noise_libs \<Rightarrow> nat \<Rightarrow> string \<Rightarrow> string \<Rightarrow> rng \<Rightarrow> (bytes \<times> rng) panics" where
  "cps_tag libs now tag_type data g = (
     let data = trim data in
     if tag_type = ''b'' then
       (let hex_str = filter (\<lambda>c. \<not> is_ws c) data;
          clean = (if starts_with hex_str ''0x'' \<or> starts_with hex_str ''0X'' then drop 2 hex_str else hex_str)
        in case nl_hex_decode libs clean of Some bs \<Rightarrow> Some (bs, g) | None \<Rightarrow> Some ([], g))
     else if tag_type = ''t'' then Some (be32_bytes (of_nat now), g)
     else if tag_type = ''c'' then Some (be32_bytes (of_nat (now mod 0xFFFFFFFF)), g)
     else if tag_type = ''r'' then do {
       (len, g) \<leftarrow> noise_parse_range data g;
       Some (fill_bytes len g)
     }
     else if tag_type = ''rc'' then do {
       (len, g) \<leftarrow> noise_parse_range data g;
       Some (draw_chars letters len g)
     }
     else if tag_type = ''rd'' then do {
       (len, g) \<leftarrow> noise_parse_range data g;
       Some (draw_chars digits len g)
     }
     else Some ([], g))"

fun cps_tags :: "noise_libs \<Rightarrow> nat \<Rightarrow> (string \<times> string) list \<Rightarrow> rng \<Rightarrow> (bytes \<times> rng) panics" where
  "cps_tags libs now [] g = Some ([], g)"
| "cps_tags libs now ((t, d) # caps) g = do {
     (bs, g) \<leftarrow> cps_tag libs now t d g;
     (out, g) \<leftarrow> cps_tags libs now caps g;
     Some (bs @ out, g)
   }"

definition noise_parse_cps :: "noise_libs \<Rightarrow> nat \<Rightarrow> string \<Rightarrow> rng \<Rightarrow> (bytes \<times> rng) panics" where
  "noise_parse_cps libs now spec g = cps_tags libs now (nl_captures libs spec) g"

text \<open>
  \<open>wrap_ikev2\<close>: \<open>24u16 + payload.len() as u16\<close> is a checked addition of a truncated length; it
  panics on overflow (where overflow checks are on).
\<close>

definition wrap_ikev2 :: "bytes \<Rightarrow> rng \<Rightarrow> (bytes \<times> rng) panics" where
  "wrap_ikev2 payload g =
     (if payload = [] then Some (payload, g)
      else
        let (initiator_spi, g) = (if 8 \<le> length payload then (take 8 payload, g) else fill_bytes 8 g);
          (responder_spi, g) = fill_bytes 8 g;
          total_length = (28 + 24 + of_nat (length payload) :: u32);
          len16 = (of_nat (length payload) :: u16)
        in if 65535 < 24 + unat len16 then None
           else Some (initiator_spi @ responder_spi @ [0x21, 0x20, 0x22, 0x08] @ [0, 0, 0, 0] @ be32_bytes total_length
             @ [0x00, 0x00] @ be16_bytes (24 + len16)
             @ [0x00, 0x00, 0x00, 0x14, 0x01, 0x01, 0x00, 0x04, 0x03, 0x00, 0x00, 0x08, 0x01, 0x00, 0x00, 0x0c, 0x00, 0x00, 0x00, 0x00]
             @ payload, g))"

section \<open>Junk\<close>

definition junk_bounds :: "noise_config \<Rightarrow> (nat \<times> nat) option" where
  "junk_bounds c = (
     let lo = nc_jmin c; hi = nc_jmax c in
     if lo = 0 \<and> hi = 0 then None
     else if hi = 0 \<and> \<not> nc_allow_zero_size c then Some (max lo 1, max lo 1)
     else if \<not> nc_allow_zero_size c then Some (max lo 1, max hi lo)
     else Some (lo, max hi lo))"

definition generate_junk :: "noise_config \<Rightarrow> rng \<Rightarrow> (bytes \<times> rng) panics" where
  "generate_junk c g =
     (case junk_bounds c of
        None \<Rightarrow> Some (if nc_allow_zero_size c then [] else [0x00], g)
      | Some (lo, hi) \<Rightarrow> do {
          (size, g) \<leftarrow> (if hi = lo then Some (lo, g) else draw_range lo hi g);
          Some (if size = 0 then (if nc_allow_zero_size c then [] else [0x00], g) else fill_bytes size g)
        })"

text \<open>What the sender does: datagrams and pauses in milliseconds.\<close>

datatype noise_out = Send bytes | Sleep nat

definition pause :: "nat \<Rightarrow> noise_out list" where
  "pause ms = (if ms = 0 then [] else [Sleep ms])"

fun junk_burst :: "noise_config \<Rightarrow> nat \<Rightarrow> rng \<Rightarrow> (noise_out list \<times> rng) panics" where
  "junk_burst c 0 g = Some ([], g)"
| "junk_burst c (Suc n) g = do {
     (junk, g) \<leftarrow> generate_junk c g;
     (out, g) \<leftarrow> junk_burst c n g;
     Some (Send junk # pause (nc_junk_interval c) @ out, g)
   }"

fun send_signatures :: "noise_libs \<Rightarrow> nat \<Rightarrow> string option list \<Rightarrow> rng \<Rightarrow> (noise_out list \<times> rng) panics" where
  "send_signatures libs now [] g = Some ([], g)"
| "send_signatures libs now (None # sigs) g = send_signatures libs now sigs g"
| "send_signatures libs now (Some s # sigs) g = do {
     (pkt, g) \<leftarrow> noise_parse_cps libs now s g;
     (out, g) \<leftarrow> send_signatures libs now sigs g;
     Some ((if pkt \<noteq> [] then [Send pkt, Sleep 1] else []) @ out, g)
   }"

definition send_i1 :: "noise_libs \<Rightarrow> nat \<Rightarrow> string option \<Rightarrow> rng \<Rightarrow> (noise_out list \<times> rng) panics" where
  "send_i1 libs now i1 g =
     (case i1 of
        None \<Rightarrow> Some ([], g)
      | Some s \<Rightarrow> do {
          (payload, g) \<leftarrow> noise_parse_cps libs now s g;
          if payload = [] then Some ([], g)
          else do {
            (framed, g) \<leftarrow> wrap_ikev2 payload g;
            Some ([Send framed, Sleep 2], g)
          }
        })"

definition apply_obfuscation :: "noise_libs \<Rightarrow> nat \<Rightarrow> noise_config \<Rightarrow> rng \<Rightarrow> (noise_out list \<times> rng) panics" where
  "apply_obfuscation libs now c g =
     (if \<not> noise_is_enabled c then Some ([], g)
      else do {
        (a, g) \<leftarrow> send_i1 libs now (nc_i1 c) g;
        (b, g) \<leftarrow> junk_burst c (nc_jc_after_i1 c) g;
        (d, g) \<leftarrow> junk_burst c (nc_jc_before_hs c) g;
        (e, g) \<leftarrow> send_signatures libs now [nc_i2 c, nc_i3 c, nc_i4 c, nc_i5 c] g;
        Some (a @ b @ d @ e @ pause (nc_handshake_delay c), g)
      })"

definition post_handshake_junk :: "noise_config \<Rightarrow> rng \<Rightarrow> (noise_out list \<times> rng) panics" where
  "post_handshake_junk c g = junk_burst c (nc_jc_after_hs c) g"

definition disguise :: "bytes \<Rightarrow> bytes" where
  "disguise junk = (case junk of
     b # bs \<Rightarrow> (if 1 \<le> b \<and> b \<le> 4 then b + 0x40 else b) # bs
   | [] \<Rightarrow> [])"

fun keepalive_burst :: "noise_config \<Rightarrow> nat \<Rightarrow> rng \<Rightarrow> (noise_out list \<times> rng) panics" where
  "keepalive_burst c 0 g = Some ([], g)"
| "keepalive_burst c (Suc n) g = do {
     (junk, g) \<leftarrow> generate_junk c g;
     (jitter, g) \<leftarrow> draw_range 0 8 g;
     (out, g) \<leftarrow> keepalive_burst c n g;
     Some (Send (disguise junk) # pause (nc_junk_interval c + jitter) @ out, g)
   }"

definition keepalive_junk :: "noise_config \<Rightarrow> rng \<Rightarrow> (noise_out list \<times> rng) panics" where
  "keepalive_junk c g =
     (if \<not> noise_is_enabled c then Some ([], g)
      else do {
        let base = max (nc_jc_before_hs c) 1;
        (extra, g) \<leftarrow> draw_range 0 base g;
        keepalive_burst c (base + extra) g
      })"

section \<open>No draw has an empty range\<close>

lemma draw_range_in:
  assumes "lo \<le> hi"
  obtains n where "draw_range lo hi g = Some (n, stl g)" "lo \<le> n" "n \<le> hi"
  using random_range_in [OF assms, of "shd g"] that by (auto simp: draw_range_def)

lemma runs_noise_parse_range [no_panic]: "runs (noise_parse_range data g)"
  unfolding noise_parse_range_def Let_def
  by (auto split: list.split intro!: no_panic) (auto simp: runs_iff draw_range_def random_range_def)

lemma runs_cps_tag [no_panic]: "runs (cps_tag libs now t d g)"
  unfolding cps_tag_def Let_def by (intro no_panic)

lemma runs_cps_tags [no_panic]: "runs (cps_tags libs now caps g)"
proof (induction caps arbitrary: g)
  case (Cons x caps)
  obtain t d where x: "x = (t, d)" by fastforce
  show ?case unfolding x cps_tags.simps by (intro no_panic Cons)
qed simp

lemma junk_bounds_ordered:
  "junk_bounds c = Some (lo, hi) \<Longrightarrow> lo \<le> hi \<and> hi \<le> max 1 (max (nc_jmin c) (nc_jmax c)) \<and> (lo = 0 \<longrightarrow> nc_allow_zero_size c)"
  by (auto simp: junk_bounds_def Let_def split: if_splits)

lemma junk_size:
  obtains junk g' where "generate_junk c g = Some (junk, g')" "length junk \<le> max 1 (max (nc_jmin c) (nc_jmax c))"
    "junk = [] \<Longrightarrow> nc_allow_zero_size c"
proof (cases "junk_bounds c")
  case None
  then show thesis by (intro that) (auto simp: generate_junk_def split: if_splits)
next
  case (Some b)
  obtain lo hi where b: "b = (lo, hi)" by fastforce
  note o = junk_bounds_ordered [OF Some [unfolded b]]
  obtain n g1 where n: "(if hi = lo then Some (lo, g) else draw_range lo hi g) = Some (n, g1)" "lo \<le> n" "n \<le> hi"
  proof (cases "hi = lo")
    case True
    then show thesis by (intro that [of lo g]) simp_all
  next
    case False
    from o obtain n where "draw_range lo hi g = Some (n, stl g)" "lo \<le> n" "n \<le> hi"
      using draw_range_in by blast
    with False show thesis by (intro that [of n "stl g"]) simp_all
  qed
  have e: "generate_junk c g
      = Some (if n = 0 then (if nc_allow_zero_size c then [] else [0x00], g1) else fill_bytes n g1)"
    using n(1) by (simp add: generate_junk_def Some b)
  show thesis
  proof (rule that)
    show "generate_junk c g = Some (fst (if n = 0 then (if nc_allow_zero_size c then [] else [0x00], g1) else fill_bytes n g1),
        snd (if n = 0 then (if nc_allow_zero_size c then [] else [0x00], g1) else fill_bytes n g1))" using e by simp
  qed (use n o in \<open>auto simp: fill_bytes_def split: if_splits\<close>)
qed

section \<open>The IKEv2 frame\<close>

text \<open>The frame around a pattern declares its own length, and the length of the payload behind the header.\<close>

lemma ikev2_lengths:
  assumes "payload \<noteq> []" and "length payload \<le> 65511"
  obtains pkt g' where "wrap_ikev2 payload g = Some (pkt, g')" "length pkt = 52 + length payload"
    "unat (be32 (pkt ! 24) (pkt ! 25) (pkt ! 26) (pkt ! 27)) = length pkt"
    "unat (be16 (pkt ! 30) (pkt ! 31)) = length pkt - 28" "drop 52 pkt = payload"
proof -
  let ?n = "length payload"
  have l16: "unat (of_nat ?n :: u16) = ?n" using assms(2) by (simp add: unat_of_nat_u16)
  obtain isp g1 where i: "(if 8 \<le> ?n then (take 8 payload, g) else fill_bytes 8 g) = (isp, g1)" "length isp = 8"
    by (cases "8 \<le> ?n") (simp_all add: fill_bytes_def)
  obtain rsp g2 where r: "fill_bytes 8 g1 = (rsp, g2)" "length rsp = 8" by (simp add: fill_bytes_def)
  obtain a b c d where t: "be32_bytes (52 + of_nat ?n) = [a, b, c, d]" "be32 a b c d = 52 + of_nat ?n"
    by (rule be32_bytes_cases)
  obtain p q where s: "be16_bytes (24 + of_nat ?n) = [p, q]" "be16 p q = 24 + of_nat ?n" by (rule be16_bytes_cases)
  have "(52 + of_nat ?n :: u32) = of_nat (52 + ?n)" by simp
  then have t': "unat (be32 a b c d) = 52 + ?n" using assms(2) unfolding t(2) by (simp only: unat_of_nat_u32)
  have "(24 + of_nat ?n :: u16) = of_nat (24 + ?n)" by simp
  then have s': "unat (be16 p q) = 24 + ?n" using assms(2) unfolding s(2) by (simp only: unat_of_nat_u16)
  let ?pkt = "isp @ rsp @ [0x21, 0x20, 0x22, 0x08, 0, 0, 0, 0, a, b, c, d, 0, 0, p, q, 0x00, 0x00, 0x00, 0x14, 0x01, 0x01,
      0x00, 0x04, 0x03, 0x00, 0x00, 0x08, 0x01, 0x00, 0x00, 0x0c, 0x00, 0x00, 0x00, 0x00] @ payload"
  have "wrap_ikev2 payload g = Some (?pkt, g2)"
    using assms l16 by (simp add: wrap_ikev2_def i(1) r(1) t(1) s(1))
  then show thesis
  proof (rule that)
    show "length ?pkt = 52 + ?n" "drop 52 ?pkt = payload" using i(2) r(2) by simp_all
    show "unat (be32 (?pkt ! 24) (?pkt ! 25) (?pkt ! 26) (?pkt ! 27)) = length ?pkt"
      using i(2) r(2) t' by (simp add: nth_append)
    show "unat (be16 (?pkt ! 30) (?pkt ! 31)) = length ?pkt - 28"
      using i(2) r(2) s' by (simp add: nth_append)
  qed
qed

section \<open>Properties\<close>

text \<open>The manual obfuscation parameters that are accepted are within their limits and are what the
  profile is changed to: at most ten junk packets, sizes up to 1024 bytes, patterns up to 2048
  characters; and the junk packets of a connection add up to \<open>Jc\<close> or, where that is more, to
  half of \<open>Jc\<close> and the packets the profile sends after the handshake.\<close>

theorem manual_parameters_are_limited:
  assumes "with_manual profile (Inr m) = Inr c"
  shows "(case mp_jc m of
        Some jc \<Rightarrow> jc \<le> 10 \<and> nc_jc c = jc \<and> nc_jc_before_hs c + nc_jc_after_i1 c + nc_jc_after_hs c
          = max jc (jc div 2 + nc_jc_after_hs (noise_from_profile profile))
      | None \<Rightarrow> nc_jc c = nc_jc (noise_from_profile profile))
    \<and> (case mp_jmin m of Some n \<Rightarrow> n \<le> 1024 \<and> nc_jmin c = n | None \<Rightarrow> nc_jmin c = nc_jmin (noise_from_profile profile))
    \<and> (case mp_jmax m of Some n \<Rightarrow> n \<le> 1024 \<and> nc_jmax c = n | None \<Rightarrow> nc_jmax c = nc_jmax (noise_from_profile profile))
    \<and> (case mp_i1 m of
         Some v \<Rightarrow> length v \<le> 2048 \<and> nc_i1 c = (if trim v \<noteq> [] then Some v else None)
       | None \<Rightarrow> nc_i1 c = nc_i1 (noise_from_profile profile))"
  using assms
  by (cases m; cases "mp_jc m"; cases "mp_jmin m"; cases "mp_jmax m"; cases "mp_i1 m"; cases "mp_i2 m")
    (auto simp: with_manual_def opt_above_def Let_def split: if_splits)

definition jc_zero :: manual_parameters where
  "jc_zero = \<lparr>mp_jc = Some 0, mp_jmin = None, mp_jmax = None, mp_i1 = Some '' '', mp_i2 = None\<rparr>"

text \<open>The witness is a case where the junk packets exceed \<open>Jc\<close>: with \<open>Jc = 0\<close> three are sent after the handshake.\<close>

theorem manual_parameters_are_limited_witness:
  "\<exists>c. with_manual ''heavy'' (Inr jc_zero) = Inr c \<and> nc_jc c = 0 \<and> nc_i1 c = None
     \<and> nc_jc_before_hs c + nc_jc_after_i1 c + nc_jc_after_hs c = 3"
proof -
  have "is_ws (CHR '' '')" by (simp add: is_ws_def)
  then have t: "trim '' '' = []" by (simp add: trim_def trim_start_by_def trim_end_by_def)
  obtain c where c: "with_manual ''heavy'' (Inr jc_zero) = Inr c"
    by (simp add: with_manual_def jc_zero_def opt_above_def Let_def)
  from manual_parameters_are_limited [OF c] c show ?thesis
    by (simp add: jc_zero_def noise_from_profile_def noise_aggressive_def t)
qed

lemma disguise_first: "disguise junk = b # bs \<Longrightarrow> \<not> (1 \<le> b \<and> b \<le> 4)"
  by (auto simp: disguise_def word_le_nat_alt split: list.splits if_splits)
    (auto simp: unat_word_ariths)

lemma keepalive_burst_sends:
  "\<exists>out g'. keepalive_burst c n g = Some (out, g')
     \<and> (\<exists>js. List.map_filter (\<lambda>o'. case o' of Send p \<Rightarrow> Some p | Sleep _ \<Rightarrow> None) out = map disguise js \<and> length js = n
          \<and> (\<forall>j \<in> set js. length j \<le> max 1 (max (nc_jmin c) (nc_jmax c)) \<and> (j = [] \<longrightarrow> nc_allow_zero_size c)))"
proof (induction n arbitrary: g)
  case (Suc n)
  obtain junk g1 where j: "generate_junk c g = Some (junk, g1)" "length junk \<le> max 1 (max (nc_jmin c) (nc_jmax c))"
    "junk = [] \<Longrightarrow> nc_allow_zero_size c" using junk_size [of c g] by blast
  obtain k where k: "draw_range 0 8 g1 = Some (k, stl g1)" using draw_range_in [of 0 8 g1] by blast
  from Suc [of "stl g1"] obtain out g' js where i: "keepalive_burst c n (stl g1) = Some (out, g')"
    "List.map_filter (\<lambda>o'. case o' of Send p \<Rightarrow> Some p | Sleep _ \<Rightarrow> None) out = map disguise js" "length js = n"
    "\<forall>j \<in> set js. length j \<le> max 1 (max (nc_jmin c) (nc_jmax c)) \<and> (j = [] \<longrightarrow> nc_allow_zero_size c)" by blast
  let ?out = "Send (disguise junk) # pause (nc_junk_interval c + k) @ out"
  have "keepalive_burst c (Suc n) g = Some (?out, g')" using j(1) k i(1) by simp
  moreover have "List.map_filter (\<lambda>o'. case o' of Send p \<Rightarrow> Some p | Sleep _ \<Rightarrow> None) ?out = map disguise (junk # js)"
    using i(2) by (simp add: map_filter_def pause_def)
  ultimately show ?case using i(3,4) j(2,3)
    by (intro exI [of _ ?out] exI [of _ g'] conjI exI [of _ "junk # js"]) auto
qed (simp add: map_filter_def)

text \<open>Keep-alive junk cannot be taken for WireGuard: an enabled configuration sends between one and
  two bursts' worth of packets, none longer than the configured sizes and none empty unless empty
  junk is allowed, and no packet starts with a byte from 1 to 4, the WireGuard message types; it
  never panics, and a disabled configuration sends nothing.\<close>

theorem keepalive_junk_is_not_wireguard:
  "\<exists>out g'. keepalive_junk c g = Some (out, g')
     \<and> (let sent = List.map_filter (\<lambda>o'. case o' of Send p \<Rightarrow> Some p | Sleep _ \<Rightarrow> None) out;
          base = max (nc_jc_before_hs c) 1
        in (if noise_is_enabled c then base \<le> length sent \<and> length sent \<le> 2 * base else out = [])
           \<and> list_all (\<lambda>p. length p \<le> max 1 (max (nc_jmin c) (nc_jmax c))
                \<and> (case p of [] \<Rightarrow> nc_allow_zero_size c | b # _ \<Rightarrow> \<not> (1 \<le> b \<and> b \<le> 4))) sent)"
proof (cases "noise_is_enabled c")
  case False
  then show ?thesis by (simp add: keepalive_junk_def map_filter_def)
next
  case True
  let ?base = "max (nc_jc_before_hs c) 1"
  obtain k where k: "draw_range 0 ?base g = Some (k, stl g)" "k \<le> ?base" using draw_range_in [of 0 ?base g] by blast
  obtain out g' js where i: "keepalive_burst c (?base + k) (stl g) = Some (out, g')"
    "List.map_filter (\<lambda>o'. case o' of Send p \<Rightarrow> Some p | Sleep _ \<Rightarrow> None) out = map disguise js" "length js = ?base + k"
    "\<forall>j \<in> set js. length j \<le> max 1 (max (nc_jmin c) (nc_jmax c)) \<and> (j = [] \<longrightarrow> nc_allow_zero_size c)"
    using keepalive_burst_sends by meson
  have l: "length (disguise j) = length j" for j by (simp add: disguise_def split: list.split)
  have "list_all (\<lambda>p. length p \<le> max 1 (max (nc_jmin c) (nc_jmax c))
      \<and> (case p of [] \<Rightarrow> nc_allow_zero_size c | b # _ \<Rightarrow> \<not> (1 \<le> b \<and> b \<le> 4))) (map disguise js)"
    unfolding list_all_iff
  proof
    fix p assume "p \<in> set (map disguise js)"
    then obtain j where j: "p = disguise j" "j \<in> set js" by auto
    have "p = [] \<longleftrightarrow> j = []" using l [of j] j(1) by auto
    with i(4) j l show "length p \<le> max 1 (max (nc_jmin c) (nc_jmax c))
      \<and> (case p of [] \<Rightarrow> nc_allow_zero_size c | b # _ \<Rightarrow> \<not> (1 \<le> b \<and> b \<le> 4))"
      using disguise_first [of j] by (auto split: list.split)
  qed
  then show ?thesis using True k i by (auto simp: keepalive_junk_def Let_def)
qed

end
