(* ===== verification/Noize.thy ===== *)
theory Noize
  imports Obfuscation
begin

text \<open>
  The obfuscation before a MASQUE handshake (\<^verbatim>\<open>noize.rs\<close>): its profiles, its own parser for
  packet patterns, which scans for \<open><\<close> and \<open>>\<close> by hand, and the sequence of packets. Whether a
  send succeeds does not matter to the code; what it sends is the list of outputs.
\<close>

record noize_config =
  nz_jc_before_hs :: nat
  nz_jc_after_i1 :: nat
  nz_jmin :: nat
  nz_jmax :: nat
  nz_i1 :: "string option"
  nz_i2 :: "string option"
  nz_junk_interval :: nat

definition noize_off :: noize_config where
  "noize_off = \<lparr>nz_jc_before_hs = 0, nz_jc_after_i1 = 0, nz_jmin = 0, nz_jmax = 0, nz_i1 = None, nz_i2 = None,
     nz_junk_interval = 0\<rparr>"

definition noize_firewall :: noize_config where
  "noize_firewall = \<lparr>nz_jc_before_hs = 2, nz_jc_after_i1 = 2, nz_jmin = 48, nz_jmax = 190,
     nz_i1 = Some ''<b 0d0a0d0a><t><r 24>'', nz_i2 = Some ''<r 48>'', nz_junk_interval = 4\<rparr>"

definition noize_light :: noize_config where
  "noize_light = \<lparr>nz_jc_before_hs = 1, nz_jc_after_i1 = 0, nz_jmin = 32, nz_jmax = 96,
     nz_i1 = Some ''<b 0d0a0d0a><t><r 16>'', nz_i2 = None, nz_junk_interval = 3\<rparr>"

definition noize_gfw :: noize_config where
  "noize_gfw = \<lparr>nz_jc_before_hs = 2, nz_jc_after_i1 = 1, nz_jmin = 64, nz_jmax = 256,
     nz_i1 = Some ''<b 0d0a0d0a><t><r 24>'', nz_i2 = Some ''<r 32>'', nz_junk_interval = 5\<rparr>"

definition noize_is_enabled :: "noize_config \<Rightarrow> bool" where
  "noize_is_enabled c \<longleftrightarrow> 0 < nz_jc_before_hs c \<or> 0 < nz_jc_after_i1 c \<or> nz_i1 c \<noteq> None"

definition noize_from_profile :: "string \<Rightarrow> noize_config" where
  "noize_from_profile name =
     (if name = ''off'' \<or> name = ''none'' then noize_off
      else if name = ''light'' then noize_light
      else if name = ''gfw'' \<or> name = ''aggressive'' \<or> name = ''heavy'' then noize_gfw
      else noize_firewall)"

definition noize_junk_packet :: "noize_config \<Rightarrow> rng \<Rightarrow> (bytes \<times> rng) panics" where
  "noize_junk_packet c g = (
     let (lo, hi) = (if nz_jmin c < nz_jmax c \<and> 0 < nz_jmin c then (nz_jmin c, nz_jmax c) else (40, 90)) in do {
       (size, g) \<leftarrow> draw_range lo hi g;
       Some (fill_bytes size g)
     })"

text \<open>One tag: its name up to the first blank, and the trimmed remainder.\<close>

definition split_tag :: "string \<Rightarrow> string \<times> string" where
  "split_tag inner = (
     let inner = trim inner
     in (takeWhile (\<lambda>c. \<not> is_ws c) inner, trim (dropWhile (\<lambda>c. \<not> is_ws c) inner)))"

definition noize_tag :: "(string \<Rightarrow> bytes option) \<Rightarrow> nat \<Rightarrow> string \<Rightarrow> string \<Rightarrow> rng \<Rightarrow> bytes \<times> rng" where
  "noize_tag hex_decode now tag data g =
     (if tag = ''b'' then
        (case hex_decode (filter (\<lambda>c. \<not> is_ws c) data) of Some bs \<Rightarrow> (bs, g) | None \<Rightarrow> ([], g))
      else if tag = ''t'' then (be32_bytes (of_nat now), g)
      else if tag = ''n'' then (to_be 8 (shd g), stl g)
      else if tag = ''r'' then fill_bytes (min (parse_usize_or_0 data) 1024) g
      else ([], g))"

function noize_parse_cps :: "(string \<Rightarrow> bytes option) \<Rightarrow> nat \<Rightarrow> string \<Rightarrow> rng \<Rightarrow> bytes \<times> rng" where
  "noize_parse_cps hex_decode now [] g = ([], g)"
| "noize_parse_cps hex_decode now (c # cs) g =
     (if c \<noteq> CHR ''<'' then noize_parse_cps hex_decode now cs g
      else case find_sub cs ''>'' of
          None \<Rightarrow> ([], g)
        | Some e \<Rightarrow>
            (case split_tag (take e cs) of (tag, data) \<Rightarrow>
              (case noize_tag hex_decode now tag data g of (bs, g1) \<Rightarrow>
                (case noize_parse_cps hex_decode now (drop (e + 1) cs) g1 of (out, g2) \<Rightarrow> (bs @ out, g2)))))"
  by pat_completeness auto
termination by (relation "measure (\<lambda>(h, now, s, g). length s)") auto

declare noize_parse_cps.simps [simp del]

fun noize_burst :: "noize_config \<Rightarrow> nat \<Rightarrow> rng \<Rightarrow> (noise_out list \<times> rng) panics" where
  "noize_burst c 0 g = Some ([], g)"
| "noize_burst c (Suc n) g = do {
     (junk, g) \<leftarrow> noize_junk_packet c g;
     (out, g) \<leftarrow> noize_burst c n g;
     Some (Send junk # pause (nz_junk_interval c) @ out, g)
   }"

definition noize_signature :: "(string \<Rightarrow> bytes option) \<Rightarrow> nat \<Rightarrow> string option \<Rightarrow> nat \<Rightarrow> rng \<Rightarrow> noise_out list \<times> rng" where
  "noize_signature hex_decode now sig after g =
     (case sig of
        None \<Rightarrow> ([], g)
      | Some s \<Rightarrow>
          (case noize_parse_cps hex_decode now s g of
             (pkt, g) \<Rightarrow> (if pkt \<noteq> [] then Send pkt # pause after else [], g)))"

definition pre_handshake :: "(string \<Rightarrow> bytes option) \<Rightarrow> nat \<Rightarrow> noize_config \<Rightarrow> rng \<Rightarrow> (noise_out list \<times> rng) panics" where
  "pre_handshake hex_decode now c g =
     (if \<not> noize_is_enabled c then Some ([], g)
      else do {
        (a, g) \<leftarrow> noize_burst c (nz_jc_before_hs c) g;
        let (b, g) = noize_signature hex_decode now (nz_i1 c) 2 g;
        (d, g) \<leftarrow> noize_burst c (nz_jc_after_i1 c) g;
        let (e, g) = noize_signature hex_decode now (nz_i2 c) 0 g;
        Some (a @ b @ d @ e, g)
      })"

section \<open>What is sent\<close>

lemma noize_junk_size:
  obtains junk g' where "noize_junk_packet c g = Some (junk, g')"
    "if nz_jmin c < nz_jmax c \<and> 0 < nz_jmin c then nz_jmin c \<le> length junk \<and> length junk \<le> nz_jmax c
     else 40 \<le> length junk \<and> length junk \<le> 90"
proof -
  let ?b = "if nz_jmin c < nz_jmax c \<and> 0 < nz_jmin c then (nz_jmin c, nz_jmax c) else (40 :: nat, 90)"
  have "fst ?b \<le> snd ?b" by simp
  then obtain n where n: "draw_range (fst ?b) (snd ?b) g = Some (n, stl g)" "fst ?b \<le> n" "n \<le> snd ?b"
    by (rule draw_range_in)
  have "noize_junk_packet c g = Some (map of_nat (stake n (stl g)), sdrop n (stl g))"
    using n(1) by (auto simp: noize_junk_packet_def fill_bytes_def split: if_splits)
  then show thesis by (rule that) (use n(2,3) in \<open>auto split: if_splits\<close>)
qed

lemma noize_burst_sends:
  "\<exists>out g'. noize_burst c n g = Some (out, g')
     \<and> length (List.map_filter (\<lambda>o'. case o' of Send p \<Rightarrow> Some p | Sleep _ \<Rightarrow> None) out) = n"
proof (induction n arbitrary: g)
  case (Suc n)
  obtain junk g1 where j: "noize_junk_packet c g = Some (junk, g1)" using noize_junk_size [of c g] by blast
  obtain out g' where "noize_burst c n g1 = Some (out, g')"
    "length (List.map_filter (\<lambda>o'. case o' of Send p \<Rightarrow> Some p | Sleep _ \<Rightarrow> None) out) = n"
    using Suc by blast
  with j show ?case by (simp add: map_filter_def pause_def)
qed (simp add: map_filter_def)

text \<open>A tag is read from between its brackets; text outside brackets is skipped.\<close>

lemma cps_text: "\<forall>c \<in> set a. c \<noteq> CHR ''<'' \<Longrightarrow> noize_parse_cps h now (a @ s) g = noize_parse_cps h now s g"
  by (induction a) (simp_all add: noize_parse_cps.simps)

lemma find_gt: "CHR ''>'' \<notin> set a \<Longrightarrow> find_sub (a @ CHR ''>'' # s) ''>'' = Some (length a)"
  by (induction a) auto

lemma cps_one_tag:
  assumes "CHR ''>'' \<notin> set a" and "split_tag a = (tag, data)" and "noize_tag h now tag data g = (bs, g1)"
  shows "noize_parse_cps h now (CHR ''<'' # a @ CHR ''>'' # s) g
    = (bs @ fst (noize_parse_cps h now s g1), snd (noize_parse_cps h now s g1))"
  using assms by (simp add: noize_parse_cps.simps(2) find_gt split: prod.split)

lemma runs_noize_burst [no_panic]: "runs (noize_burst c n g)"
  using noize_burst_sends [of c n g] by (auto simp: runs_iff)

text \<open>No configuration, pattern or draw makes the obfuscation panic.\<close>

lemma runs_pre_handshake: "runs (pre_handshake h now c g)"
  unfolding pre_handshake_def by (intro no_panic)

end
