(* ===== verification/Apifront.thy ===== *)
theory Apifront
  imports Socks_Connect Fragment
begin

text \<open>
  \<^verbatim>\<open>apifront.rs\<close>: the camouflaged route to the account API. A request is rendered as HTTP/1.1 text,
  sent over TLS to one of a few edge addresses with one of three client fingerprints, and the
  response is read up to the end of the stream. A \<^verbatim>\<open>str\<close> is the list of its UTF-8 bytes as
  characters, so \<open>len()\<close> is \<open>length\<close> and slicing checks that its bounds are at the start of a
  character. What connecting, the handshake and the stream do in one attempt is a record of
  outcomes; the random draws and the addresses the resolver returns are arguments.
\<close>

section \<open>Slices of text\<close>

definition is_char_boundary :: "string \<Rightarrow> nat \<Rightarrow> bool" where
  "is_char_boundary s i \<longleftrightarrow> i = 0 \<or> i = length s \<or> (i < length s \<and> \<not> utf8_cont (byte_of (s ! i)))"

definition str_slice :: "string \<Rightarrow> nat \<Rightarrow> nat \<Rightarrow> string panics" where
  "str_slice s a b = (if is_char_boundary s a \<and> is_char_boundary s b then slice s a b else None)"

definition show_error :: "aether_error \<Rightarrow> string" where
  "show_error e = (case e of
     E_Io s \<Rightarrow> ''io: '' @ s
   | E_Quic s \<Rightarrow> ''quic: '' @ s
   | E_H3 s \<Rightarrow> ''h3: '' @ s
   | E_Tls s \<Rightarrow> ''tls: '' @ s
   | E_Ech s \<Rightarrow> ''ech: '' @ s
   | E_Masque s \<Rightarrow> ''masque: '' @ s
   | E_NoCleanEndpoint \<Rightarrow> ''prober: no clean endpoint found''
   | E_Capsule s \<Rightarrow> ''capsule: '' @ s
   | E_Api s \<Rightarrow> ''api: '' @ s
   | E_IdentityRefused s \<Rightarrow> ''identity refused: '' @ s
   | E_Cancelled \<Rightarrow> ''cancelled''
   | E_Other s \<Rightarrow> ''other: '' @ s)"

section \<open>Fingerprints\<close>

datatype fingerprint = Split_Legacy | Modern | Chrome_Like

datatype tls_version = Tls12 | Tls13

record tls_settings =
  tl_min :: tls_version
  tl_max :: tls_version
  tl_grease :: bool
  tl_permute :: bool
  tl_ciphers :: "string option"
  tl_curves :: string
  tl_alpn :: bytes
  tl_sct :: bool
  tl_ocsp :: bool

definition alpn_http1 :: bytes where
  "alpn_http1 = 8 # as_bytes ''http/1.1''"

definition legacy_ciphers :: string where
  "legacy_ciphers = ''ECDHE-ECDSA-CHACHA20-POLY1305:'' @ ''ECDHE-ECDSA-AES128-GCM-SHA256:''
     @ ''ECDHE-RSA-AES128-GCM-SHA256:'' @ ''ECDHE-ECDSA-AES256-SHA:'' @ ''ECDHE-RSA-AES128-SHA:'' @ ''AES256-SHA''"

definition fingerprint_label :: "fingerprint \<Rightarrow> string" where
  "fingerprint_label f = (case f of Split_Legacy \<Rightarrow> ''split-tls12'' | Modern \<Rightarrow> ''plain-tls13'' | Chrome_Like \<Rightarrow> ''chrome'')"

definition all_fingerprints :: "fingerprint list" where
  "all_fingerprints = [Split_Legacy, Modern, Chrome_Like]"

definition fingerprint_fragments :: "fingerprint \<Rightarrow> fragment_config" where
  "fingerprint_fragments f = (case f of
     Split_Legacy \<Rightarrow> \<lparr>fc_enabled = True, fc_size_min = 24, fc_size_max = 48, fc_delay_min_ms = 2, fc_delay_max_ms = 8\<rparr>
   | _ \<Rightarrow> fragment_disabled)"

definition fingerprint_configure :: "fingerprint \<Rightarrow> tls_settings" where
  "fingerprint_configure f = (case f of
     Split_Legacy \<Rightarrow> \<lparr>tl_min = Tls12, tl_max = Tls12, tl_grease = False, tl_permute = False,
        tl_ciphers = Some legacy_ciphers, tl_curves = ''X25519:P-256'', tl_alpn = alpn_http1, tl_sct = False, tl_ocsp = False\<rparr>
   | Modern \<Rightarrow> \<lparr>tl_min = Tls12, tl_max = Tls13, tl_grease = False, tl_permute = False,
        tl_ciphers = None, tl_curves = ''X25519:P-256:P-384'', tl_alpn = alpn_http1, tl_sct = False, tl_ocsp = False\<rparr>
   | Chrome_Like \<Rightarrow> \<lparr>tl_min = Tls12, tl_max = Tls13, tl_grease = True, tl_permute = True,
        tl_ciphers = None, tl_curves = ''P-256:X25519:P-384'', tl_alpn = alpn_http1, tl_sct = True, tl_ocsp = True\<rparr>)"

section \<open>Requests and addresses\<close>

record api_request =
  rq_method :: string
  rq_host :: string
  rq_path :: string
  rq_headers :: "(string \<times> string) list"
  rq_body :: "bytes option"

record api_response =
  rs_status :: nat
  rs_body :: string
  rs_route :: string

definition random_edge_address :: "nat \<Rightarrow> socket_addr" where
  "random_edge_address r = \<lparr>sa_ip = V4 (ipv4_of 141 101 113 (of_nat (1 + r mod 254))), sa_port = 443\<rparr>"

text \<open>
  The loop that draws until it has three different addresses: \<open>None\<close> is a loop that is still
  drawing when the draws are over.
\<close>

fun draw_edges :: "nat list \<Rightarrow> socket_addr list \<Rightarrow> socket_addr list option" where
  "draw_edges rs l =
     (if 3 \<le> length l then Some l
      else case rs of
          [] \<Rightarrow> None
        | r # rs \<Rightarrow>
            (let candidate = random_edge_address r
             in draw_edges rs (if candidate \<notin> set l then l @ [candidate] else l)))"

declare draw_edges.simps [simp del]

definition is_v4 :: "socket_addr \<Rightarrow> bool" where
  "is_v4 a = (case sa_ip a of V4 _ \<Rightarrow> True | V6 _ \<Rightarrow> False)"

definition candidates :: "nat list \<Rightarrow> socket_addr list option \<Rightarrow> socket_addr list option" where
  "candidates rs resolved = map_option
     (\<lambda>l. case resolved of
        Some found \<Rightarrow> foldl (\<lambda>l a. if a \<notin> set l then l @ [a] else l) l (take 2 (filter is_v4 found))
      | None \<Rightarrow> l)
     (draw_edges rs [])"

definition render_request :: "api_request \<Rightarrow> bytes" where
  "render_request r = (
     let head = rq_method r @ '' '' @ rq_path r @ '' HTTP/1.1'' @ crlf_text
        @ ''Host: '' @ rq_host r @ crlf_text
        @ concat (map (\<lambda>(name, value). name @ '': '' @ value @ crlf_text) (rq_headers r))
        @ ''Accept-Encoding: identity'' @ crlf_text
        @ ''Content-Length: '' @ show_nat (case rq_body r of Some b \<Rightarrow> length b | None \<Rightarrow> 0) @ crlf_text
        @ ''Connection: close'' @ crlf_text @ crlf_text
     in as_bytes head @ (case rq_body r of Some b \<Rightarrow> b | None \<Rightarrow> []))"

section \<open>Responses\<close>

fun parse_hex_digits :: "nat \<Rightarrow> nat \<Rightarrow> string \<Rightarrow> nat option" where
  "parse_hex_digits mx acc [] = Some acc"
| "parse_hex_digits mx acc (c # cs) =
     (case hex_val c of None \<Rightarrow> None
      | Some d \<Rightarrow> if 16 * acc + d \<le> mx then parse_hex_digits mx (16 * acc + d) cs else None)"

text \<open>\<open>usize::from_str_radix(token, 16)\<close>.\<close>

definition parse_hex :: "nat \<Rightarrow> string \<Rightarrow> nat option" where
  "parse_hex mx s =
     (let ds = (if s \<noteq> [] \<and> hd s = CHR ''+'' then tl s else s)
      in if ds = [] then None else parse_hex_digits mx 0 ds)"

text \<open>
  \<open>start + size\<close> beyond \<open>usize\<close> is a panic where overflow checks are on; where it wraps, the end
  of the slice lies before its start, which is a panic as well.
\<close>

function dechunk_from :: "string \<Rightarrow> nat \<Rightarrow> string \<Rightarrow> string panics" where
  "dechunk_from body cursor out =
     (if length body \<le> cursor then Some out
      else case str_slice body cursor (length body) of
          None \<Rightarrow> None
        | Some tail \<Rightarrow>
            (case find_sub tail crlf_text of
               None \<Rightarrow> Some out
             | Some offset \<Rightarrow>
                 (let token = trim (hd (split_by (\<lambda>c. c = CHR '';'') (take offset tail)));
                    start = cursor + offset + 2
                  in case parse_hex (2 ^ 64 - 1) token of
                      None \<Rightarrow> Some out
                    | Some sz \<Rightarrow>
                        if sz = 0 then Some out
                        else if 2 ^ 64 \<le> start + sz then None
                        else if length body < start + sz then Some out
                        else (case str_slice body start (start + sz) of
                                None \<Rightarrow> None
                              | Some chunk \<Rightarrow> dechunk_from body (start + sz + 2) (out @ chunk)))))"
  by pat_completeness auto
termination by (relation "measure (\<lambda>(body, cursor, out). length body - cursor)") auto

declare dechunk_from.simps [simp del]

definition dechunk :: "string \<Rightarrow> string panics" where
  "dechunk body = dechunk_from body 0 []"

function split_on :: "string \<Rightarrow> string \<Rightarrow> string list" where
  "split_on sep s =
     (case find_sub s sep of
        None \<Rightarrow> [s]
      | Some i \<Rightarrow> if sep = [] then [s] else take i s # split_on sep (drop (i + length sep) s))"
  by pat_completeness auto
termination
  by (relation "measure (\<lambda>(sep, s). length s)") (auto dest!: find_sub_bound simp: neq_Nil_conv)

declare split_on.simps [simp del]

definition is_chunked_line :: "string \<Rightarrow> bool" where
  "is_chunked_line line = (
     let lowered = to_lowercase line
     in starts_with lowered ''transfer-encoding:'' \<and> contains lowered ''chunked'')"

definition parse_response :: "bytes \<Rightarrow> (aether_error + nat \<times> string) panics" where
  "parse_response raw = (
     let text = of_bytes (utf8_lossy raw)
     in case find_sub text (crlf_text @ crlf_text) of
         None \<Rightarrow> Some (Inl (E_Api ''truncated response head''))
       | Some split \<Rightarrow>
           (let ls = split_on crlf_text (take split text);
              body = drop (split + 4) text;
              status_line = hd ls
            in case Option.bind (get (str_words status_line) 1) (parse_uint 65535) of
                None \<Rightarrow> Some (Inl (E_Api (''bad status line: '' @ status_line)))
              | Some status \<Rightarrow>
                  if list_ex is_chunked_line (tl ls) then map_option (\<lambda>b. Inr (status, b)) (dechunk body)
                  else Some (Inr (status, body))))"

section \<open>One attempt and the search over attempts\<close>

datatype 'a timed = Timed_Out | Failed string | Finished 'a

text \<open>What the stream does after the request is written; the end of the list is silence.\<close>

datatype read_event = Read bytes | Read_Error string

definition max_body :: nat where
  "max_body = 512 * 1024"

fun collect_reads :: "bytes \<Rightarrow> read_event list \<Rightarrow> bytes timed" where
  "collect_reads buffer [] = Timed_Out"
| "collect_reads buffer (Read_Error e # evs) = Failed e"
| "collect_reads buffer (Read chunk # evs) =
     (if chunk = [] then Finished buffer
      else let buffer = buffer @ chunk
        in if max_body < length buffer then Finished buffer else collect_reads buffer evs)"

record attempt =
  at_connect :: "unit timed"
  at_configure :: "tls_settings \<Rightarrow> string option"
  at_handshake :: "tls_settings \<Rightarrow> fragment_config \<Rightarrow> bytes option timed"
  at_write :: "bytes \<Rightarrow> string option"
  at_reads :: "bytes \<Rightarrow> read_event list"

definition timed_step :: "string \<Rightarrow> string \<Rightarrow> 'a timed \<Rightarrow> aether_error + 'a" where
  "timed_step what_timed_out what_failed t = (case t of
     Timed_Out \<Rightarrow> Inl (E_Api what_timed_out)
   | Failed e \<Rightarrow> Inl (E_Api (what_failed @ '': '' @ e))
   | Finished x \<Rightarrow> Inr x)"

definition exchange :: "api_request \<Rightarrow> socket_addr \<Rightarrow> fingerprint \<Rightarrow> attempt \<Rightarrow> (aether_error + api_response) panics" where
  "exchange request address f world = (
     let at = show_socket_addr address; config = fingerprint_configure f in
     qm (Some (timed_step (''connect to '' @ at @ '' timed out'') (''connect to '' @ at) (at_connect world))) (\<lambda>_.
     qm (Some (case at_configure world config of Some e \<Rightarrow> Inl (E_Tls e) | None \<Rightarrow> Inr ())) (\<lambda>_.
     qm (Some (timed_step (''tls handshake with '' @ at @ '' timed out'') (''tls handshake with '' @ at)
           (at_handshake world config (fingerprint_fragments f)))) (\<lambda>alpn.
       if alpn = Some (as_bytes ''h2'')
       then Some (Inl (E_Api (at @ '' negotiated http/2 which this path does not speak'')))
       else
         let wire = render_request request in
         qm (Some (timed_step (''exchange with '' @ at @ '' timed out'') (''exchange with '' @ at)
              (case at_write world wire of
                 Some e \<Rightarrow> Failed e
               | None \<Rightarrow> collect_reads [] (at_reads world wire)))) (\<lambda>collected.
         qm (parse_response collected) (\<lambda>(status, body).
           Some (Inr \<lparr>rs_status = status, rs_body = body, rs_route = at @ '' / '' @ fingerprint_label f\<rparr>)))))))"

definition is_success :: "nat \<Rightarrow> bool" where
  "is_success status \<longleftrightarrow> 200 \<le> status \<and> status < 300"

fun fetch_attempts ::
  "(fingerprint \<Rightarrow> socket_addr \<Rightarrow> (aether_error + api_response) panics) \<Rightarrow> (fingerprint \<times> socket_addr) list
    \<Rightarrow> api_response option \<Rightarrow> aether_error option \<Rightarrow> (aether_error + api_response) panics" where
  "fetch_attempts exch [] rejection failure = Some (case rejection of
       Some r \<Rightarrow> Inr r
     | None \<Rightarrow> Inl (case failure of Some e \<Rightarrow> e | None \<Rightarrow> E_Api ''every camouflaged route failed''))"
| "fetch_attempts exch ((f, a) # routes) rejection failure =
     (case exch f a of
        None \<Rightarrow> None
      | Some (Inr r) \<Rightarrow>
          if is_success (rs_status r) then Some (Inr r)
          else fetch_attempts exch routes (if rejection = None \<or> rs_status r \<noteq> 403 then Some r else rejection) failure
      | Some (Inl e) \<Rightarrow> fetch_attempts exch routes rejection (Some e))"

definition fetch_over :: "socket_addr list \<Rightarrow> (fingerprint \<Rightarrow> socket_addr \<Rightarrow> attempt) \<Rightarrow> api_request \<Rightarrow> (aether_error + api_response) panics" where
  "fetch_over addresses world request =
     (if addresses = [] then Some (Inl (E_Api ''no camouflaged route to the api was available''))
      else fetch_attempts (\<lambda>f a. exchange request a f (world f a))
        [(f, a). f \<leftarrow> all_fingerprints, a \<leftarrow> addresses] None None)"

text \<open>\<open>fetch\<close>: the outer option is the drawing loop that has not ended.\<close>

definition fetch :: "nat list \<Rightarrow> socket_addr list option \<Rightarrow> (fingerprint \<Rightarrow> socket_addr \<Rightarrow> attempt) \<Rightarrow> api_request
    \<Rightarrow> (aether_error + api_response) panics option" where
  "fetch rs resolved world request = map_option (\<lambda>addresses. fetch_over addresses world request) (candidates rs resolved)"

section \<open>Chunked bodies\<close>

lemma hex_digit_props:
  assumes "d < 16"
  shows "hex_val (hex_digit d) = Some d" "hex_digit d \<noteq> CHR '';''" "hex_digit d \<noteq> CHR ''+''" "hex_digit d \<noteq> CHR 0x0D"
    "\<not> is_ws (hex_digit d)" "byte_of (hex_digit d) < 0x80"
proof -
  have "d \<in> {0, 1, 2, 3, 4, 5, 6, 7, 8, 9, 10, 11, 12, 13, 14, 15}" using assms by simp presburger
  then have "hex_val (hex_digit d) = Some d \<and> hex_digit d \<noteq> CHR '';'' \<and> hex_digit d \<noteq> CHR ''+'' \<and> hex_digit d \<noteq> CHR 0x0D
    \<and> \<not> is_ws (hex_digit d) \<and> byte_of (hex_digit d) < 0x80"
    by (elim insertE emptyE) (simp_all add: hex_val_def hex_digit_def is_ws_def byte_of_def, (simp add: char_of_def)+)
  then show "hex_val (hex_digit d) = Some d" "hex_digit d \<noteq> CHR '';''" "hex_digit d \<noteq> CHR ''+''" "hex_digit d \<noteq> CHR 0x0D"
    "\<not> is_ws (hex_digit d)" "byte_of (hex_digit d) < 0x80" by blast+
qed

lemma show_hex_digit: "n < 16 \<Longrightarrow> show_hex n = [hex_digit n]"
  by (subst show_hex.simps) simp

lemma show_hex_step: "16 \<le> n \<Longrightarrow> show_hex n = show_hex (n div 16) @ [hex_digit (n mod 16)]"
  by (subst show_hex.simps) simp

lemma show_hex_chars: "c \<in> set (show_hex n) \<Longrightarrow> \<exists>d < 16. c = hex_digit d"
proof (induction n rule: show_hex.induct)
  case (1 n)
  show ?case
  proof (cases "n < 16")
    case True
    with 1(2) show ?thesis by (auto simp: show_hex_digit)
  next
    case False
    with 1 show ?thesis by (auto simp: show_hex_step [of n] intro: exI [of _ "n mod 16"])
  qed
qed

lemma show_hex_nonempty [simp]: "show_hex n \<noteq> []"
  by (cases "n < 16") (simp_all add: show_hex_digit show_hex_step)

lemma parse_hex_digits_append:
  "parse_hex_digits mx a (xs @ ys) = Option.bind (parse_hex_digits mx a xs) (\<lambda>a. parse_hex_digits mx a ys)"
  by (induction mx a xs rule: parse_hex_digits.induct) (auto split: option.split)

lemma parse_hex_digits_show: "n \<le> mx \<Longrightarrow> parse_hex_digits mx 0 (show_hex n) = Some n"
proof (induction n rule: show_hex.induct)
  case (1 n)
  show ?case
  proof (cases "n < 16")
    case True
    with 1(2) show ?thesis by (simp add: show_hex_digit hex_digit_props(1))
  next
    case False
    have m: "n mod 16 < 16" "16 * (n div 16) + n mod 16 = n" by simp_all
    have "n div 16 \<le> mx" using 1(2) by (meson div_le_dividend le_trans)
    with 1 False have "parse_hex_digits mx 0 (show_hex (n div 16)) = Some (n div 16)" by simp
    then show ?thesis using False 1(2) m hex_digit_props(1) [OF m(1)]
      by (simp add: show_hex_step [of n] parse_hex_digits_append)
  qed
qed

lemma parse_hex_show: "n \<le> mx \<Longrightarrow> parse_hex mx (show_hex n) = Some n"
proof -
  assume n: "n \<le> mx"
  have "hd (show_hex n) \<noteq> CHR ''+''"
    using show_hex_chars [of "hd (show_hex n)" n] hex_digit_props(3) by (metis hd_in_set show_hex_nonempty)
  then show ?thesis using parse_hex_digits_show [OF n] by (simp add: parse_hex_def)
qed

lemma trim_show_hex: "trim (show_hex n) = show_hex n"
  using show_hex_chars hex_digit_props(5) by (intro trim_id) (metis hd_in_set last_in_set show_hex_nonempty)+

text \<open>A pattern that starts with CR is not found before the first CR.\<close>

lemma find_sub_after:
  assumes "CHR 0x0D \<notin> set a"
  shows "find_sub (a @ CHR 0x0D # b) (CHR 0x0D # p) = map_option (\<lambda>i. length a + i) (find_sub (CHR 0x0D # b) (CHR 0x0D # p))"
  using assms
proof (induction a)
  case (Cons x a)
  then show ?case by (auto split: option.split)
qed (simp add: option.map_ident split: option.split)

lemma find_crlf:
  assumes "CHR 0x0D \<notin> set a"
  shows "find_sub (a @ crlf_text @ b) crlf_text = Some (length a)"
  using find_sub_after [OF assms, of "CHR 0x0A # b" "[CHR 0x0A]"] by (simp add: crlf_text_def)

lemma dechunk_bad_slice:
  assumes "cursor < length body" "str_slice body cursor (length body) = Some tail" "find_sub tail crlf_text = Some off"
    and "parse_hex (2 ^ 64 - 1) (trim (hd (split_by (\<lambda>c. c = CHR '';'') (take off tail)))) = Some sz" "0 < sz"
    and "cursor + off + 2 + sz \<le> length body" "str_slice body (cursor + off + 2) (cursor + off + 2 + sz) = None"
  shows "dechunk_from body cursor out = None"
  using assms by (subst dechunk_from.simps) (simp add: Let_def)

text \<open>The chunked coding of a list of chunks.\<close>

definition encode_chunk :: "string \<Rightarrow> string" where
  "encode_chunk c = show_hex (length c) @ crlf_text @ c @ crlf_text"

definition encode_chunks :: "string list \<Rightarrow> string" where
  "encode_chunks cs = concat (map encode_chunk cs) @ ''0'' @ crlf_text @ crlf_text"

definition starts_character :: "string \<Rightarrow> bool" where
  "starts_character s \<longleftrightarrow> s = [] \<or> \<not> utf8_cont (byte_of (hd s))"

lemma boundary_append: "starts_character b \<Longrightarrow> is_char_boundary (a @ b) (length a)"
  by (cases b) (auto simp: is_char_boundary_def starts_character_def nth_append)

lemma boundary_end [simp]: "is_char_boundary s (length s)"
  by (simp add: is_char_boundary_def)

lemma str_slice_mid:
  assumes "starts_character (b @ c)" "starts_character c" "i = length a" "j = length a + length b"
  shows "str_slice (a @ b @ c) i j = Some b"
proof -
  have "is_char_boundary ((a @ b) @ c) (length (a @ b))" using assms(2) by (rule boundary_append)
  then show ?thesis using assms boundary_append [OF assms(1), of a]
    by (simp add: str_slice_def slice_append_mid)
qed

lemma starts_character_ascii: "s \<noteq> [] \<Longrightarrow> byte_of (hd s) < 0x80 \<Longrightarrow> starts_character s"
  by (auto simp: starts_character_def utf8_cont_def linorder_not_le [symmetric])

lemma starts_character_crlf [simp]: "starts_character (crlf_text @ s)"
  by (simp add: starts_character_def crlf_text_def utf8_cont_def byte_of_def)

lemma starts_character_hex: "starts_character (show_hex n @ s)"
proof (rule starts_character_ascii)
  have "hd (show_hex n) \<in> set (show_hex n)" by (rule hd_in_set) simp
  then show "byte_of (hd (show_hex n @ s)) < 0x80"
    using show_hex_chars hex_digit_props(6) by (metis hd_append2 show_hex_nonempty)
qed simp

lemma starts_character_chunks: "starts_character (encode_chunks cs)"
proof (cases cs)
  case Nil
  then show ?thesis by (simp add: encode_chunks_def starts_character_def utf8_cont_def byte_of_def)
next
  case (Cons c cs)
  then show ?thesis using starts_character_hex by (simp add: encode_chunks_def encode_chunk_def)
qed

text \<open>Reading one chunk, and the last one.\<close>

lemma dechunk_step:
  assumes "0 < length c" and "length pre + length (show_hex (length c)) + 2 + length c < 2 ^ 64" and "starts_character c"
    and "length c \<le> 2 ^ 64 - 1"
  shows "dechunk_from (pre @ show_hex (length c) @ crlf_text @ c @ crlf_text @ post) (length pre) out
    = dechunk_from (pre @ show_hex (length c) @ crlf_text @ c @ crlf_text @ post)
        (length (pre @ show_hex (length c) @ crlf_text @ c @ crlf_text)) (out @ c)"
proof -
  let ?h = "show_hex (length c)"
  let ?b = "pre @ ?h @ crlf_text @ c @ crlf_text @ post"
  have tail: "str_slice ?b (length pre) (length ?b) = Some (?h @ crlf_text @ c @ crlf_text @ post)"
    using str_slice_mid [of "?h @ crlf_text @ c @ crlf_text @ post" "[]" "length pre" pre "length ?b"] starts_character_hex
    by (simp add: starts_character_def)
  have cr: "CHR 0x0D \<notin> set ?h" using show_hex_chars hex_digit_props(4) by metis
  have semi: "split_by (\<lambda>c. c = CHR '';'') ?h = [?h]"
    using show_hex_chars hex_digit_props(2) by (intro split_by_no_sep) metis
  have sl: "str_slice ?b (length pre + length ?h + 2) (length pre + length ?h + 2 + length c) = Some c"
    using str_slice_mid [of c "crlf_text @ post" "length pre + length ?h + 2" "pre @ ?h @ crlf_text"
        "length pre + length ?h + 2 + length c"] assms(1,3)
    by (simp add: crlf_text_def starts_character_def utf8_cont_def byte_of_def)
  show ?thesis
    by (subst dechunk_from.simps, simp only: tail option.case find_crlf [OF cr])
      (use assms sl in \<open>simp add: semi trim_show_hex parse_hex_show crlf_text_def add.assoc\<close>)
qed

lemma dechunk_last:
  "dechunk_from (pre @ ''0'' @ crlf_text @ post) (length pre) out = Some out"
proof -
  let ?b = "pre @ ''0'' @ crlf_text @ post"
  have tail: "str_slice ?b (length pre) (length ?b) = Some (''0'' @ crlf_text @ post)"
    using str_slice_mid [of "''0'' @ crlf_text @ post" "[]" "length pre" pre "length ?b"]
    by (simp add: starts_character_def utf8_cont_def byte_of_def)
  have "find_sub (''0'' @ crlf_text @ post) crlf_text = Some (length ''0'')" by (rule find_crlf) simp
  moreover have "parse_hex (2 ^ 64 - 1) (trim ''0'') = Some 0" by (simp add: parse_hex_def hex_val_def trim_id is_ws_def)
  ultimately show ?thesis
    by (subst dechunk_from.simps, simp only: tail option.case) simp
qed

lemma dechunk_chunks:
  assumes "\<forall>c \<in> set cs. c \<noteq> [] \<and> starts_character c" and "length (pre @ encode_chunks cs) < 2 ^ 64"
  shows "dechunk_from (pre @ encode_chunks cs @ post) (length pre) out = Some (out @ concat cs)"
  using assms
proof (induction cs arbitrary: pre out)
  case Nil
  then show ?case using dechunk_last [of pre "crlf_text @ post" out] by (simp add: encode_chunks_def)
next
  case (Cons c cs)
  let ?pre = "pre @ show_hex (length c) @ crlf_text @ c @ crlf_text"
  have e: "encode_chunks (c # cs) = show_hex (length c) @ crlf_text @ c @ crlf_text @ encode_chunks cs"
    by (simp add: encode_chunks_def encode_chunk_def)
  have l: "length pre + length (show_hex (length c)) + 2 + length c < 2 ^ 64" "length c \<le> 2 ^ 64 - 1"
    using Cons.prems(2) unfolding e by (simp_all add: crlf_text_def)
  have "dechunk_from (pre @ encode_chunks (c # cs) @ post) (length pre) out
    = dechunk_from (?pre @ encode_chunks cs @ post) (length ?pre) (out @ c)"
    using dechunk_step [of c pre "encode_chunks cs @ post" out] Cons.prems(1) l unfolding e by simp
  also have "\<dots> = Some ((out @ c) @ concat cs)"
    using Cons.prems unfolding e by (intro Cons.IH) simp_all
  finally show ?case by simp
qed

section \<open>Reading a response\<close>

lemma split_on_last: "CHR 0x0D \<notin> set l \<Longrightarrow> split_on crlf_text l = [l]"
proof -
  assume l: "CHR 0x0D \<notin> set l"
  have "find_sub l crlf_text = None"
  proof (rule ccontr)
    assume "find_sub l crlf_text \<noteq> None"
    then have "contains l crlf_text" by (simp add: contains_def)
    then show False using l by (auto simp: contains_iff crlf_text_def)
  qed
  then show ?thesis by (subst split_on.simps) simp
qed

lemma split_on_line: "CHR 0x0D \<notin> set l \<Longrightarrow> split_on crlf_text (l @ crlf_text @ s) = l # split_on crlf_text s"
  using find_crlf [of l s] by (subst split_on.simps) (simp add: crlf_text_def)

lemma split_on_join: "ls \<noteq> [] \<Longrightarrow> \<forall>l \<in> set ls. CHR 0x0D \<notin> set l \<Longrightarrow> split_on crlf_text (join_with crlf_text ls) = ls"
  by (induction crlf_text ls rule: join_with.induct) (simp_all add: split_on_last split_on_line)

lemma find_blank_line:
  assumes "ls \<noteq> []" and "\<forall>l \<in> set ls. CHR 0x0D \<notin> set l \<and> l \<noteq> []"
  shows "find_sub (join_with crlf_text ls @ crlf_text @ crlf_text @ body) (crlf_text @ crlf_text)
    = Some (length (join_with crlf_text ls))"
  using assms
proof (induction ls rule: induct_list012)
  case (2 l)
  then show ?case using find_sub_after [of l "CHR 0x0A # crlf_text @ body" "CHR 0x0A # crlf_text"]
    by (simp add: crlf_text_def)
next
  case (3 l m ls)
  have m: "CHR 0x0D \<notin> set m" "m \<noteq> []" using 3(4) by simp_all
  let ?t = "join_with crlf_text (m # ls) @ crlf_text @ crlf_text @ body"
  have ih: "find_sub ?t (crlf_text @ crlf_text) = Some (length (join_with crlf_text (m # ls)))"
    using 3(2,4) by simp
  obtain x t where x: "?t = x # t" "x \<noteq> CHR 0x0D"
    using m by (cases ls; cases m) auto
  have "find_sub (crlf_text @ ?t) (crlf_text @ crlf_text) = Some (length (join_with crlf_text (m # ls)) + 2)"
    using ih x by (simp add: crlf_text_def)
  then show ?case using find_sub_after [of l "CHR 0x0A # ?t" "CHR 0x0A # crlf_text"] 3(4)
    by (simp add: crlf_text_def)
qed simp

definition status_line :: "nat \<Rightarrow> string \<Rightarrow> string" where
  "status_line status reason = ''HTTP/1.1 '' @ show_nat status @ '' '' @ reason"

definition response_text :: "nat \<Rightarrow> string \<Rightarrow> string list \<Rightarrow> string \<Rightarrow> string" where
  "response_text status reason headers body =
     join_with crlf_text (status_line status reason # headers) @ crlf_text @ crlf_text @ body"

definition is_ascii :: "string \<Rightarrow> bool" where
  "is_ascii s \<longleftrightarrow> list_all (\<lambda>c. byte_of c < 0x80) s"

lemma ascii_text: "is_ascii s \<Longrightarrow> of_bytes (utf8_lossy (as_bytes s)) = s"
proof -
  assume "is_ascii s"
  then have "\<forall>b \<in> set (as_bytes s). b < 0x80" by (auto simp: is_ascii_def list_all_iff as_bytes_def)
  then show ?thesis by (simp add: utf8_lossy_ascii)
qed

lemma status_word: "str_words (status_line status reason) = ''HTTP/1.1'' # show_nat status # str_words reason"
proof -
  have "\<forall>c \<in> set ''HTTP/1.1''. \<not> is_ws c" by (simp add: is_ws_def)
  from split_by_append [OF this, of "CHR '' ''" "show_nat status @ '' '' @ reason"]
  have "split_by is_ws (status_line status reason) = ''HTTP/1.1'' # split_by is_ws (show_nat status @ '' '' @ reason)"
    by (simp add: status_line_def is_ws_def)
  moreover have "split_by is_ws (show_nat status @ CHR '' '' # reason) = show_nat status # split_by is_ws reason"
    using show_nat_no_ws by (intro split_by_append) (auto simp: is_ws_def)
  ultimately show ?thesis by (simp add: str_words_def)
qed

lemma parse_response_text:
  assumes "of_bytes (utf8_lossy raw) = response_text status reason headers body" and "status \<le> 65535"
    and "CHR 0x0D \<notin> set reason" and "\<forall>h \<in> set headers. CHR 0x0D \<notin> set h \<and> h \<noteq> []"
  shows "parse_response raw =
    (if list_ex is_chunked_line headers then map_option (\<lambda>b. Inr (status, b)) (dechunk body) else Some (Inr (status, body)))"
proof -
  let ?ls = "status_line status reason # headers"
  have "CHR 0x0D \<notin> set (show_nat status)"
    using show_nat_no_ws [of "CHR 0x0D" status] by (auto simp: is_ws_def)
  then have ls: "\<forall>l \<in> set ?ls. CHR 0x0D \<notin> set l \<and> l \<noteq> []" using assms(3,4) by (simp add: status_line_def)
  have f: "find_sub (response_text status reason headers body) (crlf_text @ crlf_text) = Some (length (join_with crlf_text ?ls))"
    unfolding response_text_def using ls by (intro find_blank_line) simp_all
  have s: "split_on crlf_text (join_with crlf_text ?ls) = ?ls" using ls by (intro split_on_join) simp_all
  have w: "get (str_words (status_line status reason)) 1 = Some (show_nat status)" by (simp add: status_word)
  have t: "take (length (join_with crlf_text ?ls)) (response_text status reason headers body) = join_with crlf_text ?ls"
    "drop (length (join_with crlf_text ?ls) + 4) (response_text status reason headers body) = body"
    by (simp_all add: response_text_def crlf_text_def)
  show ?thesis
    unfolding parse_response_def assms(1) Let_def f option.case t s list.sel w
    by (simp add: parse_uint_show [OF assms(2)])
qed

lemma of_bytes_append: "of_bytes (a @ b) = of_bytes a @ of_bytes b"
  by (simp add: of_bytes_def)

lemma utf8_lossy_ascii_append: "\<forall>b \<in> set a. b < 0x80 \<Longrightarrow> utf8_lossy (a @ bs) = a @ utf8_lossy bs"
  by (induction a) auto

section \<open>The addresses\<close>

lemma edge_address_inject: "random_edge_address r = random_edge_address s \<longleftrightarrow> r mod 254 = s mod 254"
proof
  assume "random_edge_address r = random_edge_address s"
  then have "ipv4_octets (ipv4_of 141 101 113 (of_nat (1 + r mod 254))) = ipv4_octets (ipv4_of 141 101 113 (of_nat (1 + s mod 254)))"
    by (simp add: random_edge_address_def)
  then have "unat (of_nat (1 + r mod 254) :: u8) = unat (of_nat (1 + s mod 254) :: u8)" by simp
  moreover have "1 + r mod 254 < 256" "1 + s mod 254 < 256"
    using mod_less_divisor [of 254 r] mod_less_divisor [of 254 s] by linarith+
  ultimately show "r mod 254 = s mod 254" unfolding unat_of_nat_u8 by simp
qed (simp add: random_edge_address_def)

lemma draw_edges_spec:
  assumes "distinct l" and "length l \<le> 3" and "set l \<subseteq> range random_edge_address"
  shows "(case draw_edges rs l of
      None \<Rightarrow> card (set l \<union> random_edge_address ` set rs) < 3
    | Some l' \<Rightarrow> 3 \<le> card (set l \<union> random_edge_address ` set rs) \<and> distinct l' \<and> length l' = 3
        \<and> set l' \<subseteq> range random_edge_address)"
  using assms
proof (induction rs arbitrary: l)
  case Nil
  then show ?case by (subst draw_edges.simps) (simp add: distinct_card)
next
  case (Cons r rs)
  show ?case
  proof (cases "3 \<le> length l")
    case True
    have "card (set l) \<le> card (set l \<union> random_edge_address ` set (r # rs))" by (intro card_mono) auto
    with True Cons.prems show ?thesis by (subst draw_edges.simps) (simp add: distinct_card)
  next
    case False
    let ?l = "if random_edge_address r \<notin> set l then l @ [random_edge_address r] else l"
    have u: "set ?l \<union> random_edge_address ` set rs = set l \<union> random_edge_address ` set (r # rs)" by auto
    have "distinct ?l" "length ?l \<le> 3" "set ?l \<subseteq> range random_edge_address" using Cons.prems False by auto
    from Cons.IH [OF this] show ?thesis
      unfolding u using False by (subst draw_edges.simps) (simp add: Let_def)
  qed
qed

lemma add_resolved_spec:
  "distinct l \<Longrightarrow> (let l' = foldl (\<lambda>l a. if a \<notin> set l then l @ [a] else l) l xs
     in distinct l' \<and> length l' \<le> length l + length xs \<and> set l' = set l \<union> set xs \<and> take (length l) l' = l)"
proof (induction xs rule: rev_induct)
  case (snoc x xs)
  then show ?case by (auto simp: Let_def)
qed simp

text \<open>The candidate addresses are drawn as soon as three different edge addresses have come up (and
  not before): three distinct hosts of \<open>141.101.113.0/24\<close> at port 443 and up to two IPv4 addresses of
  the resolver behind them, each address once.\<close>

theorem candidate_addresses:
  "case candidates rs resolved of
     None \<Rightarrow> card ((\<lambda>r. r mod 254) ` set rs) < 3
   | Some l \<Rightarrow> 3 \<le> card ((\<lambda>r. r mod 254) ` set rs) \<and> distinct l \<and> 3 \<le> length l \<and> length l \<le> 5
       \<and> set (take 3 l) \<subseteq> range random_edge_address
       \<and> list_all (\<lambda>a. is_v4 a \<and> (case resolved of Some found \<Rightarrow> a \<in> set found | None \<Rightarrow> False)) (drop 3 l)"
proof -
  have "random_edge_address ` set rs = (\<lambda>k. random_edge_address k) ` ((\<lambda>r. r mod 254) ` set rs)"
    using edge_address_inject by (force simp: image_iff)
  moreover have "inj_on random_edge_address ((\<lambda>r. r mod 254) ` set rs)"
    by (rule inj_onI) (auto simp: edge_address_inject)
  ultimately have card: "card (random_edge_address ` set rs) = card ((\<lambda>r. r mod 254) ` set rs)"
    by (simp add: card_image)
  have spec: "case draw_edges rs [] of
      None \<Rightarrow> card (random_edge_address ` set rs) < 3
    | Some l' \<Rightarrow> 3 \<le> card (random_edge_address ` set rs) \<and> distinct l' \<and> length l' = 3 \<and> set l' \<subseteq> range random_edge_address"
    using draw_edges_spec [of "[]" rs] by (simp split: option.splits)
  show ?thesis
  proof (cases "draw_edges rs []")
    case None
    with spec show ?thesis by (simp add: candidates_def card)
  next
    case (Some l)
    with spec have l: "3 \<le> card ((\<lambda>r. r mod 254) ` set rs)" "distinct l" "length l = 3" "set l \<subseteq> range random_edge_address"
      by (simp_all add: card)
    show ?thesis
    proof (cases resolved)
      case None
      with Some l show ?thesis by (simp add: candidates_def)
    next
      case found: (Some found)
      define xs where "xs = take 2 (filter is_v4 found)"
      define l' where "l' = foldl (\<lambda>l a. if a \<notin> set l then l @ [a] else l) l xs"
      have x: "length xs \<le> 2" "\<forall>a \<in> set xs. is_v4 a \<and> a \<in> set found"
        unfolding xs_def by (auto dest: in_set_takeD)
      have l': "distinct l'" "length l' \<le> 3 + length xs" "set l' = set l \<union> set xs" "take 3 l' = l"
        using add_resolved_spec [OF l(2), of xs] l(3) unfolding l'_def [symmetric] Let_def by simp_all
      have "set (drop 3 l') \<subseteq> set xs"
      proof
        fix a assume a: "a \<in> set (drop 3 l')"
        have "distinct (take 3 l' @ drop 3 l')" using l'(1) by simp
        then have "a \<notin> set l" using a l'(4) by auto
        then show "a \<in> set xs" using a l'(3) by (auto dest: in_set_dropD)
      qed
      moreover have "3 \<le> length l'" using arg_cong [OF l'(4), of length] l(3) by simp
      moreover have "candidates rs resolved = Some l'" using Some found by (simp add: candidates_def l'_def xs_def)
      ultimately show ?thesis using l l' x found by (auto simp: list_all_iff)
    qed
  qed
qed

section \<open>Properties of a response and of the search\<close>

text \<open>C22: A response of ASCII text, with non-empty header lines that hold no carriage return, is
  read back: the status of its status line, and its body, put together from its non-empty chunks when
  a header announces the chunked coding. For other text see \<open>split_character_panics\<close>.\<close>

theorem api_response_is_read:
  assumes "is_ascii (response_text status reason headers body)" and "status \<le> 65535"
    and "CHR 0x0D \<notin> set reason" and "\<forall>h \<in> set headers. CHR 0x0D \<notin> set h \<and> h \<noteq> []"
    and "body = (if list_ex is_chunked_line headers then encode_chunks cs else concat cs)"
    and "[] \<notin> set cs" and "length body < 2 ^ 64"
  shows "parse_response (as_bytes (response_text status reason headers body)) = Some (Inr (status, concat cs))"
proof (cases "list_ex is_chunked_line headers")
  case True
  then have b: "body = encode_chunks cs" using assms(5) by simp
  have "is_ascii (encode_chunks cs)" using assms(1) by (simp add: b is_ascii_def response_text_def)
  then have "is_ascii c" if "c \<in> set cs" for c
    using that by (auto simp: is_ascii_def list_all_iff encode_chunks_def encode_chunk_def)
  then have "\<forall>c \<in> set cs. c \<noteq> [] \<and> starts_character c"
    using assms(6) by (auto simp: is_ascii_def list_all_iff intro!: starts_character_ascii) (metis hd_in_set)
  then have "dechunk body = Some (concat cs)"
    using dechunk_chunks [of cs "[]" "[]" "[]"] assms(7) by (simp add: dechunk_def b)
  then show ?thesis using parse_response_text [OF ascii_text [OF assms(1)] assms(2,3,4)] True by simp
next
  case False
  then show ?thesis using parse_response_text [OF ascii_text [OF assms(1)] assms(2,3,4)] assms(5) by simp
qed

theorem api_response_is_read_witness:
  "parse_response (as_bytes (response_text 200 ''OK'' [''Transfer-Encoding: chunked''] (encode_chunks [''ab'', ''c''])))
    = Some (Inr (200, ''abc''))"
proof -
  have "is_chunked_line ''Transfer-Encoding: chunked''"
    by (simp add: is_chunked_line_def to_lowercase_def lower_char_def contains_def, simp add: char_of_def bit_0)
  then show ?thesis
    using api_response_is_read [of 200 "''OK''" "[''Transfer-Encoding: chunked'']"
        "encode_chunks [''ab'', ''c'']" "[''ab'', ''c'']"]
    by (simp add: is_ascii_def response_text_def status_line_def encode_chunks_def encode_chunk_def crlf_text_def
        show_nat_step show_nat_digit show_hex_digit hex_digit_def byte_of_def)
qed

text \<open>A chunk boundary inside a character: \<open>String::from_utf8_lossy\<close> runs before the chunks are put
  together, so the two halves of a two-byte character become replacement characters of three
  bytes, the size of the chunk ends inside one of them, and the slice panics.\<close>

theorem split_character_panics:
  assumes "0xc2 \<le> a" "a \<le> 0xdf" "0x80 \<le> b" "b \<le> 0xbf"
  shows "parse_response (as_bytes (response_text 200 ''OK'' [''Transfer-Encoding: chunked''] ''1'' @ crlf_text)
      @ [a] @ as_bytes (crlf_text @ ''1'' @ crlf_text) @ [b] @ as_bytes (crlf_text @ ''0'' @ crlf_text @ crlf_text)) = None"
proof -
  let ?h = "response_text 200 ''OK'' [''Transfer-Encoding: chunked'']"
  let ?r = "of_bytes utf8_replacement"
  let ?body = "(''1'' @ crlf_text) @ ?r @ (crlf_text @ ''1'' @ crlf_text @ ?r @ crlf_text @ ''0'' @ crlf_text @ crlf_text)"
  let ?raw = "as_bytes (?h ''1'' @ crlf_text)
      @ [a] @ as_bytes (crlf_text @ ''1'' @ crlf_text) @ [b] @ as_bytes (crlf_text @ ''0'' @ crlf_text @ crlf_text)"
  have "is_ascii (?h ''1'' @ crlf_text)"
    by (simp add: is_ascii_def response_text_def status_line_def crlf_text_def show_nat_step show_nat_digit byte_of_def)
  then have asc: "\<forall>x \<in> set (as_bytes (?h ''1'' @ crlf_text)). x < 0x80" by (auto simp: is_ascii_def list_all_iff as_bytes_def)
  have hi: "\<not> a < 0x80" "\<not> b < 0x80" "\<not> 0xc2 \<le> b" "\<not> 0xe0 \<le> b" "\<not> 0xf0 \<le> b" using assms by (simp_all add: word_le_nat_alt word_less_nat_alt)
  have nc: "\<not> utf8_cont (byte_of (CHR 0x0D))" by (simp add: utf8_cont_def byte_of_def)
  have "utf8_lossy ([a] @ as_bytes (crlf_text @ ''1'' @ crlf_text) @ [b] @ as_bytes (crlf_text @ ''0'' @ crlf_text @ crlf_text))
     = utf8_replacement @ as_bytes (crlf_text @ ''1'' @ crlf_text) @ utf8_replacement @ as_bytes (crlf_text @ ''0'' @ crlf_text @ crlf_text)"
    using assms hi nc by (simp add: crlf_text_def byte_of_def)
  note u = this
  have l: "of_bytes (utf8_lossy ?raw) = ?h ?body"
    unfolding utf8_lossy_ascii_append [OF asc] u of_bytes_append of_bytes_as_bytes
    by (simp add: response_text_def)
  have f: "find_sub ?body crlf_text = Some (length ''1'')"
    using find_crlf [of "''1''"] by simp
  have t: "str_slice ?body 0 (length ?body) = Some ?body"
    by (simp add: str_slice_def is_char_boundary_def)
  have n: "parse_hex (2 ^ 64 - 1) (trim (hd (split_by (\<lambda>c. c = CHR '';'') (take (length ''1'') ?body)))) = Some 1"
    by (simp add: parse_hex_def hex_val_def trim_id is_ws_def)
  have sl: "str_slice ?body (0 + length ''1'' + 2) (0 + length ''1'' + 2 + 1) = None"
    by (simp add: str_slice_def is_char_boundary_def crlf_text_def utf8_replacement_def of_bytes_def utf8_cont_def)
  have le: "0 < length ?body" "0 + length ''1'' + 2 + 1 \<le> length ?body"
    by (simp_all add: crlf_text_def utf8_replacement_def)
  have "dechunk ?body = None"
    unfolding dechunk_def by (rule dechunk_bad_slice [OF le(1) t f n _ le(2) sl]) simp
  moreover have "is_chunked_line ''Transfer-Encoding: chunked''"
    by (simp add: is_chunked_line_def to_lowercase_def lower_char_def contains_def, simp add: char_of_def bit_0)
  ultimately show ?thesis using parse_response_text [OF l] by simp
qed

theorem split_character_panics_witness:
  "parse_response (as_bytes (response_text 200 ''OK'' [''Transfer-Encoding: chunked''] ''1'' @ crlf_text)
      @ [0xc3] @ as_bytes (crlf_text @ ''1'' @ crlf_text) @ [0xa9] @ as_bytes (crlf_text @ ''0'' @ crlf_text @ crlf_text)) = None"
  by (rule split_character_panics) simp_all

text \<open>The answers and the errors of the attempts.\<close>

definition answers :: "(aether_error + api_response) list \<Rightarrow> api_response list" where
  "answers results = [r. Inr r \<leftarrow> results]"

definition errors :: "(aether_error + api_response) list \<Rightarrow> aether_error list" where
  "errors results = [e. Inl e \<leftarrow> results]"

lemma answers_simps [simp]:
  "answers [] = []" "answers (Inr r # rs) = r # answers rs" "answers (Inl e # rs) = answers rs"
  "answers (rs @ ts) = answers rs @ answers ts"
  by (simp_all add: answers_def)

lemma errors_simps [simp]:
  "errors [] = []" "errors (Inr r # rs) = errors rs" "errors (Inl e # rs) = e # errors rs"
  "errors (rs @ ts) = errors rs @ errors ts"
  by (simp_all add: errors_def)

text \<open>
  What the attempts of a request add up to: the first success; else the last answer that does not
  refuse the network (403); else the first answer; else the last error.
\<close>

definition best_rejection :: "api_response list \<Rightarrow> api_response option" where
  "best_rejection rs = (
     let telling = filter (\<lambda>r. rs_status r \<noteq> 403) rs
     in if telling \<noteq> [] then Some (last telling) else if rs \<noteq> [] then Some (hd rs) else None)"

definition verdict :: "(aether_error + api_response) list \<Rightarrow> aether_error + api_response" where
  "verdict results =
     (case filter (\<lambda>r. is_success (rs_status r)) (answers results) of
       r # _ \<Rightarrow> Inr r
     | [] \<Rightarrow>
         (case best_rejection (answers results) of
            Some r \<Rightarrow> Inr r
          | None \<Rightarrow> Inl (if errors results \<noteq> [] then last (errors results) else E_Api ''every camouflaged route failed'')))"

lemma fetch_attempts_verdict:
  assumes "\<forall>r \<in> set (answers before). \<not> is_success (rs_status r)"
  shows "fetch_attempts (\<lambda>f a. Some (res f a)) routes (best_rejection (answers before))
      (if errors before \<noteq> [] then Some (last (errors before)) else None)
    = Some (verdict (before @ map (\<lambda>(f, a). res f a) routes))"
  using assms
proof (induction routes arbitrary: before)
  case Nil
  then have "filter (\<lambda>r. is_success (rs_status r)) (answers before) = []" by (simp add: filter_empty_conv)
  then show ?case by (simp add: verdict_def split: option.split)
next
  case (Cons route routes)
  obtain f a where fa: "route = (f, a)" by (cases route)
  show ?case
  proof (cases "res f a")
    case (Inl e)
    then show ?thesis using Cons.IH [of "before @ [Inl e]"] Cons.prems by (simp add: fa)
  next
    case (Inr r)
    show ?thesis
    proof (cases "is_success (rs_status r)")
      case True
      have "filter (\<lambda>r. is_success (rs_status r)) (answers before) = []" using Cons.prems by (simp add: filter_empty_conv)
      with True Inr show ?thesis by (simp add: fa verdict_def)
    next
      case False
      have "best_rejection (answers before @ [r]) =
          (if best_rejection (answers before) = None \<or> rs_status r \<noteq> 403 then Some r else best_rejection (answers before))"
        by (auto simp: best_rejection_def Let_def filter_empty_conv)
      then have "fetch_attempts (\<lambda>f a. Some (res f a)) (route # routes) (best_rejection (answers before)) failure
          = fetch_attempts (\<lambda>f a. Some (res f a)) routes (best_rejection (answers before @ [r])) failure" for failure
        using False Inr by (simp only: fa fetch_attempts.simps) simp
      then show ?thesis using Cons.IH [of "before @ [Inr r]"] Cons.prems False Inr
        by (cases "errors before = []") (simp_all add: fa)
    qed
  qed
qed

text \<open>Trying the routes one after the other returns what a look at all their results would choose: the
  first success; else the last answer other than 403, else the first answer; else the last error.\<close>

theorem fetch_finds_the_verdict:
  "fetch_attempts (\<lambda>f a. Some (res f a)) routes None None = Some (verdict (map (\<lambda>(f, a). res f a) routes))"
  using fetch_attempts_verdict [of "[]" res routes] by (simp add: best_rejection_def)

end
