(* ===== verification/Account_Api.thy ===== *)
theory Account_Api
  imports Apifront Obfuscation
begin

text \<open>
  The account API calls of \<^verbatim>\<open>account.rs\<close>: the direct route with its retries, the camouflaged route
  behind it, and the four requests. JSON, base64, hex and curve arithmetic are third-party code and
  are parameters (\<open>api_libs\<close>); what the two routes answer is a parameter too, a function of the
  request. Pauses are collected in milliseconds.
\<close>

section \<open>Data\<close>

record registration =
  rg_key :: string
  rg_install_id :: string
  rg_fcm_token :: string
  rg_tos :: string
  rg_model :: string
  rg_serial_number :: string
  rg_os_version :: string
  rg_key_type :: string
  rg_tunnel_type :: string
  rg_locale :: string

record team_registration =
  tr_key :: string
  tr_install_id :: string
  tr_fcm_token :: string
  tr_tos :: string
  tr_model :: string
  tr_name :: string
  tr_serial_number :: string
  tr_locale :: string

record device_update =
  du_key :: string
  du_key_type :: string
  du_tunnel_type :: string
  du_name :: "string option"

record peer_endpoint =
  pe_v4 :: string
  pe_v6 :: string
  pe_host :: string

record peer =
  pr_public_key :: string
  pr_endpoint :: peer_endpoint

record account_info =
  ai_id :: string
  ai_account_type :: string
  ai_organization :: string

record addresses =
  ad_v4 :: string
  ad_v6 :: string

record interface_config =
  ic_addresses :: addresses

record services =
  sv_http_proxy :: string

record api_config =
  ac_interface :: interface_config
  ac_peers :: "peer list"
  ac_client_id :: string
  ac_services :: services

record account_data =
  dt_id :: string
  dt_token :: string
  dt_config :: api_config
  dt_account :: account_info

datatype json = J_Null | J_Bool bool | J_Int int | J_Float | J_Str string | J_Arr "json list" | J_Obj "(string \<times> json) list"

record api_libs =
  al_decode_account :: "string \<Rightarrow> string + account_data"
  al_show_status :: "nat \<Rightarrow> string"
  al_parse_json :: "string \<Rightarrow> json option"
  al_encode_registration :: "registration \<Rightarrow> string + bytes"
  al_encode_team :: "team_registration \<Rightarrow> string + bytes"
  al_encode_update :: "device_update \<Rightarrow> string + bytes"
  al_base64_encode :: "bytes \<Rightarrow> string"
  al_base64_decode :: "string \<Rightarrow> string + bytes"
  al_hex_encode :: "bytes \<Rightarrow> string"
  al_x25519_public :: "bytes \<Rightarrow> bytes"

definition team_registration_body :: "string \<Rightarrow> string \<Rightarrow> string \<Rightarrow> string \<Rightarrow> string \<Rightarrow> string \<Rightarrow> team_registration" where
  "team_registration_body install_id fcm_token tos public_key model locale_tag =
     \<lparr>tr_key = public_key, tr_install_id = install_id, tr_fcm_token = fcm_token, tr_tos = tos, tr_model = model,
      tr_name = install_id, tr_serial_number = install_id, tr_locale = locale_tag\<rparr>"

section \<open>Statuses and pauses\<close>

definition api_attempts :: nat where "api_attempts = 5"
definition api_backoff_base_ms :: nat where "api_backoff_base_ms = 900"
definition api_backoff_cap_ms :: nat where "api_backoff_cap_ms = 15000"
definition api_retry_after_cap_secs :: nat where "api_retry_after_cap_secs = 30"

text \<open>The draw is a \<open>u32\<close>; \<open>saturating_mul\<close> does not saturate, as the exponent is at most 5.\<close>

definition backoff_delay :: "nat \<Rightarrow> nat \<Rightarrow> nat" where
  "backoff_delay draw attempt = (
     let exponential = min (api_backoff_base_ms * 2 ^ min attempt 5) (2 ^ 64 - 1);
       capped = min exponential api_backoff_cap_ms;
       jitter = draw mod 2 ^ 32 mod (capped div 3 + 1)
     in capped div 2 + jitter)"

text \<open>The value of the \<open>Retry-After\<close> header, when it is text; the result is in milliseconds.\<close>

definition retry_after :: "string option \<Rightarrow> nat option" where
  "retry_after header = do {
     raw \<leftarrow> header;
     seconds \<leftarrow> parse_u64 (trim raw);
     Some (1000 * min seconds api_retry_after_cap_secs)
   }"

definition worth_retrying :: "nat \<Rightarrow> bool" where
  "worth_retrying status \<longleftrightarrow> status = 429 \<or> status = 408 \<or> (500 \<le> status \<and> status < 600)"

definition refuses_identity :: "nat \<Rightarrow> bool" where
  "refuses_identity status \<longleftrightarrow> status \<in> {401, 404, 410}"

definition api_url :: string where "api_url = ''https://api.cloudflareclient.com''"
definition api_version :: string where "api_version = ''v0a4471''"
definition cf_client_version :: string where "cf_client_version = ''a-6.35-4471''"
definition key_type_masque :: string where "key_type_masque = ''secp256r1''"
definition tun_type_masque :: string where "tun_type_masque = ''masque''"

function trim_start_matches :: "string \<Rightarrow> string \<Rightarrow> string" where
  "trim_start_matches p s = (if p \<noteq> [] \<and> starts_with s p then trim_start_matches p (drop (length p) s) else s)"
  by pat_completeness auto
termination by (relation "measure (\<lambda>(p, s). length s)") (auto simp: starts_with_iff)

declare trim_start_matches.simps [simp del]

definition api_host :: string where
  "api_host = hd (split_by (\<lambda>c. c = CHR ''/'') (trim_start_matches ''http://'' (trim_start_matches ''https://'' api_url)))"

definition front_headers :: "string option \<Rightarrow> string option \<Rightarrow> (string \<times> string) list" where
  "front_headers bearer jwt =
     [(''Content-Type'', ''application/json; charset=UTF-8''), (''User-Agent'', ua_register),
      (''CF-Client-Version'', cf_client_version), (''Accept'', ''application/json'')]
     @ (case bearer of Some token \<Rightarrow> [(''Authorization'', ''Bearer '' @ token)] | None \<Rightarrow> [])
     @ (case jwt of Some token \<Rightarrow> [(''CF-Access-Jwt-Assertion'', token)] | None \<Rightarrow> [])"

definition base_headers :: "(string \<times> string) list" where
  "base_headers = [(''Content-Type'', ''application/json; charset=UTF-8''), (''Connection'', ''Keep-Alive''),
     (''CF-Client-Version'', cf_client_version)]"

section \<open>Describing a rejection\<close>

definition show_int :: "int \<Rightarrow> string" where
  "show_int i = (if i < 0 then CHR ''-'' # show_nat (nat (- i)) else show_nat (nat i))"

definition json_get :: "json \<Rightarrow> string \<Rightarrow> json option" where
  "json_get v k = (case v of J_Obj members \<Rightarrow> map_of members k | _ \<Rightarrow> None)"

definition json_array :: "json \<Rightarrow> json list option" where
  "json_array v = (case v of J_Arr xs \<Rightarrow> Some xs | _ \<Rightarrow> None)"

definition json_str :: "json \<Rightarrow> string option" where
  "json_str v = (case v of J_Str s \<Rightarrow> Some s | _ \<Rightarrow> None)"

definition json_i64 :: "json \<Rightarrow> int option" where
  "json_i64 v = (case v of J_Int i \<Rightarrow> if - (2 ^ 63) \<le> i \<and> i < 2 ^ 63 then Some i else None | _ \<Rightarrow> None)"

definition describe_entry :: "json \<Rightarrow> string" where
  "describe_entry entry = (
     let message = (case Option.bind (json_get entry ''message'') json_str of Some m \<Rightarrow> m | None \<Rightarrow> ''unknown'')
     in case Option.bind (json_get entry ''code'') json_i64 of
         Some code \<Rightarrow> message @ '' (code '' @ show_int code @ '')''
       | None \<Rightarrow> message)"

definition extract_api_error :: "api_libs \<Rightarrow> string \<Rightarrow> string option" where
  "extract_api_error libs body = do {
     v \<leftarrow> al_parse_json libs body;
     field \<leftarrow> json_get v ''errors'';
     errors \<leftarrow> json_array field;
     (if errors = [] then None else Some (join_with ''; '' (map describe_entry errors)))
   }"

definition rejection_hint :: "nat \<Rightarrow> string" where
  "rejection_hint status =
     (if status = 403 then '' (cloudflare refused this network; the address looks flagged, ''
        @ ''try again later, switch network, or import an existing identity)''
      else if status = 429 then '' (too many registrations from this address; wait a few minutes '' @ ''before trying again)''
      else [])"

definition ellipsis :: string where
  "ellipsis = of_bytes [0xe2, 0x80, 0xa6]"

definition describe_rejection :: "api_libs \<Rightarrow> nat \<Rightarrow> string \<Rightarrow> string panics" where
  "describe_rejection libs status body = do {
     detail \<leftarrow> (case extract_api_error libs body of
         Some d \<Rightarrow> Some d
       | None \<Rightarrow>
           let trimmed = trim body in
           if trimmed = [] then Some ''no details returned''
           else if 220 < length trimmed then map_option (\<lambda>d. d @ ellipsis) (str_slice trimmed 0 220)
           else Some trimmed);
     Some (''status '' @ al_show_status libs status @ '': '' @ detail @ rejection_hint status)
   }"

definition describe_status :: "api_libs \<Rightarrow> nat \<Rightarrow> string \<Rightarrow> string panics" where
  "describe_status libs status body =
     (if 100 \<le> status \<and> status < 1000 then describe_rejection libs status body
      else Some (''status '' @ show_nat status @ '': '' @ body))"

section \<open>The direct route\<close>

text \<open>
  One attempt: the request cannot be built, it cannot be sent, or there is a response with its
  status, its \<open>Retry-After\<close> header and its body, which may fail to arrive.
\<close>

datatype http_outcome = Build_Error aether_error | Send_Error string | Response nat "string option" "string + string"

definition labelled :: "string \<Rightarrow> string \<Rightarrow> aether_error" where
  "labelled label text = E_Api (label @ '': '' @ text)"

definition decode_body :: "api_libs \<Rightarrow> string \<Rightarrow> string \<Rightarrow> string \<Rightarrow> aether_error + account_data" where
  "decode_body libs label route body = (case al_decode_account libs body of
     Inl e \<Rightarrow> Inl (E_Api (label @ '' decode'' @ route @ '': '' @ e @ ''; body='' @ body))
   | Inr a \<Rightarrow> Inr a)"

definition with_pauses :: "nat list \<Rightarrow> (nat list \<times> 'a) panics \<Rightarrow> (nat list \<times> 'a) panics" where
  "with_pauses ws m = map_option (\<lambda>(vs, r). (ws @ vs, r)) m"

text \<open>\<open>left\<close> attempts are left, \<open>attempt\<close> were made; the result has the pauses that were slept.\<close>

fun retry_from :: "api_libs \<Rightarrow> string \<Rightarrow> (nat \<Rightarrow> http_outcome) \<Rightarrow> (nat \<Rightarrow> nat) \<Rightarrow> nat \<Rightarrow> nat \<Rightarrow> aether_error
    \<Rightarrow> (nat list \<times> (aether_error + account_data)) panics" where
  "retry_from libs label send draw 0 attempt last_error = Some ([], Inl last_error)"
| "retry_from libs label send draw (Suc left) attempt last_error =
     with_pauses (if 0 < attempt then [backoff_delay (draw attempt) (attempt - 1)] else [])
       (case send attempt of
          Build_Error e \<Rightarrow> Some ([], Inl e)
        | Send_Error e \<Rightarrow> retry_from libs label send draw left (attempt + 1) (labelled label e)
        | Response status cooldown text \<Rightarrow>
            (case text of
               Inl e \<Rightarrow> Some ([], Inl (labelled label e))
             | Inr body \<Rightarrow>
                 if is_success status then Some ([], decode_body libs label [] body)
                 else do {
                   described \<leftarrow> describe_rejection libs status body;
                   (if refuses_identity status then Some ([], Inl (E_IdentityRefused (label @ '': '' @ described)))
                    else if \<not> worth_retrying status then Some ([], Inl (labelled label described))
                    else with_pauses (case retry_after cooldown of Some w \<Rightarrow> [w] | None \<Rightarrow> [])
                      (retry_from libs label send draw left (attempt + 1) (labelled label described)))
                 }))"

definition send_with_retry :: "api_libs \<Rightarrow> string \<Rightarrow> (nat \<Rightarrow> http_outcome) \<Rightarrow> (nat \<Rightarrow> nat)
    \<Rightarrow> (nat list \<times> (aether_error + account_data)) panics" where
  "send_with_retry libs label send draw =
     retry_from libs label send draw api_attempts 0 (labelled label ''no attempt was made'')"

section \<open>The camouflaged route\<close>

definition fallback_request :: "string \<Rightarrow> string \<Rightarrow> bytes option \<Rightarrow> string option \<Rightarrow> string option \<Rightarrow> api_request" where
  "fallback_request method path body bearer jwt =
     \<lparr>rq_method = method, rq_host = api_host, rq_path = path, rq_headers = front_headers bearer jwt, rq_body = body\<rparr>"

definition fallback_call :: "api_libs \<Rightarrow> (api_request \<Rightarrow> (aether_error + api_response) panics) \<Rightarrow> string \<Rightarrow> api_request
    \<Rightarrow> (aether_error + account_data) panics" where
  "fallback_call libs front label request =
     qm (front request) (\<lambda>r.
       if is_success (rs_status r) then Some (decode_body libs label ('' over '' @ rs_route r) (rs_body r))
       else do {
         text \<leftarrow> describe_status libs (rs_status r) (rs_body r);
         let described = label @ '' over '' @ rs_route r @ '': '' @ text;
         Some (Inl (if rs_status r \<in> {401, 404, 410} then E_IdentityRefused described else E_Api described))
       })"

section \<open>The requests\<close>

record direct_request =
  dr_method :: string
  dr_url :: string
  dr_headers :: "(string \<times> string) list"
  dr_body :: "bytes option"

record api_world =
  aw_direct :: "direct_request \<Rightarrow> nat \<Rightarrow> http_outcome"
  aw_draw :: "nat \<Rightarrow> nat"
  aw_front :: "api_request \<Rightarrow> (aether_error + api_response) panics"

type_synonym 'a api_call = "(nat list \<times> (aether_error + 'a)) panics"

definition direct_call :: "api_libs \<Rightarrow> api_world \<Rightarrow> string \<Rightarrow> direct_request \<Rightarrow> account_data api_call" where
  "direct_call libs w label req = send_with_retry libs label (aw_direct w req) (aw_draw w)"

text \<open>\<open>match direct { Ok(account) => .., Err(primary) => .. }\<close>.\<close>

definition on_failure :: "account_data api_call \<Rightarrow> (aether_error \<Rightarrow> (aether_error + account_data) panics) \<Rightarrow> account_data api_call" where
  "on_failure direct fallback = do {
     (ws, r) \<leftarrow> direct;
     (case r of
        Inr account \<Rightarrow> Some (ws, Inr account)
      | Inl primary \<Rightarrow> map_option (\<lambda>r. (ws, r)) (fallback primary))
   }"

definition both_failed :: "string \<Rightarrow> aether_error \<Rightarrow> aether_error \<Rightarrow> string" where
  "both_failed label primary secondary =
     label @ '': direct route -> '' @ show_error primary @ ''; camouflaged route -> '' @ show_error secondary"

definition clamp_key :: "bytes \<Rightarrow> bytes" where
  "clamp_key raw = (
     let raw = raw[0 := raw ! 0 AND 248];
       raw = raw[31 := raw ! 31 AND 127]
     in raw[31 := raw ! 31 OR 64])"

definition generate_x25519_keypair :: "api_libs \<Rightarrow> bytes \<Rightarrow> bytes \<times> string" where
  "generate_x25519_keypair libs raw = (
     let private = clamp_key raw
     in (private, al_base64_encode libs (al_x25519_public libs private)))"

definition bearer_header :: "string \<Rightarrow> string \<times> string" where
  "bearer_header token = (''Authorization'', ''Bearer '' @ token)"

definition jwt_header :: "string \<Rightarrow> string \<times> string" where
  "jwt_header token = (''CF-Access-Jwt-Assertion'', token)"

definition reg_path :: string where
  "reg_path = ''/'' @ api_version @ ''/reg''"

text \<open>The draws of a registration: the private key, the serial number; and the clock as text.\<close>

record reg_draws =
  rd_key :: bytes
  rd_serial :: bytes
  rd_tos :: string
  rd_install_id :: string
  rd_fcm_token :: string

definition registration_body :: "api_libs \<Rightarrow> reg_draws \<Rightarrow> string \<Rightarrow> string \<Rightarrow> string \<Rightarrow> registration" where
  "registration_body libs d wg_public model locale_tag =
     \<lparr>rg_key = wg_public, rg_install_id = [], rg_fcm_token = [], rg_tos = rd_tos d, rg_model = model,
      rg_serial_number = al_hex_encode libs (rd_serial d), rg_os_version = [], rg_key_type = ''curve25519'',
      rg_tunnel_type = ''wireguard'', rg_locale = locale_tag\<rparr>"

definition with_encoded :: "string + bytes \<Rightarrow> (bytes \<Rightarrow> 'a api_call) \<Rightarrow> 'a api_call" where
  "with_encoded e f = (case e of Inl e \<Rightarrow> Some ([], Inl (E_Api (''encode: '' @ e))) | Inr b \<Rightarrow> f b)"

text \<open>The part \<open>register\<close> and \<open>register_with_team\<close> have in common: two routes, one error.\<close>

definition register_over :: "api_libs \<Rightarrow> api_world \<Rightarrow> string \<Rightarrow> bytes \<Rightarrow> string option \<Rightarrow> bytes
    \<Rightarrow> (account_data \<times> bytes) api_call" where
  "register_over libs w label body jwt wg_private =
     map_option (\<lambda>(ws, r). (ws, map_sum id (\<lambda>account. (account, wg_private)) r))
       (on_failure
         (direct_call libs w label
            \<lparr>dr_method = ''POST'', dr_url = api_url @ reg_path,
             dr_headers = base_headers @ (case jwt of Some t \<Rightarrow> [jwt_header t] | None \<Rightarrow> []), dr_body = Some body\<rparr>)
         (\<lambda>primary. map_option
            (\<lambda>r. case r of Inr a \<Rightarrow> Inr a | Inl secondary \<Rightarrow> Inl (E_Api (both_failed label primary secondary)))
            (fallback_call libs (aw_front w) label (fallback_request ''POST'' reg_path (Some body) None jwt))))"

definition register :: "api_libs \<Rightarrow> api_world \<Rightarrow> reg_draws \<Rightarrow> string \<Rightarrow> string \<Rightarrow> string option
    \<Rightarrow> (account_data \<times> bytes) api_call" where
  "register libs w d model locale_tag jwt = (
     let (wg_private, wg_public) = generate_x25519_keypair libs (rd_key d)
     in with_encoded (al_encode_registration libs (registration_body libs d wg_public model locale_tag))
          (\<lambda>body. register_over libs w ''registration'' body jwt wg_private))"

definition register_with_team :: "api_libs \<Rightarrow> api_world \<Rightarrow> reg_draws \<Rightarrow> string \<Rightarrow> string \<Rightarrow> string
    \<Rightarrow> (account_data \<times> bytes) api_call" where
  "register_with_team libs w d model locale_tag token = (
     let (wg_private, wg_public) = generate_x25519_keypair libs (rd_key d)
     in with_encoded (al_encode_team libs
            (team_registration_body (rd_install_id d) (rd_fcm_token d) (rd_tos d) wg_public model locale_tag))
          (\<lambda>body. register_over libs w ''team registration'' body (Some token) wg_private))"

definition enroll_key :: "api_libs \<Rightarrow> api_world \<Rightarrow> string \<Rightarrow> string \<Rightarrow> bytes \<Rightarrow> string option \<Rightarrow> account_data api_call" where
  "enroll_key libs w device_id token spki_der name = (
     let path = reg_path @ ''/'' @ device_id;
       body = \<lparr>du_key = al_base64_encode libs spki_der, du_key_type = key_type_masque, du_tunnel_type = tun_type_masque, du_name = name\<rparr>
     in with_encoded (al_encode_update libs body) (\<lambda>body.
       on_failure
         (direct_call libs w ''key enrollment''
            \<lparr>dr_method = ''PATCH'', dr_url = api_url @ path, dr_headers = base_headers @ [bearer_header token], dr_body = Some body\<rparr>)
         (\<lambda>primary. map_option
            (\<lambda>r. case r of
               Inr a \<Rightarrow> Inr a
             | Inl secondary \<Rightarrow>
                 let combined = both_failed ''key enrollment'' primary secondary in
                 (case (primary, secondary) of
                    (E_IdentityRefused _, _) \<Rightarrow> Inl (E_IdentityRefused combined)
                  | (_, E_IdentityRefused _) \<Rightarrow> Inl (E_IdentityRefused combined)
                  | _ \<Rightarrow> Inl (E_Api combined)))
            (fallback_call libs (aw_front w) ''key enrollment''
               (fallback_request ''PATCH'' path (Some body) (Some token) None)))))"

definition fetch_device :: "api_libs \<Rightarrow> api_world \<Rightarrow> string \<Rightarrow> string \<Rightarrow> account_data api_call" where
  "fetch_device libs w device_id token = (
     let path = reg_path @ ''/'' @ device_id in
     on_failure
       (direct_call libs w ''device refresh''
          \<lparr>dr_method = ''GET'', dr_url = api_url @ path, dr_headers = base_headers @ [bearer_header token], dr_body = None\<rparr>)
       (\<lambda>_. fallback_call libs (aw_front w) ''device refresh''
          (fallback_request ''GET'' path None (Some token) None)))"

section \<open>What the direct route decides\<close>

definition definitive :: "http_outcome \<Rightarrow> bool" where
  "definitive o' = (case o' of
     Build_Error _ \<Rightarrow> True
   | Send_Error _ \<Rightarrow> False
   | Response status _ text \<Rightarrow> (case text of Inl _ \<Rightarrow> True | Inr _ \<Rightarrow> is_success status \<or> \<not> worth_retrying status))"

definition decided :: "api_libs \<Rightarrow> string \<Rightarrow> http_outcome \<Rightarrow> aether_error + account_data" where
  "decided libs label o' = (case o' of
     Build_Error e \<Rightarrow> Inl e
   | Send_Error e \<Rightarrow> Inl (labelled label e)
   | Response status _ text \<Rightarrow>
       (case text of
          Inl e \<Rightarrow> Inl (labelled label e)
        | Inr body \<Rightarrow>
            if is_success status then decode_body libs label [] body
            else (case describe_rejection libs status body of
                None \<Rightarrow> Inl (labelled label [])
              | Some d \<Rightarrow> if refuses_identity status then Inl (E_IdentityRefused (label @ '': '' @ d)) else Inl (labelled label d))))"

definition longest_backoff :: "nat \<Rightarrow> nat" where
  "longest_backoff attempt = (let capped = min (900 * 2 ^ min attempt 5) 15000 in capped div 2 + capped div 3)"

lemma backoff_delay_le: "backoff_delay draw attempt \<le> longest_backoff attempt"
proof -
  have "(2 :: nat) ^ min attempt 5 \<le> 2 ^ 5" by (intro power_increasing) simp_all
  then have "(900 :: nat) * 2 ^ min attempt 5 \<le> 18446744073709551615" by simp
  then have c: "min (min (900 * 2 ^ min attempt 5) 18446744073709551615) 15000 = min (900 * 2 ^ min attempt 5) (15000 :: nat)"
    by simp
  have "x mod Suc (n div 3) \<le> n div 3" for x n :: nat
    by (metis less_Suc_eq_le mod_less_divisor zero_less_Suc)
  then show ?thesis
    by (simp add: backoff_delay_def longest_backoff_def api_backoff_base_ms_def api_backoff_cap_ms_def c Let_def)
qed

lemma retry_after_le: "retry_after h = Some w \<Longrightarrow> w \<le> 30000"
  by (auto simp: retry_after_def api_retry_after_cap_secs_def split: Option.bind_splits)

lemma with_pauses_eq_Some: "with_pauses ws m = Some (vs, r) \<longleftrightarrow> (\<exists>us. m = Some (us, r) \<and> vs = ws @ us)"
  by (auto simp: with_pauses_def)

lemma refuses_not_retryable: "refuses_identity status \<Longrightarrow> \<not> worth_retrying status \<and> \<not> is_success status"
  by (auto simp: refuses_identity_def worth_retrying_def is_success_def)

lemma retry_from_decides:
  "retry_from libs label send draw left attempt last_error = Some (ws, r) \<Longrightarrow>
     (case find definitive (map send [attempt..<attempt + left]) of
        Some o' \<Rightarrow> r = decided libs label o'
      | None \<Rightarrow> if left = 0 then r = Inl last_error else r = decided libs label (send (attempt + left - 1)))"
proof (induction left arbitrary: attempt last_error ws)
  case (Suc left)
  let ?o = "send attempt"
  have upt: "[attempt..<Suc (attempt + left)] = attempt # [Suc attempt..<Suc (attempt + left)]"
    by (simp add: upt_rec)
  from Suc.prems obtain us where body: "(case ?o of
          Build_Error e \<Rightarrow> Some ([], Inl e)
        | Send_Error e \<Rightarrow> retry_from libs label send draw left (attempt + 1) (labelled label e)
        | Response status cooldown text \<Rightarrow>
            (case text of
               Inl e \<Rightarrow> Some ([], Inl (labelled label e))
             | Inr body \<Rightarrow>
                 if is_success status then Some ([], decode_body libs label [] body)
                 else do {
                   described \<leftarrow> describe_rejection libs status body;
                   (if refuses_identity status then Some ([], Inl (E_IdentityRefused (label @ '': '' @ described)))
                    else if \<not> worth_retrying status then Some ([], Inl (labelled label described))
                    else with_pauses (case retry_after cooldown of Some w \<Rightarrow> [w] | None \<Rightarrow> [])
                      (retry_from libs label send draw left (attempt + 1) (labelled label described)))
                 })) = Some (us, r)"
    by (auto simp: with_pauses_eq_Some)
  show ?case
  proof (cases "definitive ?o")
    case True
    then have "r = decided libs label ?o"
      using body refuses_not_retryable
      by (auto simp: definitive_def decided_def split: http_outcome.splits sum.splits if_splits Option.bind_splits)
    with True show ?thesis by (simp add: upt del: upt_Suc)
  next
    case False
    obtain e vs where e: "decided libs label ?o = Inl e" "retry_from libs label send draw left (Suc attempt) e = Some (vs, r)"
      using body False refuses_not_retryable
      by (auto simp: definitive_def decided_def with_pauses_eq_Some split: http_outcome.splits sum.splits if_splits Option.bind_splits)
    have fd: "find definitive (map send [attempt..<attempt + Suc left])
        = find definitive (map send [Suc attempt..<Suc attempt + left])"
      using False by (simp add: upt del: upt_Suc)
    show ?thesis
    proof (cases left)
      case 0
      with fd e show ?thesis by simp
    next
      case (Suc n)
      with Suc.IH [OF e(2)] show ?thesis
        unfolding fd by (auto simp del: upt_Suc split: option.splits)
    qed
  qed
qed simp

definition pause_limit :: "nat \<Rightarrow> nat" where
  "pause_limit k = (if 0 < k then longest_backoff (k - 1) else 0) + 30000"

lemma retry_from_pauses:
  "retry_from libs label send draw left attempt last_error = Some (ws, r) \<Longrightarrow>
     sum_list ws \<le> sum_list (map pause_limit [attempt..<attempt + left])"
proof (induction left arbitrary: attempt last_error ws)
  case (Suc left)
  let ?o = "send attempt"
  let ?b = "if 0 < attempt then [backoff_delay (draw attempt) (attempt - 1)] else []"
  have upt: "[attempt..<Suc (attempt + left)] = attempt # [Suc attempt..<Suc (attempt + left)]"
    by (simp add: upt_rec)
  have b: "sum_list ?b + 30000 \<le> pause_limit attempt"
    using backoff_delay_le by (simp add: pause_limit_def)
  have cool: "sum_list (case retry_after c of Some w \<Rightarrow> [w] | None \<Rightarrow> []) \<le> 30000" for c
    by (auto dest: retry_after_le split: option.split)
  from Suc.prems consider "ws = ?b"
    | e vs c where "retry_from libs label send draw left (Suc attempt) e = Some (vs, r)"
        "ws = ?b @ (case retry_after c of Some w \<Rightarrow> [w] | None \<Rightarrow> []) @ vs"
    | e vs where "retry_from libs label send draw left (Suc attempt) e = Some (vs, r)" "ws = ?b @ vs"
    by (cases ?o) (auto simp: with_pauses_eq_Some split: sum.splits if_splits Option.bind_splits)
  then show ?case
  proof cases
    case 1
    with b show ?thesis by (simp add: upt del: upt_Suc)
  next
    case (2 e vs c)
    from Suc.IH [OF 2(1)] b cool [of c] 2(2) show ?thesis by (simp add: upt del: upt_Suc)
  next
    case (3 e vs)
    from Suc.IH [OF 3(1)] b 3(2) show ?thesis by (simp add: upt del: upt_Suc)
  qed
qed simp

lemma retry_from_panics:
  "retry_from libs label send draw left attempt last_error = None \<Longrightarrow>
     \<exists>k < attempt + left. \<exists>status c body. send k = Response status c (Inr body) \<and> describe_rejection libs status body = None"
proof (induction left arbitrary: attempt last_error)
  case (Suc left)
  let ?o = "send attempt"
  from Suc.prems consider e where "retry_from libs label send draw left (Suc attempt) e = None"
    | status c body where "?o = Response status c (Inr body)" "describe_rejection libs status body = None"
    by (cases ?o) (auto simp: with_pauses_def split: sum.splits if_splits bind_split_asm)
  then show ?case
  proof cases
    case (1 e)
    from Suc.IH [OF this] show ?thesis by simp
  next
    case (2 status c body)
    then show ?thesis by (intro exI [of _ attempt] conjI exI) simp_all
  qed
qed simp

lemma pause_limits: "sum_list (map pause_limit [0..<5]) = 161250"
  by (simp add: upt_rec pause_limit_def longest_backoff_def)

text \<open>The direct route is asked at most five times and its answer is that of the first attempt that
  settles the matter (a success, a response that is not worth retrying, a body that does not
  arrive), or the error of the fifth; it sleeps for at most 161.25 seconds; and it panics only
  where the description of some response does.\<close>

theorem direct_route_decides:
  "case send_with_retry libs label send draw of
     Some (ws, r) \<Rightarrow>
       r = decided libs label (case find definitive (map send [0..<5]) of Some o' \<Rightarrow> o' | None \<Rightarrow> send 4)
       \<and> sum_list ws \<le> 161250
   | None \<Rightarrow> \<exists>k < 5. \<exists>status c body. send k = Response status c (Inr body) \<and> describe_rejection libs status body = None"
proof (cases "send_with_retry libs label send draw")
  case None
  then show ?thesis using retry_from_panics [of libs label send draw 5 0] by (simp add: send_with_retry_def api_attempts_def)
next
  case (Some x)
  obtain ws r where x: "x = (ws, r)" by (cases x)
  then have "retry_from libs label send draw 5 0 (labelled label ''no attempt was made'') = Some (ws, r)"
    using Some by (simp add: send_with_retry_def api_attempts_def)
  from retry_from_decides [OF this] retry_from_pauses [OF this] show ?thesis
    unfolding Some x by (auto simp: pause_limits simp del: upt_Suc upt_rec_numeral split: option.splits)
qed

text \<open>A rejection whose body is no API error and has more than 220 bytes is cut at byte 220 whether or
  not a character starts there: where none does, the whole call panics.\<close>

theorem rejection_cut_inside_a_character_panics:
  assumes "send 0 = Response status c (Inr body)" "\<not> is_success status"
    and "extract_api_error libs body = None" "220 < length (trim body)" "utf8_cont (byte_of (trim body ! 220))"
  shows "send_with_retry libs label send draw = None"
proof -
  have "describe_rejection libs status body = None"
    using assms by (auto simp: describe_rejection_def Let_def str_slice_def is_char_boundary_def)
  then show ?thesis using assms(1,2)
    by (simp add: send_with_retry_def api_attempts_def numeral_eq_Suc with_pauses_def)
qed

text \<open>Libraries for examples: nothing decodes, keys and texts are left as they are.\<close>

definition plain_libs :: api_libs where
  "plain_libs = \<lparr>al_decode_account = (\<lambda>_. Inl ''no account''), al_show_status = show_nat, al_parse_json = (\<lambda>_. None),
     al_encode_registration = (\<lambda>_. Inr []), al_encode_team = (\<lambda>_. Inr []), al_encode_update = (\<lambda>_. Inr []),
     al_base64_encode = of_bytes, al_base64_decode = (\<lambda>s. Inr (as_bytes s)), al_hex_encode = of_bytes,
     al_x25519_public = (\<lambda>k. k)\<rparr>"

theorem rejection_cut_inside_a_character_panics_witness:
  "send_with_retry plain_libs ''registration''
     (\<lambda>_. Response 403 None (Inr (replicate 219 (CHR ''a'') @ [char_at 0xc3, char_at 0xa9, CHR ''b'']))) (\<lambda>_. 0) = None"
proof -
  let ?body = "replicate 219 (CHR ''a'') @ [char_at 0xc3, char_at 0xa9, CHR ''b'']"
  have t: "trim ?body = ?body" by (rule trim_id) (simp_all add: is_ws_def hd_append)
  have n: "?body ! 220 = char_at 0xa9" by (simp add: nth_append)
  have "extract_api_error plain_libs ?body = None" by (simp add: extract_api_error_def plain_libs_def)
  moreover have "220 < length (trim ?body)" "utf8_cont (byte_of (trim ?body ! 220))"
    unfolding t n by (simp_all add: utf8_cont_def)
  ultimately show ?thesis
    by (intro rejection_cut_inside_a_character_panics [of _ 403 None ?body]) (simp_all add: is_success_def)
qed

end
