(* ===== verification/Account.thy ===== *)
theory Account
  imports Account_Api
begin

text \<open>
  The identity of \<^verbatim>\<open>account.rs\<close>: what a registration turns into, how a saved profile is refreshed, and
  when the MASQUE certificate is kept, renewed or given up. The clock is an argument; a generated
  key pair is an argument, or the text of the TLS library's error.
\<close>

record identity =
  id_device_id :: string
  id_access_token :: string
  id_cert_pem :: bytes
  id_key_pem :: bytes
  id_cert_issued_at :: nat
  id_ipv4 :: string
  id_ipv6 :: string
  id_wg_private_key :: bytes
  id_wg_peer_public_key :: bytes
  id_client_id :: bytes
  id_organization :: string
  id_gateway_proxy :: string
  id_assigned_endpoint :: string
  id_refused :: bool

record masque_keypair =
  mk_key_pem :: bytes
  mk_cert_pem :: bytes
  mk_spki_der :: bytes

record masque_enrollment =
  me_cert_pem :: bytes
  me_key_pem :: bytes
  me_issued_at :: nat
  me_renewed :: bool
  me_assigned_endpoint :: string

section \<open>Reading a registration\<close>

definition extract_wg_peer :: "api_libs \<Rightarrow> account_data \<Rightarrow> aether_error + bytes" where
  "extract_wg_peer libs reg = (case ac_peers (dt_config reg) of
     [] \<Rightarrow> Inl (E_Api ''no peers in registration response'')
   | p # _ \<Rightarrow>
       (case al_base64_decode libs (pr_public_key p) of
          Inl e \<Rightarrow> Inl (E_Api (''decode peer pubkey: '' @ e))
        | Inr decoded \<Rightarrow>
            if length decoded \<noteq> 32 then Inl (E_Api ''invalid peer pubkey length'') else Inr decoded))"

definition rsplit_once :: "char \<Rightarrow> string \<Rightarrow> (string \<times> string) option" where
  "rsplit_once c s = map_option (\<lambda>(b, a). (rev a, rev b)) (split_once c (rev s))"

definition endpoint_from :: "account_data \<Rightarrow> string" where
  "endpoint_from reg = (
     let raw = (case ac_peers (dt_config reg) of p # _ \<Rightarrow> trim (pe_v4 (pr_endpoint p)) | [] \<Rightarrow> [])
     in case rsplit_once (CHR '':'') raw of
         Some (host, _) \<Rightarrow> if host \<noteq> [] then host else raw
       | None \<Rightarrow> raw)"

definition client_id_of :: "api_libs \<Rightarrow> string \<Rightarrow> bytes" where
  "client_id_of libs client_id =
     (if client_id = [] then [0, 0, 0]
      else case al_base64_decode libs client_id of
          Inr decoded \<Rightarrow> if length decoded = 3 then decoded else [0, 0, 0]
        | Inl _ \<Rightarrow> [0, 0, 0])"

definition finish_provision :: "api_libs \<Rightarrow> account_data \<Rightarrow> bytes \<Rightarrow> aether_error + identity" where
  "finish_provision libs reg wg_private =
     (if dt_token reg = [] then Inl (E_Api ''registration returned empty token'')
      else case extract_wg_peer libs reg of
          Inl e \<Rightarrow> Inl e
        | Inr wg_peer_public \<Rightarrow> Inr
            \<lparr>id_device_id = dt_id reg, id_access_token = dt_token reg, id_cert_pem = [], id_key_pem = [],
             id_cert_issued_at = 0, id_ipv4 = ad_v4 (ic_addresses (ac_interface (dt_config reg))),
             id_ipv6 = ad_v6 (ic_addresses (ac_interface (dt_config reg))), id_wg_private_key = wg_private,
             id_wg_peer_public_key = wg_peer_public, id_client_id = client_id_of libs (ac_client_id (dt_config reg)),
             id_organization = trim (ai_organization (dt_account reg)),
             id_gateway_proxy = trim (sv_http_proxy (ac_services (dt_config reg))),
             id_assigned_endpoint = endpoint_from reg, id_refused = False\<rparr>)"

definition finish_call :: "api_libs \<Rightarrow> (account_data \<times> bytes) api_call \<Rightarrow> identity api_call" where
  "finish_call libs call = map_option
     (\<lambda>(ws, r). (ws, case r of Inl e \<Rightarrow> Inl e | Inr (reg, wg_private) \<Rightarrow> finish_provision libs reg wg_private)) call"

definition provision_wg :: "api_libs \<Rightarrow> api_world \<Rightarrow> reg_draws \<Rightarrow> string \<Rightarrow> string \<Rightarrow> string option \<Rightarrow> identity api_call" where
  "provision_wg libs w d model locale_tag jwt = finish_call libs (register libs w d model locale_tag jwt)"

text \<open>\<open>token\<close> is the result of \<open>zerotrust::resolve_token\<close>.\<close>

definition provision_team :: "api_libs \<Rightarrow> api_world \<Rightarrow> reg_draws \<Rightarrow> string \<Rightarrow> string \<Rightarrow> aether_error + string \<Rightarrow> identity api_call" where
  "provision_team libs w d model locale_tag token = (case token of
     Inl e \<Rightarrow> Some ([], Inl e)
   | Inr t \<Rightarrow> finish_call libs (register_with_team libs w d model locale_tag t))"

section \<open>Refreshing a profile\<close>

definition merge_profile :: "identity \<Rightarrow> account_data \<Rightarrow> identity" where
  "merge_profile i reg = (
     let ipv4 = trim (ad_v4 (ic_addresses (ac_interface (dt_config reg))));
       ipv6 = trim (ad_v6 (ic_addresses (ac_interface (dt_config reg))))
     in i\<lparr>id_ipv4 := if ipv4 = [] then id_ipv4 i else ipv4,
         id_ipv6 := if ipv6 = [] then id_ipv6 i else ipv6,
         id_organization := trim (ai_organization (dt_account reg)),
         id_gateway_proxy := trim (sv_http_proxy (ac_services (dt_config reg))),
         id_assigned_endpoint := endpoint_from reg,
         id_refused := False\<rparr>)"

definition refresh_profile :: "api_libs \<Rightarrow> api_world \<Rightarrow> identity \<Rightarrow> (nat list \<times> identity) panics" where
  "refresh_profile libs w i = map_option
     (\<lambda>(ws, r). (ws, case r of
        Inr reg \<Rightarrow> merge_profile i reg
      | Inl (E_IdentityRefused _) \<Rightarrow> i\<lparr>id_refused := True\<rparr>
      | Inl _ \<Rightarrow> i))
     (fetch_device libs w (id_device_id i) (id_access_token i))"

section \<open>The MASQUE certificate\<close>

definition masque_cert_lifetime_days :: nat where "masque_cert_lifetime_days = 365"
definition masque_cert_lifetime_secs :: nat where "masque_cert_lifetime_secs = masque_cert_lifetime_days * 86400"
definition masque_cert_renew_before_secs :: nat where "masque_cert_renew_before_secs = 7 * 86400"

text \<open>\<open>age + RENEW_BEFORE\<close> stays inside \<open>u64\<close> for every clock value below \<open>2^64 - 604800\<close>.\<close>

definition masque_cert_expiring :: "nat \<Rightarrow> nat \<Rightarrow> bool" where
  "masque_cert_expiring now issued_at =
     (if issued_at = 0 then True
      else if now < issued_at then True
      else masque_cert_lifetime_secs \<le> (now - issued_at) + masque_cert_renew_before_secs)"

definition cert_still_usable :: "nat \<Rightarrow> identity \<Rightarrow> bool" where
  "cert_still_usable now i =
     (if id_cert_pem i = [] \<or> id_key_pem i = [] then False
      else if id_cert_issued_at i = 0 then False
      else if now < id_cert_issued_at i then False
      else now - id_cert_issued_at i < masque_cert_lifetime_secs)"

definition has_masque_credentials :: "nat \<Rightarrow> identity \<Rightarrow> bool" where
  "has_masque_credentials now i \<longleftrightarrow>
     id_cert_pem i \<noteq> [] \<and> id_key_pem i \<noteq> [] \<and> \<not> masque_cert_expiring now (id_cert_issued_at i)"

definition kept_enrollment :: "identity \<Rightarrow> masque_enrollment" where
  "kept_enrollment i = \<lparr>me_cert_pem = id_cert_pem i, me_key_pem = id_key_pem i, me_issued_at = id_cert_issued_at i,
     me_renewed = False, me_assigned_endpoint = id_assigned_endpoint i\<rparr>"

text \<open>The clock is read once more after the enrollment: \<open>after\<close>.\<close>

definition renew_masque_certificate ::
  "api_libs \<Rightarrow> api_world \<Rightarrow> string + masque_keypair \<Rightarrow> nat \<Rightarrow> identity \<Rightarrow> masque_enrollment api_call" where
  "renew_masque_certificate libs w keypair after i = (case keypair of
     Inl e \<Rightarrow> Some ([], Inl (E_Tls e))
   | Inr kp \<Rightarrow> map_option
       (\<lambda>(ws, r). (ws, case r of
          Inr updated \<Rightarrow> Inr \<lparr>me_cert_pem = mk_cert_pem kp, me_key_pem = mk_key_pem kp, me_issued_at = after,
              me_renewed = True, me_assigned_endpoint = endpoint_from updated\<rparr>
        | Inl (E_IdentityRefused reason) \<Rightarrow> Inl (E_IdentityRefused reason)
        | Inl e \<Rightarrow> if cert_still_usable after i then Inr (kept_enrollment i) else Inl e))
       (enroll_key libs w (id_device_id i) (id_access_token i) (mk_spki_der kp) None))"

definition ensure_masque_enrolled ::
  "api_libs \<Rightarrow> api_world \<Rightarrow> string + masque_keypair \<Rightarrow> nat \<Rightarrow> nat \<Rightarrow> identity \<Rightarrow> masque_enrollment api_call" where
  "ensure_masque_enrolled libs w keypair now after i =
     (if id_cert_pem i \<noteq> [] \<and> id_key_pem i \<noteq> [] \<and> \<not> masque_cert_expiring now (id_cert_issued_at i)
      then Some ([], Inr (kept_enrollment i))
      else renew_masque_certificate libs w keypair after i)"

section \<open>Provisioned identities\<close>

definition identity_wf :: "identity \<Rightarrow> bool" where
  "identity_wf i \<longleftrightarrow> length (id_wg_private_key i) = 32 \<and> length (id_wg_peer_public_key i) = 32 \<and> length (id_client_id i) = 3"

definition clamped :: "bytes \<Rightarrow> bool" where
  "clamped k \<longleftrightarrow> k ! 0 AND 7 = 0 \<and> k ! 31 AND 128 = 0 \<and> k ! 31 AND 64 = 64"

lemma clamp_key_clamped:
  assumes "length raw = 32"
  shows "length (clamp_key raw) = 32" "clamped (clamp_key raw)"
proof -
  show "length (clamp_key raw) = 32" using assms by (simp add: clamp_key_def Let_def)
  have "raw \<noteq> []" using assms by auto
  moreover have "(x AND 248) AND 7 = 0" "((x AND 127) OR 64) AND 128 = 0" for x :: u8
    by (simp_all add: and.assoc bit.conj_disj_distrib2)
  moreover have "((x AND 127) OR 64) AND 64 = 64" for x :: u8
    by (rule bit_word_eqI) (auto simp: bit_simps)
  ultimately show "clamped (clamp_key raw)"
    using assms by (simp add: clamped_def clamp_key_def Let_def)
qed

lemma extract_wg_peer_length: "extract_wg_peer libs reg = Inr k \<Longrightarrow> length k = 32"
  by (auto simp: extract_wg_peer_def split: list.splits sum.splits if_splits)

lemma client_id_length: "length (client_id_of libs c) = 3"
  by (simp add: client_id_of_def split: sum.split)

lemma finish_provision_wf:
  assumes "finish_provision libs reg k = Inr i" and "length k = 32"
  shows "identity_wf i \<and> id_wg_private_key i = k \<and> id_access_token i \<noteq> [] \<and> \<not> id_refused i
    \<and> \<not> has_masque_credentials now i"
  using assms extract_wg_peer_length client_id_length
  by (auto simp: finish_provision_def identity_wf_def has_masque_credentials_def split: if_splits sum.splits)

lemma on_failure_cases:
  assumes "on_failure direct fallback = Some (ws, r)"
  obtains "direct = Some (ws, r)" "isl r = False"
  | primary where "direct = Some (ws, Inl primary)" "fallback primary = Some r"
  using assms by (auto simp: on_failure_def split: Option.bind_splits sum.splits)

lemma map_sum_Inr_iff: "map_sum f g r = Inr y \<longleftrightarrow> (\<exists>x. r = Inr x \<and> y = g x)"
  by (cases r) auto

lemma register_over_key: "register_over libs w label body jwt k = Some (ws, Inr (a, k')) \<Longrightarrow> k' = k"
  unfolding register_over_def by (auto dest!: sym [of "Inr _"] simp: map_sum_Inr_iff)

lemma finish_call_Inr:
  assumes "finish_call libs call = Some (ws, Inr i)"
  obtains reg k where "call = Some (ws, Inr (reg, k))" "finish_provision libs reg k = Inr i"
proof -
  obtain r where "call = Some (ws, r)" "(case r of Inl e \<Rightarrow> Inl e | Inr (reg, k) \<Rightarrow> finish_provision libs reg k) = Inr i"
    using assms by (auto simp: finish_call_def)
  then show thesis by (cases r) (auto intro: that)
qed

text \<open>C20: Every identity a registration provides is complete: a clamped private key, a peer key of 32 bytes,
  a client id of 3, an access token; it is not refused and has no MASQUE certificate yet.\<close>

theorem provisioned_identity_is_complete:
  assumes "provision_wg libs w d model locale_tag jwt = Some (ws, Inr i)" and "length (rd_key d) = 32"
  shows "identity_wf i \<and> clamped (id_wg_private_key i) \<and> id_access_token i \<noteq> [] \<and> \<not> id_refused i
    \<and> \<not> has_masque_credentials now i"
proof -
  obtain reg k where r: "register libs w d model locale_tag jwt = Some (ws, Inr (reg, k))" "finish_provision libs reg k = Inr i"
    using assms(1) unfolding provision_wg_def by (rule finish_call_Inr)
  have "k = clamp_key (rd_key d)"
    using r(1) register_over_key
    by (auto simp: register_def generate_x25519_keypair_def with_encoded_def Let_def split: sum.splits)
  then show ?thesis using finish_provision_wf [OF r(2)] clamp_key_clamped [OF assms(2)] by simp
qed

section \<open>Refreshing\<close>

definition device_request :: "identity \<Rightarrow> direct_request" where
  "device_request i = \<lparr>dr_method = ''GET'', dr_url = api_url @ reg_path @ ''/'' @ id_device_id i,
     dr_headers = base_headers @ [bearer_header (id_access_token i)], dr_body = None\<rparr>"

definition device_front_request :: "identity \<Rightarrow> api_request" where
  "device_front_request i =
     fallback_request ''GET'' (reg_path @ ''/'' @ id_device_id i) None (Some (id_access_token i)) None"

lemma merge_profile_keeps:
  "id_device_id (merge_profile i reg) = id_device_id i" "id_access_token (merge_profile i reg) = id_access_token i"
  "id_cert_pem (merge_profile i reg) = id_cert_pem i" "id_key_pem (merge_profile i reg) = id_key_pem i"
  "id_cert_issued_at (merge_profile i reg) = id_cert_issued_at i"
  "id_wg_private_key (merge_profile i reg) = id_wg_private_key i"
  "id_wg_peer_public_key (merge_profile i reg) = id_wg_peer_public_key i"
  "id_client_id (merge_profile i reg) = id_client_id i" "\<not> id_refused (merge_profile i reg)"
  "if id_ipv4 i = [] then True else id_ipv4 (merge_profile i reg) \<noteq> []"
  "if id_ipv6 i = [] then True else id_ipv6 (merge_profile i reg) \<noteq> []"
  by (simp_all add: merge_profile_def Let_def)

lemma fallback_refused:
  "fallback_call libs front label request = Some (Inl (E_IdentityRefused s)) \<Longrightarrow>
     (\<exists>r. front request = Some (Inr r) \<and> rs_status r \<in> {401, 404, 410}) \<or> (\<exists>s. front request = Some (Inl (E_IdentityRefused s)))"
  by (auto simp: fallback_call_def qm_def decode_body_def Let_def
      split: option.splits sum.splits if_splits Option.bind_splits)

text \<open>Refreshing a profile never touches its credentials, never empties its addresses, and marks it as
  refused only when the account API answered 401, 404 or 410 over the camouflaged route.\<close>

theorem refresh_keeps_the_profile:
  "case refresh_profile libs w i of
     None \<Rightarrow> True
   | Some (ws, i') \<Rightarrow>
       id_device_id i' = id_device_id i \<and> id_access_token i' = id_access_token i
       \<and> id_cert_pem i' = id_cert_pem i \<and> id_key_pem i' = id_key_pem i \<and> id_cert_issued_at i' = id_cert_issued_at i
       \<and> id_wg_private_key i' = id_wg_private_key i \<and> id_wg_peer_public_key i' = id_wg_peer_public_key i
       \<and> id_client_id i' = id_client_id i
       \<and> (if id_ipv4 i = [] then True else id_ipv4 i' \<noteq> []) \<and> (if id_ipv6 i = [] then True else id_ipv6 i' \<noteq> [])
       \<and> (if id_refused i' \<and> \<not> id_refused i then
            (case aw_front w (device_front_request i) of
               Some (Inr r) \<Rightarrow> refuses_identity (rs_status r)
             | Some (Inl e) \<Rightarrow> (case e of E_IdentityRefused _ \<Rightarrow> True | _ \<Rightarrow> False)
             | None \<Rightarrow> False)
          else True)"
proof (cases "refresh_profile libs w i")
  case (Some x)
  obtain ws i' where x: "x = (ws, i')" by (cases x)
  obtain r where r: "fetch_device libs w (id_device_id i) (id_access_token i) = Some (ws, r)"
    "i' = (case r of Inr reg \<Rightarrow> merge_profile i reg | Inl (E_IdentityRefused _) \<Rightarrow> i\<lparr>id_refused := True\<rparr> | Inl _ \<Rightarrow> i)"
    using Some x by (auto simp: refresh_profile_def)
  show ?thesis
  proof (cases "\<exists>s. r = Inl (E_IdentityRefused s)")
    case True
    then obtain s where s: "r = Inl (E_IdentityRefused s)" by blast
    from r(1) have "fallback_call libs (aw_front w) ''device refresh'' (device_front_request i) = Some (Inl (E_IdentityRefused s))"
      unfolding fetch_device_def Let_def s device_front_request_def
      by (rule on_failure_cases) simp_all
    from fallback_refused [OF this] show ?thesis
      using Some x r(2) s by (auto simp: refuses_identity_def)
  next
    case False
    then have "i' = i \<or> (\<exists>reg. i' = merge_profile i reg)"
      using r(2) by (cases r) (auto split: aether_error.splits)
    then show ?thesis using Some x merge_profile_keeps by (elim disjE exE) simp_all
  qed
qed simp

text \<open>A refusal heard on the direct route is forgotten: when the camouflaged route then fails to reach the
  API, refreshing returns the profile unmarked, while enrolling a key with the same two answers
  reports the refusal.\<close>

theorem direct_refusal_is_forgotten:
  assumes "\<And>req. aw_direct w req 0 = Response status c (Inr body)" and "refuses_identity status"
    and "describe_rejection libs status body = Some d"
    and "\<And>req. aw_front w req = Some (Inl (E_Api e))" and "al_encode_update libs = (\<lambda>_. Inr enc)"
  shows "refresh_profile libs w i = Some ([], i)
    \<and> enroll_key libs w (id_device_id i) (id_access_token i) spki None =
        Some ([], Inl (E_IdentityRefused (both_failed ''key enrollment'' (E_IdentityRefused (''key enrollment: '' @ d)) (E_Api e))))"
proof -
  have "\<not> is_success status" using refuses_not_retryable assms(2) by blast
  then have direct: "direct_call libs w label req = Some ([], Inl (E_IdentityRefused (label @ '': '' @ d)))" for label req
    using assms(1-3)
    by (simp add: direct_call_def send_with_retry_def api_attempts_def numeral_eq_Suc with_pauses_def)
  then show ?thesis using assms(4,5)
    by (simp add: refresh_profile_def fetch_device_def enroll_key_def on_failure_def with_encoded_def fallback_call_def Let_def)
qed

text \<open>An account the example libraries decode, and an identity for it.\<close>

definition sample_account :: account_data where
  "sample_account = \<lparr>dt_id = ''dev'', dt_token = ''tok'',
     dt_config = \<lparr>ac_interface = \<lparr>ic_addresses = \<lparr>ad_v4 = ''172.16.0.2'', ad_v6 = []\<rparr>\<rparr>,
       ac_peers = [\<lparr>pr_public_key = replicate 32 (CHR ''k''), pr_endpoint = \<lparr>pe_v4 = ''162.159.198.2:443'', pe_v6 = [], pe_host = []\<rparr>\<rparr>],
       ac_client_id = ''abc'', ac_services = \<lparr>sv_http_proxy = []\<rparr>\<rparr>,
     dt_account = \<lparr>ai_id = [], ai_account_type = [], ai_organization = []\<rparr>\<rparr>"

definition sample_libs :: api_libs where
  "sample_libs = plain_libs\<lparr>al_decode_account := (\<lambda>_. Inr sample_account)\<rparr>"

definition sample_draws :: reg_draws where
  "sample_draws = \<lparr>rd_key = replicate 32 0xff, rd_serial = [], rd_tos = [], rd_install_id = [], rd_fcm_token = []\<rparr>"

definition answering :: "nat \<Rightarrow> api_world" where
  "answering status = \<lparr>aw_direct = (\<lambda>_ _. Response status None (Inr [])), aw_draw = (\<lambda>_. 0),
     aw_front = (\<lambda>_. Some (Inl (E_Api ''no route'')))\<rparr>"

lemma sample_libs_fields:
  "al_decode_account sample_libs = (\<lambda>_. Inr sample_account)" "al_base64_decode sample_libs = (\<lambda>s. Inr (as_bytes s))"
  "al_encode_registration sample_libs = (\<lambda>_. Inr [])" "al_encode_update sample_libs = (\<lambda>_. Inr [])"
  "al_parse_json sample_libs = (\<lambda>_. None)" "al_show_status sample_libs = show_nat"
  by (simp_all add: sample_libs_def plain_libs_def)

lemma sample_provision: "\<exists>i. finish_provision sample_libs sample_account k = Inr i"
proof -
  have "extract_wg_peer sample_libs sample_account = Inr (as_bytes (replicate 32 (CHR ''k'')))"
    by (simp add: extract_wg_peer_def sample_account_def sample_libs_fields)
  moreover have "dt_token sample_account \<noteq> []" by (simp add: sample_account_def)
  ultimately show ?thesis by (simp add: finish_provision_def)
qed

theorem provisioned_identity_is_complete_witness:
  "\<exists>i. provision_wg sample_libs (answering 200) sample_draws ''PC'' ''en_US'' None = Some ([], Inr i)
   \<and> identity_wf i \<and> clamped (id_wg_private_key i)"
proof -
  obtain i where fp: "finish_provision sample_libs sample_account (clamp_key (rd_key sample_draws)) = Inr i"
    using sample_provision by blast
  have p: "provision_wg sample_libs (answering 200) sample_draws ''PC'' ''en_US'' None = Some ([], Inr i)"
    by (simp add: provision_wg_def finish_call_def register_def generate_x25519_keypair_def with_encoded_def register_over_def
        on_failure_def direct_call_def send_with_retry_def api_attempts_def numeral_eq_Suc with_pauses_def answering_def
        is_success_def decode_body_def sample_libs_fields fp Let_def)
  show ?thesis
    using provisioned_identity_is_complete [OF p] p by (auto simp: sample_draws_def)
qed

theorem direct_refusal_is_forgotten_witness:
  "\<forall>i. refresh_profile sample_libs (answering 404) i = Some ([], i)"
proof
  fix i
  have d: "describe_rejection sample_libs 404 [] = Some (''status '' @ show_nat 404 @ '': no details returned'')"
    by (simp add: describe_rejection_def extract_api_error_def sample_libs_fields trim_def trim_start_by_def
        trim_end_by_def rejection_hint_def)
  show "refresh_profile sample_libs (answering 404) i = Some ([], i)"
    using direct_refusal_is_forgotten [of "answering 404" 404 None "[]" sample_libs, OF _ _ d, of "''no route''" "[]" i]
    by (simp add: answering_def refuses_identity_def sample_libs_fields)
qed

section \<open>The certificate\<close>

text \<open>The MASQUE credentials a connection starts with are either freshly enrolled ones or the saved
  ones inside their lifetime; a refused identity never gets credentials out of a failed enrollment;
  and the call fails otherwise only when no usable certificate is at hand.\<close>

theorem masque_credentials_are_usable:
  "case ensure_masque_enrolled libs w (Inr kp) now after i of
     None \<Rightarrow> True
   | Some (ws, Inr m) \<Rightarrow>
       (if me_renewed m then me_cert_pem m = mk_cert_pem kp \<and> me_key_pem m = mk_key_pem kp \<and> me_issued_at m = after
        else m = kept_enrollment i \<and> (cert_still_usable now i \<or> cert_still_usable after i))
   | Some (ws, Inl (E_IdentityRefused _)) \<Rightarrow> \<not> has_masque_credentials now i
   | Some (ws, Inl _) \<Rightarrow> \<not> has_masque_credentials now i \<and> \<not> cert_still_usable after i"
proof -
  have usable: "cert_still_usable now i" if "has_masque_credentials now i"
    using that by (auto simp: has_masque_credentials_def cert_still_usable_def masque_cert_expiring_def
        masque_cert_renew_before_secs_def split: if_splits)
  show ?thesis
  proof (cases "has_masque_credentials now i")
    case True
    then have "ensure_masque_enrolled libs w (Inr kp) now after i = Some ([], Inr (kept_enrollment i))"
      by (simp add: ensure_masque_enrolled_def has_masque_credentials_def)
    with usable [OF True] show ?thesis by (simp add: kept_enrollment_def)
  next
    case False
    then have e: "ensure_masque_enrolled libs w (Inr kp) now after i = renew_masque_certificate libs w (Inr kp) after i"
      by (auto simp: ensure_masque_enrolled_def has_masque_credentials_def)
    show ?thesis
    proof (cases "enroll_key libs w (id_device_id i) (id_access_token i) (mk_spki_der kp) None")
      case None
      then show ?thesis by (simp add: e renew_masque_certificate_def)
    next
      case (Some x)
      obtain ws r where x: "x = (ws, r)" by (cases x)
      show ?thesis using Some x False
        by (cases r) (auto simp: e renew_masque_certificate_def kept_enrollment_def split: aether_error.splits)
    qed
  qed
qed

end
