(* ===== verification/Config.thy ===== *)
theory Config
  imports Account
begin

text \<open>
  \<^verbatim>\<open>config.rs\<close>: the identity on disk. The file system is a map from path texts to files; every
  operation on it can fail, and a failed write leaves some prefix of the contents behind. TOML and
  base64 are third-party code and are parameters.
\<close>

section \<open>The persisted form\<close>

record persisted_identity =
  ps_device_id :: string
  ps_access_token :: string
  ps_cert_pem :: string
  ps_key_pem :: string
  ps_cert_issued_at :: nat
  ps_ipv4 :: string
  ps_ipv6 :: string
  ps_wg_private_key :: string
  ps_wg_peer_public_key :: string
  ps_client_id :: string
  ps_organization :: string
  ps_gateway_proxy :: string
  ps_assigned_endpoint :: string

record config_libs =
  cl_toml_parse :: "string \<Rightarrow> string + persisted_identity"
  cl_toml_print :: "persisted_identity \<Rightarrow> string + string"
  cl_base64_encode :: "bytes \<Rightarrow> string"
  cl_base64_decode :: "string \<Rightarrow> string + bytes"

definition lossy_text :: "bytes \<Rightarrow> string" where
  "lossy_text bs = of_bytes (utf8_lossy bs)"

definition to_persisted :: "config_libs \<Rightarrow> identity \<Rightarrow> persisted_identity" where
  "to_persisted libs i =
     \<lparr>ps_device_id = id_device_id i, ps_access_token = id_access_token i, ps_cert_pem = lossy_text (id_cert_pem i),
      ps_key_pem = lossy_text (id_key_pem i), ps_cert_issued_at = id_cert_issued_at i, ps_ipv4 = id_ipv4 i,
      ps_ipv6 = id_ipv6 i, ps_wg_private_key = cl_base64_encode libs (id_wg_private_key i),
      ps_wg_peer_public_key = cl_base64_encode libs (id_wg_peer_public_key i),
      ps_client_id = cl_base64_encode libs (id_client_id i), ps_organization = id_organization i,
      ps_gateway_proxy = id_gateway_proxy i, ps_assigned_endpoint = id_assigned_endpoint i\<rparr>"

definition decode_fixed :: "config_libs \<Rightarrow> nat \<Rightarrow> string \<Rightarrow> string \<Rightarrow> aether_error + bytes" where
  "decode_fixed libs n field value = (case cl_base64_decode libs value of
     Inl e \<Rightarrow> Inl (E_Other (''config field '' @ field @ '' is not valid base64: '' @ e))
   | Inr decoded \<Rightarrow>
       if length decoded \<noteq> n
       then Inl (E_Other (''config field '' @ field @ '' must decode to '' @ show_nat n @ '' bytes, found '' @ show_nat (length decoded)))
       else Inr decoded)"

definition from_persisted :: "config_libs \<Rightarrow> persisted_identity \<Rightarrow> aether_error + identity" where
  "from_persisted libs p = (case decode_fixed libs 32 ''wg_private_key'' (ps_wg_private_key p) of
     Inl e \<Rightarrow> Inl e
   | Inr wg_private_key \<Rightarrow>
       (case decode_fixed libs 32 ''wg_peer_public_key'' (ps_wg_peer_public_key p) of
          Inl e \<Rightarrow> Inl e
        | Inr wg_peer_public_key \<Rightarrow>
            (let client_id =
               (if ps_client_id p = [] then [0, 0, 0]
                else case decode_fixed libs 3 ''client_id'' (ps_client_id p) of Inr c \<Rightarrow> c | Inl _ \<Rightarrow> [0, 0, 0])
             in Inr \<lparr>id_device_id = ps_device_id p, id_access_token = ps_access_token p, id_cert_pem = as_bytes (ps_cert_pem p),
                  id_key_pem = as_bytes (ps_key_pem p), id_cert_issued_at = ps_cert_issued_at p, id_ipv4 = ps_ipv4 p,
                  id_ipv6 = ps_ipv6 p, id_wg_private_key = wg_private_key, id_wg_peer_public_key = wg_peer_public_key,
                  id_client_id = client_id, id_organization = ps_organization p, id_gateway_proxy = ps_gateway_proxy p,
                  id_assigned_endpoint = ps_assigned_endpoint p, id_refused = False\<rparr>)))"

section \<open>Files\<close>

text \<open>
  A path is its text up to the file name and the file name, which is missing for \<open>..\<close> and the root.
\<close>

record path =
  pt_dir :: string
  pt_name :: "string option"

definition path_text :: "path \<Rightarrow> string" where
  "path_text p = pt_dir p @ (case pt_name p of Some n \<Rightarrow> n | None \<Rightarrow> [])"

definition name_or_default :: "path \<Rightarrow> string" where
  "name_or_default p = (case pt_name p of Some n \<Rightarrow> n | None \<Rightarrow> ''aether.toml'')"

definition quarantine_path :: "path \<Rightarrow> path" where
  "quarantine_path p = p\<lparr>pt_name := Some (name_or_default p @ ''.corrupt'')\<rparr>"

definition temporary_path :: "nat \<Rightarrow> path \<Rightarrow> path" where
  "temporary_path pid p = p\<lparr>pt_name := Some (''.'' @ name_or_default p @ ''.'' @ show_nat pid @ ''.tmp'')\<rparr>"

record saved_file =
  fl_mode :: nat
  fl_text :: string

type_synonym files = "string \<Rightarrow> saved_file option"

definition rename_file :: "string \<Rightarrow> string \<Rightarrow> files \<Rightarrow> files" where
  "rename_file a b fs = (case fs a of Some f \<Rightarrow> (fs(b := Some f))(a := (if a = b then Some f else None)) | None \<Rightarrow> fs)"

definition quarantine :: "string option \<Rightarrow> path \<Rightarrow> files \<Rightarrow> path option \<times> files" where
  "quarantine fault p fs = (
     let target = quarantine_path p in
     case fault of
       Some _ \<Rightarrow> (None, fs)
     | None \<Rightarrow>
         if fs (path_text p) = None then (None, fs)
         else (Some target, rename_file (path_text p) (path_text target) fs))"

definition quarantined :: "string \<Rightarrow> path \<Rightarrow> path option \<Rightarrow> aether_error" where
  "quarantined what p moved = E_Other (case moved of
     Some target \<Rightarrow> what @ ''; the damaged file was moved to '' @ path_text target @ '' so a fresh identity can be provisioned''
   | None \<Rightarrow> what @ ''; delete '' @ path_text p @ '' to provision a fresh identity'')"

text \<open>\<open>read_fault\<close> and \<open>rename_fault\<close> are the errors of reading the file and of moving it away.\<close>

definition load :: "config_libs \<Rightarrow> string option \<Rightarrow> string option \<Rightarrow> path \<Rightarrow> files \<Rightarrow> (aether_error + identity option) \<times> files" where
  "load libs read_fault rename_fault p fs = (case fs (path_text p) of
     None \<Rightarrow> (Inr None, fs)
   | Some f \<Rightarrow>
       (case read_fault of
          Some e \<Rightarrow> (Inl (E_Io e), fs)
        | None \<Rightarrow>
            (case cl_toml_parse libs (fl_text f) of
               Inl e \<Rightarrow>
                 let (moved, fs) = quarantine rename_fault p fs
                 in (Inl (quarantined (''config parse: '' @ e) p moved), fs)
             | Inr persisted \<Rightarrow>
                 (case from_persisted libs persisted of
                    Inr i \<Rightarrow> (Inr (Some i), fs)
                  | Inl e \<Rightarrow>
                      let (moved, fs) = quarantine rename_fault p fs
                      in (Inl (quarantined (show_error e) p moved), fs)))))"

datatype write_step = Open_Temporary | Write_All | Flush | Sync_All | Set_Permissions | Rename_Over

definition write_steps :: "write_step list" where
  "write_steps = [Open_Temporary, Write_All, Flush, Sync_All, Set_Permissions, Rename_Over]"

text \<open>\<open>create(true).truncate(true).mode(384)\<close>: the mode applies to a file that is created.\<close>

definition write_step :: "string \<Rightarrow> string \<Rightarrow> string \<Rightarrow> write_step \<Rightarrow> files \<Rightarrow> files" where
  "write_step temporary target contents step fs = (case step of
     Open_Temporary \<Rightarrow> fs(temporary := Some (case fs temporary of Some f \<Rightarrow> f\<lparr>fl_text := []\<rparr> | None \<Rightarrow> \<lparr>fl_mode = 384, fl_text = []\<rparr>))
   | Write_All \<Rightarrow> fs(temporary := map_option (\<lambda>f. f\<lparr>fl_text := contents\<rparr>) (fs temporary))
   | Flush \<Rightarrow> fs
   | Sync_All \<Rightarrow> fs
   | Set_Permissions \<Rightarrow> fs(temporary := map_option (\<lambda>f. f\<lparr>fl_mode := 384\<rparr>) (fs temporary))
   | Rename_Over \<Rightarrow> rename_file temporary target fs)"

text \<open>A fault of a step: its message, and how much of the contents a failed write left behind.\<close>

type_synonym faults = "write_step \<Rightarrow> (string \<times> nat) option"

definition failed_step :: "string \<Rightarrow> string \<Rightarrow> nat \<Rightarrow> write_step \<Rightarrow> files \<Rightarrow> files" where
  "failed_step temporary contents n step fs =
     (if step = Write_All then fs(temporary := map_option (\<lambda>f. f\<lparr>fl_text := take n contents\<rparr>) (fs temporary)) else fs)"

fun run_write :: "faults \<Rightarrow> string \<Rightarrow> string \<Rightarrow> string \<Rightarrow> write_step list \<Rightarrow> files \<Rightarrow> (aether_error + unit) \<times> files" where
  "run_write faults temporary target contents [] fs = (Inr (), fs)"
| "run_write faults temporary target contents (step # steps) fs =
     (case faults step of
        Some (e, n) \<Rightarrow> (Inl (E_Io e), failed_step temporary contents n step fs)
      | None \<Rightarrow> run_write faults temporary target contents steps (write_step temporary target contents step fs))"

definition write_private ::
  "string option \<Rightarrow> bool \<Rightarrow> faults \<Rightarrow> nat \<Rightarrow> path \<Rightarrow> string \<Rightarrow> files \<Rightarrow> (aether_error + unit) \<times> files" where
  "write_private dir_fault remove_fails faults pid p contents fs =
     (case (if pt_dir p \<noteq> [] then dir_fault else None) of
        Some e \<Rightarrow> (Inl (E_Io e), fs)
      | None \<Rightarrow>
          (let temporary = path_text (temporary_path pid p);
             (outcome, fs) = run_write faults temporary (path_text p) contents write_steps fs
           in (outcome, if isl outcome \<and> \<not> remove_fails then fs(temporary := None) else fs)))"

definition save_text ::
  "(string \<Rightarrow> files \<Rightarrow> (aether_error + unit) \<times> files) \<Rightarrow> config_libs \<Rightarrow> persisted_identity \<Rightarrow> files \<Rightarrow> (aether_error + unit) \<times> files" where
  "save_text write libs persisted fs = (case cl_toml_print libs persisted of
     Inl e \<Rightarrow> (Inl (E_Other (''config encode: '' @ e)), fs)
   | Inr text \<Rightarrow> write text fs)"

definition save ::
  "(string \<Rightarrow> files \<Rightarrow> (aether_error + unit) \<times> files) \<Rightarrow> config_libs \<Rightarrow> identity \<Rightarrow> files \<Rightarrow> (aether_error + unit) \<times> files" where
  "save write libs i fs = save_text write libs (to_persisted libs i) fs"

definition save_masque_creds ::
  "(string \<Rightarrow> files \<Rightarrow> (aether_error + unit) \<times> files) \<Rightarrow> config_libs \<Rightarrow> string option \<Rightarrow> path \<Rightarrow> bytes \<Rightarrow> bytes \<Rightarrow> nat
    \<Rightarrow> files \<Rightarrow> (aether_error + unit) \<times> files" where
  "save_masque_creds write libs read_fault p cert_pem key_pem issued_at fs = (case fs (path_text p) of
     None \<Rightarrow> (Inr (), fs)
   | Some f \<Rightarrow>
       (case read_fault of
          Some e \<Rightarrow> (Inl (E_Io e), fs)
        | None \<Rightarrow>
            (case cl_toml_parse libs (fl_text f) of
               Inl e \<Rightarrow> (Inl (E_Other (''config parse: '' @ e)), fs)
             | Inr persisted \<Rightarrow> save_text write libs
                 (persisted\<lparr>ps_cert_pem := lossy_text cert_pem, ps_key_pem := lossy_text key_pem, ps_cert_issued_at := issued_at\<rparr>) fs)))"

section \<open>Writing is atomic\<close>

lemma temporary_differs: "path_text (temporary_path pid p) \<noteq> path_text p"
proof
  assume "path_text (temporary_path pid p) = path_text p"
  then have "length (path_text (temporary_path pid p)) = length (path_text p)" by simp
  then show False by (cases "pt_name p") (simp_all add: path_text_def temporary_path_def name_or_default_def)
qed

text \<open>
  \<open>t\<close> is the temporary file, \<open>g\<close> the target. Up to the rename the target and all other files are
  untouched and the temporary file, once open, has mode 600.
\<close>

lemma write_prefix:
  assumes "t \<noteq> g"
  shows "fold (write_step t g c) (take k write_steps) fs g = fs g \<or>
     fold (write_step t g c) (take k write_steps) fs g = Some \<lparr>fl_mode = 384, fl_text = c\<rparr>"
    and "x \<noteq> t \<Longrightarrow> x \<noteq> g \<Longrightarrow> fold (write_step t g c) (take k write_steps) fs x = fs x"
proof -
  have k: "k = 0 \<or> k = 1 \<or> k = 2 \<or> k = 3 \<or> k = 4 \<or> k = 5 \<or> take k write_steps = write_steps"
  proof (cases "6 \<le> k")
    case True
    then show ?thesis by (simp add: write_steps_def)
  next
    case False
    then have "k = 0 \<or> k = 1 \<or> k = 2 \<or> k = 3 \<or> k = 4 \<or> k = 5" by presburger
    then show ?thesis by blast
  qed
  show "fold (write_step t g c) (take k write_steps) fs g = fs g \<or>
     fold (write_step t g c) (take k write_steps) fs g = Some \<lparr>fl_mode = 384, fl_text = c\<rparr>"
    using k assms
    by (elim disjE) (auto simp: write_steps_def write_step_def rename_file_def split: option.splits)
  show "x \<noteq> t \<Longrightarrow> x \<noteq> g \<Longrightarrow> fold (write_step t g c) (take k write_steps) fs x = fs x"
    using k assms
    by (elim disjE) (auto simp: write_steps_def write_step_def rename_file_def split: option.splits)
qed

lemma run_write_cases:
  "run_write faults t g c steps fs = (Inr (), fold (write_step t g c) steps fs)
   \<or> (\<exists>k e n. run_write faults t g c steps fs
        = (Inl (E_Io e), failed_step t c n (steps ! k) (fold (write_step t g c) (take k steps) fs)))"
proof (induction steps arbitrary: fs)
  case (Cons step steps)
  show ?case
  proof (cases "faults step")
    case None
    from Cons.IH [of "write_step t g c step fs"] show ?thesis
    proof (elim disjE exE)
      fix k e n
      assume "run_write faults t g c steps (write_step t g c step fs)
        = (Inl (E_Io e), failed_step t c n (steps ! k) (fold (write_step t g c) (take k steps) (write_step t g c step fs)))"
      then show ?thesis using None by (intro disjI2 exI [of _ "Suc k"] exI [of _ e] exI [of _ n]) simp
    qed (simp add: None)
  next
    case (Some x)
    obtain e n where "x = (e, n)" by (cases x)
    with Some show ?thesis by (intro disjI2 exI [of _ 0] exI [of _ e] exI [of _ n]) simp
  qed
qed simp

lemma write_complete: "t \<noteq> g \<Longrightarrow> fold (write_step t g c) write_steps fs = fs(g := Some \<lparr>fl_mode = 384, fl_text = c\<rparr>, t := None)"
  by (rule ext) (auto simp: write_steps_def write_step_def rename_file_def split: option.splits)

lemma write_private_spec:
  "case write_private dir_fault remove_fails faults pid p contents fs of (r, fs') \<Rightarrow>
     (fs' (path_text p) = fs (path_text p) \<or> fs' (path_text p) = Some \<lparr>fl_mode = 384, fl_text = contents\<rparr>)
     \<and> (case r of
         Inr _ \<Rightarrow> fs' = fs(path_text p := Some \<lparr>fl_mode = 384, fl_text = contents\<rparr>, path_text (temporary_path pid p) := None)
       | Inl _ \<Rightarrow> \<forall>x. x = path_text p \<or> x = path_text (temporary_path pid p) \<or> fs' x = fs x)"
proof (cases "if pt_dir p \<noteq> [] then dir_fault else None")
  case (Some e)
  then show ?thesis by (simp add: write_private_def)
next
  case None
  let ?t = "path_text (temporary_path pid p)" and ?g = "path_text p"
  have ne: "?t \<noteq> ?g" by (rule temporary_differs)
  from run_write_cases [of faults ?t ?g contents write_steps fs] show ?thesis
  proof (elim disjE exE)
    assume "run_write faults ?t ?g contents write_steps fs = (Inr (), fold (write_step ?t ?g contents) write_steps fs)"
    then show ?thesis using None ne by (simp add: write_private_def Let_def write_complete)
  next
    fix k e n
    let ?fs = "fold (write_step ?t ?g contents) (take k write_steps) fs"
    assume r: "run_write faults ?t ?g contents write_steps fs = (Inl (E_Io e), failed_step ?t contents n (write_steps ! k) ?fs)"
    let ?f = "failed_step ?t contents n (write_steps ! k) ?fs"
    have g: "?f ?g = fs ?g \<or> ?f ?g = Some \<lparr>fl_mode = 384, fl_text = contents\<rparr>"
      using ne write_prefix(1) [OF ne, of contents k fs] by (simp add: failed_step_def)
    have others: "?f x = fs x" if "x \<noteq> ?g" "x \<noteq> ?t" for x
      using that write_prefix(2) [OF ne, of x contents k fs] by (simp add: failed_step_def)
    have "write_private dir_fault remove_fails faults pid p contents fs
        = (Inl (E_Io e), if remove_fails then ?f else ?f(?t := None))"
      using None r by (simp add: write_private_def Let_def)
    then show ?thesis using g others ne by (simp del: fun_upd_apply) (auto simp: fun_upd_def)
  qed
qed

lemma written_file:
  "write_private dir_fault remove_fails faults pid p contents fs = (Inr (), fs') \<Longrightarrow>
     fs' (path_text p) = Some \<lparr>fl_mode = 384, fl_text = contents\<rparr>"
  using write_private_spec [where dir_fault = dir_fault and remove_fails = remove_fails and faults = faults and pid = pid and p = p and contents = contents and fs = fs] temporary_differs [of pid p] by simp

text \<open>C19: Saving is atomic, whatever fails and wherever it stops: the target holds its old file or the
  complete new one with mode 600, no other file but the temporary one changes, success means the
  new contents are in place and the temporary file is gone, and a crash between any two steps
  leaves the old or the new file as well.\<close>

theorem saving_is_atomic:
  "(case write_private dir_fault remove_fails faults pid p contents fs of (r, fs') \<Rightarrow>
      (fs' (path_text p) = fs (path_text p) \<or> fs' (path_text p) = Some \<lparr>fl_mode = 384, fl_text = contents\<rparr>)
      \<and> (case r of
          Inr _ \<Rightarrow> fs' = fs(path_text p := Some \<lparr>fl_mode = 384, fl_text = contents\<rparr>, path_text (temporary_path pid p) := None)
        | Inl _ \<Rightarrow> \<forall>x. x = path_text p \<or> x = path_text (temporary_path pid p) \<or> fs' x = fs x))
   \<and> (let crashed = fold (write_step (path_text (temporary_path pid p)) (path_text p) contents) (take k write_steps) fs
      in crashed (path_text p) = fs (path_text p) \<or> crashed (path_text p) = Some \<lparr>fl_mode = 384, fl_text = contents\<rparr>)"
  using write_private_spec [where dir_fault = dir_fault and remove_fails = remove_fails and faults = faults and pid = pid and p = p and contents = contents and fs = fs]
    write_prefix(1) [OF temporary_differs, where pid1 = pid and p1 = p and c = contents and k = k and fs = fs]
  unfolding Let_def by (rule conjI)

section \<open>Round trip and quarantine\<close>

text \<open>
  What is relied on of the libraries: decoding undoes encoding, base64 text is empty only for empty
  input, and the persisted form can be written and read back as TOML.
\<close>

definition base64_ok :: "config_libs \<Rightarrow> bool" where
  "base64_ok libs \<longleftrightarrow>
     (\<forall>bs. cl_base64_decode libs (cl_base64_encode libs bs) = Inr bs \<and> (cl_base64_encode libs bs = [] \<longrightarrow> bs = []))"

definition toml_ok :: "config_libs \<Rightarrow> persisted_identity \<Rightarrow> bool" where
  "toml_ok libs p \<longleftrightarrow> (case cl_toml_print libs p of Inr text \<Rightarrow> cl_toml_parse libs text = Inr p | Inl _ \<Rightarrow> False)"

definition pem_ok :: "identity \<Rightarrow> bool" where
  "pem_ok i \<longleftrightarrow> list_all (\<lambda>b. b < 0x80) (id_cert_pem i) \<and> list_all (\<lambda>b. b < 0x80) (id_key_pem i)"

lemma lossy_ascii: "list_all (\<lambda>b. b < 0x80) bs \<Longrightarrow> as_bytes (lossy_text bs) = bs"
  by (simp add: lossy_text_def utf8_lossy_ascii list_all_iff)

lemma persisted_roundtrip:
  assumes "base64_ok libs" and "identity_wf i" and "pem_ok i"
  shows "from_persisted libs (to_persisted libs i) = Inr (i\<lparr>id_refused := False\<rparr>)"
proof -
  have d: "decode_fixed libs n field (cl_base64_encode libs bs) = Inr bs" if "length bs = n" for n field bs
    using assms(1) that by (simp add: decode_fixed_def base64_ok_def)
  have c: "cl_base64_encode libs (id_client_id i) \<noteq> []"
    using assms(1,2) by (auto simp: base64_ok_def identity_wf_def)
  show ?thesis
    using assms(2,3) c d by (cases i) (simp add: from_persisted_def to_persisted_def identity_wf_def pem_ok_def lossy_ascii)
qed

text \<open>C21: An identity that is saved is loaded again with every field as it was, except that it is no longer
  marked as refused.\<close>

theorem saved_identity_is_loaded:
  assumes "base64_ok libs" and "toml_ok libs (to_persisted libs i)" and "identity_wf i" and "pem_ok i"
    and "save (write_private dir_fault remove_fails faults pid p) libs i fs = (Inr (), fs')"
  shows "load libs None rename_fault p fs' = (Inr (Some (i\<lparr>id_refused := False\<rparr>)), fs')"
proof -
  obtain body where t: "cl_toml_print libs (to_persisted libs i) = Inr body" "cl_toml_parse libs body = Inr (to_persisted libs i)"
    using assms(2) by (auto simp: toml_ok_def split: sum.splits)
  then have "write_private dir_fault remove_fails faults pid p body fs = (Inr (), fs')"
    using assms(5) by (simp add: save_def save_text_def)
  from written_file [OF this] have "fs' (path_text p) = Some \<lparr>fl_mode = 384, fl_text = body\<rparr>" .
  then show ?thesis by (simp add: load_def t persisted_roundtrip [OF assms(1,3,4)])
qed

text \<open>Libraries for examples: base64 is the identity on non-empty input, TOML knows one identity.\<close>

definition one_identity :: identity where
  "one_identity = \<lparr>id_device_id = ''dev'', id_access_token = ''tok'', id_cert_pem = [0x41], id_key_pem = [0x42],
     id_cert_issued_at = 7, id_ipv4 = ''172.16.0.2'', id_ipv6 = [], id_wg_private_key = replicate 32 7,
     id_wg_peer_public_key = replicate 32 9, id_client_id = [1, 2, 3], id_organization = [], id_gateway_proxy = [],
     id_assigned_endpoint = [], id_refused = True\<rparr>"

definition one_libs :: config_libs where
  "one_libs = (
     let base = \<lparr>cl_toml_parse = (\<lambda>_. Inl []), cl_toml_print = (\<lambda>_. Inl []), cl_base64_encode = of_bytes,
       cl_base64_decode = (\<lambda>s. Inr (as_bytes s))\<rparr>
     in base\<lparr>cl_toml_print := (\<lambda>p. if p = to_persisted base one_identity then Inr ''toml'' else Inl ''unsupported''),
             cl_toml_parse := (\<lambda>t. if t = ''toml'' then Inr (to_persisted base one_identity) else Inl ''expected an equals'')\<rparr>)"

lemma one_libs_fields:
  "cl_base64_encode one_libs = of_bytes" "cl_base64_decode one_libs = (\<lambda>s. Inr (as_bytes s))"
  "cl_toml_print one_libs (to_persisted one_libs one_identity) = Inr ''toml''"
  "cl_toml_parse one_libs ''toml'' = Inr (to_persisted one_libs one_identity)"
  "cl_toml_parse one_libs ''damaged'' = Inl ''expected an equals''"
  by (simp_all add: one_libs_def to_persisted_def Let_def)

lemma of_bytes_Nil: "of_bytes bs = [] \<longleftrightarrow> bs = []"
  by (simp add: of_bytes_def)

lemma one_libs_ok: "base64_ok one_libs" "toml_ok one_libs (to_persisted one_libs one_identity)"
  "identity_wf one_identity" "pem_ok one_identity"
  by (simp_all add: base64_ok_def toml_ok_def one_libs_fields of_bytes_Nil)
    (simp_all add: identity_wf_def pem_ok_def one_identity_def)

definition one_path :: path where
  "one_path = \<lparr>pt_dir = ''/data/'', pt_name = Some ''aether.toml''\<rparr>"

theorem saved_identity_is_loaded_witness:
  "\<exists>fs'. save (write_private None False (\<lambda>_. None) 7 one_path) one_libs one_identity (\<lambda>_. None) = (Inr (), fs')
     \<and> load one_libs None None one_path fs' = (Inr (Some (one_identity\<lparr>id_refused := False\<rparr>)), fs')"
proof -
  have w: "\<exists>fs'. save (write_private None False (\<lambda>_. None) 7 one_path) one_libs one_identity (\<lambda>_. None) = (Inr (), fs')"
    by (simp add: save_def save_text_def one_libs_fields write_private_def write_steps_def Let_def)
  then obtain fs' where fs': "save (write_private None False (\<lambda>_. None) 7 one_path) one_libs one_identity (\<lambda>_. None) = (Inr (), fs')"
    by blast
  with saved_identity_is_loaded [OF one_libs_ok fs'] show ?thesis by blast
qed

section \<open>Damaged files\<close>

text \<open>A file that does not parse, or whose keys are damaged, is reported once: it is moved aside with its
  contents and the next start finds no identity; when it cannot be moved, nothing changes. Loading
  never changes any other file.\<close>

theorem damaged_config_is_set_aside:
  "case load libs read_fault rename_fault p fs of (r, fs') \<Rightarrow>
     (if fs' = fs then True
      else isl r \<and> fs' (path_text p) = None \<and> fs' (path_text (quarantine_path p)) = fs (path_text p)
        \<and> load libs read_fault' rename_fault' p fs' = (Inr None, fs'))
     \<and> (\<forall>x. x = path_text p \<or> x = path_text (quarantine_path p) \<or> fs' x = fs x)"
proof -
  let ?q = "path_text (quarantine_path p)"
  have ne: "?q \<noteq> path_text p"
  proof
    assume "?q = path_text p"
    then have "length ?q = length (path_text p)" by simp
    then show False by (cases "pt_name p") (simp_all add: path_text_def quarantine_path_def name_or_default_def)
  qed
  have q: "(snd (quarantine rename_fault p fs) = fs \<or> snd (quarantine rename_fault p fs) = (fs(?q := fs (path_text p)))(path_text p := None))"
    by (auto simp: quarantine_def rename_file_def Let_def ne [symmetric] split: option.split)
  have "\<exists>r. load libs read_fault rename_fault p fs = (r, fs) \<or>
      (isl r \<and> load libs read_fault rename_fault p fs = (r, snd (quarantine rename_fault p fs)))"
    by (auto simp: load_def split: option.split sum.split prod.split)
  then obtain r fs' where l: "load libs read_fault rename_fault p fs = (r, fs')"
    "fs' = fs \<or> (isl r \<and> fs' = (fs(?q := fs (path_text p)))(path_text p := None))"
    using q by metis
  then show ?thesis using ne by (auto simp: load_def)
qed

end
