(* ===== verification/Zerotrust.thy ===== *)
theory Zerotrust
  imports Account_Api
begin

text \<open>
  \<^verbatim>\<open>zerotrust.rs\<close>: signing in to a team. Names and addresses of a team, finding tokens and forms in the
  pages of the login service, the two process-wide cells (the token cache and the pending email
  login) and the operations on them. Base64url and JSON decoding are parameters, as is every answer
  of the login service.
\<close>

section \<open>Teams\<close>

definition team_suffix :: string where "team_suffix = ''cloudflareaccess.com''"
definition enroll_path :: string where "enroll_path = ''/warp''"
definition code_attempts :: nat where "code_attempts = 3"

record team_settings =
  tm_team :: string
  tm_client_id :: "string option"
  tm_client_secret :: "string option"
  tm_token :: "string option"
  tm_email :: "string option"

definition strip_prefix :: "string \<Rightarrow> string \<Rightarrow> string option" where
  "strip_prefix p s = (if starts_with s p then Some (drop (length p) s) else None)"

definition strip_suffix :: "string \<Rightarrow> string \<Rightarrow> string option" where
  "strip_suffix p s = (if ends_with s p then Some (take (length s - length p) s) else None)"

definition is_alphanumeric :: "char \<Rightarrow> bool" where
  "is_alphanumeric c \<longleftrightarrow> (let n = (of_char c :: nat) in
     (48 \<le> n \<and> n \<le> 57) \<or> (65 \<le> n \<and> n \<le> 90) \<or> (97 \<le> n \<and> n \<le> 122))"

definition is_team_char :: "char \<Rightarrow> bool" where
  "is_team_char c \<longleftrightarrow> is_alphanumeric c \<or> c = CHR ''-'' \<or> c = CHR ''_''"

definition without_prefix :: "string \<Rightarrow> string \<Rightarrow> string" where
  "without_prefix p s = (case strip_prefix p s of Some r \<Rightarrow> r | None \<Rightarrow> s)"

definition normalize_team :: "string \<Rightarrow> string option" where
  "normalize_team raw = (
     let v = to_lowercase (trim raw) in
     if v = [] then None
     else
       let v = without_prefix ''http://'' (without_prefix ''https://'' v);
         v = trim_end_by (\<lambda>c. c = CHR ''/'') v;
         v = hd (split_by (\<lambda>c. c = CHR ''/'') v);
         v = (case strip_suffix team_suffix v of Some head \<Rightarrow> trim_end_by (\<lambda>c. c = CHR ''.'') head | None \<Rightarrow> v)
       in if v = [] then None
          else if list_all is_team_char v then Some v
          else None)"

definition team_domain :: "string \<Rightarrow> string" where
  "team_domain team = ''https://'' @ team @ ''.'' @ team_suffix"

definition login_url :: "team_settings \<Rightarrow> string" where
  "login_url s = team_domain (tm_team s) @ enroll_path"

definition has_service_token :: "team_settings \<Rightarrow> bool" where
  "has_service_token s \<longleftrightarrow> tm_client_id s \<noteq> None \<and> tm_client_secret s \<noteq> None"

definition settings_from_env :: "(string \<Rightarrow> string option) \<Rightarrow> team_settings option" where
  "settings_from_env env = do {
     team \<leftarrow> normalize_team (case env ''AETHER_TEAM'' of Some v \<Rightarrow> v | None \<Rightarrow> []);
     let non_empty = (\<lambda>key. do {
       v \<leftarrow> env key;
       (if trim v \<noteq> [] then Some (trim v) else None)
     });
     Some \<lparr>tm_team = team, tm_client_id = non_empty ''AETHER_ACCESS_CLIENT_ID'',
       tm_client_secret = non_empty ''AETHER_ACCESS_CLIENT_SECRET'', tm_token = non_empty ''AETHER_ACCESS_TOKEN'',
       tm_email = non_empty ''AETHER_ACCESS_EMAIL''\<rparr>
   }"

section \<open>Tokens\<close>

record token_libs =
  zl_base64url :: "string \<Rightarrow> bytes option"
  zl_json :: "bytes \<Rightarrow> json option"

definition is_token_char :: "char \<Rightarrow> bool" where
  "is_token_char c \<longleftrightarrow> is_alphanumeric c \<or> c = CHR ''.'' \<or> c = CHR ''-'' \<or> c = CHR ''_''"

definition token_segments :: "string \<Rightarrow> string list" where
  "token_segments token = split_by (\<lambda>c. c = CHR ''.'') token"

definition looks_like_jwt :: "token_libs \<Rightarrow> string \<Rightarrow> bool" where
  "looks_like_jwt libs token = (
     let token = trim token in
     if length token < 32 then False
     else
       let segments = token_segments token in
       if length segments \<noteq> 3 then False
       else if list_ex (\<lambda>s. s = []) segments then False
       else if \<not> list_all is_token_char token then False
       else zl_base64url libs (hd segments) \<noteq> None)"

definition json_u64 :: "json \<Rightarrow> nat option" where
  "json_u64 v = (case v of J_Int i \<Rightarrow> if 0 \<le> i \<and> i < 2 ^ 64 then Some (nat i) else None | _ \<Rightarrow> None)"

definition jwt_expiry :: "token_libs \<Rightarrow> string \<Rightarrow> nat option" where
  "jwt_expiry libs token = (
     let segments = token_segments token in
     if length segments \<noteq> 3 then None
     else do {
       payload \<leftarrow> zl_base64url libs (segments ! 1);
       v \<leftarrow> zl_json libs payload;
       field \<leftarrow> json_get v ''exp'';
       json_u64 field
     })"

definition jwt_expired :: "token_libs \<Rightarrow> string \<Rightarrow> nat \<Rightarrow> bool" where
  "jwt_expired libs token now = (case jwt_expiry libs token of Some exp \<Rightarrow> exp \<le> now | None \<Rightarrow> False)"

definition ends_token :: "char \<Rightarrow> bool" where
  "ends_token c \<longleftrightarrow> c = CHR 0x22 \<or> c = CHR 0x27 \<or> c = CHR ''&'' \<or> c = CHR ''<'' \<or> is_ws c"

definition extract_jwt_from_html :: "token_libs \<Rightarrow> string \<Rightarrow> string option" where
  "extract_jwt_from_html libs html = do {
     at \<leftarrow> find_sub html ''token='';
     let candidate = trim (takeWhile (\<lambda>c. \<not> ends_token c) (drop (at + 6) html));
     (if looks_like_jwt libs candidate then Some candidate else None)
   }"

text \<open>The question mark inside the loop ends the function at the first part that is not the cookie.\<close>

fun jwt_in_parts :: "token_libs \<Rightarrow> string list \<Rightarrow> string option" where
  "jwt_in_parts libs [] = None"
| "jwt_in_parts libs (part # parts) = (
     let entry = trim part in
     case (case strip_prefix ''CF_Authorization='' entry of
         Some v \<Rightarrow> Some v
       | None \<Rightarrow> strip_prefix ''cf_authorization='' entry) of
       None \<Rightarrow> None
     | Some v \<Rightarrow> if looks_like_jwt libs v then Some v else jwt_in_parts libs parts)"

definition extract_jwt_from_cookie :: "token_libs \<Rightarrow> string \<Rightarrow> string option" where
  "extract_jwt_from_cookie libs header = jwt_in_parts libs (split_by (\<lambda>c. c = CHR '';'') header)"

definition alphanum :: string where
  "alphanum = ''abcdefghijklmnopqrstuvwxyzABCDEFGHIJKLMNOPQRSTUVWXYZ0123456789''"

definition random_alphanumeric :: "nat \<Rightarrow> rng \<Rightarrow> string \<times> rng" where
  "random_alphanumeric len g = (map (\<lambda>r. alphanum ! (r mod length alphanum)) (stake len g), sdrop len g)"

definition generate_install_id :: "rng \<Rightarrow> string \<times> rng" where
  "generate_install_id g = random_alphanumeric 22 g"

definition generate_fcm_token :: "string \<Rightarrow> rng \<Rightarrow> string \<times> rng" where
  "generate_fcm_token install_id g = (case random_alphanumeric 134 g of (s, g) \<Rightarrow> (install_id @ '':APA91b'' @ s, g))"

section \<open>Pages and addresses\<close>

text \<open>\<open>char::from_u32\<close>, as the UTF-8 text of the character.\<close>

definition char_from_u32 :: "nat \<Rightarrow> string option" where
  "char_from_u32 n =
     (if n < 0x80 then Some [char_of n]
      else if n < 0x800 then Some (of_bytes [of_nat (0xc0 + n div 64), of_nat (0x80 + n mod 64)])
      else if 0xd800 \<le> n \<and> n < 0xe000 then None
      else if n < 0x10000 then Some (of_bytes [of_nat (0xe0 + n div 4096), of_nat (0x80 + n div 64 mod 64), of_nat (0x80 + n mod 64)])
      else if n < 0x110000 then Some (of_bytes [of_nat (0xf0 + n div 262144), of_nat (0x80 + n div 4096 mod 64),
          of_nat (0x80 + n div 64 mod 64), of_nat (0x80 + n mod 64)])
      else None)"

definition decode_entity :: "string \<Rightarrow> string option" where
  "decode_entity entity =
     (if entity = ''amp'' then Some ''&''
      else if entity = ''lt'' then Some ''<''
      else if entity = ''gt'' then Some ''>''
      else if entity = ''quot'' then Some [CHR 0x22]
      else if entity = ''apos'' \<or> entity = ''#39'' then Some [CHR 0x27]
      else
        let hex = (case strip_prefix ''#x'' entity of Some h \<Rightarrow> Some h | None \<Rightarrow> strip_prefix ''#X'' entity);
          code = (case Option.bind hex (parse_hex (2 ^ 32 - 1)) of
              Some n \<Rightarrow> Some n
            | None \<Rightarrow> Option.bind (strip_prefix ''#'' entity) (parse_uint (2 ^ 32 - 1)))
        in Option.bind code char_from_u32)"

text \<open>An entity is at most seven characters between \<open>&\<close> and \<open>;\<close>.\<close>

function decode_entities :: "string \<Rightarrow> string" where
  "decode_entities [] = []"
| "decode_entities (c # cs) =
     (if c \<noteq> CHR ''&'' then c # decode_entities cs
      else case find_sub cs '';'' of
          None \<Rightarrow> CHR ''&'' # decode_entities cs
        | Some j \<Rightarrow>
            if 8 < j + 1 then CHR ''&'' # decode_entities cs
            else (case decode_entity (take j cs) of
                Some t \<Rightarrow> t @ decode_entities (drop (j + 1) cs)
              | None \<Rightarrow> CHR ''&'' # decode_entities cs))"
  by pat_completeness auto
termination by (relation "measure length") auto

declare decode_entities.simps(2) [simp del]

definition rfind_sub :: "string \<Rightarrow> string \<Rightarrow> nat option" where
  "rfind_sub s p = find (\<lambda>i. starts_with (drop i s) p) (rev [0..<length s + 1])"

definition extract_totp_form_action :: "string \<Rightarrow> string option" where
  "extract_totp_form_action html = do {
     anchor \<leftarrow> find_sub html (''id='' @ [CHR 0x22] @ ''totp-form'' @ [CHR 0x22]);
     form_start \<leftarrow> rfind_sub (take anchor html) ''<form'';
     tag_len \<leftarrow> find_sub (drop form_start html) ''>'';
     let tag = take tag_len (drop form_start html);
     key_at \<leftarrow> find_sub tag ''action='';
     let after = trim_start_by is_ws (drop (key_at + 7) tag);
     quote \<leftarrow> get after 0;
     (if quote \<noteq> CHR 0x27 \<and> quote \<noteq> CHR 0x22 then None
      else do {
        let body = drop 1 after;
        fin \<leftarrow> find_sub body [quote];
        let action = decode_entities (take fin body);
        (if starts_with action ''https://'' then Some action else None)
      })
   }"

function percent_bytes :: "bytes \<Rightarrow> bytes" where
  "percent_bytes [] = []"
| "percent_bytes (b # bs) =
     (if b = 0x25 \<and> 2 \<le> length bs then
        (case parse_hex 255 (of_bytes (take 2 bs)) of
           Some v \<Rightarrow> of_nat v # percent_bytes (drop 2 bs)
         | None \<Rightarrow> 0x25 # percent_bytes bs)
      else if b = 0x2b then 0x20 # percent_bytes bs
      else b # percent_bytes bs)"
  by pat_completeness auto
termination by (relation "measure length") auto

declare percent_bytes.simps(2) [simp del]

definition percent_decode :: "string \<Rightarrow> string" where
  "percent_decode raw = of_bytes (utf8_lossy (percent_bytes (as_bytes raw)))"

fun value_in_pairs :: "string \<Rightarrow> string list \<Rightarrow> string option" where
  "value_in_pairs key [] = None"
| "value_in_pairs key (pair # pairs) = (case split_once (CHR ''='') pair of
     None \<Rightarrow> None
   | Some (name, v) \<Rightarrow> if name = key then Some (percent_decode v) else value_in_pairs key pairs)"

definition query_value :: "string \<Rightarrow> string \<Rightarrow> string option" where
  "query_value url key = do {
     (_, query) \<leftarrow> split_once (CHR ''?'') url;
     value_in_pairs key (split_by (\<lambda>c. c = CHR ''&'') query)
   }"

section \<open>Signing in\<close>

text \<open>
  What the login service answers. A request that cannot be sent is a text on the left; so is a body
  that does not arrive. Confirming a code takes the number of the attempt as well, as the service
  may answer the same code differently.
\<close>

record service_answer =
  sv_status_text :: string
  sv_cookies :: "string list"
  sv_body :: string

datatype line_read = Line_Timeout | Line_Error | Line string

record login_world =
  lw_client :: "string option"
  lw_landing :: "string \<Rightarrow> string + (string \<times> (string + string))"
  lw_send_code :: "string \<Rightarrow> string \<Rightarrow> string + (string \<times> nat)"
  lw_confirm :: "nat \<Rightarrow> string \<Rightarrow> string \<Rightarrow> string \<Rightarrow> string + (nat \<times> (string + string))"
  lw_service :: "string \<Rightarrow> string \<Rightarrow> string \<Rightarrow> string + service_answer"
  lw_interactive :: bool
  lw_line :: "nat \<Rightarrow> line_read"
  lw_show_status :: "nat \<Rightarrow> string"

record email_sign_in =
  es_team :: string
  es_email :: string
  es_nonce :: string
  es_verify_url :: string

datatype code_outcome = Token string | Rejected nat

definition access_client :: "login_world \<Rightarrow> aether_error + unit" where
  "access_client w = (case lw_client w of Some e \<Rightarrow> Inl (E_Api (''access client: '' @ e)) | None \<Rightarrow> Inr ())"

definition fetch_token_with_service_token :: "token_libs \<Rightarrow> login_world \<Rightarrow> team_settings \<Rightarrow> aether_error + string" where
  "fetch_token_with_service_token libs w s = (case tm_client_id s of
     None \<Rightarrow> Inl (E_Api ''missing access client id'')
   | Some client_id \<Rightarrow> (case tm_client_secret s of
       None \<Rightarrow> Inl (E_Api ''missing access client secret'')
     | Some client_secret \<Rightarrow> (case access_client w of
         Inl e \<Rightarrow> Inl e
       | Inr _ \<Rightarrow> (case lw_service w (login_url s) client_id client_secret of
           Inl e \<Rightarrow> Inl (E_Api (''access request: '' @ e))
         | Inr answer \<Rightarrow> (case List.map_filter (extract_jwt_from_cookie libs) (sv_cookies answer) of
             token # _ \<Rightarrow> Inr token
           | [] \<Rightarrow> (case extract_jwt_from_html libs (sv_body answer) of
               Some token \<Rightarrow> Inr token
             | None \<Rightarrow> Inl (E_Api (''access did not return a device enrolment token (status '' @ sv_status_text answer
                 @ ''); confirm the service token has Service Auth device enrolment permission for team '' @ tm_team s))))))))"

definition send_email_code :: "login_world \<Rightarrow> string \<Rightarrow> string \<Rightarrow> string option \<Rightarrow> aether_error + string option" where
  "send_email_code w verify_url email fallback_url = (case lw_send_code w verify_url email of
     Inl e \<Rightarrow> Inl (E_Api (''requesting a login code: '' @ e))
   | Inr (sent_url, status) \<Rightarrow>
       if \<not> is_success status
       then Inl (E_Api (''cloudflare refused to send a login code (status '' @ lw_show_status w status @ '')''))
       else Inr (case query_value sent_url ''nonce'' of
           Some n \<Rightarrow> Some n
         | None \<Rightarrow> Option.bind fallback_url (\<lambda>u. query_value u ''nonce'')))"

definition begin_email_signin :: "login_world \<Rightarrow> team_settings \<Rightarrow> string \<Rightarrow> aether_error + email_sign_in" where
  "begin_email_signin w s email = (
     let email = trim email in
     if email = [] then Inl (E_Api ''an email address is needed to request a login code'')
     else case access_client w of
         Inl e \<Rightarrow> Inl e
       | Inr _ \<Rightarrow> (case lw_landing w (login_url s) of
           Inl e \<Rightarrow> Inl (E_Api (''enrolment page: '' @ e))
         | Inr (url, Inl e) \<Rightarrow> Inl (E_Api (''enrolment page body: '' @ e))
         | Inr (url, Inr body) \<Rightarrow> (case extract_totp_form_action body of
             None \<Rightarrow> Inl (E_Api (''team '' @ tm_team s @ '' does not offer an email one-time code on its enrolment page; ''
                 @ ''use a service token or sign in at '' @ login_url s))
           | Some verify_url \<Rightarrow> (case send_email_code w verify_url email (Some url) of
               Inl e \<Rightarrow> Inl e
             | Inr None \<Rightarrow> Inl (E_Api (''cloudflare did not return a nonce for the login code; the enrolment flow ''
                 @ ''may have changed''))
             | Inr (Some nonce) \<Rightarrow> Inr \<lparr>es_team = tm_team s, es_email = email, es_nonce = nonce, es_verify_url = verify_url\<rparr>))))"

definition resend_code :: "login_world \<Rightarrow> email_sign_in \<Rightarrow> aether_error + email_sign_in" where
  "resend_code w es = (case send_email_code w (es_verify_url es) (es_email es) None of
     Inl e \<Rightarrow> Inl e
   | Inr (Some nonce) \<Rightarrow> Inr (es\<lparr>es_nonce := nonce\<rparr>)
   | Inr None \<Rightarrow> Inr es)"

definition submit_code :: "token_libs \<Rightarrow> login_world \<Rightarrow> nat \<Rightarrow> email_sign_in \<Rightarrow> string \<Rightarrow> aether_error + code_outcome" where
  "submit_code libs w attempt es code = (
     let code = trim code in
     if code = [] then Inl (E_Api ''no login code was entered'')
     else case lw_confirm w attempt (team_domain (es_team es) @ ''/cdn-cgi/access/callback'') code (es_nonce es) of
         Inl e \<Rightarrow> Inl (E_Api (''confirming the login code: '' @ e))
       | Inr (status, Inl e) \<Rightarrow> Inl (E_Api (''callback body: '' @ e))
       | Inr (status, Inr body) \<Rightarrow> (case extract_jwt_from_html libs body of
           Some token \<Rightarrow> Inr (Token token)
         | None \<Rightarrow> Inr (Rejected status)))"

definition prompt_login_code :: "login_world \<Rightarrow> string \<Rightarrow> nat \<Rightarrow> aether_error + string" where
  "prompt_login_code w email attempt = (
     let nothing = E_Api (if lw_interactive w then ''no login code was entered''
       else ''a login code was emailed to '' @ email @ '' but nothing was sent back to answer it'')
     in case lw_line w attempt of
         Line_Timeout \<Rightarrow>
           if lw_interactive w then Inl nothing
           else Inl (E_Api (''no login code arrived within 300s; request a fresh code and try again''))
       | Line_Error \<Rightarrow> Inl nothing
       | Line line \<Rightarrow>
           if line = [] then Inl nothing
           else if trim line = [] then Inl (E_Api ''no login code was entered'')
           else Inr (trim line))"

fun code_loop :: "token_libs \<Rightarrow> login_world \<Rightarrow> email_sign_in \<Rightarrow> nat list \<Rightarrow> nat option \<Rightarrow> aether_error + string" where
  "code_loop libs w es [] last_status = Inl (E_Api (''the login code was not accepted after '' @ show_nat code_attempts
     @ '' attempts (last status '' @ (case last_status of Some st \<Rightarrow> show_nat st | None \<Rightarrow> ''unknown'')
     @ ''); request a fresh code and try again''))"
| "code_loop libs w es (attempt # attempts) last_status = (case prompt_login_code w (es_email es) attempt of
     Inl e \<Rightarrow> Inl e
   | Inr code \<Rightarrow> (case submit_code libs w attempt es code of
       Inl e \<Rightarrow> Inl e
     | Inr (Token token) \<Rightarrow> Inr token
     | Inr (Rejected status) \<Rightarrow> code_loop libs w es attempts (Some status)))"

definition fetch_token_with_email_code :: "token_libs \<Rightarrow> login_world \<Rightarrow> team_settings \<Rightarrow> string \<Rightarrow> aether_error + string" where
  "fetch_token_with_email_code libs w s email = (case begin_email_signin w s email of
     Inl e \<Rightarrow> Inl e
   | Inr es \<Rightarrow> code_loop libs w es [1..<Suc code_attempts] None)"

definition sign_in :: "token_libs \<Rightarrow> login_world \<Rightarrow> nat \<Rightarrow> team_settings \<Rightarrow> aether_error + string" where
  "sign_in libs w now s = (case tm_token s of
     Some token \<Rightarrow>
       if \<not> looks_like_jwt libs token
       then Inl (E_Api (''the supplied access token is not a jwt; copy the value that follows token= '' @ ''on the enrolment page''))
       else if jwt_expired libs token now
       then Inl (E_Api ''the supplied access token has expired; sign in again to get a fresh one'')
       else Inr token
   | None \<Rightarrow>
       if has_service_token s then fetch_token_with_service_token libs w s
       else case tm_email s of
           Some email \<Rightarrow> fetch_token_with_email_code libs w s email
         | None \<Rightarrow> Inl (E_Api (''team '' @ tm_team s @ '' needs a way to sign in. pick one: a service token via ''
             @ ''AETHER_ACCESS_CLIENT_ID and AETHER_ACCESS_CLIENT_SECRET, an email one-time code via ''
             @ ''AETHER_ACCESS_EMAIL, or a token you already hold via AETHER_ACCESS_TOKEN ''
             @ ''(sign in at '' @ login_url s @ '')'')))"

section \<open>The process-wide cells\<close>

record zt_cells =
  zt_cache :: "(string \<times> string) option"
  zt_pending :: "email_sign_in option"

definition resolve_token :: "token_libs \<Rightarrow> login_world \<Rightarrow> nat \<Rightarrow> team_settings \<Rightarrow> zt_cells \<Rightarrow> (aether_error + string) \<times> zt_cells" where
  "resolve_token libs w now s z = (case zt_cache z of
     Some (team, cached) \<Rightarrow>
       if team = tm_team s \<and> \<not> jwt_expired libs cached now then (Inr cached, z)
       else (let z = z\<lparr>zt_cache := None\<rparr> in case sign_in libs w now s of
         Inl e \<Rightarrow> (Inl e, z)
       | Inr token \<Rightarrow> (Inr token, z\<lparr>zt_cache := Some (tm_team s, token)\<rparr>))
   | None \<Rightarrow> (case sign_in libs w now s of
       Inl e \<Rightarrow> (Inl e, z)
     | Inr token \<Rightarrow> (Inr token, z\<lparr>zt_cache := Some (tm_team s, token)\<rparr>)))"

definition store_token :: "token_libs \<Rightarrow> nat \<Rightarrow> string \<Rightarrow> zt_cells \<Rightarrow> (aether_error + unit) \<times> zt_cells" where
  "store_token libs now token z = (
     let token = trim token in
     if \<not> looks_like_jwt libs token
     then (Inl (E_Api ''that value is not a jwt; copy the value that follows token= on the enrolment page''), z)
     else if jwt_expired libs token now
     then (Inl (E_Api ''that token has already expired; sign in again to get a fresh one''), z)
     else (Inr (), z\<lparr>zt_cache := Some ([], token)\<rparr>))"

definition cached_token :: "token_libs \<Rightarrow> nat \<Rightarrow> zt_cells \<Rightarrow> string option" where
  "cached_token libs now z = (case zt_cache z of
     Some (_, token) \<Rightarrow> if \<not> jwt_expired libs token now then Some token else None
   | None \<Rightarrow> None)"

definition clear_token :: "zt_cells \<Rightarrow> zt_cells" where
  "clear_token z = z\<lparr>zt_cache := None\<rparr>"

definition request_email_code :: "login_world \<Rightarrow> string \<Rightarrow> string \<Rightarrow> zt_cells \<Rightarrow> (aether_error + unit) \<times> zt_cells" where
  "request_email_code w team email z = (case normalize_team team of
     None \<Rightarrow> (Inl (E_Api ''enter a valid Zero Trust team name''), z)
   | Some team \<Rightarrow>
       (let email = trim email in
        if email = [] \<or> \<not> contains email ''@'' then (Inl (E_Api ''enter a valid email address''), z)
        else case begin_email_signin w \<lparr>tm_team = team, tm_client_id = None, tm_client_secret = None, tm_token = None,
              tm_email = Some email\<rparr> email of
            Inl e \<Rightarrow> (Inl e, z)
          | Inr es \<Rightarrow> (Inr (), z\<lparr>zt_pending := Some es\<rparr>)))"

definition confirm_email_code :: "token_libs \<Rightarrow> login_world \<Rightarrow> nat \<Rightarrow> string \<Rightarrow> zt_cells \<Rightarrow> (aether_error + string) \<times> zt_cells" where
  "confirm_email_code libs w attempt code z = (case zt_pending z of
     None \<Rightarrow> (Inl (E_Api ''request a fresh email code before confirming it''), z)
   | Some es \<Rightarrow> (case submit_code libs w attempt es code of
       Inl e \<Rightarrow> (Inl e, z)
     | Inr (Token token) \<Rightarrow> (Inr token, z\<lparr>zt_cache := Some (es_team es, token), zt_pending := None\<rparr>)
     | Inr (Rejected status) \<Rightarrow> (Inl (E_Api (''the login code was not accepted (status '' @ show_nat status
         @ ''); check it or request a fresh code'')), z)))"

section \<open>Names\<close>

lemma hd_split_by: "hd (split_by p s) = takeWhile (\<lambda>c. \<not> p c) s"
proof (induction s)
  case (Cons c s)
  then show ?case using split_by_nonempty [of p s] by (auto split: list.split simp del: split_by_nonempty)
qed simp

lemma strip_prefix_None: "(\<exists>c \<in> set p. c \<notin> set s) \<Longrightarrow> strip_prefix p s = None"
  by (auto simp: strip_prefix_def starts_with_iff)

lemma strip_suffix_append [simp]: "strip_suffix p (s @ p) = Some s"
  by (auto simp: strip_suffix_def ends_with_iff)

lemma strip_suffix_None: "(\<exists>c \<in> set p. c \<notin> set s) \<Longrightarrow> strip_suffix p s = None"
  by (auto simp: strip_suffix_def ends_with_iff)

lemma trim_end_by_id: "s = [] \<or> \<not> p (last s) \<Longrightarrow> trim_end_by p s = s"
  by (cases s rule: rev_cases) (simp_all add: trim_end_by_def)

lemma trim_end_by_snoc: "p c \<Longrightarrow> s = [] \<or> \<not> p (last s) \<Longrightarrow> trim_end_by p (s @ [c]) = s"
  by (cases s rule: rev_cases) (simp_all add: trim_end_by_def)

lemma set_trim_end_by: "set (trim_end_by p s) \<subseteq> set s"
  using set_dropWhileD by (fastforce simp: trim_end_by_def)

lemma set_trim: "set (trim s) \<subseteq> set s"
  using set_trim_end_by set_dropWhileD by (fastforce simp: trim_def trim_start_by_def)

text \<open>A name that \<open>normalize_team\<close> returns.\<close>

definition team_name :: "string \<Rightarrow> bool" where
  "team_name t \<longleftrightarrow> t \<noteq> [] \<and> list_all is_team_char t \<and> to_lowercase t = t"

lemma lowercase_subset: "set s \<subseteq> set (to_lowercase r) \<Longrightarrow> to_lowercase s = s"
proof -
  assume s: "set s \<subseteq> set (to_lowercase r)"
  have "lower_char c = c" if "c \<in> set s" for c
    using s that by (auto simp: to_lowercase_def)
  then show "to_lowercase s = s" by (simp add: to_lowercase_def map_idI)
qed

lemma without_prefix_subset: "set (without_prefix p s) \<subseteq> set s"
  by (auto simp: without_prefix_def strip_prefix_def dest: in_set_dropD)

lemma normalize_team_name: "normalize_team raw = Some t \<Longrightarrow> team_name t"
proof -
  assume n: "normalize_team raw = Some t"
  define l where "l = to_lowercase (trim raw)"
  define w where "w = without_prefix ''http://'' (without_prefix ''https://'' l)"
  define v where "v = hd (split_by (\<lambda>c. c = CHR ''/'') (trim_end_by (\<lambda>c. c = CHR ''/'') w))"
  define r where "r = (case strip_suffix team_suffix v of Some head \<Rightarrow> trim_end_by (\<lambda>c. c = CHR ''.'') head | None \<Rightarrow> v)"
  have eq: "normalize_team raw = (if l = [] then None else if r = [] then None else if list_all is_team_char r then Some r else None)"
    by (simp only: normalize_team_def Let_def l_def w_def v_def r_def)
  then have t: "t = r" "t \<noteq> []" "list_all is_team_char t" using n by (simp_all split: if_splits)
  have "set w \<subseteq> set l" unfolding w_def using without_prefix_subset order_trans by blast
  moreover have "set v \<subseteq> set w"
    unfolding v_def hd_split_by using set_trim_end_by set_takeWhileD by fast
  moreover have "set r \<subseteq> set v"
  proof (cases "strip_suffix team_suffix v")
    case (Some head)
    then have "set head \<subseteq> set v" by (auto simp: strip_suffix_def split: if_splits dest: in_set_takeD)
    with Some show ?thesis unfolding r_def using set_trim_end_by by fastforce
  qed (simp add: r_def)
  ultimately have "set t \<subseteq> set l" using t(1) by blast
  then show "team_name t" using t lowercase_subset unfolding team_name_def l_def by blast
qed

lemma team_char_props:
  assumes "is_team_char c"
  shows "\<not> is_ws c" "c \<noteq> CHR ''/''" "c \<noteq> CHR '':''" "c \<noteq> CHR ''.''" "c \<noteq> CHR ''?''"
  using assms by (auto simp: is_team_char_def is_alphanumeric_def is_ws_def Let_def)

lemma to_lowercase_append: "to_lowercase (a @ b) = to_lowercase a @ to_lowercase b"
  by (simp add: to_lowercase_def)

lemma trim_team: "team_name t \<Longrightarrow> trim t = t"
  using team_char_props(1) by (intro trim_id) (auto simp: team_name_def list_all_iff)

lemma split_slash: "CHR ''/'' \<notin> set s \<Longrightarrow> hd (split_by (\<lambda>c. c = CHR ''/'') (trim_end_by (\<lambda>c. c = CHR ''/'') s)) = s"
proof -
  assume s: "CHR ''/'' \<notin> set s"
  then have "s = [] \<or> last s \<noteq> CHR ''/''" using last_in_set by metis
  then have "trim_end_by (\<lambda>c. c = CHR ''/'') s = s" by (intro trim_end_by_id)
  moreover have "split_by (\<lambda>c. c = CHR ''/'') s = [s]" using s by (intro split_by_no_sep) auto
  ultimately show ?thesis by simp
qed

lemma team_chars:
  assumes "team_name t"
  shows "c \<in> set t \<Longrightarrow> \<not> is_ws c" "CHR ''/'' \<notin> set t" "CHR '':'' \<notin> set t" "CHR ''.'' \<notin> set t"
proof -
  have t: "is_team_char c" if "c \<in> set t" for c using assms that by (simp add: team_name_def list_all_iff)
  show "c \<in> set t \<Longrightarrow> \<not> is_ws c" by (rule team_char_props(1) [OF t])
  show "CHR ''/'' \<notin> set t" using team_char_props(2) [OF t, of "CHR ''/''"] by auto
  show "CHR '':'' \<notin> set t" using team_char_props(3) [OF t, of "CHR '':''"] by auto
  show "CHR ''.'' \<notin> set t" using team_char_props(4) [OF t, of "CHR ''.''"] by auto
qed

lemma normalize_team_plain:
  assumes t: "team_name t"
  shows "normalize_team t = Some t"
proof -
  have "strip_prefix ''https://'' t = None" "strip_prefix ''http://'' t = None"
    using team_chars(3) [OF t] by (auto intro!: strip_prefix_None)
  then have p: "without_prefix ''http://'' (without_prefix ''https://'' t) = t" by (simp add: without_prefix_def)
  have x: "strip_suffix team_suffix t = None"
    using team_chars(4) [OF t] by (intro strip_suffix_None) (auto simp: team_suffix_def)
  have low: "to_lowercase t = t" "t \<noteq> []" "list_all is_team_char t" using t by (simp_all add: team_name_def)
  show ?thesis
    unfolding normalize_team_def trim_team [OF t] low(1) p Let_def split_slash [OF team_chars(2) [OF t]] x option.case
    by (simp add: low)
qed

lemma normalize_team_address:
  assumes t: "team_name t" and path: "path = [] \<or> (\<exists>p. path = CHR ''/'' # p)"
    and low_path: "to_lowercase path = path" and edge: "path = [] \<or> \<not> is_ws (last path) \<and> last path \<noteq> CHR ''/''"
  shows "normalize_team (team_domain t @ path) = Some t"
proof -
  let ?s = "t @ ''.'' @ team_suffix" and ?d = "team_domain t @ path"
  have ne: "?d \<noteq> []" by (simp add: team_domain_def)
  have tr: "trim ?d = ?d"
    using edge by (intro trim_id) (auto simp: team_domain_def team_suffix_def is_ws_def)
  have low: "to_lowercase ?d = ?d"
    using t low_path unfolding team_domain_def to_lowercase_append team_name_def
    by (simp add: team_suffix_def) (simp add: to_lowercase_def lower_char_def)
  have "without_prefix ''https://'' ?d = ?s @ path"
    by (simp add: without_prefix_def strip_prefix_def team_domain_def)
  moreover have "strip_prefix ''http://'' (?s @ path) = None"
  proof (rule ccontr)
    assume "strip_prefix ''http://'' (?s @ path) \<noteq> None"
    then obtain r where r: "?s @ path = ''http://'' @ r"
      by (auto simp: strip_prefix_def starts_with_iff split: if_splits)
    have "length t + 21 = length ?s" by (simp add: team_suffix_def)
    then have l: "4 < length ?s" by linarith
    then have "?s ! 4 = (?s @ path) ! 4" by (rule nth_append_left [symmetric])
    also have "\<dots> = CHR '':''" unfolding r by simp
    finally have "?s ! 4 = CHR '':''" .
    moreover have "CHR '':'' \<notin> set ?s" using team_chars(3) [OF t] by (auto simp: team_suffix_def)
    moreover note l
    ultimately show False using nth_mem by metis
  qed
  ultimately have p: "without_prefix ''http://'' (without_prefix ''https://'' ?d) = ?s @ path"
    by (simp add: without_prefix_def)
  have noslash: "CHR ''/'' \<notin> set ?s" using team_chars(2) [OF t] by (auto simp: team_suffix_def)
  have te: "trim_end_by (\<lambda>c. c = CHR ''/'') (?s @ path) = ?s @ path"
    using edge by (intro trim_end_by_id) (auto simp: team_suffix_def)
  have tw: "takeWhile (\<lambda>c. c \<noteq> CHR ''/'') (?s @ path) = ?s"
    using noslash path by (subst takeWhile_append2) auto
  have sl: "hd (split_by (\<lambda>c. c = CHR ''/'') (trim_end_by (\<lambda>c. c = CHR ''/'') (?s @ path))) = ?s"
    unfolding te hd_split_by tw ..
  have "last t \<noteq> CHR ''.''" using team_chars(4) [OF t] t last_in_set by (metis team_name_def)
  then have d: "trim_end_by (\<lambda>c. c = CHR ''.'') (t @ ''.'') = t" by (intro trim_end_by_snoc) simp_all
  have x: "strip_suffix team_suffix ?s = Some (t @ ''.'')" using strip_suffix_append [of team_suffix "t @ ''.''"] by simp
  have "t \<noteq> []" "list_all is_team_char t" using t by (simp_all add: team_name_def)
  then show ?thesis
    unfolding normalize_team_def tr low p Let_def sl x option.case d using ne by simp
qed

lemma enroll_path_address:
  "\<exists>p. enroll_path = CHR ''/'' # p" "to_lowercase enroll_path = enroll_path"
  "\<not> is_ws (last enroll_path)" "last enroll_path \<noteq> CHR ''/''"
  by (simp_all add: enroll_path_def is_ws_def to_lowercase_def lower_char_def)

text \<open>C23: The name of a team is in normal form: normalising it again, or the address of the team's domain,
  or the login address made for any settings with that team, gives the same name; and it is a
  non-empty name of letters, digits, hyphens and underscores.\<close>

theorem team_names_are_canonical:
  assumes "normalize_team raw = Some t" and "tm_team s = t"
  shows "normalize_team t = Some t \<and> normalize_team (team_domain t) = Some t \<and> normalize_team (login_url s) = Some t
    \<and> t \<noteq> [] \<and> list_all is_team_char t"
proof -
  have n: "team_name t" by (rule normalize_team_name [OF assms(1)])
  have "normalize_team (team_domain t) = Some t"
    using normalize_team_address [OF n, of "[]"] by (simp add: to_lowercase_def)
  moreover have "normalize_team (login_url s) = Some t"
    using normalize_team_address [OF n, of enroll_path] enroll_path_address unfolding login_url_def assms(2) by blast
  ultimately show ?thesis using n normalize_team_plain by (simp add: team_name_def)
qed

theorem team_names_are_canonical_witness:
  "normalize_team ''my-org/'' = Some ''my-org'' \<and> normalize_team ''https://my-org.cloudflareaccess.com'' = Some ''my-org''
    \<and> normalize_team ''https://my-org.cloudflareaccess.com/warp'' = Some ''my-org''"
proof -
  have n: "normalize_team ''my-org/'' = Some ''my-org''"
    by (simp add: normalize_team_def trim_def trim_start_by_def trim_end_by_def is_ws_def to_lowercase_def lower_char_def
        without_prefix_def strip_prefix_def strip_suffix_def ends_with_def team_suffix_def is_team_char_def is_alphanumeric_def)
  define s where "s = \<lparr>tm_team = ''my-org'', tm_client_id = None, tm_client_secret = None, tm_token = None, tm_email = None\<rparr>"
  have s: "tm_team s = ''my-org''" by (simp add: s_def)
  from team_names_are_canonical [OF n s] n show ?thesis
    by (simp add: team_domain_def team_suffix_def login_url_def s enroll_path_def)
qed

section \<open>Every token that is handed out looks like one\<close>

lemma html_token: "extract_jwt_from_html libs html = Some t \<Longrightarrow> looks_like_jwt libs t"
  by (auto simp: extract_jwt_from_html_def Let_def split: Option.bind_splits if_splits)

lemma parts_token: "jwt_in_parts libs parts = Some t \<Longrightarrow> looks_like_jwt libs t"
  by (induction parts) (auto simp: Let_def split: option.splits if_splits)

lemma cookie_tokens: "List.map_filter (extract_jwt_from_cookie libs) cookies = t # ts \<Longrightarrow> looks_like_jwt libs t"
  by (induction cookies) (auto simp: List.map_filter_simps extract_jwt_from_cookie_def split: option.splits dest: parts_token)

lemma submit_token: "submit_code libs w k es code = Inr (Token t) \<Longrightarrow> looks_like_jwt libs t"
  by (auto simp: submit_code_def Let_def split: if_splits sum.splits prod.splits option.splits dest: html_token)

lemma code_loop_token: "code_loop libs w es ks st = Inr t \<Longrightarrow> looks_like_jwt libs t"
  by (induction ks arbitrary: st) (auto split: sum.splits code_outcome.splits dest: submit_token)

lemma service_token: "fetch_token_with_service_token libs w s = Inr t \<Longrightarrow> looks_like_jwt libs t"
  by (auto simp: fetch_token_with_service_token_def split: option.splits sum.splits list.splits dest: cookie_tokens html_token)

lemma sign_in_token: "sign_in libs w now s = Inr t \<Longrightarrow> looks_like_jwt libs t"
  by (auto simp: sign_in_def fetch_token_with_email_code_def split: option.splits if_splits sum.splits
      dest: service_token code_loop_token)

definition zt_initial :: zt_cells where
  "zt_initial = \<lparr>zt_cache = None, zt_pending = None\<rparr>"

inductive zt_step :: "token_libs \<Rightarrow> zt_cells \<Rightarrow> zt_cells \<Rightarrow> bool" for libs where
  resolve: "zt_step libs z (snd (resolve_token libs w now s z))"
| store: "zt_step libs z (snd (store_token libs now token z))"
| clear: "zt_step libs z (clear_token z)"
| request: "zt_step libs z (snd (request_email_code w team email z))"
| confirm: "zt_step libs z (snd (confirm_email_code libs w k code z))"

inductive zt_run :: "token_libs \<Rightarrow> zt_cells \<Rightarrow> zt_cells \<Rightarrow> bool" for libs where
  none: "zt_run libs z z"
| step: "zt_run libs z z' \<Longrightarrow> zt_step libs z' z'' \<Longrightarrow> zt_run libs z z''"

definition zt_ok :: "token_libs \<Rightarrow> zt_cells \<Rightarrow> bool" where
  "zt_ok libs z \<longleftrightarrow> (case zt_cache z of Some (_, t) \<Rightarrow> looks_like_jwt libs t | None \<Rightarrow> True)
     \<and> (case zt_pending z of Some es \<Rightarrow> es_team es \<noteq> [] \<and> trim (es_email es) \<noteq> [] | None \<Rightarrow> True)"

lemma trim_idem: "trim (trim s) = trim s"
proof (cases "trim s = []")
  case False
  have "\<not> is_ws (last (trim s))"
  proof -
    have "rev (trim s) = dropWhile is_ws (rev (trim_start_by is_ws s))" by (simp add: trim_def trim_end_by_def)
    with False have "\<not> is_ws (hd (rev (trim s)))" by (metis hd_dropWhile rev_is_Nil_conv)
    then show ?thesis by (simp add: hd_rev)
  qed
  moreover have "\<not> is_ws (hd (trim s))"
  proof -
    define d where "d = dropWhile is_ws s"
    obtain r where r: "d = trim s @ r"
      unfolding d_def trim_def trim_start_by_def trim_end_by_def
      by (metis append_take_drop_id dropWhile_eq_drop rev_append rev_rev_ident)
    with False have "hd d = hd (trim s)" "d \<noteq> []" by auto
    then show ?thesis unfolding d_def by (metis hd_dropWhile)
  qed
  ultimately show ?thesis using False by (intro trim_id)
next
  case True
  then show ?thesis by (simp add: trim_Nil)
qed

lemma begin_team: "begin_email_signin w s email = Inr es \<Longrightarrow> es_team es = tm_team s \<and> trim (es_email es) \<noteq> []"
  by (auto simp: begin_email_signin_def Let_def trim_idem split: if_splits sum.splits prod.splits option.splits)

lemma zt_step_ok: "zt_step libs z z' \<Longrightarrow> zt_ok libs z \<Longrightarrow> zt_ok libs z'"
proof (induction rule: zt_step.induct)
  case (resolve z w now s)
  then show ?case
    by (auto simp: resolve_token_def zt_ok_def Let_def split: option.splits prod.splits sum.splits if_splits dest: sign_in_token)
next
  case (store z now token)
  then show ?case by (auto simp: store_token_def zt_ok_def Let_def split: option.splits)
next
  case (clear z)
  then show ?case by (simp add: clear_token_def zt_ok_def)
next
  case (request z w team email)
  then show ?case
    by (auto simp: request_email_code_def zt_ok_def Let_def split: option.splits sum.splits
        dest!: begin_team normalize_team_name simp: team_name_def)
next
  case (confirm z w k code)
  then show ?case
    by (auto simp: confirm_email_code_def zt_ok_def split: option.splits sum.splits code_outcome.splits dest: submit_token)
qed

lemma zt_run_ok: "zt_run libs z z' \<Longrightarrow> zt_ok libs z \<Longrightarrow> zt_ok libs z'"
  by (induction rule: zt_run.induct) (auto dest: zt_step_ok)

text \<open>C24: In every sequence of sign-ins, stored tokens, requested and confirmed codes, a token that is handed
  out has the form of a JWT, is remembered for the team it was asked for, and is handed out again
  without asking the login service until it expires.\<close>

theorem resolved_tokens_are_remembered:
  assumes "zt_run libs zt_initial z" and "resolve_token libs w now s z = (Inr token, z')"
  shows "looks_like_jwt libs token \<and> zt_cache z' = Some (tm_team s, token)
    \<and> resolve_token libs w' now' s z' =
        (if jwt_expired libs token now' then resolve_token libs w' now' s (z'\<lparr>zt_cache := None\<rparr>) else (Inr token, z'))"
proof -
  have ok: "zt_ok libs z" using zt_run_ok [OF assms(1)] by (simp add: zt_ok_def zt_initial_def)
  have c: "zt_cache z' = Some (tm_team s, token)"
    using assms(2) by (auto simp: resolve_token_def Let_def split: option.splits prod.splits sum.splits if_splits)
  have "looks_like_jwt libs token"
    using assms(2) ok
    by (auto simp: resolve_token_def zt_ok_def Let_def split: option.splits prod.splits sum.splits if_splits dest: sign_in_token)
  then show ?thesis using c by (simp add: resolve_token_def Let_def)
qed

definition sample_token :: string where
  "sample_token = ''aaaaaaaaaa.bbbbbbbbbb.cccccccccc''"

definition sample_token_libs :: token_libs where
  "sample_token_libs = \<lparr>zl_base64url = (\<lambda>s. Some (as_bytes s)), zl_json = (\<lambda>_. None)\<rparr>"

lemma sample_token_jwt: "looks_like_jwt sample_token_libs sample_token" "\<not> jwt_expired sample_token_libs sample_token now"
proof -
  have "trim sample_token = sample_token" by (rule trim_id) (simp_all add: sample_token_def is_ws_def)
  then show "looks_like_jwt sample_token_libs sample_token"
    by (simp add: looks_like_jwt_def Let_def) (simp add: sample_token_def token_segments_def is_token_char_def is_alphanumeric_def
        sample_token_libs_def)
  show "\<not> jwt_expired sample_token_libs sample_token now"
    by (simp add: jwt_expired_def jwt_expiry_def sample_token_libs_def Let_def)
qed

theorem resolved_tokens_are_remembered_witness:
  "\<forall>w. resolve_token sample_token_libs w 0 \<lparr>tm_team = ''t'', tm_client_id = None, tm_client_secret = None,
        tm_token = Some sample_token, tm_email = None\<rparr> \<lparr>zt_cache = Some (''t'', sample_token), zt_pending = None\<rparr>
     = (Inr sample_token, \<lparr>zt_cache = Some (''t'', sample_token), zt_pending = None\<rparr>)"
proof
  fix w
  let ?s = "\<lparr>tm_team = ''t'', tm_client_id = None, tm_client_secret = None, tm_token = Some sample_token, tm_email = None\<rparr>"
  have "resolve_token sample_token_libs w 0 ?s zt_initial = (Inr sample_token, \<lparr>zt_cache = Some (''t'', sample_token), zt_pending = None\<rparr>)"
    by (simp add: resolve_token_def zt_initial_def sign_in_def sample_token_jwt)
  from resolved_tokens_are_remembered [OF zt_run.none this, of w 0]
  show "resolve_token sample_token_libs w 0 ?s \<lparr>zt_cache = Some (''t'', sample_token), zt_pending = None\<rparr>
     = (Inr sample_token, \<lparr>zt_cache = Some (''t'', sample_token), zt_pending = None\<rparr>)"
    by (simp add: sample_token_jwt)
qed

text \<open>
  A token that \<open>store_token\<close> accepts is filed under the empty team, which no settings have: the next
  \<open>resolve_token\<close> throws it away. And the searches for the cookie and for a query value stop at the
  first part that does not fit.
\<close>

lemma stored_token_is_discarded:
  assumes "store_token libs now token z = (Inr (), z')" and "tm_team s \<noteq> []"
  shows "resolve_token libs w now' s z' = resolve_token libs w now' s (z'\<lparr>zt_cache := None\<rparr>)"
  using assms by (cases z) (auto simp: store_token_def resolve_token_def Let_def split: if_splits sum.split)

lemma cookie_behind_another_is_missed:
  assumes "CHR '';'' \<notin> set other" and "strip_prefix ''CF_Authorization='' (trim other) = None"
    and "strip_prefix ''cf_authorization='' (trim other) = None"
  shows "extract_jwt_from_cookie libs (other @ '';'' @ cookies) = None"
proof -
  have "split_by (\<lambda>c. c = CHR '';'') (other @ CHR '';'' # cookies) = other # split_by (\<lambda>c. c = CHR '';'') cookies"
    using assms(1) by (intro split_by_append) auto
  then show ?thesis using assms(2,3) by (simp add: extract_jwt_from_cookie_def)
qed

lemma value_behind_a_flag_is_missed:
  assumes "CHR ''='' \<notin> set flag" and "CHR ''&'' \<notin> set flag" and "CHR ''?'' \<notin> set url"
  shows "query_value (url @ ''?'' @ flag @ ''&'' @ pairs) key = None"
proof -
  have "split_by (\<lambda>c. c = CHR ''&'') (flag @ CHR ''&'' # pairs) = flag # split_by (\<lambda>c. c = CHR ''&'') pairs"
    using assms(2) by (intro split_by_append) auto
  moreover have "split_once (CHR ''='') flag = None" using assms(1) by (induction flag) auto
  moreover have "split_once (CHR ''?'') (url @ CHR ''?'' # flag @ CHR ''&'' # pairs) = Some (url, flag @ CHR ''&'' # pairs)"
    using assms(3) by simp
  ultimately show ?thesis by (simp add: query_value_def)
qed

end
