(* ===== verification/Cidr.thy ===== *)
theory Cidr
  imports Net_Text
begin

text \<open>
  The address ranges \<^verbatim>\<open>prober.rs\<close> and \<^verbatim>\<open>wg_prober.rs\<close> scan (both files have the same functions):
  \<open>parse_cidr_v4\<close> and \<open>parse_cidr_v6\<close>, the full enumeration of a small range (\<open>enumerate_cidr_v4\<close>) and
  the random samples (\<open>sample_cidr_v4\<close> draws until it has enough different hosts, \<open>sample_cidr_v6\<close>
  embeds IPv4 addresses). Random numbers are a list of draws that is used up and handed on;
  \<open>None\<close> is a call that has not returned when the draws are over, or a panic: a shift by the width
  of the word or a sum that does not fit.
\<close>

type_synonym draws = "nat list"

type_synonym 'a drawing = "draws \<Rightarrow> ('a \<times> draws) option"

definition parse_u8 :: "string \<Rightarrow> nat option" where
  "parse_u8 = parse_uint 255"

definition parse_cidr_v4 :: "string \<Rightarrow> (ipv4 \<times> nat) option" where
  "parse_cidr_v4 cidr = do {
     (ip, prefix) \<leftarrow> split_once (CHR ''/'') cidr;
     ip \<leftarrow> parse_ipv4 ip;
     prefix \<leftarrow> parse_u8 prefix;
     Some (ip, prefix)
   }"

definition parse_ipv6 :: "string \<Rightarrow> ipv6 option" where
  "parse_ipv6 s = (case read_ipv6 s of Some (v, []) \<Rightarrow> Some v | _ \<Rightarrow> None)"

definition parse_cidr_v6 :: "string \<Rightarrow> (ipv6 \<times> nat) option" where
  "parse_cidr_v6 cidr = do {
     (ip, prefix) \<leftarrow> split_once (CHR ''/'') cidr;
     ip \<leftarrow> parse_ipv6 ip;
     prefix \<leftarrow> parse_u8 prefix;
     Some (ip, prefix)
   }"

text \<open>The sum of two \<open>u32\<close> where overflow is checked.\<close>

definition add_u32 :: "ipv4 \<Rightarrow> nat \<Rightarrow> ipv4 option" where
  "add_u32 base off = (if unat base + off < 2 ^ 32 then Some (base + of_nat off) else None)"

fun hosts_at :: "ipv4 \<Rightarrow> nat list \<Rightarrow> ipv4 list option" where
  "hosts_at base [] = Some []"
| "hosts_at base (off # offs) = do { a \<leftarrow> add_u32 base off; l \<leftarrow> hosts_at base offs; Some (a # l) }"

definition enumerate_cidr_v4 :: "string \<Rightarrow> ipv4 list option" where
  "enumerate_cidr_v4 cidr = (case parse_cidr_v4 cidr of
     None \<Rightarrow> Some []
   | Some (base, prefix) \<Rightarrow>
      (let host_bits = 32 - prefix
       in if host_bits = 0 then Some [base]
          else if 12 < host_bits then Some []
          else hosts_at base [1..<2 ^ host_bits - 1]))"

text \<open>The loop that draws offsets until it has \<open>want\<close> different ones.\<close>

fun draw_offsets :: "nat \<Rightarrow> nat \<Rightarrow> nat list \<Rightarrow> nat list drawing" where
  "draw_offsets want usable out [] = (if want \<le> length out then Some (out, []) else None)"
| "draw_offsets want usable out (r # rs) =
     (if want \<le> length out then Some (out, r # rs)
      else let off = 1 + r mod usable
           in draw_offsets want usable (if off \<in> set out then out else out @ [off]) rs)"

definition sample_cidr_v4 :: "string \<Rightarrow> nat \<Rightarrow> ipv4 list drawing" where
  "sample_cidr_v4 cidr n rs = (case parse_cidr_v4 cidr of
     None \<Rightarrow> Some ([], rs)
   | Some (base, prefix) \<Rightarrow>
      (let host_bits = 32 - prefix;
         subnet = (if 32 \<le> host_bits then 2 ^ 32 - 1 else 2 ^ host_bits)
       in if subnet \<le> 2 then Some ([base], rs)
          else let usable = subnet - 2; want = min (n mod 2 ^ 32) usable
            in do {
              (offs, rs) \<leftarrow> draw_offsets want usable [] rs;
              l \<leftarrow> hosts_at base offs;
              Some (l, rs)
            }))"

fun draw_embedded :: "(ipv4 \<times> nat) list \<Rightarrow> ipv4 drawing" where
  "draw_embedded v4 [] = None"
| "draw_embedded [] (r # rs) = Some (of_nat r, rs)"
| "draw_embedded v4 (r # rs) =
     (let (b, p) = v4 ! (r mod length v4);
        host_bits = 32 - p
      in if host_bits = 0 then Some (b, rs)
         else if 32 \<le> host_bits then None
         else case rs of
             [] \<Rightarrow> None
           | r' # rs \<Rightarrow> Some (or b (and (of_nat r') (of_nat (2 ^ host_bits - 1))), rs))"

fun draw_v6 :: "ipv6 \<Rightarrow> (ipv4 \<times> nat) list \<Rightarrow> nat \<Rightarrow> ipv6 list drawing" where
  "draw_v6 base v4 0 rs = Some ([], rs)"
| "draw_v6 base v4 (Suc n) rs = do {
     (e, rs) \<leftarrow> draw_embedded v4 rs;
     (l, rs) \<leftarrow> draw_v6 base v4 n rs;
     Some (or base (ucast e) # l, rs)
   }"

definition sample_cidr_v6 :: "string \<Rightarrow> nat \<Rightarrow> string list \<Rightarrow> ipv6 list drawing" where
  "sample_cidr_v6 cidr n v4_cidrs rs = (case parse_cidr_v6 cidr of
     None \<Rightarrow> Some ([], rs)
   | Some (base, prefix) \<Rightarrow>
      (if 128 - prefix = 0 then Some ([base], rs)
       else draw_v6 base (List.map_filter parse_cidr_v4 v4_cidrs) n rs))"

text \<open>One drawing after the other: \<open>iter().map(..).collect()\<close> over the ranges.\<close>

fun draw_each :: "('a \<Rightarrow> 'b drawing) \<Rightarrow> 'a list \<Rightarrow> 'b list drawing" where
  "draw_each f [] rs = Some ([], rs)"
| "draw_each f (x # xs) rs = do {
     (y, rs) \<leftarrow> f x rs;
     (ys, rs) \<leftarrow> draw_each f xs rs;
     Some (y # ys, rs)
   }"

text \<open>The hosts of all ranges in turn: the first of every range, the second of every range, \<open>\<dots>\<close>\<close>

definition interleave :: "'a list list \<Rightarrow> 'a list" where
  "interleave ls = concat (map (\<lambda>i. List.map_filter (\<lambda>l. get l i) ls) [0..<foldr max (map length ls) 0])"

text \<open>A \<open>HashSet\<close> of what was pushed beside the \<open>Vec\<close>: only what is new is pushed.\<close>

definition push_new :: "'a list \<Rightarrow> 'a \<Rightarrow> 'a list" where
  "push_new out x = (if x \<in> set out then out else out @ [x])"

definition push_all :: "'a list \<Rightarrow> 'a list \<Rightarrow> 'a list" where
  "push_all out xs = foldl push_new out xs"

section \<open>Pushing what is new\<close>

lemma push_all_simps [simp]: "push_all out [] = out" "push_all out (x # xs) = push_all (push_new out x) xs"
  by (simp_all add: push_all_def)

lemma push_all_append: "push_all out (xs @ ys) = push_all (push_all out xs) ys"
  by (simp add: push_all_def)

lemma set_push_all [simp]: "set (push_all out xs) = set out \<union> set xs"
  by (induction xs arbitrary: out) (auto simp: push_new_def)

lemma distinct_push_all: "distinct out \<Longrightarrow> distinct (push_all out xs)"
  by (induction xs arbitrary: out) (auto simp: push_new_def)

lemma push_all_extends: "\<exists>zs. push_all out xs = out @ zs \<and> set zs \<subseteq> set xs"
proof (induction xs arbitrary: out)
  case (Cons x xs)
  from Cons [of "push_new out x"] show ?case by (auto simp: push_new_def split: if_splits)
qed simp

section \<open>Interleaving\<close>

lemma length_le_foldr_max: "l \<in> set ls \<Longrightarrow> length l \<le> foldr max (map length ls) 0"
  by (induction ls) auto

lemma set_map_filter: "set (List.map_filter f l) = {y. \<exists>x \<in> set l. f x = Some y}"
  by (induction l) (auto simp: List.map_filter_simps split: option.splits)

lemma set_interleave: "set (interleave ls) = (\<Union>l \<in> set ls. set l)"
proof -
  let ?n = "foldr max (map length ls) 0"
  have "set (interleave ls) = {x. \<exists>l \<in> set ls. \<exists>i < ?n. get l i = Some x}"
    by (simp add: interleave_def set_map_filter atLeast0LessThan set_eq_iff Bex_def) blast
  also have "\<dots> = {x. \<exists>l \<in> set ls. \<exists>i < length l. x = l ! i}"
  proof (intro Collect_cong bex_cong refl)
    fix x l
    assume "l \<in> set ls"
    from length_le_foldr_max [OF this] show "(\<exists>i < ?n. get l i = Some x) \<longleftrightarrow> (\<exists>i < length l. x = l ! i)"
      by (auto simp: get_eq_Some_conv intro: order_less_le_trans)
  qed
  also have "\<dots> = (\<Union>l \<in> set ls. set l)"
  proof -
    have "(\<exists>i < length l. x = l ! i) \<longleftrightarrow> x \<in> set l" for x and l :: "'a list" by (metis in_set_conv_nth)
    then show ?thesis by auto
  qed
  finally show ?thesis .
qed

section \<open>Samples\<close>

lemma draw_offsets_result:
  "draw_offsets want usable out rs = Some (offs, rs') \<Longrightarrow> 0 < usable \<Longrightarrow>
   distinct out \<Longrightarrow> set out \<subseteq> {1..usable} \<Longrightarrow> length out \<le> want \<Longrightarrow>
   distinct offs \<and> set offs \<subseteq> {1..usable} \<and> length offs = want"
proof (induction rs arbitrary: out)
  case (Cons r rs)
  let ?off = "1 + r mod usable"
  have "?off \<in> {1..usable}" using mod_less_divisor [OF Cons.prems(2), of r] by simp
  with Cons.prems Cons.IH [of "if ?off \<in> set out then out else out @ [?off]"] show ?case
    by (auto simp: Let_def split: if_splits)
qed (auto split: if_splits)

lemma hosts_at_result: "hosts_at base offs = Some l \<Longrightarrow> map unat l = map (\<lambda>off. unat base + off) offs"
proof (induction offs arbitrary: l)
  case (Cons off offs)
  from Cons.prems obtain a l' where a: "add_u32 base off = Some a" and l': "hosts_at base offs = Some l'" "l = a # l'"
    by (auto split: bind_splits)
  from a have "unat base + off < 2 ^ 32" and e: "a = base + of_nat off" by (auto simp: add_u32_def split: if_splits)
  then have "unat a = unat base + off"
    by (simp add: e unat_word_ariths unat_of_nat)
  with Cons.IH [OF l'(1)] show ?case by (simp add: l'(2))
qed simp

text \<open>No host of a range overflows when the range ends inside the address space.\<close>

lemma hosts_at_total: "\<forall>off \<in> set offs. unat base + off < 2 ^ 32 \<Longrightarrow> \<exists>l. hosts_at base offs = Some l"
  by (induction offs) (auto simp: add_u32_def)

lemma distinct_hosts: "hosts_at base offs = Some l \<Longrightarrow> distinct offs \<Longrightarrow> distinct l"
proof -
  assume h: "hosts_at base offs = Some l" and d: "distinct offs"
  have "distinct (map unat l)" by (simp only: hosts_at_result [OF h] distinct_map) (simp add: d inj_on_def)
  then show "distinct l" by (simp add: distinct_map)
qed

definition in_range :: "ipv4 \<Rightarrow> nat \<Rightarrow> ipv4 \<Rightarrow> bool" where
  "in_range base prefix a \<longleftrightarrow> unat base < unat a \<and> unat a < unat base + 2 ^ (32 - prefix) - 1"

lemma range_of_hosts:
  assumes h: "hosts_at base offs = Some l" and o: "set offs \<subseteq> {1..2 ^ (32 - prefix) - 2}" and p: "prefix < 31"
  shows "list_all (in_range base prefix) l"
proof -
  have big: "4 \<le> (2 ^ (32 - prefix) :: nat)" using p power_increasing [of 2 "32 - prefix" "2 :: nat"] by simp
  have "unat ` set l = (\<lambda>off. unat base + off) ` set offs"
    using arg_cong [OF hosts_at_result [OF h], of set] by simp
  then have "unat a \<in> (\<lambda>off. unat base + off) ` set offs" if "a \<in> set l" for a
    using that by blast
  then show ?thesis using o big by (fastforce simp: list_all_iff in_range_def)
qed

lemma sample_result:
  assumes "parse_cidr_v4 cidr = Some (base, prefix)" and "0 < prefix" and "prefix < 31"
    and sampled: "sample_cidr_v4 cidr n rs = Some (l, rs')"
  shows "distinct l" "length l = min (n mod 2 ^ 32) (2 ^ (32 - prefix) - 2)" "list_all (in_range base prefix) l"
proof -
  let ?s = "2 ^ (32 - prefix) :: nat"
  have big: "4 \<le> ?s" using assms(3) power_increasing [of 2 "32 - prefix" "2 :: nat"] by simp
  from sampled assms big obtain offs where d: "draw_offsets (min (n mod 2 ^ 32) (?s - 2)) (?s - 2) [] rs = Some (offs, rs')"
      and h: "hosts_at base offs = Some l"
    by (auto simp: sample_cidr_v4_def Let_def split: bind_splits if_splits)
  have u: "0 < ?s - 2" using big by simp
  note o = draw_offsets_result [OF d u, simplified]
  have "length l = length offs" using arg_cong [OF hosts_at_result [OF h], of length] by simp
  then show "distinct l" "length l = min (n mod 2 ^ 32) (?s - 2)" "list_all (in_range base prefix) l"
    using distinct_hosts [OF h] range_of_hosts [OF h _ assms(3)] o by simp_all
qed

lemma enumerate_result:
  assumes "parse_cidr_v4 cidr = Some (base, prefix)" and "20 \<le> prefix" and "prefix < 31"
    and listed: "enumerate_cidr_v4 cidr = Some l"
  shows "distinct l" "length l = 2 ^ (32 - prefix) - 2" "list_all (in_range base prefix) l"
proof -
  let ?s = "2 ^ (32 - prefix) :: nat"
  from listed assms have h: "hosts_at base [1..<?s - 1] = Some l"
    by (auto simp: enumerate_cidr_v4_def Let_def split: if_splits)
  have "length l = ?s - 1 - 1" using arg_cong [OF hosts_at_result [OF h], of length] by simp
  moreover have "set [1..<?s - 1] \<subseteq> {1..?s - 2}" by auto
  ultimately show "distinct l" "length l = ?s - 2" "list_all (in_range base prefix) l"
    using distinct_hosts [OF h] range_of_hosts [OF h _ assms(3)] by simp_all
qed

text \<open>A sample of a range that is larger than its network and broadcast address has exactly as many
  hosts as asked for (at most all of them), no host twice, and every host lies strictly between the
  first and the last address of the range; so does a full enumeration, which has all of them.
\<close>

theorem samples_are_hosts_of_the_range:
  assumes "parse_cidr_v4 cidr = Some (base, prefix)" and "0 < prefix" and "prefix < 31"
  shows "(case sample_cidr_v4 cidr n rs of
      Some (l, rs') \<Rightarrow> distinct l \<and> length l = min (n mod 2 ^ 32) (2 ^ (32 - prefix) - 2) \<and> list_all (in_range base prefix) l
    | None \<Rightarrow> True)
   \<and> (case enumerate_cidr_v4 cidr of
      Some l \<Rightarrow> distinct l \<and> list_all (in_range base prefix) l \<and> length l = (if prefix < 20 then 0 else 2 ^ (32 - prefix) - 2)
    | None \<Rightarrow> True)"
proof -
  have "l = []" if "enumerate_cidr_v4 cidr = Some l" "prefix < 20" for l
    using that assms(1) by (auto simp: enumerate_cidr_v4_def Let_def split: if_splits)
  then show ?thesis
    using sample_result [OF assms] enumerate_result [OF assms(1) _ assms(3)]
    by (cases "prefix < 20") (fastforce split: option.split)+
qed

theorem samples_are_hosts_of_the_range_witness:
  "sample_cidr_v4 ''10.0.0.0/29'' 3 [1, 1, 0, 4, 9] = Some ([0x0A000002, 0x0A000001, 0x0A000005], [9])
   \<and> list_all (in_range 0x0A000000 29) [0x0A000002, 0x0A000001, 0x0A000005]"
proof -
  have p: "parse_cidr_v4 ''10.0.0.0/29'' = Some (0x0A000000, 29)"
    by (simp add: parse_cidr_v4_def parse_ipv4_def parse_octet_def digit_val_def parse_u8_def parse_uint_def ipv4_of_def from_be_def Let_def)
  have s: "sample_cidr_v4 ''10.0.0.0/29'' 3 [1, 1, 0, 4, 9] = Some ([0x0A000002, 0x0A000001, 0x0A000005], [9])"
    by (simp add: sample_cidr_v4_def p add_u32_def)
  show ?thesis using samples_are_hosts_of_the_range [OF p, of 3 "[1, 1, 0, 4, 9]"] s by simp
qed

end
