(* ===== verification/Sysprofile.thy ===== *)
theory Sysprofile
  imports Routing
begin

text \<open>
  \<^verbatim>\<open>sysprofile.rs\<close>: the tier of the machine (\<open>detect_tier\<close>), the memory read off
  \<^verbatim>\<open>/proc/meminfo\<close> on Linux and Android (\<open>total_mem_mb\<close>), buffer sizes taken from the environment
  (\<open>buffer_override\<close>) and the tuning they give (\<open>build_tuning\<close>). The environment is a function from
  names to values, the number of processors a number; \<open>usize\<close> has 64 bits. The memory queries of
  the other systems are foreign calls and left out.
\<close>

datatype tier = Low | Medium | High

record tuning =
  tn_tier :: tier
  tn_cpus :: nat
  tn_mem_mb :: "nat option"
  tn_scan_concurrency_cap :: nat
  tn_udp_socket_buf :: nat
  tn_netstack_tcp_rx_buf :: nat
  tn_netstack_tcp_tx_buf :: nat
  tn_netstack_udp_buf :: nat
  tn_channel_capacity :: nat
  tn_h2_stream_window :: nat
  tn_h2_connection_window :: nat

type_synonym environment = "string \<Rightarrow> string option"

definition usize_max :: nat where
  "usize_max = 2 ^ 64 - 1"

text \<open>The order of the tiers, so that \<open>sort\<close>, \<open>min\<close> and monotonicity are those of the library.\<close>

fun tier_rank :: "tier \<Rightarrow> nat" where
  "tier_rank Low = 0"
| "tier_rank Medium = 1"
| "tier_rank High = 2"

instantiation tier :: linorder
begin

definition less_eq_tier :: "tier \<Rightarrow> tier \<Rightarrow> bool" where
  "less_eq_tier a b \<longleftrightarrow> tier_rank a \<le> tier_rank b"

definition less_tier :: "tier \<Rightarrow> tier \<Rightarrow> bool" where
  "less_tier a b \<longleftrightarrow> tier_rank a < tier_rank b"

instance
proof
  fix a b :: tier
  show "a \<le> b \<Longrightarrow> b \<le> a \<Longrightarrow> a = b"
    by (cases a; cases b) (simp_all add: less_eq_tier_def)
qed (auto simp: less_eq_tier_def less_tier_def)

end

section \<open>Memory\<close>

text \<open>\<open>trim_end_matches("kB")\<close> takes off every copy of the suffix.\<close>

function trim_end_kb :: "string \<Rightarrow> string" where
  "trim_end_kb s = (if ends_with s ''kB'' then trim_end_kb (take (length s - 2) s) else s)"
  by pat_completeness auto
termination
proof (relation "measure length")
  fix s
  assume "ends_with s ''kB''"
  then have "s \<noteq> []" by (auto simp: ends_with_def)
  then show "(take (length s - 2) s, s) \<in> measure length" by simp
qed simp

declare trim_end_kb.simps [simp del]

text \<open>The first line that begins with \<open>MemTotal:\<close> decides, also when its number is unreadable.\<close>

fun mem_total_in :: "string list \<Rightarrow> nat option" where
  "mem_total_in [] = None"
| "mem_total_in (line # ls) =
     (if starts_with line ''MemTotal:''
      then map_option (\<lambda>kb. kb div 1024) (parse_uint (2 ^ 64 - 1) (trim (trim_end_kb (trim (drop 9 line)))))
      else mem_total_in ls)"

definition total_mem_mb :: "string option \<Rightarrow> nat option" where
  "total_mem_mb meminfo = Option.bind meminfo (\<lambda>data. mem_total_in (str_lines data))"

section \<open>Tiers and tuning\<close>

definition profile_override :: "environment \<Rightarrow> tier option" where
  "profile_override env = Option.bind (env ''AETHER_PERF_PROFILE'') (\<lambda>v.
     let v = to_lowercase (trim v)
     in if v = ''low'' then Some Low
        else if v = ''medium'' \<or> v = ''mid'' then Some Medium
        else if v = ''high'' then Some High
        else None)"

definition detect_tier :: "environment \<Rightarrow> nat \<Rightarrow> nat option \<Rightarrow> tier" where
  "detect_tier env cpus mem_mb = (case profile_override env of
     Some t \<Rightarrow> t
   | None \<Rightarrow>
      (let mem_low = (case mem_mb of Some m \<Rightarrow> m \<le> 384 | None \<Rightarrow> False);
         mem_medium = (case mem_mb of Some m \<Rightarrow> m \<le> 1536 | None \<Rightarrow> False)
       in if cpus \<le> 2 \<or> mem_low then Low
          else if cpus \<le> 4 \<or> mem_medium then Medium
          else High))"

definition buffer_override :: "environment \<Rightarrow> string \<Rightarrow> nat \<Rightarrow> nat" where
  "buffer_override env key fallback =
     (case Option.bind (env key) (\<lambda>value. parse_uint usize_max (trim value)) of
        Some bytes \<Rightarrow> if 16 * 1024 \<le> bytes \<and> bytes \<le> 64 * 1024 * 1024 then bytes else fallback
      | None \<Rightarrow> fallback)"

definition build_tuning :: "environment \<Rightarrow> nat \<Rightarrow> string option \<Rightarrow> tuning" where
  "build_tuning env cpus meminfo = (
     let mem_mb = total_mem_mb meminfo;
       t = detect_tier env cpus mem_mb;
       (cap, udp, netstack_udp, channel) = (case t of
          Low \<Rightarrow> (4, 256 * 1024, 32 * 1024, 128)
        | Medium \<Rightarrow> (10, 2 * 1024 * 1024, 64 * 1024, 512)
        | High \<Rightarrow> (usize_max, 7 * 1024 * 1024, 128 * 1024, 1024));
       (rx, tx) = (case t of
          Low \<Rightarrow> (256 * 1024, 128 * 1024)
        | Medium \<Rightarrow> (1024 * 1024, 256 * 1024)
        | High \<Rightarrow> (2 * 1024 * 1024, 512 * 1024));
       (stream, connection) = (case t of
          Low \<Rightarrow> (2 * 1024 * 1024, 4 * 1024 * 1024)
        | Medium \<Rightarrow> (8 * 1024 * 1024, 16 * 1024 * 1024)
        | High \<Rightarrow> (16 * 1024 * 1024, 32 * 1024 * 1024))
     in \<lparr>tn_tier = t, tn_cpus = cpus, tn_mem_mb = mem_mb, tn_scan_concurrency_cap = cap, tn_udp_socket_buf = udp,
         tn_netstack_tcp_rx_buf = buffer_override env ''AETHER_NETSTACK_TCP_RX'' rx,
         tn_netstack_tcp_tx_buf = buffer_override env ''AETHER_NETSTACK_TCP_TX'' tx,
         tn_netstack_udp_buf = netstack_udp, tn_channel_capacity = channel,
         tn_h2_stream_window = stream, tn_h2_connection_window = connection\<rparr>)"

definition cap_concurrency :: "tuning \<Rightarrow> nat \<Rightarrow> nat" where
  "cap_concurrency t requested = min requested (tn_scan_concurrency_cap t)"

section \<open>What the tuning promises\<close>

lemmas tier_order = less_eq_tier_def less_tier_def

lemma tier_bounds [simp]: "Low \<le> t" "t \<le> High"
  by (cases t; simp add: tier_order)+

lemma detect_tier_mono:
  assumes "cpus \<le> cpus'" and "case mem' of None \<Rightarrow> True | Some m' \<Rightarrow> (case mem of None \<Rightarrow> False | Some m \<Rightarrow> m \<le> m')"
  shows "detect_tier env cpus mem \<le> detect_tier env cpus' mem'"
  using assms
  by (cases "profile_override env"; cases mem; cases mem') (auto simp: detect_tier_def tier_order)

lemma buffer_override_bounds:
  "16 * 1024 \<le> fallback \<Longrightarrow> fallback \<le> 64 * 1024 * 1024 \<Longrightarrow>
   buffer_override env key fallback \<in> {16 * 1024..64 * 1024 * 1024}"
  by (auto simp: buffer_override_def split: option.splits)

lemma build_tuning_tier: "tn_tier (build_tuning env cpus meminfo) = detect_tier env cpus (total_mem_mb meminfo)"
  by (simp add: build_tuning_def Let_def split: prod.splits)

lemma buffer_override_mono: "x \<le> y \<Longrightarrow> buffer_override env key x \<le> buffer_override env key y"
  by (simp add: buffer_override_def split: option.splits)

text \<open>One tuning gives at least what the other gives, row by row of \<open>build_tuning\<close>; the rows without a
  setting in the environment give strictly more.\<close>

definition gives_as_much :: "tuning \<Rightarrow> tuning \<Rightarrow> bool" where
  "gives_as_much t' t \<longleftrightarrow> tn_scan_concurrency_cap t \<le> tn_scan_concurrency_cap t'
     \<and> tn_udp_socket_buf t \<le> tn_udp_socket_buf t' \<and> tn_netstack_udp_buf t \<le> tn_netstack_udp_buf t'
     \<and> tn_netstack_tcp_rx_buf t \<le> tn_netstack_tcp_rx_buf t' \<and> tn_netstack_tcp_tx_buf t \<le> tn_netstack_tcp_tx_buf t'
     \<and> tn_channel_capacity t \<le> tn_channel_capacity t'
     \<and> tn_h2_stream_window t \<le> tn_h2_stream_window t' \<and> tn_h2_connection_window t \<le> tn_h2_connection_window t'"

definition gives_more :: "tuning \<Rightarrow> tuning \<Rightarrow> bool" where
  "gives_more t' t \<longleftrightarrow> tn_scan_concurrency_cap t < tn_scan_concurrency_cap t'
     \<and> tn_udp_socket_buf t < tn_udp_socket_buf t' \<and> tn_netstack_udp_buf t < tn_netstack_udp_buf t'
     \<and> tn_channel_capacity t < tn_channel_capacity t'
     \<and> tn_h2_stream_window t < tn_h2_stream_window t' \<and> tn_h2_connection_window t < tn_h2_connection_window t'"

lemma build_tuning_mono:
  assumes "detect_tier env cpus (total_mem_mb m) \<le> detect_tier env cpus' (total_mem_mb m')"
  shows "gives_as_much (build_tuning env cpus' m') (build_tuning env cpus m)"
  using assms
  by (cases "detect_tier env cpus (total_mem_mb m)"; cases "detect_tier env cpus' (total_mem_mb m')";
    simp add: build_tuning_def Let_def gives_as_much_def tier_order usize_max_def buffer_override_mono)

lemma build_tuning_strict:
  assumes "detect_tier env cpus (total_mem_mb m) < detect_tier env cpus' (total_mem_mb m')"
  shows "gives_more (build_tuning env cpus' m') (build_tuning env cpus m)"
  using assms
  by (cases "detect_tier env cpus (total_mem_mb m)"; cases "detect_tier env cpus' (total_mem_mb m')";
    simp add: build_tuning_def Let_def gives_more_def tier_order usize_max_def)

text \<open>C25: Whatever the environment, the processors and the memory file hold, every buffer lies in its range
  (TCP buffers of the netstack between 16 KiB and 64 MiB, UDP socket buffers between 256 KiB and 7 MiB,
  UDP buffers of the netstack between 32 and 128 KiB, channels between 128 and 1024 packets), scanning
  runs at least one probe, and the stream window is at most the connection window. In the same
  environment a machine with at least as many processors and as much memory gets at least as much in every
  row of the tuning, and in a higher tier strictly more in every row the environment cannot set.
\<close>

theorem tuning_is_bounded:
  assumes "cpus \<le> cpus'" and "total_mem_mb meminfo' = map_option (\<lambda>m. m + j) (total_mem_mb meminfo)"
  shows "let t = build_tuning env cpus meminfo; t' = build_tuning env cpus' meminfo'
   in tn_netstack_tcp_rx_buf t \<in> {16384..67108864} \<and> tn_netstack_tcp_tx_buf t \<in> {16384..67108864}
    \<and> tn_udp_socket_buf t \<in> {262144..7340032} \<and> tn_netstack_udp_buf t \<in> {32768..131072}
    \<and> tn_channel_capacity t \<in> {128..1024}
    \<and> tn_h2_stream_window t \<le> tn_h2_connection_window t \<and> tn_h2_connection_window t < 2 ^ 32
    \<and> cap_concurrency t (Suc n) \<in> {1..Suc n}
    \<and> tn_tier t \<le> tn_tier t' \<and> gives_as_much t' t \<and> (if tn_tier t < tn_tier t' then gives_more t' t else True)"
proof -
  let ?t = "build_tuning env cpus meminfo" and ?t' = "build_tuning env cpus' meminfo'"
  have buffers: "16 * 1024 \<le> x \<Longrightarrow> x \<le> 64 * 1024 * 1024 \<Longrightarrow> buffer_override env key x \<in> {16384..67108864}" for x key
    using buffer_override_bounds [of x env key] by simp
  have "tn_netstack_tcp_rx_buf ?t \<in> {16384..67108864}" "tn_netstack_tcp_tx_buf ?t \<in> {16384..67108864}"
    by (cases "detect_tier env cpus (total_mem_mb meminfo)";
      auto simp: build_tuning_def Let_def simp del: atLeastAtMost_iff intro!: buffers)+
  moreover have "tn_udp_socket_buf ?t \<in> {262144..7340032}" "tn_netstack_udp_buf ?t \<in> {32768..131072}"
    "tn_channel_capacity ?t \<in> {128..1024}" "tn_h2_stream_window ?t \<le> tn_h2_connection_window ?t"
    "tn_h2_connection_window ?t < 2 ^ 32" "cap_concurrency ?t (Suc n) \<in> {1..Suc n}"
    by (cases "detect_tier env cpus (total_mem_mb meminfo)";
      simp add: build_tuning_def Let_def cap_concurrency_def usize_max_def)+
  moreover have le: "tn_tier ?t \<le> tn_tier ?t'"
    unfolding build_tuning_tier assms(2) by (rule detect_tier_mono [OF assms(1)]) (simp split: option.splits)
  moreover have "gives_as_much ?t' ?t" using build_tuning_mono le by (simp add: build_tuning_tier)
  moreover have "if tn_tier ?t < tn_tier ?t' then gives_more ?t' ?t else True"
    using build_tuning_strict by (simp add: build_tuning_tier)
  ultimately show ?thesis by (simp only: Let_def simp_thms)
qed

theorem tuning_is_bounded_witness:
  "gives_more (build_tuning (\<lambda>_. None) 8 None) (build_tuning (\<lambda>_. None) 2 None)"
  using tuning_is_bounded [of 2 8 None 0 None "\<lambda>_. None" 0]
  by (simp add: Let_def build_tuning_tier detect_tier_def profile_override_def total_mem_mb_def tier_order)

text \<open>A value outside the sensible range, or no number at all, leaves the default.\<close>

lemma unusable_buffer_size_is_ignored:
  "(\<forall>n. parse_uint usize_max (trim v) = Some n \<longrightarrow> n < 16 * 1024 \<or> 64 * 1024 * 1024 < n) \<Longrightarrow>
   env key = Some v \<Longrightarrow> buffer_override env key fallback = fallback"
  by (auto simp: buffer_override_def split: option.splits)

text \<open>The memory line as Linux prints it.\<close>

lemma meminfo_line: "total_mem_mb (Some ''MemTotal:        2048000 kB\<newline>MemFree: 12 kB\<newline>'') = Some 2000"
proof -
  have "trim_end_kb ''2048000 kB'' = ''2048000 ''" "trim_end_kb ''2048000 '' = ''2048000 ''"
    by (subst trim_end_kb.simps, simp add: ends_with_def trim_end_kb.simps)+
  then show ?thesis
    by (simp add: total_mem_mb_def str_lines_def strip_cr_def trim_def trim_start_by_def trim_end_by_def is_ws_def
      parse_uint_def digit_val_def Let_def)
qed

end
