(* ===== verification/Prober.thy ===== *)
theory Prober
  imports Cidr Sysprofile
begin

text \<open>
  \<^verbatim>\<open>prober.rs\<close>: the search for a MASQUE gateway. \<open>build_candidates\<close> orders what is probed: the
  seeds on the primary port, the seeds on every alternate port, and then a sweep of the published
  ranges. \<open>hunt_loop\<close> is the loop of \<open>hunt_best_gateway\<close> over the turns of its \<open>select!\<close>: a probe
  is done, the stream of probes is exhausted, or the sleep until the deadline is over; every turn
  carries the time, in milliseconds, at which the loop handles it. What one probe finds
  (\<open>verify_one\<close>) depends on the three ways of talking to a gateway, which are a parameter.
\<close>

section \<open>What is scanned\<close>

definition masque_cidrs_v4_all :: "string list" where
  "masque_cidrs_v4_all = [''162.159.199.0/24'', ''162.159.198.0/24'', ''162.159.197.0/24'', ''162.159.196.0/24'',
     ''162.159.195.0/24'', ''162.159.192.0/24'', ''162.159.193.0/24'', ''162.159.204.0/24'', ''172.65.251.0/24'',
     ''188.114.96.0/24'', ''188.114.97.0/24'', ''188.114.98.0/24'', ''188.114.99.0/24'', ''162.159.36.0/24'',
     ''162.159.46.0/24'']"

definition masque_seeds :: "string list" where
  "masque_seeds = [''162.159.199.1'', ''162.159.199.2'', ''162.159.198.2'', ''162.159.198.1'', ''162.159.197.1'',
     ''162.159.204.2'']"

definition masque_verified_gateways :: "string list" where
  "masque_verified_gateways = [''162.159.199.1'', ''162.159.199.2'', ''162.159.198.2'', ''162.159.198.1'']"

definition masque_ports :: "u16 list" where
  "masque_ports = [443, 500, 1701, 4500, 4443, 8443, 8095]"

definition masque_alt_ports :: "u16 list" where
  "masque_alt_ports = [1701, 8095, 500, 4500]"

definition masque_cidrs_v6_all :: "string list" where
  "masque_cidrs_v6_all = [''2606:4700:d0::/48'', ''2606:4700:102::/48'', ''2606:4700:d1::/48'']"

definition masque_zt_cidrs_v4 :: "string list" where
  "masque_zt_cidrs_v4 = [''162.159.197.0/24'']"

definition masque_zt_cidrs_v6 :: "string list" where
  "masque_zt_cidrs_v6 = [''2606:4700:102::/48'']"

definition masque_seeds_v6 :: "string list" where
  "masque_seeds_v6 = [''2606:4700:d0::a29f:c602'', ''2606:4700:d1::a29f:c602'', ''2606:4700:d0::a29f:c601'',
     ''2606:4700:d0::a29f:c001'']"

definition zero_trust_mode :: "environment \<Rightarrow> bool" where
  "zero_trust_mode env = (case env ''AETHER_TEAM'' of Some v \<Rightarrow> trim v \<noteq> [] | None \<Rightarrow> False)"

definition prioritize :: "environment \<Rightarrow> string list \<Rightarrow> string list \<Rightarrow> string list" where
  "prioritize env entries first =
     (if \<not> zero_trust_mode env then entries
      else push_all (filter (\<lambda>e. e \<in> set entries) first) entries)"

definition masque_cidrs_v4 :: "environment \<Rightarrow> string list" where
  "masque_cidrs_v4 env = prioritize env masque_cidrs_v4_all masque_zt_cidrs_v4"

definition masque_cidrs_v6 :: "environment \<Rightarrow> string list" where
  "masque_cidrs_v6 env = prioritize env masque_cidrs_v6_all masque_zt_cidrs_v6"

section \<open>Modes\<close>

datatype ip_scan = Scan_V4 | Scan_V6 | Scan_Both

definition parse_ip_scan :: "string \<Rightarrow> ip_scan" where
  "parse_ip_scan s = (let v = to_lowercase (trim s) in
     if v \<in> {''6'', ''v6'', ''ipv6''} then Scan_V6
     else if v \<in> {''both'', ''all'', ''dual''} then Scan_Both
     else Scan_V4)"

fun ip_scan_label :: "ip_scan \<Rightarrow> string" where
  "ip_scan_label Scan_V4 = ''ipv4''"
| "ip_scan_label Scan_V6 = ''ipv6''"
| "ip_scan_label Scan_Both = ''dual-stack''"

definition want_v4 :: "ip_scan \<Rightarrow> bool" where
  "want_v4 ip \<longleftrightarrow> ip = Scan_V4 \<or> ip = Scan_Both"

definition want_v6 :: "ip_scan \<Rightarrow> bool" where
  "want_v6 ip \<longleftrightarrow> ip = Scan_V6 \<or> ip = Scan_Both"

datatype scan_mode = Turbo | Balanced | Thorough | Stealth | Ironclad

definition parse_scan_mode :: "string \<Rightarrow> scan_mode" where
  "parse_scan_mode s = (let v = to_lowercase (trim s) in
     if v \<in> {''turbo'', ''fast''} then Turbo
     else if v \<in> {''thorough'', ''deep'', ''pro''} then Thorough
     else if v \<in> {''stealth'', ''quiet''} then Stealth
     else if v \<in> {''ironclad'', ''real'', ''verify'', ''guaranteed''} then Ironclad
     else Balanced)"

fun scan_mode_label :: "scan_mode \<Rightarrow> string" where
  "scan_mode_label Turbo = ''turbo''"
| "scan_mode_label Balanced = ''balanced''"
| "scan_mode_label Thorough = ''thorough''"
| "scan_mode_label Stealth = ''stealth''"
| "scan_mode_label Ironclad = ''ironclad''"

record strategy =
  st_concurrency :: nat
  st_per_probe_timeout :: nat
  st_overall_deadline :: nat
  st_quiet_after_first :: nat
  st_target_successes :: nat
  st_early_exit_first :: bool
  st_full_subnet :: bool
  st_sample_per_cidr :: nat

fun scan_strategy :: "scan_mode \<Rightarrow> strategy" where
  "scan_strategy Turbo = \<lparr>st_concurrency = 20, st_per_probe_timeout = 6000, st_overall_deadline = 45000,
     st_quiet_after_first = 0, st_target_successes = 1, st_early_exit_first = True, st_full_subnet = False,
     st_sample_per_cidr = 64\<rparr>"
| "scan_strategy Balanced = \<lparr>st_concurrency = 16, st_per_probe_timeout = 6000, st_overall_deadline = 120000,
     st_quiet_after_first = 20000, st_target_successes = 6, st_early_exit_first = False, st_full_subnet = False,
     st_sample_per_cidr = 140\<rparr>"
| "scan_strategy Thorough = \<lparr>st_concurrency = 20, st_per_probe_timeout = 10000, st_overall_deadline = 300000,
     st_quiet_after_first = 30000, st_target_successes = 0, st_early_exit_first = False, st_full_subnet = True,
     st_sample_per_cidr = 0\<rparr>"
| "scan_strategy Stealth = \<lparr>st_concurrency = 3, st_per_probe_timeout = 12000, st_overall_deadline = 180000,
     st_quiet_after_first = 25000, st_target_successes = 4, st_early_exit_first = False, st_full_subnet = False,
     st_sample_per_cidr = 64\<rparr>"
| "scan_strategy Ironclad = \<lparr>st_concurrency = 4, st_per_probe_timeout = 15000, st_overall_deadline = 180000,
     st_quiet_after_first = 15000, st_target_successes = 3, st_early_exit_first = False, st_full_subnet = False,
     st_sample_per_cidr = 140\<rparr>"

section \<open>Candidates\<close>

type_synonym candidate = "ip_addr \<times> u16"

definition primary_port :: "u16 list \<Rightarrow> u16" where
  "primary_port ports = (case ports of p # _ \<Rightarrow> p | [] \<Rightarrow> 443)"

definition sweep_v4 :: "'a strategy_scheme \<Rightarrow> string list \<Rightarrow> ipv4 list drawing" where
  "sweep_v4 st cidrs rs = map_option (\<lambda>(hosts, rs). (interleave hosts, rs))
     (draw_each (\<lambda>c rs. if st_full_subnet st then map_option (\<lambda>l. (l, rs)) (enumerate_cidr_v4 c)
        else sample_cidr_v4 c (st_sample_per_cidr st) rs) cidrs rs)"

definition sweep_v6 :: "nat \<Rightarrow> 'a strategy_scheme \<Rightarrow> string list \<Rightarrow> string list \<Rightarrow> ipv6 list drawing" where
  "sweep_v6 per_default st cidrs v4_cidrs rs = (
     let per = (if st_sample_per_cidr st = 0 then per_default else st_sample_per_cidr st)
     in map_option (\<lambda>(hosts, rs). (interleave hosts, rs)) (draw_each (\<lambda>c rs. sample_cidr_v6 c per v4_cidrs rs) cidrs rs))"

text \<open>What is pushed in the first two phases: the seeds on the primary port, and on the others.\<close>

definition seeds_v4 :: "ip_scan \<Rightarrow> ipv4 list" where
  "seeds_v4 ip = (if want_v4 ip then List.map_filter parse_ipv4 masque_seeds else [])"

definition seeds_v6 :: "ip_scan \<Rightarrow> ipv6 list" where
  "seeds_v6 ip = (if want_v6 ip then List.map_filter parse_ipv6 masque_seeds_v6 else [])"

definition build_candidates :: "environment \<Rightarrow> strategy \<Rightarrow> u16 list \<Rightarrow> ip_scan \<Rightarrow> candidate list drawing" where
  "build_candidates env st ports ip rs = (
     let primary = primary_port ports;
       out = push_all [] ([(V4 a, primary). a \<leftarrow> seeds_v4 ip] @ [(V6 a, primary). a \<leftarrow> seeds_v6 ip]);
       out = push_all out ([(V4 a, port). a \<leftarrow> seeds_v4 ip, port \<leftarrow> ports, port \<noteq> primary]
         @ [(V6 a, port). a \<leftarrow> seeds_v6 ip, port \<leftarrow> ports, port \<noteq> primary])
     in do {
       (hosts4, rs) \<leftarrow> (if want_v4 ip then sweep_v4 st (masque_cidrs_v4 env) rs else Some ([], rs));
       (hosts6, rs) \<leftarrow> (if want_v6 ip then sweep_v6 96 st (masque_cidrs_v6 env) masque_cidrs_v4_all rs else Some ([], rs));
       Some (push_all out ([(V4 a, primary). a \<leftarrow> hosts4] @ [(V6 a, primary). a \<leftarrow> hosts6]), rs)
     })"

section \<open>One probe\<close>

record probe_result =
  pr_ip :: ip_addr
  pr_port :: u16
  pr_rtt :: nat

text \<open>
  The ways of asking a gateway: the HTTP request through a full tunnel, the HTTP/2 check, and the
  HTTP/3 check with the time it takes. \<open>now_or_timeout\<close> is \<open>tokio::time::timeout\<close>.
\<close>

record probe_world =
  pw_http_ping :: "candidate \<Rightarrow> nat \<Rightarrow> aether_error + nat"
  pw_h2_enabled :: bool
  pw_verify_h2 :: "candidate \<Rightarrow> nat \<Rightarrow> aether_error + nat"
  pw_verify_masque :: "candidate \<Rightarrow> nat \<Rightarrow> nat \<times> (aether_error + nat)"

definition ironclad_tcping_timeout :: nat where
  "ironclad_tcping_timeout = 10000"

definition now_or_timeout :: "nat \<Rightarrow> nat \<times> (aether_error + 'a) \<Rightarrow> 'a option" where
  "now_or_timeout timeout res =
     (if timeout < fst res then None else case snd res of Inr x \<Rightarrow> Some x | Inl _ \<Rightarrow> None)"

definition answer_of :: "candidate \<Rightarrow> aether_error + nat \<Rightarrow> probe_result option" where
  "answer_of c r = (case r of
     Inr rtt \<Rightarrow> Some \<lparr>pr_ip = fst c, pr_port = snd c, pr_rtt = rtt\<rparr>
   | Inl _ \<Rightarrow> None)"

definition verify_one :: "probe_world \<Rightarrow> nat \<Rightarrow> bool \<Rightarrow> candidate \<Rightarrow> probe_result option" where
  "verify_one w timeout ironclad c =
     (if ironclad then answer_of c (pw_http_ping w c ironclad_tcping_timeout)
      else if pw_h2_enabled w then answer_of c (pw_verify_h2 w c timeout)
      else Option.bind (now_or_timeout timeout (pw_verify_masque w c timeout)) (\<lambda>rtt. answer_of c (Inr rtt)))"

definition verify_cached_gateways :: "probe_world \<Rightarrow> candidate list \<Rightarrow> probe_result option" where
  "verify_cached_gateways w completed =
     (case List.map_filter (verify_one w 6000 False) completed of [] \<Rightarrow> None | pr # _ \<Rightarrow> Some pr)"

section \<open>The hunt\<close>

datatype hunt_turn = Probed nat candidate | Exhausted nat | Woke nat

fun hunt_loop :: "(candidate \<Rightarrow> probe_result option) \<Rightarrow> 'a strategy_scheme \<Rightarrow> nat \<Rightarrow> probe_result option \<Rightarrow> nat
    \<Rightarrow> nat option \<Rightarrow> nat \<Rightarrow> hunt_turn list \<Rightarrow> probe_result option option" where
  "hunt_loop verify st deadline best found quiet_until now turns =
     (let effective = (case quiet_until of Some q \<Rightarrow> min q deadline | None \<Rightarrow> deadline)
      in if effective \<le> now then Some best
         else case turns of
             [] \<Rightarrow> None
           | Exhausted _ # _ \<Rightarrow> Some best
           | Woke _ # _ \<Rightarrow> Some best
           | Probed t c # turns \<Rightarrow> (case verify c of
                 None \<Rightarrow> hunt_loop verify st deadline best found quiet_until t turns
               | Some pr \<Rightarrow>
                   if st_early_exit_first st then Some (Some pr)
                   else let best = (case best of Some cur \<Rightarrow> if pr_rtt cur \<le> pr_rtt pr then Some cur else Some pr | None \<Rightarrow> Some pr);
                       found = found + 1
                     in if 0 < st_target_successes st \<and> st_target_successes st \<le> found \<and> quiet_until = None
                        then if st_quiet_after_first st \<noteq> 0
                             then hunt_loop verify st deadline best found (Some (t + st_quiet_after_first st)) t turns
                             else Some best
                        else hunt_loop verify st deadline best found quiet_until t turns))"

declare hunt_loop.simps [simp del]

definition hunt_outcome :: "probe_result option \<Rightarrow> aether_error + probe_result" where
  "hunt_outcome best = (case best of Some pr \<Rightarrow> Inr pr | None \<Rightarrow> Inl E_NoCleanEndpoint)"

text \<open>\<open>host_has_ipv6\<close>: the socket can be bound, protected and connected.\<close>

definition host_has_ipv6 :: "bool \<Rightarrow> bool \<Rightarrow> bool \<Rightarrow> bool" where
  "host_has_ipv6 bound protected connected \<longleftrightarrow> bound \<and> protected \<and> connected"

definition effective_ip :: "ip_scan \<Rightarrow> bool \<Rightarrow> ip_scan option" where
  "effective_ip ip has_ipv6 =
     (if want_v6 ip \<and> \<not> has_ipv6 then if want_v4 ip then Some Scan_V4 else None else Some ip)"

text \<open>
  The candidates become a stream whose probes finish in an order of their own: \<open>order\<close> gives the
  turns of the loop for a list of candidates and a start time. \<open>None\<close> is a hunt that is still going on.
\<close>

definition hunt_strategy :: "tuning \<Rightarrow> scan_mode \<Rightarrow> strategy" where
  "hunt_strategy t mode = (let st = scan_strategy mode in st\<lparr>st_concurrency := cap_concurrency t (st_concurrency st)\<rparr>)"

definition hunt_best_gateway :: "environment \<Rightarrow> tuning \<Rightarrow> probe_world \<Rightarrow> u16 list \<Rightarrow> ip_scan \<Rightarrow> bool \<Rightarrow> scan_mode \<Rightarrow> draws
    \<Rightarrow> nat \<Rightarrow> (nat \<Rightarrow> candidate list \<Rightarrow> hunt_turn list) \<Rightarrow> (aether_error + probe_result) option" where
  "hunt_best_gateway env t w ports ip has_ipv6 mode rs now order = (
     let st = hunt_strategy t mode
     in case effective_ip ip has_ipv6 of
       None \<Rightarrow> Some (Inl E_NoCleanEndpoint)
     | Some ip \<Rightarrow> do {
         (candidates, _) \<leftarrow> build_candidates env st ports ip rs;
         best \<leftarrow> hunt_loop (verify_one w (st_per_probe_timeout st) (mode = Ironclad)) st (now + st_overall_deadline st)
           None 0 None now (order (st_concurrency st) candidates);
         Some (hunt_outcome best)
       })"

section \<open>The order of the scan\<close>

lemma set_prioritize: "set (prioritize env entries first) = set entries"
  by (auto simp: prioritize_def)

lemma draw_each_result: "draw_each f xs rs = Some (ys, rs') \<Longrightarrow> y \<in> set ys \<Longrightarrow> \<exists>x \<in> set xs. \<exists>r r'. f x r = Some (y, r')"
proof (induction xs arbitrary: rs ys)
  case (Cons x xs)
  then show ?case by (fastforce split: bind_splits)
qed simp

lemma sweep_v4_result:
  assumes "sweep_v4 st cidrs rs = Some (hosts, rs')" and "a \<in> set hosts"
    and known: "\<And>c. c \<in> set cidrs \<Longrightarrow> \<exists>base. parse_cidr_v4 c = Some (base, 24)"
  shows "\<exists>c \<in> set cidrs. \<exists>base. parse_cidr_v4 c = Some (base, 24) \<and> in_range base 24 a"
proof -
  from assms(1,2) obtain ls l where d: "draw_each (\<lambda>c rs. if st_full_subnet st then map_option (\<lambda>l. (l, rs)) (enumerate_cidr_v4 c)
        else sample_cidr_v4 c (st_sample_per_cidr st) rs) cidrs rs = Some (ls, rs')" "l \<in> set ls" "a \<in> set l"
    by (auto simp: sweep_v4_def set_interleave)
  from draw_each_result [OF d(1,2)] obtain c r r' where c: "c \<in> set cidrs"
      and l: "(if st_full_subnet st then map_option (\<lambda>l. (l, r)) (enumerate_cidr_v4 c)
        else sample_cidr_v4 c (st_sample_per_cidr st) r) = Some (l, r')" by blast
  from known [OF c] obtain base where p: "parse_cidr_v4 c = Some (base, 24)" ..
  from l have "list_all (in_range base 24) l"
    using enumerate_result(3) [OF p] sample_result(3) [OF p] by (auto split: if_splits)
  with c p d(3) show ?thesis by (auto simp: list_all_iff)
qed

lemma draw_v6_result: "draw_v6 base v4 n rs = Some (l, rs') \<Longrightarrow> a \<in> set l \<Longrightarrow> drop_bit 32 a = drop_bit 32 base"
proof (induction n arbitrary: rs l)
  case (Suc n)
  from Suc.prems(1) obtain e l' rs1 where e: "l = or base (ucast (e :: ipv4)) # l'" "draw_v6 base v4 n rs1 = Some (l', rs')"
    by (force split: bind_splits)
  have "drop_bit 32 (ucast (e :: ipv4) :: ipv6) = 0"
    by (rule bit_word_eqI) (auto simp: bit_simps dest: bit_imp_le_length)
  then have "drop_bit 32 (or base (ucast e)) = drop_bit 32 base" by (simp add: drop_bit_or)
  with Suc e show ?case by auto
qed simp

lemma sweep_v6_result:
  assumes "sweep_v6 k st cidrs v4s rs = Some (hosts, rs')" and "a \<in> set hosts"
  shows "\<exists>c \<in> set cidrs. \<exists>base prefix. parse_cidr_v6 c = Some (base, prefix) \<and> drop_bit 32 a = drop_bit 32 base"
proof -
  let ?n = "if st_sample_per_cidr st = 0 then k else st_sample_per_cidr st"
  from assms obtain ls l where d: "draw_each (\<lambda>c rs. sample_cidr_v6 c ?n v4s rs) cidrs rs = Some (ls, rs')" "l \<in> set ls" "a \<in> set l"
    by (auto simp: sweep_v6_def Let_def set_interleave)
  from draw_each_result [OF d(1,2)] obtain c r r' where c: "c \<in> set cidrs" "sample_cidr_v6 c ?n v4s r = Some (l, r')" by blast
  then show ?thesis using d(3) draw_v6_result
    by (fastforce simp: sample_cidr_v6_def split: option.splits if_splits)
qed

lemma masque_ranges: "c \<in> set masque_cidrs_v4_all \<Longrightarrow>
  \<exists>a b d. parse_cidr_v4 c = Some (ipv4_of a b d 0, 24)"
  by (auto simp: masque_cidrs_v4_all_def parse_cidr_v4_def parse_ipv4_def parse_octet_def digit_val_def parse_u8_def
    parse_uint_def Let_def) blast+

lemma masque_range_prefix: "c \<in> set masque_cidrs_v4_all \<Longrightarrow> \<exists>base. parse_cidr_v4 c = Some (base, 24)"
  using masque_ranges by blast

text \<open>The addresses tried on every port, and the ranges an address of the sweep lies in.\<close>

definition seed_addresses :: "ip_scan \<Rightarrow> ip_addr set" where
  "seed_addresses ip = V4 ` set (seeds_v4 ip) \<union> V6 ` set (seeds_v6 ip)"

fun in_ranges :: "string list \<Rightarrow> string list \<Rightarrow> ip_addr \<Rightarrow> bool" where
  "in_ranges v4s v6s (V4 a) = (\<exists>c \<in> set v4s. \<exists>base. parse_cidr_v4 c = Some (base, 24) \<and> in_range base 24 a)"
| "in_ranges v4s v6s (V6 a) = (\<exists>c \<in> set v6s. \<exists>base prefix. parse_cidr_v6 c = Some (base, prefix)
     \<and> drop_bit 32 a = drop_bit 32 base)"

abbreviation in_masque_ranges :: "ip_addr \<Rightarrow> bool" where
  "in_masque_ranges \<equiv> in_ranges masque_cidrs_v4_all masque_cidrs_v6_all"

text \<open>The scan probes no pair of address and port twice; it starts with every seed on the first port, goes
  on with every seed on every other port, and only then sweeps the published ranges, on the first
  port alone and with addresses of those ranges alone.
\<close>

theorem scan_order:
  assumes "build_candidates env st ports ip rs = Some (cs, rs')"
  shows "distinct cs \<and> (\<exists>front alternate sweep. cs = front @ alternate @ sweep
    \<and> set front = seed_addresses ip \<times> {primary_port ports}
    \<and> set alternate = seed_addresses ip \<times> (set ports - {primary_port ports})
    \<and> list_all (\<lambda>(a, port). port = primary_port ports \<and> in_masque_ranges a) sweep)"
proof -
  let ?p = "primary_port ports"
  define front where "front = push_all [] ([(V4 a, ?p). a \<leftarrow> seeds_v4 ip] @ [(V6 a, ?p). a \<leftarrow> seeds_v6 ip])"
  define others where "others = [(V4 a, port). a \<leftarrow> seeds_v4 ip, port \<leftarrow> ports, port \<noteq> ?p]
         @ [(V6 a, port). a \<leftarrow> seeds_v6 ip, port \<leftarrow> ports, port \<noteq> ?p]"
  from assms obtain h4 h6 rs1 where
      h4: "(if want_v4 ip then sweep_v4 st (masque_cidrs_v4 env) rs else Some ([], rs)) = Some (h4, rs1)"
    and h6: "(if want_v6 ip then sweep_v6 96 st (masque_cidrs_v6 env) masque_cidrs_v4_all rs1 else Some ([], rs1)) = Some (h6, rs')"
    and cs: "cs = push_all (push_all front others) ([(V4 a, ?p). a \<leftarrow> h4] @ [(V6 a, ?p). a \<leftarrow> h6])"
    unfolding build_candidates_def Let_def front_def others_def by (auto split: bind_splits)
  have in4: "in_masque_ranges (V4 a)" if "a \<in> set h4" for a
  proof -
    have k: "\<And>c. c \<in> set (masque_cidrs_v4 env) \<Longrightarrow> \<exists>base. parse_cidr_v4 c = Some (base, 24)"
      by (rule masque_range_prefix) (simp only: masque_cidrs_v4_def set_prioritize)
    from h4 that have "sweep_v4 st (masque_cidrs_v4 env) rs = Some (h4, rs1)" by (auto split: if_splits)
    from sweep_v4_result [OF this that k] show ?thesis by (simp only: masque_cidrs_v4_def set_prioritize in_ranges.simps)
  qed
  have in6: "in_masque_ranges (V6 a)" if "a \<in> set h6" for a
  proof -
    from h6 that have "sweep_v6 96 st (masque_cidrs_v6 env) masque_cidrs_v4_all rs1 = Some (h6, rs')" by (auto split: if_splits)
    from sweep_v6_result [OF this that] show ?thesis by (simp only: masque_cidrs_v6_def set_prioritize in_ranges.simps)
  qed
  obtain alternate where alternate: "push_all front others = front @ alternate" using push_all_extends [of front others] by blast
  obtain sweep where sweep: "cs = front @ alternate @ sweep" "set sweep \<subseteq> set ([(V4 a, ?p). a \<leftarrow> h4] @ [(V6 a, ?p). a \<leftarrow> h6])"
    using push_all_extends [of "front @ alternate"] unfolding cs alternate by (metis append.assoc)
  have d: "distinct (push_all front others)" "distinct cs"
    unfolding cs front_def by (intro distinct_push_all distinct.simps(1) [THEN iffD2] TrueI)+
  have f: "set front = seed_addresses ip \<times> {?p}" by (auto simp: front_def seed_addresses_def)
  have "set front \<inter> set alternate = {}" using d(1) by (simp add: alternate)
  moreover have "set front \<union> set alternate = set front \<union> set others"
    using arg_cong [OF alternate, of set] by simp
  moreover have "set others = seed_addresses ip \<times> (set ports - {?p})" by (auto simp: others_def seed_addresses_def)
  ultimately have "set alternate = seed_addresses ip \<times> (set ports - {?p})" using f by blast
  moreover have "list_all (\<lambda>(a, port). port = ?p \<and> in_masque_ranges a) sweep"
    using sweep(2) in4 in6 by (auto simp: list_all_iff simp del: in_ranges.simps)
  ultimately show ?thesis using d(2) f sweep(1) by blast
qed

section \<open>The deep scan\<close>

lemma all_hosts:
  assumes p: "parse_cidr_v4 c = Some (base, 24)" and fits: "unat base + 256 \<le> 2 ^ 32"
  shows "\<exists>l. enumerate_cidr_v4 c = Some l \<and> Collect (in_range base 24) \<subseteq> set l"
proof -
  have "\<forall>off \<in> set [1..<255]. unat base + off < 2 ^ 32" using fits by auto
  then obtain l where l: "hosts_at base [1..<255] = Some l" using hosts_at_total by blast
  have "a \<in> set l" if "in_range base 24 a" for a
  proof -
    have "unat a - unat base \<in> set [1..<255]" "unat a = unat base + (unat a - unat base)"
      using that by (auto simp: in_range_def)
    then have "unat a \<in> unat ` set l"
      using arg_cong [OF hosts_at_result [OF l], of set] by (metis image_eqI list.set_map)
    then show ?thesis by (metis imageE word_unat_eq_iff)
  qed
  moreover have "enumerate_cidr_v4 c = Some l" using l by (simp add: enumerate_cidr_v4_def p Let_def)
  ultimately show ?thesis by auto
qed

lemma draw_each_pure:
  assumes "\<And>x. x \<in> set xs \<Longrightarrow> \<exists>y. f x = Some y"
  shows "draw_each (\<lambda>x rs. map_option (\<lambda>y. (y, rs)) (f x)) xs rs = Some (map (the \<circ> f) xs, rs)"
  using assms by (induction xs) fastforce+

lemma ipv4_of_zero: "unat (ipv4_of a b d 0) + 256 \<le> 2 ^ 32"
proof -
  have "from_be [a, b, d, 0] = unat a * 16777216 + unat b * 65536 + unat d * 256"
    by (simp add: from_be_def)
  moreover have "unat a * 16777216 + unat b * 65536 + unat d * 256 < 4294967296"
    using unat_u8_less [of a] unat_u8_less [of b] unat_u8_less [of d] by linarith
  ultimately have "unat (ipv4_of a b d 0) = unat a * 16777216 + unat b * 65536 + unat d * 256"
    by (simp only: ipv4_of_def unat_of_nat) simp
  then show ?thesis using unat_u8_less [of a] unat_u8_less [of b] unat_u8_less [of d] by (simp; linarith)
qed

text \<open>The deep scan reaches every host of every published IPv4 range, also the gateways that were measured
  as dead, and needs no random number for it.
\<close>

theorem deep_scan_reaches_every_host:
  "case build_candidates env (scan_strategy Thorough) ports Scan_V4 rs of
     Some (cs, rs') \<Rightarrow> rs' = rs \<and> {a. in_masque_ranges (V4 a)} \<subseteq> {a. (V4 a, primary_port ports) \<in> set cs}
   | None \<Rightarrow> False"
proof -
  let ?cidrs = "masque_cidrs_v4 env"
  have set: "set ?cidrs = set masque_cidrs_v4_all" by (simp only: masque_cidrs_v4_def set_prioritize)
  have hosts: "\<exists>base l. parse_cidr_v4 c = Some (base, 24) \<and> enumerate_cidr_v4 c = Some l \<and> Collect (in_range base 24) \<subseteq> set l"
    if "c \<in> set ?cidrs" for c
    using masque_ranges [of c] that all_hosts ipv4_of_zero unfolding set by metis
  have "\<And>c. c \<in> set ?cidrs \<Longrightarrow> \<exists>y. enumerate_cidr_v4 c = Some y" using hosts by blast
  from draw_each_pure [OF this, of ?cidrs "\<lambda>c. c" rs]
  have "sweep_v4 (scan_strategy Thorough) ?cidrs rs = Some (interleave (map (the \<circ> enumerate_cidr_v4) ?cidrs), rs)"
    by (simp add: sweep_v4_def)
  moreover have "a \<in> set (interleave (map (the \<circ> enumerate_cidr_v4) ?cidrs))" if "in_masque_ranges (V4 a)" for a
  proof -
    from that obtain c base where c: "c \<in> set ?cidrs" "parse_cidr_v4 c = Some (base, 24)" "in_range base 24 a"
      unfolding set by auto
    from hosts [OF c(1)] c(2,3) have "a \<in> set (the (enumerate_cidr_v4 c))" by auto
    with c(1) show ?thesis by (auto simp: set_interleave)
  qed
  ultimately show ?thesis
    by (auto simp: build_candidates_def Let_def want_v4_def want_v6_def simp del: in_ranges.simps)
qed

lemma full_sweep:
  assumes "st_full_subnet st" and "\<And>c. c \<in> set cidrs \<Longrightarrow> \<exists>a b d. parse_cidr_v4 c = Some (ipv4_of a b d 0, 24)"
  shows "\<exists>hosts. sweep_v4 st cidrs rs = Some (hosts, rs)"
proof -
  have "\<exists>y. enumerate_cidr_v4 c = Some y" if "c \<in> set cidrs" for c
    using assms(2) [OF that] all_hosts ipv4_of_zero by metis
  from draw_each_pure [OF this, of cidrs "\<lambda>c. c" rs] show ?thesis
    using assms(1) by (simp add: sweep_v4_def)
qed

lemma full_scan_candidates:
  assumes "st_full_subnet st"
  obtains cs where "build_candidates env st ports Scan_V4 rs = Some (cs, rs)" "(V4 (ipv4_of 162 159 199 1), primary_port ports) \<in> set cs"
proof -
  have set: "set (masque_cidrs_v4 env) = set masque_cidrs_v4_all" by (simp only: masque_cidrs_v4_def set_prioritize)
  obtain hosts where "sweep_v4 st (masque_cidrs_v4 env) rs = Some (hosts, rs)"
    using full_sweep [OF assms, of "masque_cidrs_v4 env" rs] masque_ranges unfolding set by blast
  moreover have "ipv4_of 162 159 199 1 \<in> set (seeds_v4 Scan_V4)"
    by (simp add: seeds_v4_def want_v4_def masque_seeds_def List.map_filter_simps parse_ipv4_def parse_octet_def digit_val_def Let_def)
  ultimately show thesis
    by (intro that) (auto simp: build_candidates_def Let_def want_v4_def want_v6_def)
qed

theorem scan_order_witness:
  "\<exists>cs. build_candidates (\<lambda>_. None) (scan_strategy Thorough) [443, 500] Scan_V4 [] = Some (cs, []) \<and> distinct cs
    \<and> (\<exists>front others. cs = front @ others \<and> set front = seed_addresses Scan_V4 \<times> {443})"
proof -
  obtain cs where cs: "build_candidates (\<lambda>_. None) (scan_strategy Thorough) [443, 500] Scan_V4 [] = Some (cs, [])"
    by (rule full_scan_candidates [of "scan_strategy Thorough"]) auto
  from scan_order [OF this] show ?thesis using cs unfolding primary_port_def by (simp only: list.case) blast
qed

section \<open>What a hunt finds\<close>

definition better :: "probe_result option \<Rightarrow> probe_result \<Rightarrow> probe_result option" where
  "better best pr = (case best of Some cur \<Rightarrow> if pr_rtt cur \<le> pr_rtt pr then Some cur else Some pr | None \<Rightarrow> Some pr)"

fun turn_time :: "hunt_turn \<Rightarrow> nat" where
  "turn_time (Probed t c) = t"
| "turn_time (Exhausted t) = t"
| "turn_time (Woke t) = t"

fun turn_result :: "(candidate \<Rightarrow> probe_result option) \<Rightarrow> hunt_turn \<Rightarrow> probe_result option" where
  "turn_result verify (Probed t c) = verify c"
| "turn_result verify (Exhausted t) = None"
| "turn_result verify (Woke t) = None"

definition turn_results :: "(candidate \<Rightarrow> probe_result option) \<Rightarrow> hunt_turn list \<Rightarrow> probe_result list" where
  "turn_results verify turns = List.map_filter (turn_result verify) turns"

lemma turn_results_simps [simp]:
  "turn_results verify [] = []"
  "turn_results verify (x # turns) = (case turn_result verify x of Some pr \<Rightarrow> pr # turn_results verify turns | None \<Rightarrow> turn_results verify turns)"
  by (simp_all add: turn_results_def List.map_filter_simps split: option.split)

lemma turn_results_append [simp]: "turn_results verify (p @ q) = turn_results verify p @ turn_results verify q"
  by (induction p) (simp_all split: option.split)

text \<open>
  When a hunt is over, said of the turns handled so far: the deadline has passed, the stream ended or
  the sleep was over, a mode that takes the first gateway has one, or the wanted number of
  gateways was reached and the quiet time behind the turn that reached it is over.
\<close>

fun is_probe :: "hunt_turn \<Rightarrow> bool" where
  "is_probe (Probed t c) = True"
| "is_probe (Exhausted t) = False"
| "is_probe (Woke t) = False"

fun pass_time :: "(candidate \<Rightarrow> probe_result option) \<Rightarrow> nat \<Rightarrow> hunt_turn list \<Rightarrow> nat" where
  "pass_time verify n [] = 0"
| "pass_time verify n (x # turns) =
     (if turn_result verify x = None then pass_time verify n turns
      else if n \<le> 1 then turn_time x else pass_time verify (n - 1) turns)"

definition time_after :: "nat \<Rightarrow> hunt_turn list \<Rightarrow> nat" where
  "time_after now p = (if p = [] then now else turn_time (last p))"

definition target_reached :: "(candidate \<Rightarrow> probe_result option) \<Rightarrow> 'a strategy_scheme \<Rightarrow> hunt_turn list \<Rightarrow> bool" where
  "target_reached verify st p \<longleftrightarrow>
     0 < st_target_successes st \<and> st_target_successes st \<le> length (turn_results verify p)"

definition hunt_over :: "(candidate \<Rightarrow> probe_result option) \<Rightarrow> 'a strategy_scheme \<Rightarrow> nat \<Rightarrow> nat \<Rightarrow> hunt_turn list \<Rightarrow> bool" where
  "hunt_over verify st deadline now p \<longleftrightarrow>
     deadline \<le> time_after now p
     \<or> p \<noteq> [] \<and> \<not> is_probe (last p)
     \<or> st_early_exit_first st \<and> turn_results verify p \<noteq> []
     \<or> target_reached verify st p
       \<and> (st_quiet_after_first st = 0 \<or> pass_time verify (st_target_successes st) p + st_quiet_after_first st \<le> time_after now p)"

lemma time_after_simps [simp]: "time_after now [] = now" "time_after now (p @ [x]) = turn_time x"
  by (simp_all add: time_after_def)

lemma pass_time_append:
  "0 < n \<Longrightarrow> pass_time verify n (p @ [x]) =
     (if n \<le> length (turn_results verify p) then pass_time verify n p
      else if turn_result verify x \<noteq> None \<and> n = Suc (length (turn_results verify p)) then turn_time x else 0)"
  by (induction p arbitrary: n) (auto split: option.split)

text \<open>The variables of the loop say what the turns so far were.\<close>

definition hunt_at :: "(candidate \<Rightarrow> probe_result option) \<Rightarrow> 'a strategy_scheme \<Rightarrow> nat \<Rightarrow> nat \<Rightarrow> hunt_turn list \<Rightarrow> hunt_turn list
    \<Rightarrow> probe_result option option" where
  "hunt_at verify st deadline now p turns =
     hunt_loop verify st deadline (foldl better None (turn_results verify p)) (length (turn_results verify p))
       (if target_reached verify st p then Some (pass_time verify (st_target_successes st) p + st_quiet_after_first st) else None)
       (time_after now p) turns"

definition hunt_runs :: "(candidate \<Rightarrow> probe_result option) \<Rightarrow> 'a strategy_scheme \<Rightarrow> hunt_turn list \<Rightarrow> bool" where
  "hunt_runs verify st p \<longleftrightarrow> list_all is_probe p \<and> \<not> (st_early_exit_first st \<and> turn_results verify p \<noteq> [])
     \<and> \<not> (target_reached verify st p \<and> st_quiet_after_first st = 0)"

lemma hunt_over_running:
  assumes "hunt_runs verify st p"
  shows "hunt_over verify st deadline now p \<longleftrightarrow>
    (case (if target_reached verify st p then Some (pass_time verify (st_target_successes st) p + st_quiet_after_first st) else None)
     of Some q \<Rightarrow> min q deadline | None \<Rightarrow> deadline) \<le> time_after now p"
  using assms by (cases "p = []") (auto simp: hunt_over_def hunt_runs_def list_all_iff)

lemma hunt_at_over:
  "hunt_runs verify st p \<Longrightarrow> hunt_over verify st deadline now p \<Longrightarrow>
   hunt_at verify st deadline now p turns = Some (foldl better None (turn_results verify p))"
  by (simp add: hunt_over_running hunt_at_def hunt_loop.simps [of _ _ _ _ _ _ _ turns] Let_def)

text \<open>One turn of the loop, from the state after \<open>p\<close>: it ends the hunt, or leads to the state after \<open>p @ [x]\<close>.\<close>

lemma hunt_at_turn:
  assumes "hunt_runs verify st p" and "\<not> hunt_over verify st deadline now p"
  shows "if is_probe x \<and> hunt_runs verify st (p @ [x])
    then hunt_at verify st deadline now p (x # turns) = hunt_at verify st deadline now (p @ [x]) turns
    else hunt_over verify st deadline now (p @ [x])
      \<and> hunt_at verify st deadline now p (x # turns) = Some (foldl better None (turn_results verify (p @ [x])))"
proof (cases x)
  case (Probed t c)
  have early: "\<not> (case (if target_reached verify st p then Some (pass_time verify (st_target_successes st) p + st_quiet_after_first st) else None)
     of Some q \<Rightarrow> min q deadline | None \<Rightarrow> deadline) \<le> time_after now p"
    using assms hunt_over_running by blast
  have quiet: "target_reached verify st p \<Longrightarrow> st_quiet_after_first st \<noteq> 0" using assms(1) by (auto simp: hunt_runs_def)
  let ?found = "Suc (length (turn_results verify p))" and ?n = "st_target_successes st"
  show ?thesis
  proof (cases "verify c")
    case None
    then show ?thesis using assms(1) early unfolding Probed
      by (simp add: hunt_at_def hunt_runs_def target_reached_def pass_time_append
          hunt_loop.simps [of _ _ _ _ _ _ _ "y # ys" for y ys] Let_def split: if_splits)
  next
    case (Some pr)
    have b: "(case best of Some cur \<Rightarrow> if pr_rtt cur \<le> pr_rtt pr then Some cur else Some pr | None \<Rightarrow> Some pr) = better best pr" for best
      by (simp add: better_def)
    have reached: "target_reached verify st (p @ [x]) \<longleftrightarrow> 0 < ?n \<and> ?n \<le> ?found"
      "target_reached verify st p \<longleftrightarrow> 0 < ?n \<and> ?n < ?found"
      by (auto simp: target_reached_def Probed Some)
    show ?thesis
    proof (cases "st_early_exit_first st")
      case True
      then have "turn_results verify p = []" using assms(1) by (simp add: hunt_runs_def)
      with True Some early show ?thesis unfolding Probed
        by (simp add: hunt_at_def hunt_runs_def hunt_over_def better_def
          hunt_loop.simps [of _ _ _ _ _ _ _ "y # ys" for y ys] Let_def)
    next
      case False
      with Some early reached quiet assms(1) show ?thesis unfolding Probed
        by (cases "target_reached verify st p"; cases "0 < ?n \<and> ?n = ?found"; cases "st_quiet_after_first st = 0")
          (auto simp: hunt_at_def hunt_runs_def hunt_over_def pass_time_append b
          hunt_loop.simps [of _ _ _ _ _ _ _ "y # ys" for y ys] Let_def)
    qed
  qed
qed (use assms(2) hunt_over_running [OF assms(1)] in
    \<open>simp_all add: hunt_at_def hunt_over_def hunt_loop.simps [of _ _ _ _ _ _ _ "y # ys" for y ys] Let_def\<close>)

text \<open>A hunt that returns has handled its turns up to the first that was a reason to stop, and nothing behind it.\<close>

lemma hunt_at_result:
  assumes "hunt_at verify st deadline now p turns = Some r" and "hunt_runs verify st p"
  shows "\<exists>used later. turns = used @ later \<and> r = foldl better None (turn_results verify (p @ used))
    \<and> hunt_over verify st deadline now (p @ used) \<and> (\<forall>k<length used. \<not> hunt_over verify st deadline now (p @ take k used))"
  using assms
proof (induction turns arbitrary: p)
  case Nil
  then have "hunt_over verify st deadline now p"
    by (simp add: hunt_over_running hunt_at_def hunt_loop.simps [of _ _ _ _ _ _ _ "[]"] Let_def split: if_splits)
  with Nil hunt_at_over show ?case by fastforce
next
  case (Cons x turns)
  show ?case
  proof (cases "hunt_over verify st deadline now p")
    case True
    with Cons.prems hunt_at_over show ?thesis by (intro exI [of _ "[]"] exI [of _ "x # turns"]) fastforce
  next
    case False
    note turn = hunt_at_turn [OF Cons.prems(2) False, of x turns]
    show ?thesis
    proof (cases "is_probe x \<and> hunt_runs verify st (p @ [x])")
      case True
      with turn Cons.prems(1) have "hunt_at verify st deadline now (p @ [x]) turns = Some r" by simp
      from Cons.IH [OF this] True obtain used later where u: "turns = used @ later"
        "r = foldl better None (turn_results verify ((p @ [x]) @ used))" "hunt_over verify st deadline now ((p @ [x]) @ used)"
        "\<forall>k<length used. \<not> hunt_over verify st deadline now ((p @ [x]) @ take k used)" by blast
      have "\<not> hunt_over verify st deadline now (p @ take k (x # used))" if "k < length (x # used)" for k
        using u(4) False that by (cases k) auto
      with u(1-3) show ?thesis by (intro exI [of _ "x # used"] exI [of _ later]) simp
    next
      case stop: False
      with turn have over: "hunt_over verify st deadline now (p @ [x])"
        and r: "hunt_at verify st deadline now p (x # turns) = Some (foldl better None (turn_results verify (p @ [x])))"
        by (simp_all only: if_False)
      have "r = foldl better None (turn_results verify (p @ [x]))"
        using r Cons.prems(1) by (simp only: option.inject)
      with over False show ?thesis by (intro exI [of _ "[x]"] exI [of _ turns]) simp
    qed
  qed
qed

lemma hunt_loop_result:
  assumes "hunt_loop verify st deadline None 0 None now turns = Some r"
  shows "\<exists>used later. turns = used @ later \<and> r = foldl better None (turn_results verify used)
    \<and> hunt_over verify st deadline now used \<and> (\<forall>k<length used. \<not> hunt_over verify st deadline now (take k used))"
proof -
  have "\<not> target_reached verify st []" by (auto simp: target_reached_def)
  then show ?thesis
    using hunt_at_result [of verify st deadline now "[]" turns r] assms by (simp add: hunt_at_def hunt_runs_def)
qed

text \<open>A turn at the deadline, the end of the stream or the end of the sleep stops the loop.\<close>

fun ends_hunt :: "nat \<Rightarrow> hunt_turn \<Rightarrow> bool" where
  "ends_hunt deadline (Probed t c) = (deadline \<le> t)"
| "ends_hunt deadline (Exhausted t) = True"
| "ends_hunt deadline (Woke t) = True"

lemma hunt_loop_ends:
  "list_ex (ends_hunt deadline) turns \<or> deadline \<le> now \<Longrightarrow>
   \<exists>r. hunt_loop verify st deadline best found quiet now turns = Some r"
proof (induction turns arbitrary: best found quiet now)
  case Nil
  then show ?case by (simp add: hunt_loop.simps [of _ _ _ _ _ _ _ "[]"] Let_def min_le_iff_disj split: option.splits)
next
  case (Cons x turns)
  show ?case
  proof (cases "(case quiet of Some q \<Rightarrow> min q deadline | None \<Rightarrow> deadline) \<le> now")
    case True
    then show ?thesis by (simp add: hunt_loop.simps [of _ _ _ _ _ _ _ "y # turns" for y] Let_def)
  next
    case False
    then have "\<not> deadline \<le> now" by (auto split: option.splits)
    with Cons.prems have x: "ends_hunt deadline x \<or> list_ex (ends_hunt deadline) turns" by simp
    show ?thesis
    proof (cases x)
      case (Probed t c)
      with x have "\<exists>r. hunt_loop verify st deadline b f q t turns = Some r" for b f q by (intro Cons.IH) auto
      with False Probed show ?thesis
        by (simp add: hunt_loop.simps [of _ _ _ _ _ _ _ "y # turns" for y] Let_def split: option.split)
    qed (use False in \<open>simp_all add: hunt_loop.simps [of _ _ _ _ _ _ _ "y # turns" for y] Let_def\<close>)
  qed
qed

lemma better_fold:
  "foldl better (Some b) prs = Some r \<Longrightarrow> r \<in> insert b (set prs) \<and> pr_rtt r \<le> pr_rtt b \<and> list_all (\<lambda>q. pr_rtt r \<le> pr_rtt q) prs"
proof (induction prs arbitrary: b)
  case (Cons q prs)
  from Cons.prems Cons.IH [of b] Cons.IH [of q] show ?case by (auto simp: better_def split: if_splits)
qed simp

lemma better_fold_None:
  "(case foldl better None prs of Some r \<Rightarrow> r \<in> set prs \<and> list_all (\<lambda>q. pr_rtt r \<le> pr_rtt q) prs | None \<Rightarrow> prs = [])"
proof (cases prs)
  case (Cons q qs)
  have "\<exists>r. foldl better (Some b) qs = Some r" for b qs
    by (induction qs arbitrary: b) (auto simp: better_def)
  then obtain r where r: "foldl better (Some q) qs = Some r" by blast
  from better_fold [OF this] Cons r show ?thesis by (auto simp: better_def [of None])
qed simp

lemma verify_one_candidate: "verify_one w timeout ironclad c = Some pr \<Longrightarrow> (pr_ip pr, pr_port pr) = c"
  by (auto simp: verify_one_def answer_of_def split: if_splits sum.splits bind_splits)

lemma turn_results_from:
  assumes "pr \<in> set (turn_results (verify_one w timeout ironclad) turns)"
  obtains t where "Probed t (pr_ip pr, pr_port pr) \<in> set turns" "verify_one w timeout ironclad (pr_ip pr, pr_port pr) = Some pr"
proof -
  from assms obtain x where x: "x \<in> set turns" "turn_result (verify_one w timeout ironclad) x = Some pr"
    by (auto simp: turn_results_def set_map_filter)
  from x(2) obtain t c where c: "x = Probed t c" "verify_one w timeout ironclad c = Some pr"
    by (cases x rule: hunt_turn.exhaust) auto
  with that x(1) verify_one_candidate [OF c(2)] show ?thesis by simp
qed

text \<open>C26: When the stream of probes yields only candidates, and runs out or reaches the deadline, the hunt
  returns. It handles its turns up to the first reason to stop and no further: the deadline, the
  end of the stream, a gateway in a mode that takes the first, or the quiet time behind the wanted
  number of gateways (\<open>hunt_over\<close>, true of the turns it used and of no shorter part of them). Its answer
  is a candidate that passed its probe, as fast as every other one that passed in those turns, or the
  error that there is none, when none of them had passed.
\<close>

theorem hunt_returns_the_best_gateway:
  assumes ip: "effective_ip ip has_ipv6 = Some ip'"
    and cs: "build_candidates env (hunt_strategy t mode) ports ip' rs = Some (cs, rs')"
    and turns: "turns = order (st_concurrency (hunt_strategy t mode)) cs"
    and stream: "\<forall>time c. Probed time c \<in> set turns \<longrightarrow> c \<in> set cs"
    and ends: "list_ex (ends_hunt (now + st_overall_deadline (hunt_strategy t mode))) turns"
  shows "\<exists>used later. turns = used @ later
    \<and> (let st = hunt_strategy t mode; verify = verify_one w (st_per_probe_timeout st) (mode = Ironclad);
         deadline = now + st_overall_deadline st
       in hunt_over verify st deadline now used \<and> (\<forall>k<length used. \<not> hunt_over verify st deadline now (take k used))
        \<and> (case hunt_best_gateway env t w ports ip has_ipv6 mode rs now order of
         Some (Inr pr) \<Rightarrow> (pr_ip pr, pr_port pr) \<in> set cs \<and> verify (pr_ip pr, pr_port pr) = Some pr
           \<and> pr \<in> set (turn_results verify used) \<and> list_all (\<lambda>q. pr_rtt pr \<le> pr_rtt q) (turn_results verify used)
       | Some (Inl e) \<Rightarrow> e = E_NoCleanEndpoint \<and> turn_results verify used = []
       | None \<Rightarrow> False))"
proof -
  let ?st = "hunt_strategy t mode"
  let ?verify = "verify_one w (st_per_probe_timeout ?st) (mode = Ironclad)"
  let ?deadline = "now + st_overall_deadline ?st"
  obtain r where r: "hunt_loop ?verify ?st ?deadline None 0 None now turns = Some r"
    using hunt_loop_ends ends by blast
  then have h: "hunt_best_gateway env t w ports ip has_ipv6 mode rs now order = Some (hunt_outcome r)"
    by (simp add: hunt_best_gateway_def ip cs turns Let_def)
  from hunt_loop_result [OF r] obtain used later where u: "turns = used @ later"
      "r = foldl better None (turn_results ?verify used)"
    and over: "hunt_over ?verify ?st ?deadline now used" "\<forall>k<length used. \<not> hunt_over ?verify ?st ?deadline now (take k used)"
    by blast
  have "(pr_ip pr, pr_port pr) \<in> set cs \<and> ?verify (pr_ip pr, pr_port pr) = Some pr" if "pr \<in> set (turn_results ?verify used)" for pr
    using that stream unfolding u(1) by (elim turn_results_from) auto
  with better_fold_None [of "turn_results ?verify used"] u h
  have "case hunt_best_gateway env t w ports ip has_ipv6 mode rs now order of
         Some (Inr pr) \<Rightarrow> (pr_ip pr, pr_port pr) \<in> set cs \<and> ?verify (pr_ip pr, pr_port pr) = Some pr
           \<and> pr \<in> set (turn_results ?verify used) \<and> list_all (\<lambda>q. pr_rtt pr \<le> pr_rtt q) (turn_results ?verify used)
       | Some (Inl e) \<Rightarrow> e = E_NoCleanEndpoint \<and> turn_results ?verify used = []
       | None \<Rightarrow> False"
    by (auto simp: hunt_outcome_def list_all_iff split: option.split)
  with u(1) over show ?thesis
    unfolding Let_def by (intro exI [of _ used] exI [of _ later] conjI)
qed

text \<open>A hunt whose first probe passes, in the deep mode.\<close>

definition passing_world :: probe_world where
  "passing_world = \<lparr>pw_http_ping = \<lambda>_ _. Inl E_Cancelled, pw_h2_enabled = True, pw_verify_h2 = \<lambda>_ _. Inr 80,
     pw_verify_masque = \<lambda>_ _. (0, Inl E_Cancelled)\<rparr>"

theorem hunt_returns_the_best_gateway_witness:
  "\<exists>pr. hunt_best_gateway (\<lambda>_. None) (build_tuning (\<lambda>_. None) 8 None) passing_world [443] Scan_Both False Thorough [] 0
      (\<lambda>_ cs. [Probed 90 (hd cs), Exhausted 95]) = Some (Inr pr) \<and> pr_rtt pr = 80"
proof -
  let ?t = "build_tuning (\<lambda>_. None) 8 None" and ?order = "\<lambda>_ cs. [Probed 90 (hd cs), Exhausted 95]"
  have ip: "effective_ip Scan_Both False = Some Scan_V4" by (simp add: effective_ip_def want_v4_def want_v6_def)
  have "st_full_subnet (hunt_strategy ?t Thorough)" by (simp add: hunt_strategy_def)
  then obtain cs where cs: "build_candidates (\<lambda>_. None) (hunt_strategy ?t Thorough) [443] Scan_V4 [] = Some (cs, [])" "cs \<noteq> []"
    by (rule full_scan_candidates [where env = "\<lambda>_. None" and ports = "[443]" and rs = "[]"]) (metis empty_iff list.set(1))
  have pass: "verify_one passing_world tmo (Thorough = Ironclad) c = Some \<lparr>pr_ip = fst c, pr_port = snd c, pr_rtt = 80\<rparr>" for tmo c
    by (simp add: verify_one_def passing_world_def answer_of_def)
  have stream: "\<forall>time c. Probed time c \<in> set (?order (st_concurrency (hunt_strategy ?t Thorough)) cs) \<longrightarrow> c \<in> set cs"
    using cs(2) by simp
  have ends: "list_ex (ends_hunt (0 + st_overall_deadline (hunt_strategy ?t Thorough)))
      (?order (st_concurrency (hunt_strategy ?t Thorough)) cs)" by simp
  note best = hunt_returns_the_best_gateway [where order = ?order and now = 0 and w = passing_world and t = ?t and mode = Thorough,
      OF ip cs(1) refl stream ends]
  define pr where "pr = \<lparr>pr_ip = fst (hd cs), pr_port = snd (hd cs), pr_rtt = 80\<rparr>"
  have h: "hunt_best_gateway (\<lambda>_. None) ?t passing_world [443] Scan_Both False Thorough [] 0 ?order = Some (Inr pr)"
  proof -
    have st: "st_early_exit_first (hunt_strategy ?t Thorough) = False" "st_target_successes (hunt_strategy ?t Thorough) = 0"
      "st_overall_deadline (hunt_strategy ?t Thorough) = 300000"
      by (simp_all add: hunt_strategy_def)
    have "hunt_loop (verify_one passing_world (st_per_probe_timeout (hunt_strategy ?t Thorough)) (Thorough = Ironclad))
        (hunt_strategy ?t Thorough) (0 + st_overall_deadline (hunt_strategy ?t Thorough)) None 0 None 0
        [Probed 90 (hd cs), Exhausted 95] = Some (Some pr)"
      by (simp add: hunt_loop.simps [of _ _ _ _ _ _ _ "y # turns" for y turns] Let_def pass [simplified] st pr_def)
    then show ?thesis by (simp only: hunt_best_gateway_def ip cs(1) Let_def) (simp add: hunt_outcome_def cs(1))
  qed
  from best [unfolded Let_def h option.case sum.case]
  have "verify_one passing_world (st_per_probe_timeout (hunt_strategy ?t Thorough)) (Thorough = Ironclad) (pr_ip pr, pr_port pr) = Some pr"
    by blast
  then have "pr_rtt pr = 80" unfolding pass by (metis option.inject probe_result.select_convs(3))
  with h show ?thesis by blast
qed

end
