(* ===== verification/Wg_Prober.thy ===== *)
theory Wg_Prober
  imports Prober
begin

text \<open>
  \<^verbatim>\<open>wg_prober.rs\<close>: the search for a WireGuard endpoint over the ranges, seeds and ports of
  \<^verbatim>\<open>wireguard.rs\<close>. \<open>build_wg_candidates\<close> tries the known anchors on the first ports and then covers
  the sampled pool in waves that rotate the ports, leaving out the endpoints that are excluded; the
  loop of \<open>hunt_best_wg_endpoint\<close> is the one of \<^verbatim>\<open>prober.rs\<close>, and so is its strategy, with two more
  fields. What a handshake and the HTTP request through the tunnel say is a parameter.
\<close>

section \<open>What is scanned\<close>

definition wg_prefixes_v4_all :: "string list" where
  "wg_prefixes_v4_all = [''162.159.192.0/24'', ''162.159.195.0/24'', ''188.114.96.0/24'', ''188.114.97.0/24'',
     ''188.114.98.0/24'', ''188.114.99.0/24'', ''162.159.193.0/24'']"

definition wg_prefixes_v6_all :: "string list" where
  "wg_prefixes_v6_all = [''2606:4700:d0::/64'', ''2606:4700:d1::/64'', ''2606:4700:100::/48'']"

definition wg_zt_prefixes_v4 :: "string list" where
  "wg_zt_prefixes_v4 = [''162.159.193.0/24'']"

definition wg_zt_prefixes_v6 :: "string list" where
  "wg_zt_prefixes_v6 = [''2606:4700:100::/48'']"

definition wg_ports :: "u16 list" where
  "wg_ports = [2408, 500, 1701, 4500, 854, 859, 864, 878, 880, 890, 891, 894, 903, 908, 928, 934, 939, 942,
     943, 945, 946, 955, 968, 987, 988, 1002, 1010, 1014, 1018, 1070, 1074, 1180, 1387, 1843, 2371,
     2506, 3138, 3476, 3581, 3854, 4177, 4198, 4233, 5279, 5956, 7103, 7152, 7156, 7281, 7559, 8319,
     8742, 8854, 8886]"

definition wg_seeds_v4_all :: "string list" where
  "wg_seeds_v4_all = [''162.159.192.1'', ''162.159.195.1'', ''188.114.96.1'', ''188.114.97.1'', ''162.159.193.1'']"

definition wg_seeds_v6 :: "string list" where
  "wg_seeds_v6 = [''2606:4700:d0::a29f:c001'', ''2606:4700:d1::a29f:c001'', ''2606:4700:d0::a29f:c301'',
     ''2606:4700:d0::bc72:6001'']"

definition wg_prefixes_v4 :: "environment \<Rightarrow> string list" where
  "wg_prefixes_v4 env = prioritize env wg_prefixes_v4_all wg_zt_prefixes_v4"

definition wg_prefixes_v6 :: "environment \<Rightarrow> string list" where
  "wg_prefixes_v6 env = prioritize env wg_prefixes_v6_all wg_zt_prefixes_v6"

definition wg_seeds_v4 :: "environment \<Rightarrow> string list" where
  "wg_seeds_v4 env = prioritize env wg_seeds_v4_all [''162.159.193.1'']"

section \<open>Modes\<close>

datatype wg_scan_mode = Wg_Turbo | Wg_Balanced | Wg_Thorough | Wg_Stealth | Wg_Ironclad

definition parse_wg_scan_mode :: "string \<Rightarrow> wg_scan_mode" where
  "parse_wg_scan_mode s = (let v = to_lowercase (trim s) in
     if v \<in> {''turbo'', ''fast''} then Wg_Turbo
     else if v \<in> {''thorough'', ''deep'', ''pro''} then Wg_Thorough
     else if v \<in> {''stealth'', ''quiet''} then Wg_Stealth
     else if v \<in> {''ironclad'', ''real'', ''verify'', ''guaranteed''} then Wg_Ironclad
     else Wg_Balanced)"

fun wg_scan_mode_label :: "wg_scan_mode \<Rightarrow> string" where
  "wg_scan_mode_label Wg_Turbo = ''turbo''"
| "wg_scan_mode_label Wg_Balanced = ''balanced''"
| "wg_scan_mode_label Wg_Thorough = ''thorough''"
| "wg_scan_mode_label Wg_Stealth = ''stealth''"
| "wg_scan_mode_label Wg_Ironclad = ''ironclad''"

record wg_strategy = strategy +
  ws_anchor_port_count :: nat
  ws_pool_port_waves :: nat

fun wg_scan_strategy :: "wg_scan_mode \<Rightarrow> wg_strategy" where
  "wg_scan_strategy Wg_Turbo = \<lparr>st_concurrency = 12, st_per_probe_timeout = 5000, st_overall_deadline = 30000,
     st_quiet_after_first = 0, st_target_successes = 1, st_early_exit_first = True, st_full_subnet = False,
     st_sample_per_cidr = 40, ws_anchor_port_count = 4, ws_pool_port_waves = 2\<rparr>"
| "wg_scan_strategy Wg_Balanced = \<lparr>st_concurrency = 8, st_per_probe_timeout = 7000, st_overall_deadline = 80000,
     st_quiet_after_first = 12000, st_target_successes = 5, st_early_exit_first = False, st_full_subnet = False,
     st_sample_per_cidr = 120, ws_anchor_port_count = 4, ws_pool_port_waves = 3\<rparr>"
| "wg_scan_strategy Wg_Thorough = \<lparr>st_concurrency = 10, st_per_probe_timeout = 9000, st_overall_deadline = 250000,
     st_quiet_after_first = 25000, st_target_successes = 0, st_early_exit_first = False, st_full_subnet = True,
     st_sample_per_cidr = 0, ws_anchor_port_count = 8, ws_pool_port_waves = 4\<rparr>"
| "wg_scan_strategy Wg_Stealth = \<lparr>st_concurrency = 3, st_per_probe_timeout = 10000, st_overall_deadline = 150000,
     st_quiet_after_first = 20000, st_target_successes = 3, st_early_exit_first = False, st_full_subnet = False,
     st_sample_per_cidr = 50, ws_anchor_port_count = 4, ws_pool_port_waves = 2\<rparr>"
| "wg_scan_strategy Wg_Ironclad = \<lparr>st_concurrency = 4, st_per_probe_timeout = 15000, st_overall_deadline = 180000,
     st_quiet_after_first = 15000, st_target_successes = 3, st_early_exit_first = False, st_full_subnet = False,
     st_sample_per_cidr = 120, ws_anchor_port_count = 6, ws_pool_port_waves = 3\<rparr>"

section \<open>Candidates\<close>

definition dedup_ports :: "u16 list \<Rightarrow> u16 list" where
  "dedup_ports ports = (let deduped = push_all [] ports in if deduped = [] then [2408] else deduped)"

definition wg_anchors :: "environment \<Rightarrow> ip_scan \<Rightarrow> ip_addr list" where
  "wg_anchors env ip = (if want_v4 ip then map V4 (List.map_filter parse_ipv4 (wg_seeds_v4 env)) else [])
     @ (if want_v6 ip then map V6 (List.map_filter parse_ipv6 wg_seeds_v6) else [])"

definition wg_pool :: "environment \<Rightarrow> wg_strategy \<Rightarrow> ip_scan \<Rightarrow> ip_addr list drawing" where
  "wg_pool env st ip rs = do {
     (hosts4, rs) \<leftarrow> (if want_v4 ip then sweep_v4 st (wg_prefixes_v4 env) rs else Some ([], rs));
     (hosts6, rs) \<leftarrow> (if want_v6 ip then sweep_v6 80 st (wg_prefixes_v6 env) wg_prefixes_v4_all rs else Some ([], rs));
     Some (map V4 hosts4 @ map V6 hosts6, rs)
   }"

definition anchor_pairs :: "wg_strategy \<Rightarrow> u16 list \<Rightarrow> ip_addr list \<Rightarrow> candidate list" where
  "anchor_pairs st ports anchors = [(a, port). port \<leftarrow> take (max 1 (ws_anchor_port_count st)) ports, a \<leftarrow> anchors]"

text \<open>Wave \<open>wave\<close> over the pool: the address at \<open>i\<close> with the port \<open>(i + wave) % port_count\<close>.\<close>

definition wave_pairs :: "u16 list \<Rightarrow> ip_addr list \<Rightarrow> nat \<Rightarrow> candidate list" where
  "wave_pairs ports pool wave = map (\<lambda>(i, a). (a, ports ! ((i + wave) mod length ports))) (enumerate 0 pool)"

definition not_excluded :: "socket_addr set \<Rightarrow> candidate \<Rightarrow> bool" where
  "not_excluded excluded c \<longleftrightarrow> \<lparr>sa_ip = fst c, sa_port = snd c\<rparr> \<notin> excluded"

definition build_wg_candidates :: "environment \<Rightarrow> wg_strategy \<Rightarrow> u16 list \<Rightarrow> ip_scan \<Rightarrow> socket_addr set \<Rightarrow> candidate list drawing" where
  "build_wg_candidates env st ports ip excluded rs = (
     let ports = dedup_ports ports; anchors = wg_anchors env ip
     in do {
       (pool, rs) \<leftarrow> wg_pool env st ip rs;
       let pushed = anchor_pairs st ports anchors
         @ concat (map (wave_pairs ports pool) [0..<max 1 (ws_pool_port_waves st)]);
       Some (push_all [] (filter (not_excluded excluded) pushed), rs)
     })"

section \<open>One probe and the hunt\<close>

record wg_probe_world =
  ww_verify :: "candidate \<Rightarrow> nat \<Rightarrow> aether_error + nat"
  ww_http_ping :: "candidate \<Rightarrow> nat \<Rightarrow> aether_error + nat"

definition wg_ironclad_tcping_timeout :: nat where
  "wg_ironclad_tcping_timeout = 10000"

definition verify_one_wg :: "wg_probe_world \<Rightarrow> nat \<Rightarrow> bool \<Rightarrow> candidate \<Rightarrow> probe_result option" where
  "verify_one_wg w timeout ironclad c = (case ww_verify w c timeout of
     Inl e \<Rightarrow> None
   | Inr rtt \<Rightarrow> if \<not> ironclad then answer_of c (Inr rtt) else answer_of c (ww_http_ping w c wg_ironclad_tcping_timeout))"

definition wg_hunt_strategy :: "tuning \<Rightarrow> wg_scan_mode \<Rightarrow> wg_strategy" where
  "wg_hunt_strategy t mode = (let st = wg_scan_strategy mode in st\<lparr>st_concurrency := cap_concurrency t (st_concurrency st)\<rparr>)"

definition hunt_best_wg_endpoint :: "environment \<Rightarrow> tuning \<Rightarrow> wg_probe_world \<Rightarrow> u16 list \<Rightarrow> ip_scan \<Rightarrow> socket_addr set \<Rightarrow> bool
    \<Rightarrow> wg_scan_mode \<Rightarrow> draws \<Rightarrow> nat \<Rightarrow> (nat \<Rightarrow> candidate list \<Rightarrow> hunt_turn list) \<Rightarrow> (aether_error + probe_result) option" where
  "hunt_best_wg_endpoint env t w ports ip excluded has_ipv6 mode rs now order = (
     let st = wg_hunt_strategy t mode
     in case effective_ip ip has_ipv6 of
       None \<Rightarrow> Some (Inl E_NoCleanEndpoint)
     | Some ip \<Rightarrow> do {
         (candidates, _) \<leftarrow> build_wg_candidates env st ports ip excluded rs;
         best \<leftarrow> hunt_loop (verify_one_wg w (st_per_probe_timeout st) (mode = Wg_Ironclad)) st (now + st_overall_deadline st)
           None 0 None now (order (st_concurrency st) candidates);
         Some (hunt_outcome best)
       })"

section \<open>The order of the scan\<close>

lemma wg_range_bases: "c \<in> set wg_prefixes_v4_all \<Longrightarrow> \<exists>a b d. parse_cidr_v4 c = Some (ipv4_of a b d 0, 24)"
  by (auto simp: wg_prefixes_v4_all_def parse_cidr_v4_def parse_ipv4_def parse_octet_def digit_val_def parse_u8_def
    parse_uint_def Let_def) blast+

lemma wg_ranges: "c \<in> set wg_prefixes_v4_all \<Longrightarrow> \<exists>base. parse_cidr_v4 c = Some (base, 24)"
  using wg_range_bases by blast

lemma wg_pool_ranges:
  assumes "wg_pool env st ip rs = Some (pool, rs')"
  shows "list_all (in_ranges wg_prefixes_v4_all wg_prefixes_v6_all) pool"
proof -
  from assms obtain h4 h6 rs1 where
      h4: "(if want_v4 ip then sweep_v4 st (wg_prefixes_v4 env) rs else Some ([], rs)) = Some (h4, rs1)"
    and h6: "(if want_v6 ip then sweep_v6 80 st (wg_prefixes_v6 env) wg_prefixes_v4_all rs1 else Some ([], rs1)) = Some (h6, rs')"
    and pool: "pool = map V4 h4 @ map V6 h6"
    unfolding wg_pool_def by (auto split: bind_splits)
  have "in_ranges wg_prefixes_v4_all wg_prefixes_v6_all (V4 a)" if "a \<in> set h4" for a
  proof -
    have k: "\<And>c. c \<in> set (wg_prefixes_v4 env) \<Longrightarrow> \<exists>base. parse_cidr_v4 c = Some (base, 24)"
      by (rule wg_ranges) (simp only: wg_prefixes_v4_def set_prioritize)
    from h4 that have "sweep_v4 st (wg_prefixes_v4 env) rs = Some (h4, rs1)" by (auto split: if_splits)
    from sweep_v4_result [OF this that k] show ?thesis by (simp only: wg_prefixes_v4_def set_prioritize in_ranges.simps)
  qed
  moreover have "in_ranges wg_prefixes_v4_all wg_prefixes_v6_all (V6 a)" if "a \<in> set h6" for a
  proof -
    from h6 that have "sweep_v6 80 st (wg_prefixes_v6 env) wg_prefixes_v4_all rs1 = Some (h6, rs')" by (auto split: if_splits)
    from sweep_v6_result [OF this that] show ?thesis by (simp only: wg_prefixes_v6_def set_prioritize in_ranges.simps)
  qed
  ultimately show ?thesis by (auto simp: pool list_all_iff simp del: in_ranges.simps)
qed

lemma dedup_ports_ok: "distinct (dedup_ports ports)" "dedup_ports ports \<noteq> []"
  by (simp_all add: dedup_ports_def Let_def distinct_push_all)

text \<open>The waves give an address a different port each, as long as there are ports left.\<close>

lemma waves_rotate:
  assumes "distinct ports" and "waves \<le> length ports"
  shows "distinct (map (\<lambda>wave. ports ! ((i + wave) mod length ports)) [0..<waves])"
proof -
  have "a = b" if "a < waves" "b < waves" "(i + a) mod length ports = (i + b) mod length ports" for a b
  proof -
    have "int a mod int (length ports) = int b mod int (length ports)"
      using that(3) by (metis add_diff_cancel_left' mod_diff_left_eq of_nat_add of_nat_mod)
    then show ?thesis using that(1,2) assms(2) by simp
  qed
  moreover have "k mod length ports < length ports" if "0 < waves" for k
    using that assms(2) by (intro mod_less_divisor) linarith
  ultimately show ?thesis
    using assms(1) by (auto simp: distinct_map inj_on_def nth_eq_iff_index_eq)
qed

text \<open>The WireGuard scan never tries an excluded endpoint and none twice; the known anchors on the first
  ports come first, then every address of the pool, all of which lie in the published ranges, has
  its turn on one port before the second wave begins, and each wave gives an address another port.
\<close>

theorem wg_scan_order:
  assumes "build_wg_candidates env st ports ip excluded rs = Some (cs, rs')"
  shows "distinct cs \<and> list_all (not_excluded excluded) cs
    \<and> (\<exists>pool first second later. cs = first @ second @ later
      \<and> list_all (in_ranges wg_prefixes_v4_all wg_prefixes_v6_all) pool
      \<and> set first = {c. c \<in> set (anchor_pairs st (dedup_ports ports) (wg_anchors env ip)) \<and> not_excluded excluded c}
      \<and> set (first @ second) = set first \<union> {c. c \<in> set (wave_pairs (dedup_ports ports) pool 0) \<and> not_excluded excluded c}
      \<and> (\<Union>wave < ws_pool_port_waves st. {c. c \<in> set (wave_pairs (dedup_ports ports) pool wave) \<and> not_excluded excluded c}) \<subseteq> set cs
      \<and> (if ws_pool_port_waves st \<le> length (dedup_ports ports)
         then distinct (map (\<lambda>wave. dedup_ports ports ! ((i + wave) mod length (dedup_ports ports))) [0..<ws_pool_port_waves st])
         else True))"
proof -
  let ?ports = "dedup_ports ports" and ?ok = "not_excluded excluded"
  let ?n = "max 1 (ws_pool_port_waves st)"
  let ?a = "anchor_pairs st ?ports (wg_anchors env ip)"
  from assms obtain pool where pool: "wg_pool env st ip rs = Some (pool, rs')"
    and cs: "cs = push_all [] (filter ?ok (?a @ concat (map (wave_pairs ?ports pool) [0..<?n])))"
    unfolding build_wg_candidates_def Let_def by (auto split: bind_splits)
  have waves: "concat (map (wave_pairs ?ports pool) [0..<?n])
      = wave_pairs ?ports pool 0 @ concat (map (wave_pairs ?ports pool) [1..<?n])"
    by (simp add: upt_conv_Cons)
  define first where "first = push_all [] (filter ?ok ?a)"
  define both where "both = push_all first (filter ?ok (wave_pairs ?ports pool 0))"
  have cs': "cs = push_all both (filter ?ok (concat (map (wave_pairs ?ports pool) [1..<?n])))"
    unfolding cs waves both_def first_def by (simp only: filter_append push_all_append)
  obtain second where second: "both = first @ second" using push_all_extends [of first] unfolding both_def by blast
  obtain later where later: "cs = both @ later" using push_all_extends [of both] unfolding cs' by blast
  have "set first = {c. c \<in> set ?a \<and> ?ok c}" by (auto simp: first_def)
  moreover have "set (first @ second) = set first \<union> {c. c \<in> set (wave_pairs ?ports pool 0) \<and> ?ok c}"
    unfolding second [symmetric] both_def by auto
  moreover have "(\<Union>wave < ws_pool_port_waves st. {c. c \<in> set (wave_pairs ?ports pool wave) \<and> ?ok c}) \<subseteq> set cs"
    unfolding cs by auto
  moreover have "distinct cs" unfolding cs by (rule distinct_push_all) simp
  moreover have "list_all ?ok cs" unfolding cs by (auto simp: list_all_iff)
  moreover note wg_pool_ranges [OF pool] waves_rotate [OF dedup_ports_ok(1), of "ws_pool_port_waves st" ports i]
  moreover have "cs = first @ second @ later" by (simp add: later second)
  ultimately show ?thesis by (intro conjI exI [of _ pool] exI [of _ first] exI [of _ second] exI [of _ later]) simp_all
qed

lemma full_wg_scan:
  assumes "st_full_subnet st"
  obtains cs where "build_wg_candidates env st ports Scan_V4 excluded rs = Some (cs, rs)"
    "{c. c \<in> set (anchor_pairs st (dedup_ports ports) (wg_anchors env Scan_V4)) \<and> not_excluded excluded c} \<subseteq> set cs"
proof -
  have set: "set (wg_prefixes_v4 env) = set wg_prefixes_v4_all" by (simp only: wg_prefixes_v4_def set_prioritize)
  obtain hosts where "sweep_v4 st (wg_prefixes_v4 env) rs = Some (hosts, rs)"
    using full_sweep [OF assms, of "wg_prefixes_v4 env" rs] wg_range_bases unfolding set by blast
  then show thesis
    by (intro that) (auto simp: build_wg_candidates_def wg_pool_def Let_def want_v4_def want_v6_def)
qed

theorem wg_scan_order_witness:
  "\<exists>cs. build_wg_candidates (\<lambda>_. None) (wg_scan_strategy Wg_Thorough) [2408, 500, 2408] Scan_V4
      {\<lparr>sa_ip = V4 (ipv4_of 162 159 192 1), sa_port = 500\<rparr>} [] = Some (cs, [])
    \<and> (V4 (ipv4_of 162 159 192 1), 500) \<notin> set cs \<and> distinct cs"
proof -
  let ?x = "{\<lparr>sa_ip = V4 (ipv4_of 162 159 192 1), sa_port = 500\<rparr>}"
  obtain cs where cs: "build_wg_candidates (\<lambda>_. None) (wg_scan_strategy Wg_Thorough) [2408, 500, 2408] Scan_V4 ?x [] = Some (cs, [])"
    by (rule full_wg_scan [of "wg_scan_strategy Wg_Thorough"]) auto
  from wg_scan_order [OF this] have "distinct cs" "list_all (not_excluded ?x) cs" by blast+
  with cs show ?thesis by (auto simp: list_all_iff not_excluded_def)
qed

section \<open>What a hunt finds\<close>

lemma verify_one_wg_candidate: "verify_one_wg w timeout ironclad c = Some pr \<Longrightarrow> (pr_ip pr, pr_port pr) = c"
  by (auto simp: verify_one_wg_def answer_of_def split: if_splits sum.splits)

lemma wg_candidate_not_excluded:
  "build_wg_candidates env st ports ip excluded rs = Some (cs, rs') \<Longrightarrow> c \<in> set cs \<Longrightarrow> not_excluded excluded c"
  unfolding build_wg_candidates_def Let_def by (auto split: bind_splits)

text \<open>An endpoint the WireGuard hunt returns is a candidate that passed its check, and never an excluded
  one; a hunt whose stream runs out or reaches the deadline does return, and when none passed
  before it ended, with the error that there is none.
\<close>

theorem wg_hunt_avoids_the_excluded:
  assumes ip: "effective_ip ip has_ipv6 = Some ip'"
    and cs: "build_wg_candidates env (wg_hunt_strategy t mode) ports ip' excluded rs = Some (cs, rs')"
    and turns: "turns = order (st_concurrency (wg_hunt_strategy t mode)) cs"
    and stream: "\<forall>time c. Probed time c \<in> set turns \<longrightarrow> c \<in> set cs"
    and ends: "list_ex (ends_hunt (now + st_overall_deadline (wg_hunt_strategy t mode))) turns"
  shows "(let verify = verify_one_wg w (st_per_probe_timeout (wg_hunt_strategy t mode)) (mode = Wg_Ironclad)
       in case hunt_best_wg_endpoint env t w ports ip excluded has_ipv6 mode rs now order of
         Some (Inr pr) \<Rightarrow> verify (pr_ip pr, pr_port pr) = Some pr \<and> (pr_ip pr, pr_port pr) \<in> set cs
           \<and> \<lparr>sa_ip = pr_ip pr, sa_port = pr_port pr\<rparr> \<notin> excluded
       | Some (Inl e) \<Rightarrow> e = E_NoCleanEndpoint \<and> (\<exists>used later. turns = used @ later \<and> turn_results verify used = [])
       | None \<Rightarrow> False)"
proof -
  let ?st = "wg_hunt_strategy t mode"
  let ?verify = "verify_one_wg w (st_per_probe_timeout ?st) (mode = Wg_Ironclad)"
  obtain r where r: "hunt_loop ?verify ?st (now + st_overall_deadline ?st) None 0 None now turns = Some r"
    using hunt_loop_ends ends by blast
  then have h: "hunt_best_wg_endpoint env t w ports ip excluded has_ipv6 mode rs now order = Some (hunt_outcome r)"
    by (simp add: hunt_best_wg_endpoint_def ip cs turns Let_def)
  from hunt_loop_result [OF r] obtain used later where u: "turns = used @ later"
      "r = foldl better None (turn_results ?verify used)" by auto
  have "?verify (pr_ip pr, pr_port pr) = Some pr \<and> (pr_ip pr, pr_port pr) \<in> set cs
      \<and> \<lparr>sa_ip = pr_ip pr, sa_port = pr_port pr\<rparr> \<notin> excluded" if "pr \<in> set (turn_results ?verify used)" for pr
  proof -
    from that obtain x where x: "x \<in> set used" "turn_result ?verify x = Some pr"
      by (auto simp: turn_results_def set_map_filter)
    from x(2) obtain time c where c: "x = Probed time c" "?verify c = Some pr"
      by (cases x rule: hunt_turn.exhaust) auto
    from x(1) c(1) stream have "c \<in> set cs" unfolding u(1) by (cases c) auto
    with wg_candidate_not_excluded [OF cs this] verify_one_wg_candidate [OF c(2)] c(2) show ?thesis
      by (auto simp: not_excluded_def)
  qed
  with better_fold_None [of "turn_results ?verify used"] u h show ?thesis
    by (auto simp: hunt_outcome_def Let_def split: option.split)
qed

definition answering_wg_world :: wg_probe_world where
  "answering_wg_world = \<lparr>ww_verify = \<lambda>_ _. Inr 60, ww_http_ping = \<lambda>_ _. Inl E_Cancelled\<rparr>"

theorem wg_hunt_avoids_the_excluded_witness:
  "\<exists>r. hunt_best_wg_endpoint (\<lambda>_. None) (build_tuning (\<lambda>_. None) 8 None) answering_wg_world [2408] Scan_V4 {} True Wg_Thorough [] 0
      (\<lambda>_ cs. map (Probed 70) cs @ [Exhausted 75]) = Some r
    \<and> (case r of Inr pr \<Rightarrow> pr_rtt pr = 60 | Inl e \<Rightarrow> e = E_NoCleanEndpoint)"
proof -
  let ?t = "build_tuning (\<lambda>_. None) 8 None" and ?order = "\<lambda>_ cs. map (Probed 70) cs @ [Exhausted 75]"
  have ip: "effective_ip Scan_V4 True = Some Scan_V4" by (simp add: effective_ip_def want_v4_def want_v6_def)
  have "st_full_subnet (wg_hunt_strategy ?t Wg_Thorough)" by (simp add: wg_hunt_strategy_def)
  then obtain cs where cs: "build_wg_candidates (\<lambda>_. None) (wg_hunt_strategy ?t Wg_Thorough) [2408] Scan_V4 {} [] = Some (cs, [])"
    by (rule full_wg_scan [where env = "\<lambda>_. None" and ports = "[2408]" and excluded = "{}" and rs = "[]"]) blast
  have pass: "verify_one_wg answering_wg_world tmo (Wg_Thorough = Wg_Ironclad) c = Some \<lparr>pr_ip = fst c, pr_port = snd c, pr_rtt = 60\<rparr>"
    for tmo c
    by (simp add: verify_one_wg_def answering_wg_world_def answer_of_def)
  have stream: "\<forall>time c. Probed time c \<in> set (?order (st_concurrency (wg_hunt_strategy ?t Wg_Thorough)) cs) \<longrightarrow> c \<in> set cs" by auto
  have ends: "list_ex (ends_hunt (0 + st_overall_deadline (wg_hunt_strategy ?t Wg_Thorough)))
      (?order (st_concurrency (wg_hunt_strategy ?t Wg_Thorough)) cs)" by simp
  note best = wg_hunt_avoids_the_excluded [where order = ?order and now = 0 and w = answering_wg_world and t = ?t and mode = Wg_Thorough,
      OF ip cs refl stream ends]
  show ?thesis
  proof (cases "hunt_best_wg_endpoint (\<lambda>_. None) ?t answering_wg_world [2408] Scan_V4 {} True Wg_Thorough [] 0 ?order")
    case None
    with best show ?thesis by (simp only: Let_def option.case)
  next
    case (Some r)
    then show ?thesis
    proof (cases r)
      case (Inl e)
      from best [unfolded Let_def Some Inl option.case sum.case] Some Inl show ?thesis by simp
    next
      case (Inr pr)
      from best [unfolded Let_def Some Inr option.case sum.case pass] have "pr_rtt pr = 60"
        by (metis option.inject probe_result.select_convs(3))
      with Some Inr show ?thesis by simp
    qed
  qed
qed

end
