(* ===== verification/Wg_Packets.thy ===== *)
theory Wg_Packets
  imports Exit_Probe
begin

text \<open>
  The packets of \<^verbatim>\<open>wireguard.rs\<close>: the client id in the reserved bytes of a WireGuard message
  (\<open>inject_client_id\<close>, \<open>strip_client_id\<close>), the DNS query and the echo request that prove a tunnel carries
  data (\<open>build_dataplane_probe\<close>, \<open>build_large_probe\<close>) and the test that recognises the echo's
  reply. Random fields are arguments.
\<close>

section \<open>The client id\<close>

text \<open>\<open>[u8; 3]\<close>.\<close>

type_synonym client_id = "u8 \<times> u8 \<times> u8"

fun client_id_bytes :: "client_id \<Rightarrow> bytes" where
  "client_id_bytes (a, b, c) = [a, b, c]"

definition wg_msg_type_min :: u8 where "wg_msg_type_min = 1"
definition wg_msg_type_max :: u8 where "wg_msg_type_max = 4"

definition write_reserved :: "bytes \<Rightarrow> bytes \<Rightarrow> bytes" where
  "write_reserved v pkt =
     (if length pkt < 4 then pkt
      else if pkt ! 0 < wg_msg_type_min \<or> wg_msg_type_max < pkt ! 0 then pkt
      else take 1 pkt @ v @ drop 4 pkt)"

definition inject_client_id :: "client_id \<Rightarrow> bytes \<Rightarrow> bytes" where
  "inject_client_id client_id pkt = write_reserved (client_id_bytes client_id) pkt"

definition strip_client_id :: "bytes \<Rightarrow> bytes" where
  "strip_client_id pkt = write_reserved [0, 0, 0] pkt"

section \<open>Probes\<close>

definition probe_target :: ipv4 where
  "probe_target = ipv4_of 8 8 8 8"

definition wg_build_dns_query :: "u16 \<Rightarrow> bytes" where
  "wg_build_dns_query i = be16_bytes i @ [0x01, 0x00] @ [0x00, 0x01] @ [0x00, 0x00, 0x00, 0x00, 0x00, 0x00]
     @ concat (map (\<lambda>label. of_nat (length label) # as_bytes label) [''cloudflare'', ''com''])
     @ [0x00] @ [0x00, 0x01] @ [0x00, 0x01]"

definition ipv4_checksum :: "bytes \<Rightarrow> u16" where
  "ipv4_checksum header = checksum header"

definition icmp_checksum :: "bytes \<Rightarrow> u16" where
  "icmp_checksum body = checksum body"

text \<open>\<open>pkt[i..i + 2].copy_from_slice(&v.to_be_bytes())\<close>.\<close>

definition set_be16 :: "bytes \<Rightarrow> nat \<Rightarrow> u16 \<Rightarrow> bytes" where
  "set_be16 pkt i v = take i pkt @ be16_bytes v @ drop (i + 2) pkt"

definition build_dataplane_probe :: "ipv4 \<Rightarrow> u16 \<Rightarrow> u16 \<Rightarrow> u16 \<Rightarrow> bytes" where
  "build_dataplane_probe src query_id ident r = (
     let dns = wg_build_dns_query query_id; udp_len = 8 + length dns; total_len = 20 + udp_len;
       pkt = [0x45] @ [0x00] @ be16_bytes (of_nat total_len) @ be16_bytes ident @ [0x00, 0x00] @ [64] @ [17]
         @ [0x00, 0x00] @ ipv4_octets src @ ipv4_octets probe_target;
       pkt = set_be16 pkt 10 (ipv4_checksum (take 20 pkt));
       sport = 20000 + r mod 40000
     in pkt @ be16_bytes sport @ be16_bytes 53 @ be16_bytes (of_nat udp_len) @ [0x00, 0x00] @ dns)"

definition large_probe_id :: u16 where
  "large_probe_id = 0x4d47"

definition build_large_probe :: "ipv4 \<Rightarrow> nat \<Rightarrow> u16 \<Rightarrow> bytes" where
  "build_large_probe src total_len ident = (
     let total_len = max total_len 60; payload_len = total_len - 20 - 8;
       icmp = [8] @ [0] @ [0x00, 0x00] @ be16_bytes large_probe_id @ be16_bytes 1
         @ map (\<lambda>i. of_nat (i mod 251)) [0..<payload_len];
       icmp = set_be16 icmp 2 (icmp_checksum icmp);
       pkt = [0x45] @ [0x00] @ be16_bytes (of_nat total_len) @ be16_bytes ident @ [0x40, 0x00] @ [64] @ [1]
         @ [0x00, 0x00] @ ipv4_octets src @ ipv4_octets probe_target;
       pkt = set_be16 pkt 10 (ipv4_checksum (take 20 pkt))
     in pkt @ icmp)"

definition is_large_probe_reply :: "bytes \<Rightarrow> bool panics" where
  "is_large_probe_reply pkt =
     (if length pkt < 28 then Some False
      else do {
        b0 \<leftarrow> idx pkt 0;
        b9 \<leftarrow> idx pkt 9;
        if drop_bit 4 b0 \<noteq> 4 \<or> b9 \<noteq> 1 then Some False
        else let ihl = unat (b0 AND 0x0f) * 4 in
          if length pkt < ihl + 8 then Some False
          else do {
            icmp \<leftarrow> slice pkt ihl (length pkt);
            t \<leftarrow> idx icmp 0;
            i4 \<leftarrow> idx icmp 4;
            i5 \<leftarrow> idx icmp 5;
            Some (t = 0 \<and> be16 i4 i5 = large_probe_id)
          }
      })"

section \<open>Properties of the client id\<close>

definition wg_message :: "bytes \<Rightarrow> bool" where
  "wg_message pkt \<longleftrightarrow> 4 \<le> length pkt \<and> pkt ! 0 \<in> {1, 2, 3, 4}"

lemma type_range: "\<not> (t < wg_msg_type_min \<or> wg_msg_type_max < t) \<longleftrightarrow> t \<in> {1, 2, 3, 4}"
proof -
  have "t < 1 \<or> 4 < t \<longleftrightarrow> unat t < 1 \<or> 4 < unat t" by (simp add: word_less_nat_alt)
  moreover have "t \<in> {1, 2, 3, 4} \<longleftrightarrow> unat t \<in> {1, 2, 3, 4}"
    by (simp add: word_unat_eq_iff)
  moreover have "\<not> (n < 1 \<or> 4 < n) \<longleftrightarrow> n \<in> {1, 2, 3, 4}" for n :: nat by auto
  ultimately show ?thesis by (simp only: wg_msg_type_min_def wg_msg_type_max_def)
qed

lemma write_reserved_eq:
  "write_reserved v pkt = (if wg_message pkt then take 1 pkt @ v @ drop 4 pkt else pkt)"
proof -
  have "(if length pkt < 4 then pkt else if P then pkt else x) = (if 4 \<le> length pkt \<and> \<not> P then x else pkt)" for P x
    by auto
  then show ?thesis unfolding write_reserved_def wg_message_def type_range [symmetric] .
qed

lemma wg_message_Cons [simp]: "wg_message (t # a # b # c # body) \<longleftrightarrow> t \<in> {1, 2, 3, 4}"
  by (simp add: wg_message_def)

lemma wg_messageE:
  assumes "wg_message pkt"
  obtains t a b c body where "pkt = t # a # b # c # body" "t \<in> {1, 2, 3, 4}"
proof -
  from assms have "4 \<le> length pkt" by (simp add: wg_message_def)
  then obtain t a b c body where "pkt = t # a # b # c # body"
    by (auto simp: Suc_le_length_iff numeral_eq_Suc)
  with that assms show thesis by simp
qed

lemma inject_shape:
  "inject_client_id cid (t # a # b # c # body) =
     (if t \<in> {1, 2, 3, 4} then t # client_id_bytes cid @ body else t # a # b # c # body)"
  by (simp add: inject_client_id_def write_reserved_eq wg_message_def)

lemma strip_shape:
  "strip_client_id (t # a # b # c # body) = (if t \<in> {1, 2, 3, 4} then t # [0, 0, 0] @ body else t # a # b # c # body)"
  by (simp add: strip_client_id_def write_reserved_eq wg_message_def)

lemma inject_other: "\<not> wg_message pkt \<Longrightarrow> inject_client_id cid pkt = pkt"
  by (simp add: inject_client_id_def write_reserved_eq)

lemma strip_other: "\<not> wg_message pkt \<Longrightarrow> strip_client_id pkt = pkt"
  by (simp add: strip_client_id_def write_reserved_eq)

lemma wg_message_inject [simp]: "wg_message (inject_client_id cid pkt) = wg_message pkt"
  by (cases "wg_message pkt"; cases cid) (auto elim!: wg_messageE simp: inject_shape inject_other)

lemma reserved_of_injected: "wg_message pkt \<Longrightarrow> take 3 (drop 1 (inject_client_id cid pkt)) = client_id_bytes cid"
  by (cases cid) (auto elim!: wg_messageE simp: inject_shape)

text \<open>Stripping undoes injecting for every message whose reserved bytes are zero, as WireGuard writes them,
  and for everything that is not a WireGuard message; neither changes the length of a packet, and an
  injected message carries the client id.
\<close>

theorem client_id_roundtrip:
  "strip_client_id (inject_client_id cid pkt) = strip_client_id pkt
   \<and> length (inject_client_id cid pkt) = length pkt \<and> length (strip_client_id pkt) = length pkt
   \<and> strip_client_id (strip_client_id pkt) = strip_client_id pkt
   \<and> (if wg_message pkt then take 3 (drop 1 (inject_client_id cid pkt)) = client_id_bytes cid
        \<and> (if take 3 (drop 1 pkt) = [0, 0, 0] then strip_client_id pkt = pkt else True)
      else inject_client_id cid pkt = pkt \<and> strip_client_id pkt = pkt)"
proof (cases "wg_message pkt")
  case True
  then show ?thesis
    by (cases cid) (auto elim!: wg_messageE simp: inject_shape strip_shape)
qed (simp add: inject_other strip_other)

section \<open>Properties of the probes\<close>

lemma set_be16_zero: "length a = i \<Longrightarrow> set_be16 (a @ [x, y] @ b) i v = a @ be16_bytes v @ b"
  by (simp add: set_be16_def)

lemma length_octets [simp]: "length (ipv4_octets w) = 4"
  by (rule ipv4_octets_cases [of w]) simp

lemma length_be16_bytes' [simp]: "length (be16_bytes w) = 2"
  by (rule be16_bytes_cases [of w]) simp

lemma written_header:
  fixes a b :: bytes
  assumes a: "length a = 10" and b: "length b = 8"
  shows "set_be16 (a @ [0, 0] @ b) 10 (ipv4_checksum (take 20 (a @ [0, 0] @ b))) = a @ be16_bytes (checksum (a @ [0, 0] @ b)) @ b"
    "checksum_ok (a @ be16_bytes (checksum (a @ [0, 0] @ b)) @ b)"
proof -
  have t: "take 20 (a @ [0, 0] @ b) = a @ [0, 0] @ b" using assms by simp
  show "set_be16 (a @ [0, 0] @ b) 10 (ipv4_checksum (take 20 (a @ [0, 0] @ b))) = a @ be16_bytes (checksum (a @ [0, 0] @ b)) @ b"
    unfolding t set_be16_zero [OF a] ipv4_checksum_def ..
  show "checksum_ok (a @ be16_bytes (checksum (a @ [0, 0] @ b)) @ b)"
    by (rule header_checksum_ok) (use assms in \<open>simp_all add: checksum_def\<close>)
qed

text \<open>The probe's DNS query is the one the exit probe would build for the same name.\<close>

lemma wg_query_is_exit_query: "wg_build_dns_query i = exit_build_query i ''cloudflare.com'' 1 1"
  by (simp add: wg_build_dns_query_def exit_build_query_def query_header_def exit_query_labels.simps as_bytes_def
    be16_bytes_def dot_def numeral_2_eq_2)

definition written :: "bytes \<Rightarrow> bytes \<Rightarrow> bytes" where
  "written a b = a @ be16_bytes (checksum (a @ [0, 0] @ b)) @ b"

lemma dataplane_probe_shape:
  "build_dataplane_probe src qid ident r
    = written (udp_ip_head (28 + length (wg_build_dns_query qid)) ident) (ip_addrs src probe_target)
      @ udp_ports (20000 + r mod 40000) 53 (8 + length (wg_build_dns_query qid)) @ [0, 0] @ wg_build_dns_query qid"
proof -
  let ?n = "length (wg_build_dns_query qid)"
  let ?a = "udp_ip_head (28 + ?n) ident" and ?b = "ip_addrs src probe_target"
  have h: "[0x45] @ [0x00] @ be16_bytes (of_nat (20 + (8 + ?n))) @ be16_bytes ident @ [0x00, 0x00] @ [64] @ [17]
         @ [0x00, 0x00] @ ipv4_octets src @ ipv4_octets probe_target = ?a @ [0, 0] @ ?b"
    by (simp add: udp_ip_head_def ip_addrs_def)
  have "set_be16 (?a @ [0, 0] @ ?b) 10 (ipv4_checksum (take 20 (?a @ [0, 0] @ ?b))) = written ?a ?b"
    unfolding written_def by (rule written_header) simp_all
  then show ?thesis
    unfolding build_dataplane_probe_def Let_def h by (simp only: udp_ports_def append_assoc)
qed

definition icmp_ip_head :: "nat \<Rightarrow> u16 \<Rightarrow> bytes" where
  "icmp_ip_head tot ident = [0x45, 0x00] @ be16_bytes (of_nat tot) @ be16_bytes ident @ [0x40, 0, 64, 1]"

definition echo_tail :: "nat \<Rightarrow> bytes" where
  "echo_tail n = be16_bytes large_probe_id @ be16_bytes 1 @ map (\<lambda>i. of_nat (i mod 251)) [0..<n]"

lemma large_probe_shape:
  assumes "60 \<le> n"
  shows "build_large_probe src n ident = written (icmp_ip_head n ident) (ip_addrs src probe_target) @ written [8, 0] (echo_tail (n - 28))"
proof -
  let ?a = "icmp_ip_head n ident" and ?b = "ip_addrs src probe_target" and ?t = "echo_tail (n - 28)"
  have m: "max n 60 = n" "n - 20 - 8 = n - 28" using assms by simp_all
  have h: "[0x45] @ [0x00] @ be16_bytes (of_nat n) @ be16_bytes ident @ [0x40, 0x00] @ [64] @ [1]
         @ [0x00, 0x00] @ ipv4_octets src @ ipv4_octets probe_target = ?a @ [0, 0] @ ?b"
    by (simp add: icmp_ip_head_def ip_addrs_def)
  have i: "[8] @ [0] @ [0x00, 0x00] @ be16_bytes large_probe_id @ be16_bytes 1 @ map (\<lambda>i. of_nat (i mod 251)) [0..<n - 28]
      = [8, 0] @ [0, 0] @ ?t"
    by (simp add: echo_tail_def)
  have "set_be16 (?a @ [0, 0] @ ?b) 10 (ipv4_checksum (take 20 (?a @ [0, 0] @ ?b))) = written ?a ?b"
    unfolding written_def by (rule written_header) (simp_all add: icmp_ip_head_def)
  moreover have "set_be16 ([8, 0] @ [0, 0] @ ?t) 2 (icmp_checksum ([8, 0] @ [0, 0] @ ?t)) = written [8, 0] ?t"
    unfolding written_def icmp_checksum_def by (rule set_be16_zero [of "[8, 0]" 2 0 0 ?t]) simp
  ultimately show ?thesis
    unfolding build_large_probe_def Let_def m h i by (simp only:)
qed

lemma checksum_ok_written_pair:
  "even (length a) \<Longrightarrow> length (a @ b) < 130000 \<Longrightarrow> checksum_ok (written a b)"
  unfolding written_def by (rule header_checksum_ok) (simp_all add: checksum_def)

lemma length_written [simp]: "length (written a b) = length a + 2 + length b"
  by (simp add: written_def)

lemma is_large_probe_reply_runs: "is_large_probe_reply pkt \<noteq> None"
  by (auto simp: is_large_probe_reply_def Let_def slice_def get_eq_None_conv split: bind_splits)

lemma reply_test:
  assumes "length head = 4 * ihl" and "5 \<le> ihl" and "ihl \<le> 15" and "head ! 0 = 0x40 + of_nat ihl" and "head ! 9 = 1"
  shows "is_large_probe_reply (head @ [t, c, x, y] @ echo_tail n) = Some (t = 0)"
proof -
  let ?p = "head @ [t, c, x, y] @ echo_tail n"
  have "ihl \<in> {5, 6, 7, 8, 9, 10, 11, 12, 13, 14, 15}" using assms(2,3) by simp presburger
  then have b: "drop_bit 4 (0x40 + of_nat ihl :: u8) = 4" "unat ((0x40 + of_nat ihl :: u8) AND 0x0f) = ihl"
    by (elim insertE emptyE; simp)+
  obtain i0 i1 where i: "be16_bytes large_probe_id = [i0, i1]" "be16 i0 i1 = large_probe_id" by (rule be16_bytes_cases)
  obtain s0 s1 where s: "be16_bytes (1 :: u16) = [s0, s1]" by (rule be16_bytes_cases)
  define body where "body = map (\<lambda>i. of_nat (i mod 251) :: u8) [0..<n]"
  have p: "?p = head @ [t, c, x, y, i0, i1, s0, s1] @ body" by (simp add: echo_tail_def i(1) s body_def)
  have l: "28 \<le> length ?p" "ihl * 4 + 8 \<le> length ?p" unfolding p using assms(1,2) by simp_all
  have g: "idx ?p 0 = Some (0x40 + of_nat ihl)" "idx ?p 9 = Some 1"
    using assms by (simp_all add: get_eq_Some_conv nth_append)
  have sl: "slice ?p (ihl * 4) (length ?p) = Some ([t, c, x, y, i0, i1, s0, s1] @ body)"
    unfolding p by (rule slice_to_end) (use assms(1) in simp_all)
  show ?thesis
    unfolding is_large_probe_reply_def using l g sl b i(2) by (simp add: Let_def)
qed

text \<open>The large probe has exactly the size asked for, checks at a receiver in its header and its body, must
  not be fragmented and is not mistaken for its own answer; the echo reply, which repeats the body
  behind any header of an IPv4 host, is recognised, and the test panics on no packet.
\<close>

theorem large_probe_is_recognised:
  assumes n: "60 \<le> n" "n < 65536"
    and head: "length head = 4 * ihl" "5 \<le> ihl" "ihl \<le> 15" "head ! 0 = 0x40 + of_nat ihl" "head ! 9 = 1"
  shows "(let probe = build_large_probe src n ident
    in length probe = n \<and> checksum_ok (take 20 probe) \<and> checksum_ok (drop 20 probe) \<and> probe ! 6 = 0x40
     \<and> is_large_probe_reply probe = Some False
     \<and> is_large_probe_reply (head @ [0, c, x, y] @ drop 24 probe) = Some True)
    \<and> is_large_probe_reply pkt \<noteq> None"
proof -
  let ?h = "written (icmp_ip_head n ident) (ip_addrs src probe_target)" and ?t = "echo_tail (n - 28)"
  have p: "build_large_probe src n ident = ?h @ written [8, 0] ?t" by (rule large_probe_shape [OF n(1)])
  have lh: "length (icmp_ip_head n ident) = 10" by (simp add: icmp_ip_head_def)
  have lt: "length ?t = n - 24" using n by (simp add: echo_tail_def)
  obtain c0 c1 where w: "written [8, 0] ?t = [8, 0, c0, c1] @ ?t"
    by (rule be16_bytes_cases [of "checksum ([8, 0] @ [0, 0] @ ?t)"]) (simp add: written_def)
  obtain t0 t1 where t: "be16_bytes (of_nat n) = [t0, t1]" by (rule be16_bytes_cases)
  obtain i0 i1 where i: "be16_bytes ident = [i0, i1]" by (rule be16_bytes_cases)
  have h: "?h ! 0 = 0x40 + of_nat 5" "?h ! 9 = 1" "?h ! 6 = 0x40"
    by (simp_all add: written_def icmp_ip_head_def t i)
  have "is_large_probe_reply (?h @ [8, 0, c0, c1] @ ?t) = Some False"
    using reply_test [of ?h 5, OF _ _ _ h(1,2)] lh by simp
  moreover have "is_large_probe_reply (head @ [0, c, x, y] @ ?t) = Some True"
    using reply_test [OF head] by simp
  moreover have "checksum_ok ?h" using lh by (intro checksum_ok_written_pair) simp_all
  moreover have "checksum_ok (written [8, 0] ?t)" using n lt by (intro checksum_ok_written_pair) simp_all
  moreover have "drop 24 (?h @ [8, 0, c0, c1] @ ?t) = ?t" using lh by simp
  ultimately show ?thesis
    using lh lt h(3) n is_large_probe_reply_runs [of pkt] unfolding p by (simp add: w Let_def nth_append)
qed

theorem large_probe_is_recognised_witness:
  "length (build_large_probe (ipv4_of 172 16 0 2) 1200 7) = 1200
   \<and> is_large_probe_reply ([0x45, 0, 4, 176, 0, 0, 0, 0, 60, 1, 0, 0, 8, 8, 8, 8, 172, 16, 0, 2] @ [0, 0, 1, 2]
       @ drop 24 (build_large_probe (ipv4_of 172 16 0 2) 1200 7)) = Some True"
  using large_probe_is_recognised [of 1200 "[0x45, 0, 4, 176, 0, 0, 0, 0, 60, 1, 0, 0, 8, 8, 8, 8, 172, 16, 0, 2]" 5
      "ipv4_of 172 16 0 2" 7 0 1 2 "[]"] by (simp add: Let_def)

text \<open>The small probe is a datagram a host accepts, and carries the query.\<close>

lemma dataplane_probe_valid:
  "checksum_ok (take 20 (build_dataplane_probe src qid ident r))
   \<and> length (build_dataplane_probe src qid ident r) = 28 + length (wg_build_dns_query qid)
   \<and> drop 28 (build_dataplane_probe src qid ident r) = exit_build_query qid ''cloudflare.com'' 1 1"
  unfolding dataplane_probe_shape using checksum_ok_written_pair [of "udp_ip_head (28 + length (wg_build_dns_query qid)) ident" "ip_addrs src probe_target"]
  by (simp add: wg_query_is_exit_query)

end
