(* ===== verification/Wg_Verify.thy ===== *)
theory Wg_Verify
  imports Wg_Packets Obfuscation
begin

text \<open>
  How \<^verbatim>\<open>wireguard.rs\<close> proves an endpoint: the handshake loop of \<open>verify_endpoint_keep_session\<close> and
  \<open>verify_dataplane\<close>, which counts small round trips and then walks down a ladder of packet sizes.
  The noise protocol (boringtun's \<open>Tunn\<close>) is a parameter, a record of its three operations over a
  state of any type. Every iteration of a loop is given as what it sees: the time at its
  top, the event its \<open>select!\<close> takes and when, what a send returns, and the random fields of a probe.
  Times are milliseconds. \<open>None\<close> is a loop still going on.
\<close>

section \<open>The noise protocol\<close>

datatype tunn_result = T_Done | T_Err string | T_Network bytes | T_Tunnel4 bytes | T_Tunnel6 bytes

record 't tunn_lib =
  tl_encapsulate :: "nat \<Rightarrow> bytes \<Rightarrow> 't \<Rightarrow> tunn_result \<times> 't"
  tl_decapsulate :: "nat \<Rightarrow> bytes \<Rightarrow> 't \<Rightarrow> tunn_result \<times> 't"
  tl_update_timers :: "nat \<Rightarrow> 't \<Rightarrow> tunn_result \<times> 't"

section \<open>Proving the data path\<close>

definition dataplane_required_successes :: nat where "dataplane_required_successes = 2"
definition dataplane_probe_gap :: nat where "dataplane_probe_gap = 600"
definition probe_ladder :: "nat list" where "probe_ladder = [1200, 1000, 800, 576]"
definition ladder_step_budget :: nat where "ladder_step_budget = 1200"

text \<open>
  The variables of \<open>verify_dataplane\<close>, the published \<open>INNER_MTU_HINT\<close>, and two traces: the inner packets
  handed to the tunnel and the datagrams sent.
\<close>

record 't dataplane =
  dp_tunn :: 't
  dp_successes :: nat
  dp_rung :: "nat option"
  dp_large_probe :: bytes
  dp_rung_deadline :: nat
  dp_last_probe_at :: nat
  dp_resend_at :: nat
  dp_inner_mtu_hint :: nat
  dp_probes :: "bytes list"
  dp_sent :: "bytes list"

datatype select_event = Received "string + bytes" | Slept

record iteration =
  it_now :: nat
  it_at :: nat
  it_event :: select_event
  it_ident :: u16

text \<open>\<open>send_dataplane_probe\<close>; the result of the socket's send is an argument.\<close>

definition send_dataplane_probe :: "'t tunn_lib \<Rightarrow> client_id \<Rightarrow> nat \<Rightarrow> string option \<Rightarrow> bytes \<Rightarrow> 't dataplane
    \<Rightarrow> (aether_error + unit) \<times> 't dataplane" where
  "send_dataplane_probe lib cid now send_error probe s = (
     let (r, t) = tl_encapsulate lib now probe (dp_tunn s);
       s = s\<lparr>dp_tunn := t, dp_probes := dp_probes s @ [probe]\<rparr>
     in case r of
       T_Network pkt \<Rightarrow>
         (case send_error of Some e \<Rightarrow> Inl (E_Io e) | None \<Rightarrow> Inr (), s\<lparr>dp_sent := dp_sent s @ [inject_client_id cid pkt]\<rparr>)
     | T_Err e \<Rightarrow> (Inl (E_Other (''dataplane encap: '' @ e)), s)
     | _ \<Rightarrow> (Inr (), s))"

text \<open>A send whose result is dropped (\<open>let _ = \<dots>\<close>).\<close>

definition resend_probe :: "'t tunn_lib \<Rightarrow> client_id \<Rightarrow> nat \<Rightarrow> bytes \<Rightarrow> 't dataplane \<Rightarrow> 't dataplane" where
  "resend_probe lib cid now probe s = snd (send_dataplane_probe lib cid now None probe s)"

text \<open>One iteration: \<open>Inl\<close> is the function's result, \<open>Inr\<close> the state at the next iteration.\<close>

definition step_down :: "'t tunn_lib \<Rightarrow> client_id \<Rightarrow> ipv4 \<Rightarrow> iteration \<Rightarrow> nat \<Rightarrow> nat \<Rightarrow> 't dataplane \<Rightarrow> 't dataplane" where
  "step_down lib cid src it rung n s = (
     let now = it_now it; probe = build_large_probe src n (it_ident it);
       s = s\<lparr>dp_rung := Some rung, dp_large_probe := probe, dp_rung_deadline := now + ladder_step_budget\<rparr>;
       s = resend_probe lib cid now probe s
     in s\<lparr>dp_last_probe_at := now, dp_resend_at := now + 700\<rparr>)"

definition resend_due :: "'t tunn_lib \<Rightarrow> client_id \<Rightarrow> bytes \<Rightarrow> nat \<Rightarrow> 't dataplane \<Rightarrow> 't dataplane" where
  "resend_due lib cid small_probe now s =
     (if dp_resend_at s \<le> now
      then (resend_probe lib cid now (if dp_rung s \<noteq> None then dp_large_probe s else small_probe) s)
        \<lparr>dp_last_probe_at := now, dp_resend_at := now + 700\<rparr>
      else s)"

definition round_trip :: "'t tunn_lib \<Rightarrow> client_id \<Rightarrow> ipv4 \<Rightarrow> bytes \<Rightarrow> iteration \<Rightarrow> 't dataplane \<Rightarrow> 't dataplane" where
  "round_trip lib cid src small_probe it s = (
     let s = s\<lparr>dp_successes := dp_successes s + 1\<rparr>;
       next_at = max (it_at it) (dp_last_probe_at s + dataplane_probe_gap);
       s = (if dataplane_required_successes \<le> dp_successes s
            then let probe = build_large_probe src (probe_ladder ! 0) (it_ident it)
              in resend_probe lib cid (it_at it) probe
                (s\<lparr>dp_rung := Some 0, dp_large_probe := probe, dp_rung_deadline := next_at + ladder_step_budget\<rparr>)
            else resend_probe lib cid (it_at it) small_probe s)
     in s\<lparr>dp_last_probe_at := next_at, dp_resend_at := next_at + 700\<rparr>)"

definition dataplane_receive :: "'t tunn_lib \<Rightarrow> client_id \<Rightarrow> ipv4 \<Rightarrow> bytes \<Rightarrow> nat \<Rightarrow> iteration \<Rightarrow> bytes \<Rightarrow> 't dataplane
    \<Rightarrow> ((aether_error + nat) \<times> 't dataplane) + 't dataplane" where
  "dataplane_receive lib cid src small_probe start it datagram s = (
     let (r, t) = tl_decapsulate lib (it_at it) (strip_client_id datagram) (dp_tunn s); s = s\<lparr>dp_tunn := t\<rparr>;
       tunnel = (\<lambda>pkt. case dp_rung s of
           Some i \<Rightarrow>
             if is_large_probe_reply pkt \<noteq> Some True then Inr s
             else Inl (Inr (it_at it - start), s\<lparr>dp_inner_mtu_hint := probe_ladder ! i\<rparr>)
         | None \<Rightarrow> Inr (round_trip lib cid src small_probe it s))
     in case r of
       T_Tunnel4 pkt \<Rightarrow> tunnel pkt
     | T_Tunnel6 pkt \<Rightarrow> tunnel pkt
     | T_Network pkt \<Rightarrow> Inr (s\<lparr>dp_sent := dp_sent s @ [inject_client_id cid pkt]\<rparr>)
     | _ \<Rightarrow> Inr s)"

definition dataplane_step :: "'t tunn_lib \<Rightarrow> client_id \<Rightarrow> ipv4 \<Rightarrow> bytes \<Rightarrow> nat \<Rightarrow> nat \<Rightarrow> iteration \<Rightarrow> 't dataplane
    \<Rightarrow> ((aether_error + nat) \<times> 't dataplane) + 't dataplane" where
  "dataplane_step lib cid src small_probe start deadline it s = (
     let now = it_now it in
     if deadline \<le> now
     then case dp_rung s of
         Some _ \<Rightarrow> Inl (Inr (now - start), s\<lparr>dp_inner_mtu_hint := last probe_ladder\<rparr>)
       | None \<Rightarrow> Inl (Inl (E_Other ''dataplane timeout''), s)
     else
       let late = (dp_rung s \<noteq> None \<and> dp_rung_deadline s \<le> now);
         rung = (case dp_rung s of Some i \<Rightarrow> i + 1 | None \<Rightarrow> 0)
       in case (if late then get probe_ladder rung else None) of
         Some n \<Rightarrow> Inr (step_down lib cid src it rung n s)
       | None \<Rightarrow>
           (let s = (if late then s\<lparr>dp_rung_deadline := deadline\<rparr> else s);
              s = resend_due lib cid small_probe now s
            in case it_event it of
              Slept \<Rightarrow> Inr s
            | Received (Inl e) \<Rightarrow> Inl (Inl (E_Io e), s)
            | Received (Inr datagram) \<Rightarrow> dataplane_receive lib cid src small_probe start it datagram s))"

fun dataplane_loop :: "'t tunn_lib \<Rightarrow> client_id \<Rightarrow> ipv4 \<Rightarrow> bytes \<Rightarrow> nat \<Rightarrow> nat \<Rightarrow> iteration list \<Rightarrow> 't dataplane
    \<Rightarrow> ((aether_error + nat) \<times> 't dataplane) option" where
  "dataplane_loop lib cid src small_probe start deadline [] s = None"
| "dataplane_loop lib cid src small_probe start deadline (it # its) s =
     (case dataplane_step lib cid src small_probe start deadline it s of
        Inl res \<Rightarrow> Some res
      | Inr s \<Rightarrow> dataplane_loop lib cid src small_probe start deadline its s)"

text \<open>The random fields of the small probe, and the time and the socket's answer of its first send.\<close>

record probe_start =
  ps_now :: nat
  ps_send_error :: "string option"
  ps_query_id :: u16
  ps_ident :: u16
  ps_port :: u16

definition verify_dataplane :: "'t tunn_lib \<Rightarrow> client_id \<Rightarrow> ipv4 \<Rightarrow> nat \<Rightarrow> nat \<Rightarrow> probe_start \<Rightarrow> iteration list \<Rightarrow> 't \<Rightarrow> nat
    \<Rightarrow> ((aether_error + nat) \<times> 't dataplane) option" where
  "verify_dataplane lib cid src start deadline ps its t hint = (
     let small_probe = build_dataplane_probe src (ps_query_id ps) (ps_ident ps) (ps_port ps);
       s = \<lparr>dp_tunn = t, dp_successes = 0, dp_rung = None, dp_large_probe = [], dp_rung_deadline = deadline,
         dp_last_probe_at = ps_now ps, dp_resend_at = ps_now ps + 700, dp_inner_mtu_hint = hint, dp_probes = [], dp_sent = []\<rparr>
     in case send_dataplane_probe lib cid (ps_now ps) (ps_send_error ps) small_probe s of
       (Inl e, s) \<Rightarrow> Some (Inl e, s)
     | (Inr _, s) \<Rightarrow> dataplane_loop lib cid src small_probe start deadline its s)"

section \<open>What the ladder proves\<close>

definition carries :: "client_id \<Rightarrow> bytes \<Rightarrow> bool" where
  "carries cid p \<longleftrightarrow> (if wg_message p then take 3 (drop 1 p) = client_id_bytes cid else True)"

lemma carries_injected [simp]: "carries cid (inject_client_id cid p)"
  using reserved_of_injected [of p cid] by (simp add: carries_def)

definition is_icmp :: "bytes \<Rightarrow> bool" where
  "is_icmp p \<longleftrightarrow> 9 < length p \<and> p ! 9 = 1"

text \<open>
  The invariant of the loop: the size of every echo request sent so far is on the ladder at the
  current rung or before it, there has been one once a rung is set, and two round trips came first.
\<close>

definition dataplane_inv :: "client_id \<Rightarrow> nat \<Rightarrow> 't dataplane \<Rightarrow> bool" where
  "dataplane_inv cid hint s \<longleftrightarrow>
     dp_inner_mtu_hint s = hint \<and> list_all (carries cid) (dp_sent s)
     \<and> (case dp_rung s of
          None \<Rightarrow> dp_successes s < dataplane_required_successes \<and> list_all (\<lambda>p. \<not> is_icmp p) (dp_probes s)
        | Some i \<Rightarrow> i < length probe_ladder \<and> dataplane_required_successes \<le> dp_successes s
            \<and> is_icmp (dp_large_probe s) \<and> length (dp_large_probe s) = probe_ladder ! i
            \<and> dp_large_probe s \<in> set (dp_probes s)
            \<and> list_all (\<lambda>p. if is_icmp p then length p \<in> set (take (Suc i) probe_ladder) else True) (dp_probes s))"

lemma dataplane_inv_update [simp]:
  "dataplane_inv cid hint (s\<lparr>dp_tunn := t\<rparr>) = dataplane_inv cid hint s"
  "dataplane_inv cid hint (s\<lparr>dp_rung_deadline := d\<rparr>) = dataplane_inv cid hint s"
  "dataplane_inv cid hint (s\<lparr>dp_tunn := t, dp_sent := dp_sent s @ [inject_client_id cid p]\<rparr>) = dataplane_inv cid hint s"
  by (cases "dp_rung s"; simp add: dataplane_inv_def)+

lemma large_probe_icmp:
  assumes "n \<in> set probe_ladder"
  shows "is_icmp (build_large_probe src n ident)" "length (build_large_probe src n ident) = n"
proof -
  have n: "60 \<le> n" using assms by (auto simp: probe_ladder_def)
  have l: "length (icmp_ip_head n ident) = 10" by (simp add: icmp_ip_head_def)
  obtain t0 t1 where t: "be16_bytes (of_nat n) = [t0, t1]" by (rule be16_bytes_cases)
  obtain i0 i1 where i: "be16_bytes ident = [i0, i1]" by (rule be16_bytes_cases)
  show "is_icmp (build_large_probe src n ident)" "length (build_large_probe src n ident) = n"
    unfolding large_probe_shape [OF n] using n l
    by (simp_all add: is_icmp_def written_def icmp_ip_head_def t i echo_tail_def)
qed

lemma dataplane_probe_not_icmp: "\<not> is_icmp (build_dataplane_probe src qid ident r)"
proof -
  obtain t0 t1 where t: "be16_bytes (of_nat (28 + length (wg_build_dns_query qid))) = [t0, t1]" by (rule be16_bytes_cases)
  obtain i0 i1 where i: "be16_bytes ident = [i0, i1]" by (rule be16_bytes_cases)
  show ?thesis
    unfolding dataplane_probe_shape is_icmp_def written_def udp_ip_head_def t i by simp
qed

lemma resend_probe_fields:
  "dp_successes (resend_probe lib cid now p s) = dp_successes s" "dp_rung (resend_probe lib cid now p s) = dp_rung s"
  "dp_large_probe (resend_probe lib cid now p s) = dp_large_probe s"
  "dp_inner_mtu_hint (resend_probe lib cid now p s) = dp_inner_mtu_hint s"
  "dp_probes (resend_probe lib cid now p s) = dp_probes s @ [p]"
  by (auto simp: resend_probe_def send_dataplane_probe_def Let_def split: prod.split tunn_result.split)

lemma resend_probe_carries: "q \<in> set (dp_sent (resend_probe lib cid now p s)) \<Longrightarrow> q \<in> set (dp_sent s) \<or> carries cid q"
  by (auto simp: resend_probe_def send_dataplane_probe_def Let_def split: prod.splits tunn_result.splits)

lemma resend_due_inv: "dataplane_inv cid hint s \<Longrightarrow> \<not> is_icmp small \<Longrightarrow> dataplane_inv cid hint (resend_due lib cid small now s)"
  by (auto simp: resend_due_def dataplane_inv_def resend_probe_fields list_all_iff dest!: resend_probe_carries split: option.splits)

lemma ladder_take: "i < length probe_ladder \<Longrightarrow> probe_ladder ! i \<in> set (take (Suc i) probe_ladder)"
  "set (take (Suc i) probe_ladder) \<subseteq> set (take (Suc (Suc i)) probe_ladder)"
  by (auto simp: take_Suc_conv_app_nth set_take_subset_set_take)

lemma step_down_inv:
  assumes inv: "dataplane_inv cid hint s" and i: "dp_rung s = Some i" and n: "get probe_ladder (i + 1) = Some n"
  shows "dataplane_inv cid hint (step_down lib cid src it (i + 1) n s)"
proof -
  from n have n': "i + 1 < length probe_ladder" "n = probe_ladder ! (i + 1)" by (simp_all add: get_eq_Some_conv)
  then have mem: "n \<in> set probe_ladder" "n \<in> set (take (Suc (Suc i)) probe_ladder)"
    using ladder_take(1) [of "Suc i"] by auto
  show ?thesis
    using inv i n' mem subsetD [OF ladder_take(2) [of i]] large_probe_icmp [OF mem(1), of src "it_ident it"]
    by (auto simp: step_down_def Let_def dataplane_inv_def resend_probe_fields list_all_iff dest!: resend_probe_carries)
qed

lemma round_trip_inv:
  assumes inv: "dataplane_inv cid hint s" and "dp_rung s = None" and small: "\<not> is_icmp small"
  shows "dataplane_inv cid hint (round_trip lib cid src small it s)"
proof -
  have mem: "probe_ladder ! 0 \<in> set probe_ladder" by (simp add: probe_ladder_def)
  have "set (take 1 probe_ladder) = {probe_ladder ! 0}" "0 < length probe_ladder" by (simp_all add: probe_ladder_def)
  with assms large_probe_icmp [OF mem, of src "it_ident it"] show ?thesis
    by (auto simp: round_trip_def Let_def dataplane_inv_def resend_probe_fields list_all_iff dest!: resend_probe_carries)
qed

text \<open>What the function's result says about the packets that were handed to the tunnel.\<close>

definition dataplane_result :: "client_id \<Rightarrow> nat \<Rightarrow> (aether_error + nat) \<times> 't dataplane \<Rightarrow> bool" where
  "dataplane_result cid hint res \<longleftrightarrow> (case res of
     (Inr elapsed, s) \<Rightarrow> dataplane_required_successes \<le> dp_successes s \<and> dp_inner_mtu_hint s \<in> set probe_ladder
       \<and> list_ex is_icmp (dp_probes s)
       \<and> list_all (\<lambda>p. if is_icmp p then dp_inner_mtu_hint s \<le> length p else True) (dp_probes s)
       \<and> list_all (carries cid) (dp_sent s)
   | (Inl e, s) \<Rightarrow> dp_inner_mtu_hint s = hint \<and> list_all (carries cid) (dp_sent s))"

lemma ladder_le: "i < length probe_ladder \<Longrightarrow> n \<in> set (take (Suc i) probe_ladder) \<Longrightarrow> probe_ladder ! i \<le> n"
  by (auto simp: probe_ladder_def less_Suc_eq numeral_eq_Suc)

lemma inv_result:
  assumes "dataplane_inv cid hint s" and "dp_rung s = Some i" and "h = probe_ladder ! i \<or> h = last probe_ladder"
  shows "dataplane_result cid hint (Inr d, s\<lparr>dp_inner_mtu_hint := h\<rparr>)"
proof -
  have i: "i < length probe_ladder" using assms(1,2) by (simp add: dataplane_inv_def)
  have "h \<le> n" if "n \<in> set (take (Suc i) probe_ladder)" for n
    using assms(3) ladder_le [OF i that] i that by (auto simp: probe_ladder_def less_Suc_eq numeral_eq_Suc)
  moreover have "last probe_ladder \<in> set probe_ladder" by (simp add: probe_ladder_def)
  then have "h \<in> set probe_ladder" using assms(3) nth_mem [OF i] by metis
  ultimately show ?thesis
    using assms(1,2) by (auto simp: dataplane_result_def dataplane_inv_def list_all_iff list_ex_iff)
qed

lemma dataplane_receive_inv:
  assumes "dataplane_inv cid hint s" and "\<not> is_icmp small"
  shows "case dataplane_receive lib cid src small start it datagram s of
     Inl res \<Rightarrow> dataplane_result cid hint res | Inr s' \<Rightarrow> dataplane_inv cid hint s'"
proof -
  obtain r t where d: "tl_decapsulate lib (it_at it) (strip_client_id datagram) (dp_tunn s) = (r, t)" by (rule prod.exhaust)
  have inv: "dataplane_inv cid hint (s\<lparr>dp_tunn := t\<rparr>)" using assms(1) by simp
  have tunnel: "case (case dp_rung s of
           Some i \<Rightarrow> if is_large_probe_reply pkt \<noteq> Some True then Inr (s\<lparr>dp_tunn := t\<rparr>)
             else Inl (Inr (it_at it - start), s\<lparr>dp_tunn := t, dp_inner_mtu_hint := probe_ladder ! i\<rparr>)
         | None \<Rightarrow> Inr (round_trip lib cid src small it (s\<lparr>dp_tunn := t\<rparr>))) of
       Inl res \<Rightarrow> dataplane_result cid hint res | Inr s' \<Rightarrow> dataplane_inv cid hint s'" for pkt
    using inv inv_result [OF inv] round_trip_inv [OF inv _ assms(2)] by (auto split: option.split)
  moreover have "dataplane_inv cid hint (s\<lparr>dp_tunn := t, dp_sent := dp_sent s @ [inject_client_id cid pkt]\<rparr>)" for pkt
    using assms(1) by simp
  ultimately show ?thesis
    using inv by (cases r) (simp_all add: dataplane_receive_def d Let_def)
qed

lemma dataplane_step_inv:
  assumes inv: "dataplane_inv cid hint s" and small: "\<not> is_icmp small"
  shows "case dataplane_step lib cid src small start deadline it s of
     Inl res \<Rightarrow> dataplane_result cid hint res | Inr s' \<Rightarrow> dataplane_inv cid hint s'"
proof (cases "deadline \<le> it_now it")
  case True
  then show ?thesis
  proof (cases "dp_rung s")
    case None
    with True inv show ?thesis by (simp add: dataplane_step_def dataplane_result_def dataplane_inv_def)
  next
    case (Some i)
    with True inv_result [OF inv Some] show ?thesis by (simp add: dataplane_step_def)
  qed
next
  case False
  let ?late = "dp_rung s \<noteq> None \<and> dp_rung_deadline s \<le> it_now it"
  define s1 where "s1 = resend_due lib cid small (it_now it) (if ?late then s\<lparr>dp_rung_deadline := deadline\<rparr> else s)"
  have s1: "dataplane_inv cid hint s1"
    unfolding s1_def by (rule resend_due_inv [OF _ small]) (use inv in simp)
  then have e: "dataplane_result cid hint (Inl e, s1)" for e
    by (simp add: dataplane_result_def dataplane_inv_def)
  show ?thesis
  proof (cases "if ?late then get probe_ladder (case dp_rung s of Some i \<Rightarrow> i + 1 | None \<Rightarrow> 0) else None")
    case None
    have step: "dataplane_step lib cid src small start deadline it s = (case it_event it of
              Slept \<Rightarrow> Inr s1
            | Received (Inl e) \<Rightarrow> Inl (Inl (E_Io e), s1)
            | Received (Inr datagram) \<Rightarrow> dataplane_receive lib cid src small start it datagram s1)"
      unfolding dataplane_step_def Let_def None s1_def using False by simp
    show ?thesis
    proof (cases "it_event it")
      case (Received r)
      then show ?thesis using e dataplane_receive_inv [OF s1 small] by (cases r) (simp_all add: step)
    qed (simp add: step s1)
  next
    case (Some n)
    then obtain i where i: "dp_rung s = Some i" "get probe_ladder (i + 1) = Some n" by (auto split: if_splits)
    have "dataplane_step lib cid src small start deadline it s = Inr (step_down lib cid src it (i + 1) n s)"
      unfolding dataplane_step_def Let_def Some using False i(1) by simp
    then show ?thesis using step_down_inv [OF inv i] by simp
  qed
qed

lemma dataplane_loop_inv:
  "dataplane_inv cid hint s \<Longrightarrow> \<not> is_icmp small \<Longrightarrow>
   case dataplane_loop lib cid src small start deadline its s of Some res \<Rightarrow> dataplane_result cid hint res | None \<Rightarrow> True"
proof (induction its arbitrary: s)
  case (Cons it its)
  from dataplane_step_inv [OF Cons.prems, of lib src start deadline it] Cons.IH [OF _ Cons.prems(2)] show ?case
    by (cases "dataplane_step lib cid src small start deadline it s") simp_all
qed simp

lemma verify_dataplane_result:
  "case verify_dataplane lib cid src start deadline ps its t hint of
     Some res \<Rightarrow> dataplane_result cid hint res | None \<Rightarrow> True"
proof -
  let ?small = "build_dataplane_probe src (ps_query_id ps) (ps_ident ps) (ps_port ps)"
  let ?s = "\<lparr>dp_tunn = t, dp_successes = 0, dp_rung = None, dp_large_probe = [], dp_rung_deadline = deadline,
         dp_last_probe_at = ps_now ps, dp_resend_at = ps_now ps + 700, dp_inner_mtu_hint = hint, dp_probes = [], dp_sent = []\<rparr>"
  obtain r s' where send: "send_dataplane_probe lib cid (ps_now ps) (ps_send_error ps) ?small ?s = (r, s')" by (rule prod.exhaust)
  have "dataplane_inv cid hint (snd (send_dataplane_probe lib cid (ps_now ps) (ps_send_error ps) ?small ?s))"
    using dataplane_probe_not_icmp
    by (auto simp: send_dataplane_probe_def Let_def dataplane_inv_def dataplane_required_successes_def
      split: prod.split tunn_result.split)
  then have inv: "dataplane_inv cid hint s'" by (simp only: send snd_conv)
  show ?thesis
  proof (cases r)
    case (Inl e)
    have "dataplane_result cid hint (Inl e, s')" using inv by (simp add: dataplane_result_def dataplane_inv_def)
    then show ?thesis unfolding verify_dataplane_def Let_def send Inl by simp
  next
    case (Inr u)
    show ?thesis unfolding verify_dataplane_def Let_def send Inr
      using dataplane_loop_inv [OF inv dataplane_probe_not_icmp] by simp
  qed
qed

lemma dataplane_loop_ends: "list_ex (\<lambda>it. deadline \<le> it_now it) its \<Longrightarrow> dataplane_loop lib cid src small start deadline its s \<noteq> None"
proof (induction its arbitrary: s)
  case (Cons it its)
  show ?case
  proof (cases "dataplane_step lib cid src small start deadline it s")
    case (Inr s')
    then have "\<not> deadline \<le> it_now it" by (auto simp: dataplane_step_def split: option.splits)
    with Cons Inr show ?thesis by simp
  qed simp
qed simp

lemma verify_dataplane_ends:
  "list_ex (\<lambda>it. deadline \<le> it_now it) its \<Longrightarrow> verify_dataplane lib cid src start deadline ps its t hint \<noteq> None"
  unfolding verify_dataplane_def Let_def by (simp add: dataplane_loop_ends del: not_None_eq split: prod.split sum.split)


text \<open>
  A tunnel that carries every small packet and loses every large one is kept, on the lowest clamp: the
  comment of \<open>verify_dataplane\<close> says such an endpoint is rejected.
\<close>

definition small_only :: "unit tunn_lib" where
  "small_only = \<lparr>tl_encapsulate = \<lambda>_ p t. (T_Network [0], t), tl_decapsulate = \<lambda>_ p t. (T_Tunnel4 p, t),
     tl_update_timers = \<lambda>_ t. (T_Done, t)\<rparr>"

lemma unanswered_ladder_keeps_the_tunnel:
  "map_option (\<lambda>(r, s). (r, dp_inner_mtu_hint s, dp_successes s))
     (verify_dataplane small_only (1, 2, 3) src 0 9000 \<lparr>ps_now = 0, ps_send_error = None, ps_query_id = 1, ps_ident = 1, ps_port = 1\<rparr>
        [\<lparr>it_now = 0, it_at = 80, it_event = Received (Inr [7]), it_ident = 0\<rparr>,
         \<lparr>it_now = 80, it_at = 160, it_event = Received (Inr [7]), it_ident = 0\<rparr>,
         \<lparr>it_now = 9000, it_at = 9000, it_event = Slept, it_ident = 0\<rparr>] () 1200)
   = Some (Inr 9000, 576, 2)"
  by (simp add: verify_dataplane_def Let_def send_dataplane_probe_def small_only_def dataplane_step_def resend_due_def
    dataplane_receive_def round_trip_def resend_probe_def dataplane_required_successes_def probe_ladder_def strip_other wg_message_def)

section \<open>The handshake\<close>

definition verify_retry_delays :: "nat list" where
  "verify_retry_delays = [750, 2000]"

record 't handshake =
  hs_tunn :: 't
  hs_retry_index :: nat
  hs_sent :: "bytes list"

datatype handshake_event = Arrived "string + bytes" | Tick | Elapsed

record handshake_iteration =
  hi_now :: nat
  hi_at :: nat
  hi_event :: handshake_event
  hi_send_error :: "string option"

text \<open>\<open>sock.send(..).await?\<close>: the datagram is sent, and the error returned if there is one.\<close>

definition handshake_send :: "client_id \<Rightarrow> string option \<Rightarrow> bytes \<Rightarrow> 't handshake \<Rightarrow> (aether_error + unit) \<times> 't handshake" where
  "handshake_send cid send_error pkt s =
     (case send_error of Some e \<Rightarrow> (Inl (E_Io e), s) | None \<Rightarrow> (Inr (), s\<lparr>hs_sent := hs_sent s @ [pkt]\<rparr>))"

definition handshake_tick :: "'t tunn_lib \<Rightarrow> client_id \<Rightarrow> nat \<Rightarrow> bytes \<Rightarrow> handshake_iteration \<Rightarrow> 't handshake
    \<Rightarrow> (aether_error + unit) \<times> 't handshake" where
  "handshake_tick lib cid start init_packet it s = (
     let (r, s) = (case get verify_retry_delays (hs_retry_index s) of
         Some delay \<Rightarrow>
           if delay \<le> hi_at it - start
           then handshake_send cid (hi_send_error it) init_packet (s\<lparr>hs_retry_index := hs_retry_index s + 1\<rparr>)
           else (Inr (), s)
       | None \<Rightarrow> (Inr (), s))
     in case r of
       Inl e \<Rightarrow> (Inl e, s)
     | Inr _ \<Rightarrow>
         (let (r, t) = tl_update_timers lib (hi_at it) (hs_tunn s); s = s\<lparr>hs_tunn := t\<rparr>
          in case r of
            T_Network pkt \<Rightarrow> handshake_send cid (hi_send_error it) (inject_client_id cid pkt) s
          | T_Err e \<Rightarrow> (Inl (E_Other (''wireguard timer failed: '' @ e)), s)
          | _ \<Rightarrow> (Inr (), s)))"

definition handshake_receive :: "'t tunn_lib \<Rightarrow> client_id \<Rightarrow> nat \<Rightarrow> handshake_iteration \<Rightarrow> bytes \<Rightarrow> 't handshake
    \<Rightarrow> ((aether_error + nat) \<times> 't handshake) + 't handshake" where
  "handshake_receive lib cid start it datagram s = (
     let (r, t) = tl_decapsulate lib (hi_at it) (strip_client_id datagram) (hs_tunn s); s = s\<lparr>hs_tunn := t\<rparr>
     in case r of
       T_Done \<Rightarrow> Inl (Inr (hi_at it - start), s)
     | T_Network pkt \<Rightarrow>
         (case handshake_send cid (hi_send_error it) (inject_client_id cid pkt) s of
            (Inl e, s) \<Rightarrow> Inl (Inl e, s)
          | (Inr _, s) \<Rightarrow> Inl (Inr (hi_at it - start), s))
     | _ \<Rightarrow> Inr s)"

definition handshake_step :: "'t tunn_lib \<Rightarrow> client_id \<Rightarrow> nat \<Rightarrow> nat \<Rightarrow> bytes \<Rightarrow> handshake_iteration \<Rightarrow> 't handshake
    \<Rightarrow> ((aether_error + nat) \<times> 't handshake) + 't handshake" where
  "handshake_step lib cid start deadline init_packet it s =
     (if deadline \<le> hi_now it then Inl (Inl (E_Other ''verify timeout''), s)
      else case hi_event it of
        Arrived (Inl e) \<Rightarrow> Inl (Inl (E_Io e), s)
      | Arrived (Inr datagram) \<Rightarrow> handshake_receive lib cid start it datagram s
      | Tick \<Rightarrow> (case handshake_tick lib cid start init_packet it s of
            (Inl e, s) \<Rightarrow> Inl (Inl e, s)
          | (Inr _, s) \<Rightarrow> Inr s)
      | Elapsed \<Rightarrow> Inl (Inl (E_Other ''verify timeout''), s))"

fun handshake_loop :: "'t tunn_lib \<Rightarrow> client_id \<Rightarrow> nat \<Rightarrow> nat \<Rightarrow> bytes \<Rightarrow> handshake_iteration list \<Rightarrow> 't handshake
    \<Rightarrow> ((aether_error + nat) \<times> 't handshake) option" where
  "handshake_loop lib cid start deadline init_packet [] s = None"
| "handshake_loop lib cid start deadline init_packet (it # its) s =
     (case handshake_step lib cid start deadline init_packet it s of
        Inl res \<Rightarrow> Some res
      | Inr s \<Rightarrow> handshake_loop lib cid start deadline init_packet its s)"

record 't session =
  ss_tunn :: 't
  ss_peer :: socket_addr
  ss_client_id :: client_id

text \<open>
  What happens around the protocol: setting up the socket, the first send, the iterations of the two
  loops. The result comes with the published MTU and the datagrams sent after the obfuscation.
\<close>

record verify_world =
  vw_setup_error :: "string option"
  vw_init_send_error :: "string option"
  vw_handshake :: "handshake_iteration list"
  vw_probe_start :: probe_start
  vw_dataplane :: "iteration list"

definition verify_endpoint_keep_session :: "'t tunn_lib \<Rightarrow> verify_world \<Rightarrow> socket_addr \<Rightarrow> client_id \<Rightarrow> ipv4 \<Rightarrow> bool \<Rightarrow> nat \<Rightarrow> nat
    \<Rightarrow> 't \<Rightarrow> nat \<Rightarrow> ((aether_error + nat \<times> 't session) \<times> nat \<times> bytes list) option" where
  "verify_endpoint_keep_session lib w peer cid src data_check start timeout t hint = (
     let deadline = start + timeout in
     case vw_setup_error w of
       Some e \<Rightarrow> Some (Inl (E_Io e), hint, [])
     | None \<Rightarrow> (case tl_encapsulate lib start [] t of
         (T_Network pkt, t) \<Rightarrow>
           (let init_packet = inject_client_id cid pkt in
            case vw_init_send_error w of
              Some e \<Rightarrow> Some (Inl (E_Io e), hint, [])
            | None \<Rightarrow>
                (case handshake_loop lib cid start deadline init_packet (vw_handshake w)
                    \<lparr>hs_tunn = t, hs_retry_index = 0, hs_sent = [init_packet]\<rparr> of
                   None \<Rightarrow> None
                 | Some (Inl e, s) \<Rightarrow> Some (Inl e, hint, hs_sent s)
                 | Some (Inr elapsed, s) \<Rightarrow>
                     if data_check
                     then case verify_dataplane lib cid src start deadline (vw_probe_start w) (vw_dataplane w) (hs_tunn s) hint of
                         None \<Rightarrow> None
                       | Some (Inl e, d) \<Rightarrow> Some (Inl e, dp_inner_mtu_hint d, hs_sent s @ dp_sent d)
                       | Some (Inr elapsed, d) \<Rightarrow>
                           Some (Inr (elapsed, \<lparr>ss_tunn = dp_tunn d, ss_peer = peer, ss_client_id = cid\<rparr>),
                             dp_inner_mtu_hint d, hs_sent s @ dp_sent d)
                     else Some (Inr (elapsed, \<lparr>ss_tunn = hs_tunn s, ss_peer = peer, ss_client_id = cid\<rparr>), hint, hs_sent s)))
       | _ \<Rightarrow> Some (Inl (E_Other ''handshake init failed''), hint, [])))"

definition verify_endpoint :: "'t tunn_lib \<Rightarrow> verify_world \<Rightarrow> socket_addr \<Rightarrow> client_id \<Rightarrow> ipv4 \<Rightarrow> bool \<Rightarrow> nat \<Rightarrow> nat
    \<Rightarrow> 't \<Rightarrow> nat \<Rightarrow> ((aether_error + nat) \<times> nat \<times> bytes list) option" where
  "verify_endpoint lib w peer cid src data_check start timeout t hint =
     map_option (\<lambda>(r, out). (case r of Inl e \<Rightarrow> Inl e | Inr (elapsed, _) \<Rightarrow> Inr elapsed, out))
       (verify_endpoint_keep_session lib w peer cid src data_check start timeout t hint)"

section \<open>What a verified endpoint is\<close>

definition handshake_inv :: "client_id \<Rightarrow> 't handshake \<Rightarrow> bool" where
  "handshake_inv cid s \<longleftrightarrow> list_all (carries cid) (hs_sent s) \<and> hs_retry_index s \<le> length verify_retry_delays"

lemma handshake_inv_tunn [simp]: "handshake_inv cid (s\<lparr>hs_tunn := t\<rparr>) = handshake_inv cid s"
  by (simp add: handshake_inv_def)

lemma handshake_send_inv: "handshake_inv cid s \<Longrightarrow> carries cid p \<Longrightarrow> handshake_inv cid (snd (handshake_send cid e p s))"
  by (simp add: handshake_send_def handshake_inv_def split: option.split)

lemma handshake_tick_inv:
  assumes inv: "handshake_inv cid s" and p: "carries cid p"
  shows "handshake_inv cid (snd (handshake_tick lib cid start p it s))"
proof -
  let ?retry = "case get verify_retry_delays (hs_retry_index s) of
         Some delay \<Rightarrow>
           if delay \<le> hi_at it - start
           then handshake_send cid (hi_send_error it) p (s\<lparr>hs_retry_index := hs_retry_index s + 1\<rparr>)
           else (Inr (), s)
       | None \<Rightarrow> (Inr (), s)"
  have "handshake_inv cid (s\<lparr>hs_retry_index := hs_retry_index s + 1\<rparr>)" if "get verify_retry_delays (hs_retry_index s) = Some d" for d
    using inv that by (simp add: handshake_inv_def get_eq_Some_conv)
  then have "handshake_inv cid (snd ?retry)"
    using inv handshake_send_inv [OF _ p] by (auto split: option.split)
  then obtain r s1 where r: "?retry = (r, s1)" "handshake_inv cid s1" by (metis prod.exhaust snd_conv)
  obtain u t where u: "tl_update_timers lib (hi_at it) (hs_tunn s1) = (u, t)" by (rule prod.exhaust)
  have "handshake_inv cid (s1\<lparr>hs_tunn := t\<rparr>)" using r(2) by simp
  then show ?thesis
    unfolding handshake_tick_def r(1) Let_def prod.case using r(2) u
    by (cases r; cases u) (simp_all add: handshake_send_inv)
qed

lemma handshake_step_inv:
  assumes inv: "handshake_inv cid s" and p: "carries cid p"
  shows "case handshake_step lib cid start deadline p it s of Inl (r, s') \<Rightarrow> handshake_inv cid s' | Inr s' \<Rightarrow> handshake_inv cid s'"
proof -
  have "case handshake_receive lib cid start it datagram s of Inl (r, s') \<Rightarrow> handshake_inv cid s' | Inr s' \<Rightarrow> handshake_inv cid s'" for datagram
  proof -
    obtain r t where r: "tl_decapsulate lib (hi_at it) (strip_client_id datagram) (hs_tunn s) = (r, t)" by (rule prod.exhaust)
    have t: "handshake_inv cid (s\<lparr>hs_tunn := t\<rparr>)" using inv by simp
    show ?thesis
    proof (cases r)
      case (T_Network pkt)
      obtain q s2 where send: "handshake_send cid (hi_send_error it) (inject_client_id cid pkt) (s\<lparr>hs_tunn := t\<rparr>) = (q, s2)"
        by (rule prod.exhaust)
      with handshake_send_inv [OF t carries_injected, of "hi_send_error it" pkt] have "handshake_inv cid s2" by simp
      then show ?thesis using r T_Network send by (cases q) (simp_all add: handshake_receive_def Let_def)
    qed (use r t in \<open>simp_all add: handshake_receive_def Let_def\<close>)
  qed
  note arrived = this
  have tick: "case (case handshake_tick lib cid start p it s of (Inl e, s) \<Rightarrow> Inl (Inl e, s) | (Inr _, s) \<Rightarrow> Inr s) of
      Inl (r, s') \<Rightarrow> handshake_inv cid s' | Inr s' \<Rightarrow> handshake_inv cid s'"
  proof -
    obtain q s2 where tick: "handshake_tick lib cid start p it s = (q, s2)" by (rule prod.exhaust)
    with handshake_tick_inv [OF assms, of lib start it] have "handshake_inv cid s2" by simp
    then show ?thesis by (cases q) (simp_all add: tick)
  qed
  show ?thesis
  proof (cases "deadline \<le> hi_now it")
    case False
    show ?thesis
    proof (cases "hi_event it")
      case (Arrived r)
      with False inv arrived show ?thesis by (cases r) (simp_all add: handshake_step_def)
    qed (use False inv tick in \<open>simp_all add: handshake_step_def\<close>)
  qed (use inv in \<open>simp add: handshake_step_def\<close>)
qed

lemma handshake_loop_inv:
  "handshake_inv cid s \<Longrightarrow> carries cid p \<Longrightarrow>
   case handshake_loop lib cid start deadline p its s of Some (r, s') \<Rightarrow> handshake_inv cid s' | None \<Rightarrow> True"
proof (induction its arbitrary: s)
  case (Cons it its)
  from handshake_step_inv [OF Cons.prems, of lib start deadline it] Cons.IH [OF _ Cons.prems(2)] show ?case
    by (cases "handshake_step lib cid start deadline p it s") simp_all
qed simp

definition ends_handshake :: "nat \<Rightarrow> handshake_iteration \<Rightarrow> bool" where
  "ends_handshake deadline it \<longleftrightarrow> deadline \<le> hi_now it \<or> hi_event it = Elapsed"

lemma handshake_loop_ends: "list_ex (ends_handshake deadline) its \<Longrightarrow> handshake_loop lib cid start deadline p its s \<noteq> None"
proof (induction its arbitrary: s)
  case (Cons it its)
  show ?case
  proof (cases "handshake_step lib cid start deadline p it s")
    case (Inr s')
    then have "\<not> ends_handshake deadline it" by (auto simp: handshake_step_def ends_handshake_def split: if_splits)
    with Cons Inr show ?thesis by simp
  qed simp
qed simp

text \<open>C28: Verifying an endpoint ends when both of its loops reach the deadline, whatever arrives and whatever
  the protocol answers; every WireGuard message sent on the way carries the client id, the session
  that is kept has the peer and the client id it was made for, and the published MTU changes only
  with a data check that succeeds, to a size of the ladder.
\<close>

theorem endpoint_verification_ends:
  assumes "list_ex (ends_handshake (start + timeout)) (vw_handshake w)"
    and "list_ex (\<lambda>it. start + timeout \<le> it_now it) (vw_dataplane w)"
  shows "case verify_endpoint_keep_session lib w peer cid src data_check start timeout t hint of
     Some (Inr (elapsed, session), hint', sent) \<Rightarrow> list_all (carries cid) sent \<and> ss_peer session = peer
       \<and> ss_client_id session = cid \<and> (if data_check then hint' \<in> set probe_ladder else hint' = hint)
   | Some (Inl e, hint', sent) \<Rightarrow> hint' = hint \<and> list_all (carries cid) sent
   | None \<Rightarrow> False"
proof -
  obtain r t1 where enc: "tl_encapsulate lib start [] t = (r, t1)" by (rule prod.exhaust)
  show ?thesis
  proof (cases "vw_setup_error w")
    case ready: None
    show ?thesis
    proof (cases r)
      case (T_Network pkt)
      show ?thesis
      proof (cases "vw_init_send_error w")
        case send: None
        let ?p = "inject_client_id cid pkt"
        let ?s = "\<lparr>hs_tunn = t1, hs_retry_index = 0, hs_sent = [?p]\<rparr>"
        let ?loop = "handshake_loop lib cid start (start + timeout) ?p (vw_handshake w) ?s"
        have "handshake_inv cid ?s" by (simp add: handshake_inv_def)
        from handshake_loop_inv [OF this carries_injected [of cid pkt], where lib = lib and start = start
              and deadline = "start + timeout" and its = "vw_handshake w"]
          handshake_loop_ends [OF assms(1), where lib = lib and cid = cid and start = start and p = ?p and s = ?s]
        obtain r s where loop: "?loop = Some (r, s)" and s: "list_all (carries cid) (hs_sent s)"
          by (auto simp: handshake_inv_def split: option.splits)
        show ?thesis
        proof (cases r)
          case (Inl e)
          with s loop show ?thesis
            by (simp add: verify_endpoint_keep_session_def Let_def ready enc T_Network send)
        next
          case (Inr elapsed)
          let ?v = "verify_dataplane lib cid src start (start + timeout) (vw_probe_start w) (vw_dataplane w) (hs_tunn s) hint"
          obtain q d where v: "?v = Some (q, d)" using verify_dataplane_ends [OF assms(2)] by (metis option.exhaust prod.exhaust)
          have "dataplane_result cid hint (q, d)"
            using verify_dataplane_result [where lib = lib and cid = cid and src = src and start = start and deadline = "start + timeout"
              and ps = "vw_probe_start w" and its = "vw_dataplane w" and t = "hs_tunn s" and hint = hint] v by simp
          then show ?thesis using s loop Inr v
            by (cases q) (simp_all add: verify_endpoint_keep_session_def Let_def ready enc T_Network send dataplane_result_def)
        qed
      qed (simp add: verify_endpoint_keep_session_def Let_def ready enc T_Network)
    qed (simp_all add: verify_endpoint_keep_session_def Let_def ready enc)
  qed (simp add: verify_endpoint_keep_session_def Let_def)
qed

theorem endpoint_verification_ends_witness:
  "verify_endpoint_keep_session small_only
     \<lparr>vw_setup_error = None, vw_init_send_error = None,
       vw_handshake = [\<lparr>hi_now = 5, hi_at = 760, hi_event = Tick, hi_send_error = None\<rparr>,
         \<lparr>hi_now = 760, hi_at = 9000, hi_event = Elapsed, hi_send_error = None\<rparr>],
       vw_probe_start = \<lparr>ps_now = 0, ps_send_error = None, ps_query_id = 1, ps_ident = 1, ps_port = 1\<rparr>,
       vw_dataplane = [\<lparr>it_now = 9000, it_at = 9000, it_event = Slept, it_ident = 0\<rparr>]\<rparr>
     \<lparr>sa_ip = V4 1, sa_port = 2408\<rparr> (1, 2, 3) 7 True 0 9000 () 1200
   = Some (Inl (E_Other ''verify timeout''), 1200, [[0], [0]])"
proof -
  let ?w = "\<lparr>vw_setup_error = None, vw_init_send_error = None,
       vw_handshake = [\<lparr>hi_now = 5, hi_at = 760, hi_event = Tick, hi_send_error = None\<rparr>,
         \<lparr>hi_now = 760, hi_at = 9000, hi_event = Elapsed, hi_send_error = None\<rparr>],
       vw_probe_start = \<lparr>ps_now = 0, ps_send_error = None, ps_query_id = 1, ps_ident = 1, ps_port = 1\<rparr>,
       vw_dataplane = [\<lparr>it_now = 9000, it_at = 9000, it_event = Slept, it_ident = 0\<rparr>]\<rparr>"
  have "list_ex (ends_handshake (0 + 9000)) (vw_handshake ?w)" "list_ex (\<lambda>it. 0 + 9000 \<le> it_now it) (vw_dataplane ?w)"
    by (simp_all add: ends_handshake_def)
  note ends = endpoint_verification_ends [OF this, where lib = small_only and peer = "\<lparr>sa_ip = V4 1, sa_port = 2408\<rparr>"
      and cid = "(1, 2, 3)" and src = 7 and data_check = True and t = "()" and hint = 1200]
  have "verify_endpoint_keep_session small_only ?w \<lparr>sa_ip = V4 1, sa_port = 2408\<rparr> (1, 2, 3) 7 True 0 9000 () 1200
      = Some (Inl (E_Other ''verify timeout''), 1200, [[0], [0]])"
    by (simp add: verify_endpoint_keep_session_def Let_def small_only_def inject_other wg_message_def handshake_step_def
      handshake_tick_def handshake_send_def verify_retry_delays_def)
  with ends show ?thesis by simp
qed

end
