(* ===== verification/Wg_Tunnel.thy ===== *)
theory Wg_Tunnel
  imports Wg_Verify Sysprofile
begin

text \<open>
  The running WireGuard tunnel of \<^verbatim>\<open>wireguard.rs\<close>: the receive, send, timer and health tasks that
  \<open>WgTunnel::run\<close> spawns over one noise state, each as a step on what they share, and a run as the steps in
  the order the executor takes them, until the first task ends. A task's turn is atomic, as it holds the lock
  of the noise state for the whole of it but its sends.
\<close>

section \<open>Socket errors\<close>

datatype io_kind = Connection_Refused | Connection_Reset | Connection_Aborted | Host_Unreachable | Network_Unreachable
  | Interrupted | Would_Block | Timed_Out_Kind | Other_Kind string

definition is_transient_socket_error :: "io_kind \<Rightarrow> bool" where
  "is_transient_socket_error kind = (case kind of Other_Kind _ \<Rightarrow> False | _ \<Rightarrow> True)"

definition max_transient_recv_errors :: nat where
  "max_transient_recv_errors = 64"

definition wg_healthcheck_interval :: nat where
  "wg_healthcheck_interval = 3000"

definition wg_stale_timeout :: "environment \<Rightarrow> nat" where
  "wg_stale_timeout env = 1000 *
     (case Option.bind (env ''AETHER_WG_STALE_SECS'') (parse_uint (2 ^ 64 - 1)) of
        Some v \<Rightarrow> if 0 < v then v else 10
      | None \<Rightarrow> 10)"

section \<open>State\<close>

record wg_setup =
  wc_client_id :: client_id
  wc_noise :: noise_config
  wc_stale_timeout :: nat
  wc_probe :: bytes

record 't wg_tunnel =
  wt_tunn :: 't
  wt_last_valid_rx :: nat
  wt_obf_sent :: bool
  wt_post_hs_junk_sent :: bool
  wt_transient_errors :: nat

definition wg_tunnel_new :: "nat \<Rightarrow> 't \<Rightarrow> 't wg_tunnel" where
  "wg_tunnel_new now t = \<lparr>wt_tunn = t, wt_last_valid_rx = now, wt_obf_sent = False, wt_post_hs_junk_sent = False,
     wt_transient_errors = 0\<rparr>"

definition wg_tunnel_from_established :: "nat \<Rightarrow> 't session \<Rightarrow> 't wg_tunnel" where
  "wg_tunnel_from_established now session = \<lparr>wt_tunn = ss_tunn session, wt_last_valid_rx = now, wt_obf_sent = True,
     wt_post_hs_junk_sent = False, wt_transient_errors = 0\<rparr>"

text \<open>What a task does to the outside.\<close>

datatype wg_out = Wg_Send bytes | Wg_Inbound bytes | Wg_Obfuscation | Wg_Post_Handshake_Junk | Wg_Keepalive_Junk | Wg_Backoff

datatype wg_event = Ev_Receive "io_kind + bytes" | Ev_Outbound "bytes option" | Ev_Timer | Ev_Health

text \<open>A task's turn: the state, what goes out, and the result of the tunnel when the task ends.\<close>

type_synonym 't wg_turn = "'t wg_tunnel \<times> wg_out list \<times> (aether_error + unit) option"

section \<open>The tasks\<close>

definition recv_task :: "'t tunn_lib \<Rightarrow> wg_setup \<Rightarrow> nat \<Rightarrow> io_kind + bytes \<Rightarrow> 't wg_tunnel \<Rightarrow> 't wg_turn" where
  "recv_task lib c now ev s = (case ev of
     Inr datagram \<Rightarrow>
       (let s = s\<lparr>wt_transient_errors := 0\<rparr>;
          (r, t) = tl_decapsulate lib now (strip_client_id datagram) (wt_tunn s);
          s = s\<lparr>wt_tunn := t\<rparr>
        in case r of
          T_Done \<Rightarrow> (s\<lparr>wt_last_valid_rx := now\<rparr>, [], None)
        | T_Err _ \<Rightarrow> (s, [], None)
        | T_Network pkt \<Rightarrow> (s\<lparr>wt_last_valid_rx := now\<rparr>, [Wg_Send (inject_client_id (wc_client_id c) pkt)], None)
        | T_Tunnel4 pkt \<Rightarrow> (s\<lparr>wt_last_valid_rx := now\<rparr>, [Wg_Inbound pkt], None)
        | T_Tunnel6 pkt \<Rightarrow> (s\<lparr>wt_last_valid_rx := now\<rparr>, [Wg_Inbound pkt], None))
   | Inl kind \<Rightarrow>
       if is_transient_socket_error kind
       then let s = s\<lparr>wt_transient_errors := wt_transient_errors s + 1\<rparr>
         in if max_transient_recv_errors < wt_transient_errors s then (s, [], Some (Inr ()))
            else (s, [Wg_Backoff], None)
       else (s, [], Some (Inr ())))"

definition send_task :: "'t tunn_lib \<Rightarrow> wg_setup \<Rightarrow> nat \<Rightarrow> bytes option \<Rightarrow> 't wg_tunnel \<Rightarrow> 't wg_turn" where
  "send_task lib c now packet s = (case packet of
     None \<Rightarrow> (s, [], Some (Inr ()))
   | Some ip_packet \<Rightarrow>
       (let (r, t) = tl_encapsulate lib now ip_packet (wt_tunn s); s = s\<lparr>wt_tunn := t\<rparr>
        in case r of
          T_Network pkt \<Rightarrow>
            (let obfuscate = (\<not> wt_obf_sent s \<and> noise_is_enabled (wc_noise c));
               junk = (0 < nc_jc_after_hs (wc_noise c) \<and> \<not> wt_post_hs_junk_sent s)
             in (s\<lparr>wt_obf_sent := wt_obf_sent s \<or> obfuscate, wt_post_hs_junk_sent := wt_post_hs_junk_sent s \<or> junk\<rparr>,
                 (if obfuscate then [Wg_Obfuscation] else [])
                 @ [Wg_Send (inject_client_id (wc_client_id c) pkt)]
                 @ (if junk then [Wg_Post_Handshake_Junk] else []), None))
        | _ \<Rightarrow> (s, [], None)))"

definition timer_task :: "'t tunn_lib \<Rightarrow> wg_setup \<Rightarrow> nat \<Rightarrow> 't wg_tunnel \<Rightarrow> 't wg_turn" where
  "timer_task lib c now s = (
     let (r, t) = tl_update_timers lib now (wt_tunn s); s = s\<lparr>wt_tunn := t\<rparr>
     in case r of
       T_Network pkt \<Rightarrow>
         (s, (if noise_is_enabled (wc_noise c) then [Wg_Keepalive_Junk] else []) @ [Wg_Send (inject_client_id (wc_client_id c) pkt)], None)
     | _ \<Rightarrow> (s, [], None))"

definition stale_error :: aether_error where
  "stale_error = E_Other ''wireguard tunnel stale: no valid data from peer''"

definition health_task :: "'t tunn_lib \<Rightarrow> wg_setup \<Rightarrow> nat \<Rightarrow> 't wg_tunnel \<Rightarrow> 't wg_turn" where
  "health_task lib c now s = (
     let idle = now - wt_last_valid_rx s in
     if wc_stale_timeout c \<le> idle then (s, [], Some (Inl stale_error))
     else
       let (r, t) = tl_encapsulate lib now (wc_probe c) (wt_tunn s); s = s\<lparr>wt_tunn := t\<rparr>
       in (s, case r of T_Network pkt \<Rightarrow> [Wg_Send (inject_client_id (wc_client_id c) pkt)] | _ \<Rightarrow> [], None))"

fun wg_step :: "'t tunn_lib \<Rightarrow> wg_setup \<Rightarrow> nat \<Rightarrow> wg_event \<Rightarrow> 't wg_tunnel \<Rightarrow> 't wg_turn" where
  "wg_step lib c now (Ev_Receive r) s = recv_task lib c now r s"
| "wg_step lib c now (Ev_Outbound p) s = send_task lib c now p s"
| "wg_step lib c now Ev_Timer s = timer_task lib c now s"
| "wg_step lib c now Ev_Health s = health_task lib c now s"

fun wg_run :: "'t tunn_lib \<Rightarrow> wg_setup \<Rightarrow> (nat \<times> wg_event) list \<Rightarrow> 't wg_tunnel \<Rightarrow> 't wg_turn" where
  "wg_run lib c [] s = (s, [], None)"
| "wg_run lib c ((now, e) # es) s = (case wg_step lib c now e s of
     (s, out, Some r) \<Rightarrow> (s, out, Some r)
   | (s, out, None) \<Rightarrow> (case wg_run lib c es s of (s, out', r) \<Rightarrow> (s, out @ out', r)))"

section \<open>What a run sends\<close>

fun out_carries :: "client_id \<Rightarrow> wg_out \<Rightarrow> bool" where
  "out_carries cid (Wg_Send p) = carries cid p"
| "out_carries cid _ = True"

lemmas task_defs = recv_task_def send_task_def timer_task_def health_task_def

lemma wg_step_carries: "wg_step lib c now e s = (s', out, r) \<Longrightarrow> list_all (out_carries (wc_client_id c)) out"
  by (cases e) (auto simp: task_defs Let_def split: prod.splits tunn_result.splits sum.splits if_splits option.splits)

text \<open>How often obfuscation and post-handshake junk can still be sent.\<close>

definition obf_left :: "wg_setup \<Rightarrow> 't wg_tunnel \<Rightarrow> nat" where
  "obf_left c s = (if wt_obf_sent s \<or> \<not> noise_is_enabled (wc_noise c) then 0 else 1)"

definition junk_left :: "'t wg_tunnel \<Rightarrow> nat" where
  "junk_left s = (if wt_post_hs_junk_sent s then 0 else 1)"

lemma wg_step_once:
  "wg_step lib c now e s = (s', out, r) \<Longrightarrow>
   count_list out Wg_Obfuscation + obf_left c s' = obf_left c s
   \<and> count_list out Wg_Post_Handshake_Junk + junk_left s' \<le> junk_left s"
  by (cases e)
    (auto simp: task_defs Let_def obf_left_def junk_left_def split: prod.splits tunn_result.splits sum.splits if_splits option.splits)

text \<open>C29: In every run of the tunnel, whatever arrives and in whatever order the tasks take their turns, every
  WireGuard message that leaves carries the client id, the obfuscation is sent at most once, and not
  at all when the session was established before or the noise is off, and the junk that follows the
  handshake at most once.
\<close>

theorem tunnel_output_discipline:
  "case wg_run lib c es s of (s', out, r) \<Rightarrow>
     list_all (out_carries (wc_client_id c)) out
     \<and> count_list out Wg_Obfuscation \<le> (if noise_is_enabled (wc_noise c) \<and> \<not> wt_obf_sent s then 1 else 0)
     \<and> count_list out Wg_Post_Handshake_Junk \<le> (if wt_post_hs_junk_sent s then 0 else 1)"
proof -
  have "wg_run lib c es s = (s', out, r) \<Longrightarrow>
      list_all (out_carries (wc_client_id c)) out \<and> count_list out Wg_Obfuscation \<le> obf_left c s
      \<and> count_list out Wg_Post_Handshake_Junk \<le> junk_left s" for s' out r
  proof (induction es arbitrary: s out)
    case (Cons x es)
    obtain now e where x: "x = (now, e)" by (rule prod.exhaust)
    obtain s1 out1 r1 where step: "wg_step lib c now e s = (s1, out1, r1)" by (metis prod_cases3)
    obtain s2 out2 r2 where run: "wg_run lib c es s1 = (s2, out2, r2)" by (metis prod_cases3)
    note one = wg_step_carries [OF step] wg_step_once [OF step]
    show ?case
    proof (cases r1)
      case None
      with Cons.prems x step run have "out = out1 @ out2" "s' = s2" "r = r2" by simp_all
      with Cons.IH [of s1 out2] run one show ?thesis by simp
    next
      case (Some r3)
      with Cons.prems x step one show ?thesis by auto
    qed
  qed simp
  then show ?thesis by (cases "wg_run lib c es s") (auto simp: obf_left_def junk_left_def split: if_splits)
qed

section \<open>Staying alive\<close>

text \<open>A run in which the protocol accepts nothing: each datagram that arrives is refused in the state it meets.\<close>

fun is_refusal :: "tunn_result \<Rightarrow> bool" where
  "is_refusal (T_Err e) = True"
| "is_refusal _ = False"

fun refused_event :: "'t tunn_lib \<Rightarrow> nat \<Rightarrow> wg_event \<Rightarrow> 't wg_tunnel \<Rightarrow> bool" where
  "refused_event lib now (Ev_Receive (Inr d)) s = is_refusal (fst (tl_decapsulate lib now (strip_client_id d) (wt_tunn s)))"
| "refused_event lib now _ s = True"

fun all_refused :: "'t tunn_lib \<Rightarrow> wg_setup \<Rightarrow> (nat \<times> wg_event) list \<Rightarrow> 't wg_tunnel \<Rightarrow> bool" where
  "all_refused lib c [] s = True"
| "all_refused lib c ((now, e) # es) s = (refused_event lib now e s \<and> all_refused lib c es (fst (wg_step lib c now e s)))"

text \<open>The events that can end a tunnel before its health check does.\<close>

fun may_close :: "wg_event \<Rightarrow> bool" where
  "may_close (Ev_Receive (Inl kind)) = True"
| "may_close (Ev_Outbound None) = True"
| "may_close _ = False"

lemma wg_step_refused:
  assumes "refused_event lib now e s" and "wg_step lib c now e s = (s', out, r)"
  shows "wt_last_valid_rx s' = wt_last_valid_rx s
    \<and> (case r of None \<Rightarrow> True | Some x \<Rightarrow> x = Inl stale_error \<or> x = Inr () \<and> may_close e)"
proof (cases e)
  case (Ev_Receive x)
  with assms show ?thesis
  proof (cases x)
    case (Inr d)
    from assms(1) Inr Ev_Receive obtain m t where "tl_decapsulate lib now (strip_client_id d) (wt_tunn s) = (T_Err m, t)"
      by (cases "tl_decapsulate lib now (strip_client_id d) (wt_tunn s)") (auto elim: is_refusal.elims)
    with assms(2) Ev_Receive Inr show ?thesis by (auto simp: recv_task_def Let_def)
  qed (auto simp: recv_task_def Let_def split: if_splits)
qed (use assms(2) in \<open>auto simp: task_defs Let_def split: prod.splits tunn_result.splits if_splits option.splits\<close>)

text \<open>C30: A tunnel that receives nothing the protocol accepts, however much garbage arrives, does not outlive the
  first health check after the stale timeout: whatever would follow, the run ends there with the error
  of a stale tunnel, or had ended before it because the socket failed or the outbound channel was
  closed; the moment of the last valid datagram is still the one at its start.
\<close>

theorem garbage_does_not_keep_a_tunnel_alive:
  assumes "all_refused lib c before s" and "wt_last_valid_rx s + wc_stale_timeout c \<le> now"
  shows "\<exists>s' out r. (\<forall>later. wg_run lib c (before @ (now, Ev_Health) # later) s = (s', out, Some r))
    \<and> wt_last_valid_rx s' = wt_last_valid_rx s
    \<and> (r = Inl stale_error \<or> r = Inr () \<and> list_ex (\<lambda>(t, e). may_close e) before)"
  using assms
proof (induction before arbitrary: s)
  case Nil
  then have "wc_stale_timeout c \<le> now - wt_last_valid_rx s" by linarith
  then have "wg_step lib c now Ev_Health s = (s, [], Some (Inl stale_error))"
    by (simp add: health_task_def Let_def)
  then show ?case by simp
next
  case (Cons x es)
  obtain t e where x: "x = (t, e)" by (rule prod.exhaust)
  obtain s1 out1 r1 where step: "wg_step lib c t e s = (s1, out1, r1)" by (metis prod_cases3)
  have l: "wt_last_valid_rx s1 = wt_last_valid_rx s"
    and e: "case r1 of None \<Rightarrow> True | Some x \<Rightarrow> x = Inl stale_error \<or> x = Inr () \<and> may_close e"
    using wg_step_refused [OF _ step] Cons.prems(1) x by simp_all
  show ?case
  proof (cases r1)
    case None
    have "all_refused lib c es s1" "wt_last_valid_rx s1 + wc_stale_timeout c \<le> now"
      using Cons.prems x step l by simp_all
    from Cons.IH [OF this] obtain s' out r where
      "\<forall>later. wg_run lib c (es @ (now, Ev_Health) # later) s1 = (s', out, Some r)"
      "wt_last_valid_rx s' = wt_last_valid_rx s1" "r = Inl stale_error \<or> r = Inr () \<and> list_ex (\<lambda>(t, e). may_close e) es"
      by blast
    with x step None l show ?thesis by (intro exI [of _ s'] exI [of _ "out1 @ out"] exI [of _ r]) auto
  qed (use x step l e in auto)
qed

text \<open>A peer that answers data packets, but whose datagrams here are of a type the protocol does not know.\<close>

definition picky_tunn :: "nat tunn_lib" where
  "picky_tunn = \<lparr>tl_encapsulate = \<lambda>_ p t. (T_Network (4 # p), t + 1),
     tl_decapsulate = \<lambda>_ p t. (case p of [] \<Rightarrow> (T_Done, t) | k # r \<Rightarrow> if k = 4 \<and> 0 < t then (T_Tunnel4 r, t) else (T_Err ''bad'', t)),
     tl_update_timers = \<lambda>_ t. (T_Done, t)\<rparr>"

theorem garbage_does_not_keep_a_tunnel_alive_witness:
  "\<exists>s' out. wg_run picky_tunn \<lparr>wc_client_id = (1, 2, 3), wc_noise = noise_off, wc_stale_timeout = 10000, wc_probe = []\<rparr>
      [(2000, Ev_Receive (Inr [4, 0, 0, 0])), (3000, Ev_Health), (5000, Ev_Receive (Inr [9, 1, 2, 3, 7])), (12000, Ev_Health)]
      (wg_tunnel_new 0 0) = (s', out, Some (Inl stale_error))
   \<and> fst (tl_decapsulate picky_tunn 5000 [4, 0] 1) = T_Tunnel4 [0]"
proof -
  let ?c = "\<lparr>wc_client_id = (1, 2, 3), wc_noise = noise_off, wc_stale_timeout = 10000, wc_probe = []\<rparr>"
  let ?before = "[(2000, Ev_Receive (Inr [4, 0, 0, 0])), (3000, Ev_Health), (5000, Ev_Receive (Inr [9, 1, 2, 3, 7]))]"
  have "all_refused picky_tunn ?c ?before (wg_tunnel_new 0 0)"
    by (simp add: picky_tunn_def wg_tunnel_new_def recv_task_def health_task_def strip_shape Let_def)
  moreover have "wt_last_valid_rx (wg_tunnel_new 0 (0 :: nat)) + wc_stale_timeout ?c \<le> 12000" by (simp add: wg_tunnel_new_def)
  moreover have "\<not> list_ex (\<lambda>(t, e). may_close e) ?before" by simp
  ultimately show ?thesis using garbage_does_not_keep_a_tunnel_alive [of picky_tunn ?c ?before _ 12000]
    by (simp add: picky_tunn_def del: wg_run.simps) blast
qed

text \<open>
  What counts as valid is everything the protocol does not refuse: the library answers an empty datagram
  with \<open>T_Done\<close> when it has nothing queued, and the code then takes it for a sign of life. A peer that
  sends nothing else keeps the tunnel.
\<close>

lemma empty_datagram_keeps_the_tunnel:
  assumes "tl_decapsulate lib now [] (wt_tunn s) = (T_Done, wt_tunn s)"
  shows "wt_last_valid_rx (fst (recv_task lib c now (Inr []) s)) = now"
  using assms by (simp add: recv_task_def strip_client_id_def write_reserved_eq wg_message_def Let_def)

text \<open>A valid datagram inside the timeout keeps it: the health check then goes on probing.\<close>

lemma live_tunnel_passes_the_health_check:
  "now < wt_last_valid_rx s + wc_stale_timeout c \<Longrightarrow> 0 < wc_stale_timeout c \<Longrightarrow> snd (snd (health_task lib c now s)) = None"
  by (auto simp: health_task_def Let_def split: prod.split)

text \<open>
  Transient receive errors: 64 in a row are ridden out, the next one ends the tunnel; other tasks' turns
  between them change nothing, and a datagram starts the count again.
\<close>

definition transient_event :: "nat \<times> wg_event \<Rightarrow> bool" where
  "transient_event x = (case snd x of Ev_Receive (Inl kind) \<Rightarrow> is_transient_socket_error kind | _ \<Rightarrow> False)"

text \<open>C31: Of socket errors that pass, 64 in a row are ridden out and the next one ends the tunnel, without an
  error; a lasting error ends it at once, and a datagram starts the count anew.
\<close>

theorem transient_errors_are_tolerated:
  assumes "list_all transient_event es" and "wt_transient_errors s = 0" and "\<not> is_transient_socket_error kind"
  shows "snd (snd (wg_run lib c es s)) = (if length es \<le> 64 then None else Some (Inr ()))
    \<and> snd (snd (recv_task lib c now (Inl kind) s')) = Some (Inr ())
    \<and> wt_transient_errors (fst (recv_task lib c now (Inr d) s')) = 0"
proof -
  have "list_all transient_event es \<Longrightarrow> wt_transient_errors s \<le> 64 \<Longrightarrow>
      snd (snd (wg_run lib c es s)) = (if wt_transient_errors s + length es \<le> 64 then None else Some (Inr ()))" for s :: "'a wg_tunnel"
  proof (induction es arbitrary: s)
    case (Cons x es)
    from Cons.prems(1) obtain t k where x: "x = (t, Ev_Receive (Inl k))" "is_transient_socket_error k"
      by (cases x) (auto simp: transient_event_def split: wg_event.splits sum.splits)
    let ?s = "s\<lparr>wt_transient_errors := wt_transient_errors s + 1\<rparr>"
    show ?case
    proof (cases "wt_transient_errors s < 64")
      case True
      with x have "wg_step lib c t (Ev_Receive (Inl k)) s = (?s, [Wg_Backoff], None)"
        by (simp add: recv_task_def max_transient_recv_errors_def Let_def)
      with Cons.IH [of ?s] Cons.prems True x(1) show ?thesis by (cases "wg_run lib c es ?s") auto
    next
      case False
      with x Cons.prems show ?thesis by (simp add: recv_task_def max_transient_recv_errors_def Let_def)
    qed
  qed simp
  from this [OF assms(1), of s] assms(2,3) show ?thesis
    by (auto simp: recv_task_def Let_def split: prod.split tunn_result.split)
qed

theorem transient_errors_are_tolerated_witness:
  "snd (snd (wg_run small_only \<lparr>wc_client_id = (1, 2, 3), wc_noise = noise_off, wc_stale_timeout = 10000, wc_probe = []\<rparr>
      [(10, Ev_Receive (Inl Connection_Refused)), (60, Ev_Receive (Inl Timed_Out_Kind))] (wg_tunnel_new 0 ()))) = None"
  using transient_errors_are_tolerated [where es = "[(10, Ev_Receive (Inl Connection_Refused)), (60, Ev_Receive (Inl Timed_Out_Kind))]"
      and s = "wg_tunnel_new 0 ()" and kind = "Other_Kind ''bad''" and lib = small_only
      and c = "\<lparr>wc_client_id = (1, 2, 3), wc_noise = noise_off, wc_stale_timeout = 10000, wc_probe = []\<rparr>"]
  by (simp add: transient_event_def is_transient_socket_error_def wg_tunnel_new_def)

text \<open>
  The first health check of a fresh tunnel, which is due at once, hands its probe to the protocol: the
  handshake message leaves before any obfuscation.
\<close>

lemma fresh_tunnel_sends_before_obfuscation:
  assumes "0 < wc_stale_timeout c" and "tl_encapsulate lib now (wc_probe c) t = (T_Network pkt, t')"
  shows "fst (snd (wg_run lib c [(now, Ev_Health)] (wg_tunnel_new now t))) = [Wg_Send (inject_client_id (wc_client_id c) pkt)]"
  using assms by (simp add: health_task_def wg_tunnel_new_def Let_def)

end
