(* ===== verification/Netstack.thy ===== *)
theory Netstack
  imports Sysprofile
begin

text \<open>
  \<^verbatim>\<open>netstack.rs\<close>: the loop around the user-space TCP/IP stack. The stack itself (\<^verbatim>\<open>smoltcp\<close>) is a
  parameter: a record of what its sockets answer, over a socket state of any type. The theory has
  the table of connections and what one turn does with each (\<open>service_tcp\<close>, \<open>service_udp\<close>), the commands
  (\<open>handle_cmd\<close>), what applications write (\<open>handle_data\<close>), the ingest of packets with the transparent
  accept mode, and \<open>flush_tx\<close>. A one-shot answer that nobody waits for any more is dropped with what it holds.
\<close>

section \<open>The stack's sockets\<close>

datatype tcp_state = S_Closed | S_Listen | S_Syn_Sent | S_Syn_Received | S_Established | S_Fin_Wait1 | S_Fin_Wait2
  | S_Close_Wait | S_Closing | S_Last_Ack | S_Time_Wait

record 'k tcp_lib =
  tk_state :: "'k \<Rightarrow> tcp_state"
  tk_can_send :: "'k \<Rightarrow> bool"
  tk_send :: "bytes \<Rightarrow> 'k \<Rightarrow> nat option \<times> 'k"
  tk_close :: "'k \<Rightarrow> 'k"
  tk_can_recv :: "'k \<Rightarrow> bool"
  tk_recv :: "'k \<Rightarrow> bytes option \<times> 'k"
  tk_remote :: "'k \<Rightarrow> socket_addr option"
  tk_local :: "'k \<Rightarrow> socket_addr option"
  tk_connect :: "socket_addr \<Rightarrow> u16 \<Rightarrow> string + 'k"
  tk_listen :: "socket_addr \<Rightarrow> 'k option"

record 'u udp_lib =
  uk_bind :: "u16 \<Rightarrow> string + 'u"
  uk_send :: "bytes \<Rightarrow> socket_addr \<Rightarrow> 'u \<Rightarrow> 'u"
  uk_can_recv :: "'u \<Rightarrow> bool"
  uk_recv :: "'u \<Rightarrow> (bytes \<times> socket_addr) option \<times> 'u"

section \<open>Constants and addresses\<close>

definition max_ingest_per_tick :: nat where "max_ingest_per_tick = 512"
definition max_recv_chunks :: nat where "max_recv_chunks = 128"
definition backpressure_retry :: nat where "backpressure_retry = 2000"
definition max_idle_tick :: nat where "max_idle_tick = 250000"

fun udp_meta :: "tier \<Rightarrow> nat" where
  "udp_meta Low = 32"
| "udp_meta Medium = 64"
| "udp_meta High = 128"

definition strip_cidr :: "string \<Rightarrow> string" where
  "strip_cidr s = (case split_once (CHR ''/'') s of Some (ip, _) \<Rightarrow> ip | None \<Rightarrow> s)"

definition cidr_prefix :: "string \<Rightarrow> nat option" where
  "cidr_prefix s = Option.bind (split_once (CHR ''/'') s) (\<lambda>(_, p). parse_uint 255 p)"

definition stack_parse_v4 :: "string \<Rightarrow> aether_error + (ipv4 \<times> nat) option" where
  "stack_parse_v4 s =
     (if s = [] then Inr None
      else case parse_ipv4 (strip_cidr s) of
          None \<Rightarrow> Inl (E_Other (''bad ipv4 '' @ s))
        | Some ip \<Rightarrow> Inr (Some (ip, case cidr_prefix s of Some p \<Rightarrow> p | None \<Rightarrow> 32)))"

definition stack_parse_v6 :: "string \<Rightarrow> aether_error + (ipv6 \<times> nat) option" where
  "stack_parse_v6 s =
     (if s = [] then Inr None
      else case read_ipv6 (strip_cidr s) of
          Some (ip, []) \<Rightarrow> Inr (Some (ip, case cidr_prefix s of Some p \<Rightarrow> p | None \<Rightarrow> 128))
        | _ \<Rightarrow> Inl (E_Other (''bad ipv6 '' @ s)))"

definition routable_prefix_v4 :: "nat \<Rightarrow> nat" where
  "routable_prefix_v4 p = (if 31 \<le> p then 24 else p)"

definition routable_prefix_v6 :: "nat \<Rightarrow> nat" where
  "routable_prefix_v6 p = (if 127 \<le> p then 64 else p)"

text \<open>\<open>apply_addrs\<close>: the interface's addresses and the gateways of its default routes.\<close>

record iface_addrs =
  ia_v4 :: "(ipv4 \<times> nat) option"
  ia_v6 :: "(ipv6 \<times> nat) option"
  ia_gw4 :: "ipv4 option"
  ia_gw6 :: "ipv6 option"

definition gateway_v4 :: "ipv4 \<Rightarrow> ipv4" where
  "gateway_v4 ip = (case ipv4_octets ip of
     [a, b, c, d] \<Rightarrow> ipv4_of a b c (if d = 1 then 2 else 1)
   | _ \<Rightarrow> ip)"

definition gateway_v6 :: "ipv6 \<Rightarrow> ipv6" where
  "gateway_v6 ip = (let os = ipv6_octets ip in ipv6_of_octets (os[15 := if os ! 15 = 1 then 2 else 1]))"

definition apply_addrs :: "(ipv4 \<times> nat) option \<Rightarrow> (ipv6 \<times> nat) option \<Rightarrow> iface_addrs \<Rightarrow> iface_addrs" where
  "apply_addrs v4 v6 i = \<lparr>ia_v4 = map_option (\<lambda>(ip, p). (ip, routable_prefix_v4 p)) v4,
     ia_v6 = map_option (\<lambda>(ip, p). (ip, routable_prefix_v6 p)) v6,
     ia_gw4 = (case v4 of Some (ip, _) \<Rightarrow> Some (gateway_v4 ip) | None \<Rightarrow> ia_gw4 i),
     ia_gw6 = (case v6 of Some (ip, _) \<Rightarrow> Some (gateway_v6 ip) | None \<Rightarrow> ia_gw6 i)\<rparr>"

definition alloc_port :: "u16 \<Rightarrow> u16 \<times> u16" where
  "alloc_port p = (p, if 65000 \<le> p then 49152 else p + 1)"

section \<open>Connections\<close>

text \<open>
  \<open>TcpState\<close>. \<open>tc_receiver_held\<close> says that the receiving half of \<open>to_app\<close> is still in
  the table, \<open>tc_connect_resp\<close> that an answer is owed, and whether somebody waits for it.
\<close>

record 'k tcp_conn =
  tc_socket :: 'k
  tc_to_app :: "bytes channel"
  tc_receiver_held :: bool
  tc_connect_resp :: "bool option"
  tc_pending :: bytes
  tc_established :: bool
  tc_half_closed :: bool

record 'u udp_conn =
  uc_socket :: 'u
  uc_to_app :: "(socket_addr \<times> bytes) channel"

datatype ns_out = Opened nat | Open_Failed nat string | Open_Rejected string | Udp_Opened nat | Udp_Rejected string
  | Accepted nat socket_addr socket_addr

definition close_app :: "'k tcp_conn \<Rightarrow> 'k tcp_conn" where
  "close_app c = c\<lparr>tc_to_app := (tc_to_app c)\<lparr>ch_closed := True\<rparr>\<rparr>"

definition unspecified_endpoint :: socket_addr where
  "unspecified_endpoint = \<lparr>sa_ip = V4 0, sa_port = 0\<rparr>"

text \<open>
  A connection that has become established: the first \<open>if let\<close> takes both the owed answer and the
  receiver, whether or not it matches, so that the second one finds no receiver. What is taken and
  not handed on is dropped.
\<close>

definition notify_established :: "'k tcp_lib \<Rightarrow> bool \<Rightarrow> nat \<Rightarrow> 'k tcp_conn \<Rightarrow> 'k tcp_conn \<times> ns_out list" where
  "notify_established lib accepting i c = (
     let resp = tc_connect_resp c; rx = tc_receiver_held c;
       c = c\<lparr>tc_established := True, tc_connect_resp := None, tc_receiver_held := False\<rparr>
     in case (resp, rx) of
       (Some alive, True) \<Rightarrow> if alive then (c, [Opened i]) else (close_app c, [])
     | _ \<Rightarrow>
        (let rx' = tc_receiver_held c; c = c\<lparr>tc_receiver_held := False\<rparr>;
           c = (if rx then close_app c else c)
         in if rx'
            then if accepting
                 then (c, [Accepted i (case tk_remote lib (tc_socket c) of Some a \<Rightarrow> a | None \<Rightarrow> unspecified_endpoint)
                     (case tk_local lib (tc_socket c) of Some a \<Rightarrow> a | None \<Rightarrow> unspecified_endpoint)])
                 else (close_app c, [])
            else (c, [])))"

text \<open>\<open>try_reserve\<close>, then a chunk if there is one, at most \<open>n\<close> times: the socket, the channel, whether the channel was full, whether it is closed.\<close>

fun recv_chunks :: "'k tcp_lib \<Rightarrow> nat \<Rightarrow> 'k \<Rightarrow> bytes channel \<Rightarrow> 'k \<times> bytes channel \<times> bool \<times> bool" where
  "recv_chunks lib 0 k ch = (k, ch, False, False)"
| "recv_chunks lib (Suc n) k ch =
     (if ch_closed ch then (k, ch, False, True)
      else if ch_cap ch \<le> length (ch_queue ch) then (k, ch, True, False)
      else if \<not> tk_can_recv lib k then (k, ch, False, False)
      else case tk_recv lib k of
          (Some chunk, k) \<Rightarrow>
            if chunk = [] then (k, ch, False, False)
            else recv_chunks lib n k (ch\<lparr>ch_queue := ch_queue ch @ [chunk]\<rparr>)
        | (None, k) \<Rightarrow> (k, ch, False, False))"

definition send_pending :: "'k tcp_lib \<Rightarrow> 'k tcp_conn \<Rightarrow> 'k tcp_conn" where
  "send_pending lib c =
     (if tk_can_send lib (tc_socket c) \<and> tc_pending c \<noteq> []
      then case tk_send lib (tc_pending c) (tc_socket c) of (r, k) \<Rightarrow>
          c\<lparr>tc_socket := k, tc_pending := drop (case r of Some n \<Rightarrow> n | None \<Rightarrow> 0) (tc_pending c)\<rparr>
      else c)"

definition close_socket :: "'k tcp_lib \<Rightarrow> 'k tcp_conn \<Rightarrow> 'k tcp_conn" where
  "close_socket lib c = c\<lparr>tc_socket := tk_close lib (tc_socket c)\<rparr>"

text \<open>One connection's part of \<open>service_tcp\<close>: \<open>None\<close> is a connection taken out of the table.\<close>

definition transfer :: "'k tcp_lib \<Rightarrow> 'k tcp_conn \<Rightarrow> 'k tcp_conn \<times> bool" where
  "transfer lib c = (
     let c = send_pending lib c;
       c = (if tc_half_closed c \<and> tc_pending c = [] then close_socket lib c else c);
       (k, ch, busy, gone) = recv_chunks lib max_recv_chunks (tc_socket c) (tc_to_app c);
       c = c\<lparr>tc_socket := k, tc_to_app := ch\<rparr>
     in (if gone then close_socket lib c else c, busy))"

definition service_conn :: "'k tcp_lib \<Rightarrow> bool \<Rightarrow> nat \<Rightarrow> 'k tcp_conn \<Rightarrow> 'k tcp_conn option \<times> ns_out list \<times> bool" where
  "service_conn lib accepting i c = (
     let state = tk_state lib (tc_socket c);
       (c, out) = (if \<not> tc_established c \<and> state = S_Established then notify_established lib accepting i c else (c, []))
     in if \<not> tc_established c \<and> (state = S_Closed \<or> state = S_Time_Wait)
        then (None, out @ (if tc_connect_resp c = Some True then [Open_Failed i ''connection refused''] else []), False)
        else
          let (c, busy) = transfer lib c; state = tk_state lib (tc_socket c);
            c = (if state = S_Close_Wait then close_socket lib c else c)
          in (if state = S_Closed \<and> tc_established c then None else Some c, out, busy))"

fun service_tcp :: "'k tcp_lib \<Rightarrow> bool \<Rightarrow> (nat \<times> 'k tcp_conn) list \<Rightarrow> (nat \<times> 'k tcp_conn) list \<times> ns_out list \<times> bool" where
  "service_tcp lib accepting [] = ([], [], False)"
| "service_tcp lib accepting ((i, c) # cs) =
     (case service_conn lib accepting i c of (r, out, busy) \<Rightarrow>
      case service_tcp lib accepting cs of (cs, out', busy') \<Rightarrow>
        ((case r of Some c \<Rightarrow> (i, c) # cs | None \<Rightarrow> cs), out @ out', busy \<or> busy'))"

fun recv_datagrams :: "'u udp_lib \<Rightarrow> nat \<Rightarrow> 'u udp_conn \<Rightarrow> 'u udp_conn \<times> bool" where
  "recv_datagrams lib 0 c = (c, False)"
| "recv_datagrams lib (Suc n) c =
     (if ch_closed (uc_to_app c) then (c, False)
      else if ch_cap (uc_to_app c) \<le> length (ch_queue (uc_to_app c)) then (c, True)
      else if \<not> uk_can_recv lib (uc_socket c) then (c, False)
      else case uk_recv lib (uc_socket c) of
          (Some (d, from_addr), k) \<Rightarrow>
            recv_datagrams lib n (c\<lparr>uc_socket := k, uc_to_app := (uc_to_app c)\<lparr>ch_queue := ch_queue (uc_to_app c) @ [(from_addr, d)]\<rparr>\<rparr>)
        | (None, k) \<Rightarrow> (c\<lparr>uc_socket := k\<rparr>, False))"

definition service_udp :: "'u udp_lib \<Rightarrow> (nat \<times> 'u udp_conn) list \<Rightarrow> (nat \<times> 'u udp_conn) list \<times> bool" where
  "service_udp lib cs = (let rs = map (\<lambda>(i, c). (i, recv_datagrams lib max_recv_chunks c)) cs
     in (map (\<lambda>(i, c, _). (i, c)) rs, list_ex (\<lambda>(_, _, busy). busy) rs))"

section \<open>The stack's state and its operations\<close>

record ('k, 'u) netstack =
  ns_addrs :: iface_addrs
  ns_tcp :: "(nat \<times> 'k tcp_conn) list"
  ns_udp :: "(nat \<times> 'u udp_conn) list"
  ns_next_id :: nat
  ns_next_port :: u16
  ns_accepting :: bool
  ns_rx :: "bytes list"
  ns_tx :: "bytes list"

definition netstack_new :: "(ipv4 \<times> nat) option \<Rightarrow> (ipv6 \<times> nat) option \<Rightarrow> ('k, 'u) netstack" where
  "netstack_new v4 v6 = \<lparr>ns_addrs = apply_addrs v4 v6 \<lparr>ia_v4 = None, ia_v6 = None, ia_gw4 = None, ia_gw6 = None\<rparr>,
     ns_tcp = [], ns_udp = [], ns_next_id = 1, ns_next_port = 49152, ns_accepting = False, ns_rx = [], ns_tx = []\<rparr>"

definition netstack_spawn :: "string \<Rightarrow> string \<Rightarrow> aether_error + ('k, 'u) netstack" where
  "netstack_spawn v4 v6 = (case stack_parse_v4 v4 of
     Inl e \<Rightarrow> Inl e
   | Inr v4 \<Rightarrow> (case stack_parse_v6 v6 of Inl e \<Rightarrow> Inl e | Inr v6 \<Rightarrow> Inr (netstack_new v4 v6)))"

definition fresh_conn :: "nat \<Rightarrow> bool option \<Rightarrow> 'k \<Rightarrow> 'k tcp_conn" where
  "fresh_conn cap resp k = \<lparr>tc_socket = k, tc_to_app = \<lparr>ch_queue = [], ch_cap = cap, ch_closed = False\<rparr>,
     tc_receiver_held = True, tc_connect_resp = resp, tc_pending = [], tc_established = False, tc_half_closed = False\<rparr>"

definition add_tcp :: "nat \<Rightarrow> bool option \<Rightarrow> 'k \<Rightarrow> ('k, 'u) netstack \<Rightarrow> ('k, 'u) netstack" where
  "add_tcp cap resp k s = s\<lparr>ns_next_id := ns_next_id s + 1, ns_tcp := ns_tcp s @ [(ns_next_id s, fresh_conn cap resp k)]\<rparr>"

datatype ns_cmd = Open_Tcp socket_addr bool | Open_Udp bool | Set_Addrs "(ipv4 \<times> nat) option" "(ipv6 \<times> nat) option" | Enable_Accept

fun handle_cmd :: "'k tcp_lib \<Rightarrow> 'u udp_lib \<Rightarrow> tuning \<Rightarrow> ns_cmd \<Rightarrow> ('k, 'u) netstack \<Rightarrow> ('k, 'u) netstack \<times> ns_out list" where
  "handle_cmd lib ulib t (Open_Tcp dst alive) s = (
     let (port, next_port) = alloc_port (ns_next_port s); s = s\<lparr>ns_next_port := next_port\<rparr>
     in case tk_connect lib dst port of
       Inl e \<Rightarrow> (s, [Open_Rejected (''connect: '' @ e)])
     | Inr k \<Rightarrow> (add_tcp (tn_channel_capacity t) (Some alive) k s, []))"
| "handle_cmd lib ulib t (Open_Udp alive) s = (
     let (port, next_port) = alloc_port (ns_next_port s); s = s\<lparr>ns_next_port := next_port\<rparr>
     in case uk_bind ulib port of
       Inl e \<Rightarrow> (s, [Udp_Rejected (''bind: '' @ e)])
     | Inr k \<Rightarrow> (s\<lparr>ns_next_id := ns_next_id s + 1, ns_udp := ns_udp s @
           [(ns_next_id s, \<lparr>uc_socket = k, uc_to_app = \<lparr>ch_queue = [], ch_cap = tn_channel_capacity t, ch_closed = \<not> alive\<rparr>\<rparr>)]\<rparr>,
         if alive then [Udp_Opened (ns_next_id s)] else []))"
| "handle_cmd lib ulib t (Set_Addrs v4 v6) s = (s\<lparr>ns_addrs := apply_addrs v4 v6 (ns_addrs s)\<rparr>, [])"
| "handle_cmd lib ulib t Enable_Accept s = (s\<lparr>ns_accepting := True\<rparr>, [])"

datatype data_in = Data_Tcp nat bytes | Data_Tcp_Close nat | Data_Udp nat socket_addr bytes | Data_Udp_Close nat

definition on_id :: "nat \<Rightarrow> ('c \<Rightarrow> 'c) \<Rightarrow> (nat \<times> 'c) list \<Rightarrow> (nat \<times> 'c) list" where
  "on_id i f = map (\<lambda>(j, c). if j = i then (j, f c) else (j, c))"

fun handle_data_in :: "'u udp_lib \<Rightarrow> data_in \<Rightarrow> ('k, 'u) netstack \<Rightarrow> ('k, 'u) netstack" where
  "handle_data_in ulib (Data_Tcp i d) s = s\<lparr>ns_tcp := on_id i (\<lambda>c. c\<lparr>tc_pending := tc_pending c @ d\<rparr>) (ns_tcp s)\<rparr>"
| "handle_data_in ulib (Data_Tcp_Close i) s = s\<lparr>ns_tcp := on_id i (\<lambda>c. c\<lparr>tc_half_closed := True\<rparr>) (ns_tcp s)\<rparr>"
| "handle_data_in ulib (Data_Udp i dst d) s = s\<lparr>ns_udp := on_id i (\<lambda>c. c\<lparr>uc_socket := uk_send ulib d dst (uc_socket c)\<rparr>) (ns_udp s)\<rparr>"
| "handle_data_in ulib (Data_Udp_Close i) s = s\<lparr>ns_udp := filter (\<lambda>(j, _). j \<noteq> i) (ns_udp s)\<rparr>"

section \<open>Packets\<close>

definition is_tcp_syn :: "bytes \<Rightarrow> bool panics" where
  "is_tcp_syn pkt =
     (if length pkt < 40 then Some False
      else do {
        b0 \<leftarrow> idx pkt 0;
        if drop_bit 4 b0 \<noteq> 4 then Some False
        else do {
          proto \<leftarrow> idx pkt 9;
          if proto \<noteq> 6 then Some False
          else let ihl = unat (b0 AND 0x0f) * 4 in
            if length pkt < ihl + 20 then Some False
            else do {
              tcp \<leftarrow> slice pkt ihl (length pkt);
              flags \<leftarrow> idx tcp 13;
              Some (flags AND 0x02 \<noteq> 0 \<and> flags AND 0x10 = 0)
            }
        }
      })"

definition parse_tcp_syn :: "bytes \<Rightarrow> (socket_addr \<times> socket_addr) option panics" where
  "parse_tcp_syn pkt =
     (if length pkt < 40 then Some None
      else do {
        b0 \<leftarrow> idx pkt 0;
        if drop_bit 4 b0 \<noteq> 4 then Some None
        else let ihl = unat (b0 AND 0x0f) * 4 in
          if length pkt < ihl + 20 then Some None
          else do {
            a \<leftarrow> idx pkt 12; b \<leftarrow> idx pkt 13; c \<leftarrow> idx pkt 14; d \<leftarrow> idx pkt 15;
            e \<leftarrow> idx pkt 16; f \<leftarrow> idx pkt 17; g \<leftarrow> idx pkt 18; h \<leftarrow> idx pkt 19;
            tcp \<leftarrow> slice pkt ihl (length pkt);
            s0 \<leftarrow> idx tcp 0; s1 \<leftarrow> idx tcp 1; d0 \<leftarrow> idx tcp 2; d1 \<leftarrow> idx tcp 3;
            Some (Some (\<lparr>sa_ip = V4 (ipv4_of e f g h), sa_port = be16 d0 d1\<rparr>, \<lparr>sa_ip = V4 (ipv4_of a b c d), sa_port = be16 s0 s1\<rparr>))
          }
      })"

text \<open>
  The arm of \<open>inbound_rx\<close>: the packet it received, and those that wait behind it. Only the first
  one is looked at in accept mode.
\<close>

definition listen_for :: "'k tcp_lib \<Rightarrow> tuning \<Rightarrow> bytes \<Rightarrow> ('k, 'u) netstack \<Rightarrow> ('k, 'u) netstack panics" where
  "listen_for lib t pkt s =
     (if \<not> ns_accepting s then Some s
      else do {
        syn \<leftarrow> is_tcp_syn pkt;
        if \<not> syn then Some s
        else do {
          parsed \<leftarrow> parse_tcp_syn pkt;
          Some (case parsed of
            Some (dst, src) \<Rightarrow> (case tk_listen lib dst of Some k \<Rightarrow> add_tcp (tn_channel_capacity t) None k s | None \<Rightarrow> s)
          | None \<Rightarrow> s)
        }
      })"

definition ingest :: "'k tcp_lib \<Rightarrow> tuning \<Rightarrow> bytes \<Rightarrow> bytes list \<Rightarrow> ('k, 'u) netstack \<Rightarrow> (('k, 'u) netstack \<times> nat) panics" where
  "ingest lib t pkt waiting s = do {
     s \<leftarrow> listen_for lib t pkt s;
     let taken = take max_ingest_per_tick waiting;
     Some (s\<lparr>ns_rx := ns_rx s @ pkt # taken\<rparr>, length pkt + sum_list (map length taken))
   }"

fun flush_tx :: "bytes list \<Rightarrow> bytes channel \<Rightarrow> bytes list \<times> bytes channel \<times> nat \<times> nat" where
  "flush_tx [] ch = ([], ch, 0, 0)"
| "flush_tx (pkt # tx) ch = (case try_send ch pkt of
     Inr ch \<Rightarrow> (case flush_tx tx ch of (tx, ch, sent, dropped) \<Rightarrow> (tx, ch, sent + length pkt, dropped))
   | Inl Full \<Rightarrow> (case flush_tx tx ch of (tx, ch, sent, dropped) \<Rightarrow> (tx, ch, sent, dropped + 1))
   | Inl Closed \<Rightarrow> (tx, ch, 0, 0))"

definition next_delay :: "bool \<Rightarrow> bool \<Rightarrow> nat option \<Rightarrow> nat option" where
  "next_delay busy idle polled =
     (if busy then Some backpressure_retry
      else if idle then polled
      else Some (case polled of Some d \<Rightarrow> min d max_idle_tick | None \<Rightarrow> max_idle_tick))"

section \<open>The loop\<close>

text \<open>
  One turn of \<open>run\<close>: poll the stack (a panic inside it empties both packet queues), serve the
  connections, send what the stack produced, and then whatever \<open>select!\<close> returned. The poll is a
  parameter; it sees the addresses, the packets that wait and every socket. The traffic report that
  is due once a second is output only and left out.
\<close>

type_synonym ('k, 'u) poll = "iface_addrs \<Rightarrow> bytes list \<Rightarrow> 'k list \<Rightarrow> 'u list \<Rightarrow> bool \<times> bytes list \<times> bytes list \<times> 'k list \<times> 'u list"

definition poll_stack :: "('k, 'u) poll \<Rightarrow> ('k, 'u) netstack \<Rightarrow> ('k, 'u) netstack" where
  "poll_stack poll s = (
     case poll (ns_addrs s) (ns_rx s) (map (\<lambda>(_, c). tc_socket c) (ns_tcp s)) (map (\<lambda>(_, c). uc_socket c) (ns_udp s)) of
       (panicked, rx, sent, ks, us) \<Rightarrow>
         s\<lparr>ns_rx := if panicked then [] else rx, ns_tx := if panicked then [] else ns_tx s @ sent,
           ns_tcp := map2 (\<lambda>(i, c) k. (i, c\<lparr>tc_socket := k\<rparr>)) (ns_tcp s) ks,
           ns_udp := map2 (\<lambda>(i, c) k. (i, c\<lparr>uc_socket := k\<rparr>)) (ns_udp s) us\<rparr>)"

record ('k, 'u) stack_run =
  sr_stack :: "('k, 'u) netstack"
  sr_outbound :: "bytes channel"
  sr_rx_total :: nat
  sr_tx_total :: nat
  sr_dropped :: nat
  sr_out :: "ns_out list"
  sr_delay :: "nat option"

definition u64_max :: nat where "u64_max = 18446744073709551615"

definition serve :: "'k tcp_lib \<Rightarrow> 'u udp_lib \<Rightarrow> ('k, 'u) poll \<Rightarrow> nat option \<Rightarrow> ('k, 'u) stack_run \<Rightarrow> ('k, 'u) stack_run" where
  "serve lib ulib poll polled r = (
     let s = poll_stack poll (sr_stack r);
       (tcps, out, tcp_busy) = service_tcp lib (ns_accepting s) (ns_tcp s);
       (udps, udp_busy) = service_udp ulib (ns_udp s);
       (tx, ch, sent, dropped) = flush_tx (ns_tx s) (sr_outbound r)
     in r\<lparr>sr_stack := s\<lparr>ns_tcp := tcps, ns_udp := udps, ns_tx := tx\<rparr>, sr_outbound := ch,
          sr_tx_total := min u64_max (sr_tx_total r + sent), sr_dropped := min u64_max (sr_dropped r + dropped),
          sr_out := sr_out r @ out, sr_delay := next_delay (tcp_busy \<or> udp_busy) (tcps = [] \<and> udps = []) polled\<rparr>)"

datatype ns_event = Ev_Packet bytes "bytes list" | Ev_Inbound_Closed | Ev_Cmd ns_cmd | Ev_Handle_Dropped
  | Ev_Data "data_in list" | Ev_Slept

text \<open>What \<open>select!\<close> returned: the next state, \<open>Some None\<close> for \<open>return Ok(())\<close>, \<open>None\<close> for a panic.\<close>

fun handle_event :: "'k tcp_lib \<Rightarrow> 'u udp_lib \<Rightarrow> tuning \<Rightarrow> ns_event \<Rightarrow> ('k, 'u) stack_run \<Rightarrow> ('k, 'u) stack_run option panics" where
  "handle_event lib ulib t (Ev_Packet pkt waiting) r = do {
     (s, n) \<leftarrow> ingest lib t pkt waiting (sr_stack r);
     Some (Some (r\<lparr>sr_stack := s, sr_rx_total := sr_rx_total r + n\<rparr>))
   }"
| "handle_event lib ulib t Ev_Inbound_Closed r = Some None"
| "handle_event lib ulib t (Ev_Cmd cmd) r = (case handle_cmd lib ulib t cmd (sr_stack r) of (s, out) \<Rightarrow>
     Some (Some (r\<lparr>sr_stack := s, sr_out := sr_out r @ out\<rparr>)))"
| "handle_event lib ulib t Ev_Handle_Dropped r = Some None"
| "handle_event lib ulib t (Ev_Data ds) r = Some (Some (r\<lparr>sr_stack := fold (handle_data_in ulib) ds (sr_stack r)\<rparr>))"
| "handle_event lib ulib t Ev_Slept r = Some (Some r)"

definition stack_turn :: "'k tcp_lib \<Rightarrow> 'u udp_lib \<Rightarrow> tuning \<Rightarrow> ('k, 'u) poll \<Rightarrow> nat option \<Rightarrow> ns_event \<Rightarrow>
    ('k, 'u) stack_run \<Rightarrow> ('k, 'u) stack_run option panics" where
  "stack_turn lib ulib t poll polled ev r = handle_event lib ulib t ev (serve lib ulib poll polled r)"

section \<open>Packets are read safely and leave in order\<close>

lemma runs_is_tcp_syn [no_panic]: "runs (is_tcp_syn pkt)"
  unfolding is_tcp_syn_def by (intro no_panic) (auto simp: slice_eq_None_conv intro: no_panic)

lemma runs_parse_tcp_syn [no_panic]: "runs (parse_tcp_syn pkt)"
  unfolding parse_tcp_syn_def by (intro no_panic) auto

lemma runs_ingest: "runs (ingest lib t pkt waiting s)"
  unfolding ingest_def listen_for_def by (intro no_panic)

text \<open>The stack answers every event without a panic of its own, whatever the library returns.\<close>

lemma stack_turn_never_panics: "stack_turn lib ulib t poll polled ev r \<noteq> None"
proof -
  have "runs (handle_event lib ulib t ev (serve lib ulib poll polled r))"
    by (cases ev) (auto intro!: no_panic runs_ingest split: prod.split)
  then show ?thesis by (simp add: stack_turn_def runs_def)
qed

lemma flush_tx_spec:
  "flush_tx tx ch = (left, ch', sent, dropped) \<Longrightarrow> channel_wf ch \<Longrightarrow>
   if ch_closed ch then ch' = ch
   else left = [] \<and> channel_wf ch' \<and> dropped \<le> length tx \<and>
     (\<exists>kept. ch_queue ch' = ch_queue ch @ kept \<and> kept = take (ch_cap ch - length (ch_queue ch)) tx \<and>
        sent = sum_list (map length kept) \<and> dropped = length tx - length kept)"
proof (induction tx arbitrary: ch left ch' sent dropped)
  case (Cons pkt tx)
  show ?case
  proof (cases "ch_closed ch \<or> length (ch_queue ch) = ch_cap ch")
    case True
    show ?thesis
    proof (cases "ch_closed ch")
      case True
      then show ?thesis using Cons.prems by (simp add: try_send_def)
    next
      case op: False
      with True have full: "length (ch_queue ch) = ch_cap ch" by simp
      obtain l c st d where rest: "flush_tx tx ch = (l, c, st, d)" by (metis prod_cases4)
      with full op Cons.prems(1) have "left = l" "ch' = c" "sent = st" "dropped = d + 1" by (auto simp: try_send_def)
      with Cons.IH[OF rest Cons.prems(2)] op full show ?thesis by simp
    qed
  next
    case False
    then have lt: "length (ch_queue ch) < ch_cap ch" and op: "\<not> ch_closed ch" using Cons.prems by (auto simp: channel_wf_def)
    define ch1 where "ch1 = ch\<lparr>ch_queue := ch_queue ch @ [pkt]\<rparr>"
    have send: "try_send ch pkt = Inr ch1" using lt op by (simp add: try_send_def ch1_def)
    obtain l c st d where rest: "flush_tx tx ch1 = (l, c, st, d)" by (metis prod_cases4)
    have "channel_wf ch1" using lt by (simp add: ch1_def channel_wf_def)
    from Cons.IH[OF rest this] have *: "l = [] \<and> channel_wf c \<and> d \<le> length tx \<and>
      (\<exists>kept. ch_queue c = ch_queue ch1 @ kept \<and> kept = take (ch_cap ch1 - length (ch_queue ch1)) tx \<and>
        st = sum_list (map length kept) \<and> d = length tx - length kept)" using op by (simp add: ch1_def)
    have eq: "left = l" "ch' = c" "sent = st + length pkt" "dropped = d" using Cons.prems(1) send rest by auto
    obtain m where m: "ch_cap ch - length (ch_queue ch) = Suc m" using lt by (metis Suc_diff_Suc)
    then have mm: "ch_cap ch - Suc (length (ch_queue ch)) = m" by simp
    then have m': "ch_cap ch1 - length (ch_queue ch1) = m" by (simp add: ch1_def)
    show ?thesis using * op m mm by (auto simp: eq m' ch1_def)
  qed
qed (auto simp: channel_wf_def)

section \<open>The streams of a connection\<close>

text \<open>
  What the code relies on from the library, with two observers of a socket: the bytes it has
  accepted for sending, and those it has handed out. Sending accepts a prefix, receiving hands out
  the next chunk, and nothing else the loop calls changes either.
\<close>

definition tcp_law :: "'k tcp_lib \<Rightarrow> ('k \<Rightarrow> bytes) \<Rightarrow> ('k \<Rightarrow> bytes) \<Rightarrow> bool" where
  "tcp_law lib accepted handed \<longleftrightarrow>
     (\<forall>k d r k'. tk_send lib d k = (r, k') \<longrightarrow>
        accepted k' = accepted k @ (case r of Some n \<Rightarrow> take n d | None \<Rightarrow> []) \<and> handed k' = handed k)
     \<and> (\<forall>k. accepted (tk_close lib k) = accepted k \<and> handed (tk_close lib k) = handed k)
     \<and> (\<forall>k r k'. tk_recv lib k = (r, k') \<longrightarrow>
        handed k' = handed k @ (case r of Some d \<Rightarrow> d | None \<Rightarrow> []) \<and> accepted k' = accepted k)"

lemma tcp_law_send:
  "tcp_law lib accepted handed \<Longrightarrow> tk_send lib d k = (r, k') \<Longrightarrow>
   accepted k' = accepted k @ (case r of Some n \<Rightarrow> take n d | None \<Rightarrow> []) \<and> handed k' = handed k"
  by (simp add: tcp_law_def)

lemma tcp_law_recv:
  "tcp_law lib accepted handed \<Longrightarrow> tk_recv lib k = (r, k') \<Longrightarrow>
   handed k' = handed k @ (case r of Some d \<Rightarrow> d | None \<Rightarrow> []) \<and> accepted k' = accepted k"
  by (simp add: tcp_law_def)

lemma tcp_law_close:
  "tcp_law lib accepted handed \<Longrightarrow> accepted (tk_close lib k) = accepted k \<and> handed (tk_close lib k) = handed k"
  by (simp add: tcp_law_def)

text \<open>
  What happens to one connection: the application writes, closes its half or reads the next chunk
  (or drops its receiver), the loop serves it, or the stack polls the socket, which does not move
  bytes between the socket and the loop.
\<close>

datatype 'k conn_event = C_Write bytes | C_Half_Close | C_Read | C_Drop | C_Serve bool | C_Poll "'k \<Rightarrow> 'k"

record 'k conn_run =
  cr_conn :: "'k tcp_conn"
  cr_written :: bytes
  cr_read :: bytes

definition conn_event_ok :: "('k \<Rightarrow> bytes) \<Rightarrow> ('k \<Rightarrow> bytes) \<Rightarrow> 'k conn_event \<Rightarrow> bool" where
  "conn_event_ok accepted handed ev =
     (case ev of C_Poll f \<Rightarrow> \<forall>k. accepted (f k) = accepted k \<and> handed (f k) = handed k | _ \<Rightarrow> True)"

fun conn_step :: "'k tcp_lib \<Rightarrow> nat \<Rightarrow> 'k conn_event \<Rightarrow> 'k conn_run \<Rightarrow> 'k conn_run option" where
  "conn_step lib i (C_Write d) r = Some (r\<lparr>cr_conn := (cr_conn r)\<lparr>tc_pending := tc_pending (cr_conn r) @ d\<rparr>, cr_written := cr_written r @ d\<rparr>)"
| "conn_step lib i C_Half_Close r = Some (r\<lparr>cr_conn := (cr_conn r)\<lparr>tc_half_closed := True\<rparr>\<rparr>)"
| "conn_step lib i C_Read r = Some (case ch_queue (tc_to_app (cr_conn r)) of
     [] \<Rightarrow> r
   | d # ds \<Rightarrow> r\<lparr>cr_conn := (cr_conn r)\<lparr>tc_to_app := (tc_to_app (cr_conn r))\<lparr>ch_queue := ds\<rparr>\<rparr>, cr_read := cr_read r @ d\<rparr>)"
| "conn_step lib i C_Drop r = Some (r\<lparr>cr_conn := close_app (cr_conn r)\<rparr>)"
| "conn_step lib i (C_Serve accepting) r = (case service_conn lib accepting i (cr_conn r) of
     (Some c, _) \<Rightarrow> Some (r\<lparr>cr_conn := c\<rparr>)
   | (None, _) \<Rightarrow> None)"
| "conn_step lib i (C_Poll f) r = Some (r\<lparr>cr_conn := (cr_conn r)\<lparr>tc_socket := f (tc_socket (cr_conn r))\<rparr>\<rparr>)"

fun conn_steps :: "'k tcp_lib \<Rightarrow> nat \<Rightarrow> 'k conn_event list \<Rightarrow> 'k conn_run \<Rightarrow> 'k conn_run option" where
  "conn_steps lib i [] r = Some r"
| "conn_steps lib i (ev # evs) r = (case conn_step lib i ev r of Some r \<Rightarrow> conn_steps lib i evs r | None \<Rightarrow> None)"

text \<open>Nothing is lost, doubled or reordered, in either direction, and the application's queue keeps its bound.\<close>

definition streams_kept :: "('k \<Rightarrow> bytes) \<Rightarrow> ('k \<Rightarrow> bytes) \<Rightarrow> 'k conn_run \<Rightarrow> bool" where
  "streams_kept accepted handed r \<longleftrightarrow>
     accepted (tc_socket (cr_conn r)) @ tc_pending (cr_conn r) = cr_written r
     \<and> cr_read r @ concat (ch_queue (tc_to_app (cr_conn r))) = handed (tc_socket (cr_conn r))
     \<and> channel_wf (tc_to_app (cr_conn r))"

text \<open>The part of it that one connection shows: what it carries in each direction.\<close>

definition carried_up :: "('k \<Rightarrow> bytes) \<Rightarrow> 'k tcp_conn \<Rightarrow> bytes" where
  "carried_up accepted c = accepted (tc_socket c) @ tc_pending c"

definition carries_down :: "('k \<Rightarrow> bytes) \<Rightarrow> bytes \<Rightarrow> 'k tcp_conn \<Rightarrow> bool" where
  "carries_down handed read c \<longleftrightarrow>
     read @ concat (ch_queue (tc_to_app c)) = handed (tc_socket c) \<and> channel_wf (tc_to_app c)"

lemma notify_established_fields:
  "notify_established lib accepting i c = (c', out) \<Longrightarrow>
   tc_socket c' = tc_socket c \<and> tc_pending c' = tc_pending c \<and> ch_queue (tc_to_app c') = ch_queue (tc_to_app c)
   \<and> ch_cap (tc_to_app c') = ch_cap (tc_to_app c) \<and> tc_established c'"
  by (auto simp: notify_established_def close_app_def Let_def split: option.splits bool.splits if_splits)

lemma recv_chunks_carries:
  "recv_chunks lib n k ch = (k', ch', busy, gone) \<Longrightarrow> tcp_law lib accepted handed \<Longrightarrow>
   read @ concat (ch_queue ch) = handed k \<Longrightarrow> channel_wf ch \<Longrightarrow>
   read @ concat (ch_queue ch') = handed k' \<and> channel_wf ch' \<and> accepted k' = accepted k"
proof (induction n arbitrary: k ch)
  case (Suc n)
  obtain r k1 where recv: "tk_recv lib k = (r, k1)" by (rule prod.exhaust)
  note law = tcp_law_recv [OF Suc.prems(2) recv]
  have next_chunk: "r = Some d \<Longrightarrow> length (ch_queue ch) < ch_cap ch \<Longrightarrow>
      recv_chunks lib n k1 (ch\<lparr>ch_queue := ch_queue ch @ [d]\<rparr>) = (k', ch', busy, gone) \<Longrightarrow>
      read @ concat (ch_queue ch') = handed k' \<and> channel_wf ch' \<and> accepted k' = accepted k" for d
    using Suc.IH [of k1 "ch\<lparr>ch_queue := ch_queue ch @ [d]\<rparr>"] Suc.prems law by (auto simp: channel_wf_def)
  show ?case using Suc.prems recv law next_chunk
    by (cases r) (auto split: if_splits)
qed auto

lemma transfer_carries:
  assumes "tcp_law lib accepted handed" and "carries_down handed read c" and "transfer lib c = (c', busy)"
  shows "carried_up accepted c' = carried_up accepted c \<and> carries_down handed read c' \<and> tc_established c' = tc_established c"
proof -
  note close = tcp_law_close [OF assms(1)]
  define c1 where "c1 = send_pending lib c"
  have c1: "carried_up accepted c1 = carried_up accepted c \<and> carries_down handed read c1 \<and> tc_established c1 = tc_established c"
  proof -
    obtain r k where send: "tk_send lib (tc_pending c) (tc_socket c) = (r, k)" by (rule prod.exhaust)
    with assms(2) tcp_law_send [OF assms(1) send] show ?thesis
      by (cases r) (auto simp: c1_def send_pending_def carried_up_def carries_down_def)
  qed
  define c2 where "c2 = (if tc_half_closed c1 \<and> tc_pending c1 = [] then close_socket lib c1 else c1)"
  have c2: "carried_up accepted c2 = carried_up accepted c \<and> carries_down handed read c2 \<and> tc_established c2 = tc_established c"
    using c1 by (auto simp: c2_def close_socket_def carried_up_def carries_down_def close)
  obtain k ch b gone where recv: "recv_chunks lib max_recv_chunks (tc_socket c2) (tc_to_app c2) = (k, ch, b, gone)"
    by (metis prod_cases4)
  have "read @ concat (ch_queue ch) = handed k \<and> channel_wf ch \<and> accepted k = accepted (tc_socket c2)"
    using recv_chunks_carries [OF recv assms(1), of read] c2 by (simp add: carries_down_def)
  moreover have "c' = (if gone then close_socket lib (c2\<lparr>tc_socket := k, tc_to_app := ch\<rparr>) else c2\<lparr>tc_socket := k, tc_to_app := ch\<rparr>)"
    using assms(3) recv unfolding transfer_def Let_def c1_def [symmetric] c2_def [symmetric] by (simp split: if_splits)
  ultimately show ?thesis using c2 by (auto simp: close_socket_def carried_up_def carries_down_def close)
qed

lemma service_conn_carries:
  assumes "tcp_law lib accepted handed" and "carries_down handed read c" and "service_conn lib accepting i c = (Some c', out, busy)"
  shows "carried_up accepted c' = carried_up accepted c \<and> carries_down handed read c'"
proof -
  note close = tcp_law_close [OF assms(1)]
  obtain c1 out1 where note1: "(if \<not> tc_established c \<and> tk_state lib (tc_socket c) = S_Established
      then notify_established lib accepting i c else (c, [])) = (c1, out1)" by (rule prod.exhaust)
  then have c1: "carried_up accepted c1 = carried_up accepted c \<and> carries_down handed read c1"
    using assms(2) notify_established_fields [of lib accepting i c c1 out1]
    by (auto simp: carried_up_def carries_down_def channel_wf_def split: if_splits)
  obtain c2 b where move: "transfer lib c1 = (c2, b)" by (rule prod.exhaust)
  note c2 = transfer_carries [OF assms(1) conjunct2 [OF c1] move]
  have "c' = (if tk_state lib (tc_socket c2) = S_Close_Wait then close_socket lib c2 else c2)"
    using assms(3) note1 move unfolding service_conn_def Let_def by (auto split: if_splits)
  then show ?thesis using c1 c2 by (auto simp: close_socket_def carried_up_def carries_down_def close)
qed

lemma streams_kept_split: "streams_kept accepted handed r \<longleftrightarrow>
   carried_up accepted (cr_conn r) = cr_written r \<and> carries_down handed (cr_read r) (cr_conn r)"
  by (auto simp: streams_kept_def carried_up_def carries_down_def)

lemma conn_step_carries:
  assumes "tcp_law lib accepted handed" and "conn_event_ok accepted handed ev" and "streams_kept accepted handed r"
    and "conn_step lib i ev r = Some r'"
  shows "streams_kept accepted handed r'"
proof -
  note split_kept = streams_kept_split
  show ?thesis
  proof (cases ev)
    case (C_Serve accepting)
    then show ?thesis using assms service_conn_carries [OF assms(1), of "cr_read r" "cr_conn r" accepting i]
      by (auto simp: split_kept split: option.splits prod.splits)
  next
    case C_Read
    then show ?thesis using assms by (auto simp: streams_kept_def channel_wf_def split: list.splits)
  qed (use assms in \<open>auto simp: streams_kept_def channel_wf_def close_app_def conn_event_ok_def\<close>)
qed

text \<open>The connection as a turn of the loop has it when it looks whether to take it out of the table.\<close>

definition before_removal :: "'k tcp_lib \<Rightarrow> bool \<Rightarrow> nat \<Rightarrow> 'k tcp_conn \<Rightarrow> 'k tcp_conn" where
  "before_removal lib accepting i c = fst (transfer lib
     (if \<not> tc_established c \<and> tk_state lib (tc_socket c) = S_Established then fst (notify_established lib accepting i c) else c))"

lemma before_removal_carries:
  assumes "tcp_law lib accepted handed" and "carries_down handed read c"
  shows "carried_up accepted (before_removal lib accepting i c) = carried_up accepted c
    \<and> carries_down handed read (before_removal lib accepting i c)"
proof -
  let ?c = "if \<not> tc_established c \<and> tk_state lib (tc_socket c) = S_Established then fst (notify_established lib accepting i c) else c"
  have c1: "carried_up accepted ?c = carried_up accepted c \<and> carries_down handed read ?c"
    using assms(2) notify_established_fields [of lib accepting i c "fst (notify_established lib accepting i c)" "snd (notify_established lib accepting i c)"]
    by (auto simp: carried_up_def carries_down_def channel_wf_def)
  obtain c2 b where move: "transfer lib ?c = (c2, b)" by (rule prod.exhaust)
  from transfer_carries [OF assms(1) conjunct2 [OF c1] move] c1 show ?thesis unfolding before_removal_def move by simp
qed

lemma service_conn_removes:
  assumes "service_conn lib accepting i c = (None, out, busy)"
  shows "\<not> tc_established c \<and> (tk_state lib (tc_socket c) = S_Closed \<or> tk_state lib (tc_socket c) = S_Time_Wait)
    \<or> tk_state lib (tc_socket (before_removal lib accepting i c)) = S_Closed
      \<and> (tc_established c \<or> tk_state lib (tc_socket c) = S_Established)"
proof (cases "\<not> tc_established c \<and> tk_state lib (tc_socket c) = S_Established")
  case True
  obtain c1 out1 where n: "notify_established lib accepting i c = (c1, out1)" by (rule prod.exhaust)
  obtain c2 b where m: "transfer lib c1 = (c2, b)" by (rule prod.exhaust)
  from True n m assms show ?thesis by (auto simp: service_conn_def before_removal_def Let_def split: if_splits)
next
  case False
  obtain c2 b where m: "transfer lib c = (c2, b)" by (rule prod.exhaust)
  have "tc_established c2 = tc_established c"
    using m by (auto simp: transfer_def send_pending_def close_socket_def Let_def split: prod.splits if_splits)
  with False m assms show ?thesis by (auto simp: service_conn_def before_removal_def Let_def split: if_splits)
qed

lemma conn_step_removes:
  assumes "conn_step lib i ev r = None"
  obtains accepting out busy where "ev = C_Serve accepting" "service_conn lib accepting i (cr_conn r) = (None, out, busy)"
  using assms by (cases ev) (auto split: prod.splits option.splits)

lemma conn_steps_kept:
  assumes "tcp_law lib accepted handed" and "list_all (conn_event_ok accepted handed) evs"
    and "streams_kept accepted handed r" and "conn_steps lib i evs r = Some r'"
  shows "streams_kept accepted handed r'"
  using assms(2-4)
proof (induction evs arbitrary: r)
  case (Cons ev evs)
  then obtain r1 where "conn_step lib i ev r = Some r1" "conn_steps lib i evs r1 = Some r'"
    by (auto split: option.splits)
  with Cons show ?case using conn_step_carries [OF assms(1), of ev r i r1] by simp
qed simp

lemma conn_steps_removed:
  "conn_steps lib i evs r = None \<Longrightarrow> \<exists>before accepting later r1 out busy. evs = before @ C_Serve accepting # later
     \<and> conn_steps lib i before r = Some r1 \<and> service_conn lib accepting i (cr_conn r1) = (None, out, busy)"
proof (induction evs arbitrary: r)
  case (Cons ev evs)
  show ?case
  proof (cases "conn_step lib i ev r")
    case None
    then obtain accepting out busy where "ev = C_Serve accepting" "service_conn lib accepting i (cr_conn r) = (None, out, busy)"
      by (rule conn_step_removes)
    then show ?thesis
      by (intro exI [of _ "[]"] exI [of _ accepting] exI [of _ evs] exI [of _ r] exI [of _ out] exI [of _ busy]) simp
  next
    case (Some r1)
    with Cons.prems have "conn_steps lib i evs r1 = None" by simp
    from Cons.IH [OF this] obtain before accepting later r2 out busy where "evs = before @ C_Serve accepting # later"
      "conn_steps lib i before r1 = Some r2" "service_conn lib accepting i (cr_conn r2) = (None, out, busy)" by blast
    with Some show ?thesis
      by (intro exI [of _ "ev # before"] exI [of _ accepting] exI [of _ later] exI [of _ r2] exI [of _ out] exI [of _ busy]) simp
  qed
qed simp

text \<open>How a connection leaves the table: with both streams kept, and its socket closed.\<close>

definition leaves_with :: "'k tcp_lib \<Rightarrow> ('k \<Rightarrow> bytes) \<Rightarrow> ('k \<Rightarrow> bytes) \<Rightarrow> bool \<Rightarrow> nat \<Rightarrow> 'k conn_run \<Rightarrow> bool" where
  "leaves_with lib accepted handed accepting i r \<longleftrightarrow> (let c = cr_conn r; last = before_removal lib accepting i c in
     accepted (tc_socket last) @ tc_pending last = cr_written r
     \<and> cr_read r @ concat (ch_queue (tc_to_app last)) = handed (tc_socket last)
     \<and> (if \<not> tc_established c \<and> tk_state lib (tc_socket c) \<noteq> S_Established
        then tk_state lib (tc_socket c) = S_Closed \<or> tk_state lib (tc_socket c) = S_Time_Wait
        else tk_state lib (tc_socket last) = S_Closed))"

text \<open>C32: In every order of writes, reads, closes, polls and turns of the loop, both byte streams of a connection
  are kept as long as it is in the table: what the socket accepted and what still waits is what the
  application wrote, what the application read and what waits for it is what the socket handed out,
  and the application's queue never exceeds its capacity. It leaves the table in a turn of the
  loop only, with both streams kept up to that point, and only when it was never established and its
  socket is closed or in TIME-WAIT, or when its socket is closed after that turn's transfer; what the
  socket has not accepted by then is gone.
\<close>

theorem both_streams_are_kept:
  assumes "tcp_law lib accepted handed" and "list_all (conn_event_ok accepted handed) evs"
    and "streams_kept accepted handed r"
  shows "case conn_steps lib i evs r of
     Some r' \<Rightarrow> accepted (tc_socket (cr_conn r')) @ tc_pending (cr_conn r') = cr_written r'
       \<and> cr_read r' @ concat (ch_queue (tc_to_app (cr_conn r'))) = handed (tc_socket (cr_conn r'))
       \<and> length (ch_queue (tc_to_app (cr_conn r'))) \<le> ch_cap (tc_to_app (cr_conn r'))
   | None \<Rightarrow> \<exists>before accepting later r1. evs = before @ C_Serve accepting # later
       \<and> conn_steps lib i before r = Some r1 \<and> leaves_with lib accepted handed accepting i r1"
proof (cases "conn_steps lib i evs r")
  case (Some r')
  then show ?thesis using conn_steps_kept [OF assms Some] by (simp add: streams_kept_def channel_wf_def)
next
  case None
  from conn_steps_removed [OF None] obtain before accepting later r1 out busy where
      b: "evs = before @ C_Serve accepting # later" "conn_steps lib i before r = Some r1"
    and out: "service_conn lib accepting i (cr_conn r1) = (None, out, busy)" by blast
  have "streams_kept accepted handed r1"
    using conn_steps_kept [OF assms(1) _ assms(3) b(2)] assms(2) unfolding b(1) by simp
  then have kept: "carried_up accepted (cr_conn r1) = cr_written r1" "carries_down handed (cr_read r1) (cr_conn r1)"
    by (simp_all add: streams_kept_split)
  have "leaves_with lib accepted handed accepting i r1"
    using before_removal_carries [OF assms(1) kept(2), of accepting i] kept(1) service_conn_removes [OF out]
    by (auto simp: leaves_with_def Let_def carried_up_def carries_down_def)
  with b None show ?thesis by auto
qed

text \<open>A socket that accepts two bytes at a time and hands out what was put into it.\<close>

record demo_socket =
  ds_state :: tcp_state
  ds_sent :: bytes
  ds_inbox :: "bytes list"
  ds_handed :: bytes

definition demo_tcp :: "demo_socket tcp_lib" where
  "demo_tcp = \<lparr>tk_state = ds_state, tk_can_send = (\<lambda>k. ds_state k = S_Established \<or> ds_state k = S_Close_Wait),
     tk_send = (\<lambda>d k. (Some (min 2 (length d)), k\<lparr>ds_sent := ds_sent k @ take (min 2 (length d)) d\<rparr>)),
     tk_close = (\<lambda>k. k\<lparr>ds_state := if ds_state k = S_Established then S_Fin_Wait1
        else if ds_state k = S_Close_Wait then S_Last_Ack else ds_state k\<rparr>),
     tk_can_recv = (\<lambda>k. ds_inbox k \<noteq> []),
     tk_recv = (\<lambda>k. case ds_inbox k of [] \<Rightarrow> (None, k)
        | d # ds \<Rightarrow> (Some d, k\<lparr>ds_inbox := ds, ds_handed := ds_handed k @ d\<rparr>)),
     tk_remote = (\<lambda>_. None), tk_local = (\<lambda>_. None),
     tk_connect = (\<lambda>_ _. Inr \<lparr>ds_state = S_Syn_Sent, ds_sent = [], ds_inbox = [], ds_handed = []\<rparr>),
     tk_listen = (\<lambda>_. Some \<lparr>ds_state = S_Listen, ds_sent = [], ds_inbox = [], ds_handed = []\<rparr>)\<rparr>"

lemma demo_tcp_law: "tcp_law demo_tcp ds_sent ds_handed"
  by (auto simp: tcp_law_def demo_tcp_def split: list.splits)

definition demo_open :: "demo_socket tcp_conn" where
  "demo_open = fresh_conn 2 (Some True) \<lparr>ds_state = S_Syn_Sent, ds_sent = [], ds_inbox = [], ds_handed = []\<rparr>"

definition server_speaks :: "bytes list \<Rightarrow> demo_socket \<Rightarrow> demo_socket" where
  "server_speaks ds k = k\<lparr>ds_state := S_Established, ds_inbox := ds_inbox k @ ds\<rparr>"

lemma both_streams_are_kept_witness:
  "case conn_steps demo_tcp 1 [C_Write [1, 2, 3], C_Poll (server_speaks [[7], [8, 9]]), C_Serve False, C_Read]
      \<lparr>cr_conn = demo_open, cr_written = [], cr_read = []\<rparr> of
     Some r \<Rightarrow> ds_sent (tc_socket (cr_conn r)) @ tc_pending (cr_conn r) = [1, 2, 3]
       \<and> cr_read r @ concat (ch_queue (tc_to_app (cr_conn r))) = [7, 8, 9]
   | None \<Rightarrow> False"
proof -
  let ?evs = "[C_Write [1, 2, 3], C_Poll (server_speaks [[7], [8, 9]]), C_Serve False, C_Read]"
  let ?r = "\<lparr>cr_conn = demo_open, cr_written = [], cr_read = []\<rparr>"
  have ok: "list_all (conn_event_ok ds_sent ds_handed) ?evs" by (simp add: conn_event_ok_def server_speaks_def)
  have start: "streams_kept ds_sent ds_handed ?r" by (simp add: streams_kept_def demo_open_def fresh_conn_def channel_wf_def)
  have "\<exists>r. conn_steps demo_tcp 1 ?evs ?r = Some r \<and> cr_written r = [1, 2, 3] \<and> ds_handed (tc_socket (cr_conn r)) = [7, 8, 9]"
    by (simp add: demo_tcp_def demo_open_def fresh_conn_def server_speaks_def service_conn_def notify_established_def
        transfer_def send_pending_def max_recv_chunks_def eval_nat_numeral Let_def)
  then obtain r where r: "conn_steps demo_tcp 1 ?evs ?r = Some r" "cr_written r = [1, 2, 3]" "ds_handed (tc_socket (cr_conn r)) = [7, 8, 9]"
    by blast
  with both_streams_are_kept [OF demo_tcp_law ok start, of 1] show ?thesis by simp
qed

section \<open>What the loop does not do\<close>

text \<open>
  Transparent accept: a connection that no \<open>open_tcp\<close> asked for is never handed over. The first
  \<open>if let\<close> of \<open>service_tcp\<close> has already taken the receiver, which is dropped, and the same turn
  closes the socket because its receiver is gone.
\<close>

lemma accepted_connections_are_dropped:
  assumes "tc_connect_resp c = None" and "tk_state lib (tc_socket c) = S_Established" and "\<not> tc_established c"
    and "tc_receiver_held c" and "service_conn lib accepting i c = (r, out, busy)"
  shows "out = [] \<and> (case r of Some c' \<Rightarrow> ch_closed (tc_to_app c') \<and> ch_queue (tc_to_app c') = ch_queue (tc_to_app c) | None \<Rightarrow> True)"
proof -
  obtain n where n: "max_recv_chunks = Suc n" by (simp add: max_recv_chunks_def)
  have closed: "transfer lib c1 = (c2, b) \<Longrightarrow> ch_closed (tc_to_app c1) \<Longrightarrow>
      ch_closed (tc_to_app c2) \<and> ch_queue (tc_to_app c2) = ch_queue (tc_to_app c1)" for c1 c2 b
    by (auto simp: transfer_def n Let_def send_pending_def close_socket_def split: prod.splits if_splits)
  show ?thesis using assms
    by (auto simp: service_conn_def notify_established_def close_app_def close_socket_def Let_def
        split: prod.splits if_splits dest!: closed)
qed

text \<open>
  The receiving half of the server can close while the application still writes. The loop closes
  the socket as soon as it sees \<open>CloseWait\<close>, whatever waits to be sent: when the library refuses
  data after \<open>close\<close>, those bytes are never sent.
\<close>

lemma half_closing_server_truncates_the_upload:
  assumes "tk_state lib (tc_socket c) = S_Close_Wait" and "tc_established c" and "\<not> tk_can_send lib (tc_socket c)"
    and "tc_pending c \<noteq> []" and "\<not> tk_can_recv lib (tc_socket c)" and "\<not> ch_closed (tc_to_app c)"
  shows "case service_conn lib accepting i c of (r, _) \<Rightarrow>
    r = Some (c\<lparr>tc_socket := tk_close lib (tc_socket c)\<rparr>)"
proof -
  obtain n where n: "max_recv_chunks = Suc n" by (simp add: max_recv_chunks_def)
  have "transfer lib c = (c, ch_cap (tc_to_app c) \<le> length (ch_queue (tc_to_app c)))"
    using assms by (simp add: transfer_def send_pending_def n Let_def)
  with assms show ?thesis by (simp add: service_conn_def close_socket_def Let_def)
qed

text \<open>
  In accept mode only the first packet of a drained burst is looked at: a connection request that
  arrives right behind another packet gets no socket to answer it.
\<close>

lemma burst_hides_connection_requests:
  "is_tcp_syn pkt = Some False \<Longrightarrow> \<exists>s' n. ingest lib t pkt waiting s = Some (s', n) \<and> ns_tcp s' = ns_tcp s"
  by (simp add: ingest_def listen_for_def Let_def)

text \<open>And every copy of the same request adds one more socket to the table.\<close>

lemma repeated_requests_add_sockets:
  assumes "ns_accepting s" and "is_tcp_syn pkt = Some True" and "\<And>a. tk_listen lib a \<noteq> None"
  shows "\<exists>s' n. ingest lib t pkt [] s = Some (s', n) \<and> length (ns_tcp s') = Suc (length (ns_tcp s)) \<and> ns_accepting s'"
proof -
  have "parse_tcp_syn pkt \<noteq> Some None" using assms(2)
    by (auto simp: is_tcp_syn_def parse_tcp_syn_def Let_def split: if_splits bind_splits)
  moreover have "parse_tcp_syn pkt \<noteq> None" using runs_parse_tcp_syn [of pkt] by (simp add: runs_def)
  ultimately obtain dst src where "parse_tcp_syn pkt = Some (Some (dst, src))" by auto
  moreover obtain k where "tk_listen lib dst = Some k" using assms(3) by blast
  ultimately show ?thesis using assms by (simp add: ingest_def listen_for_def add_tcp_def Let_def)
qed

section \<open>Ports and identifiers\<close>

definition conn_ids :: "('k, 'u) netstack \<Rightarrow> nat list" where
  "conn_ids s = map fst (ns_tcp s) @ map fst (ns_udp s)"

definition ids_fresh :: "('k, 'u) netstack \<Rightarrow> bool" where
  "ids_fresh s \<longleftrightarrow> distinct (conn_ids s) \<and> list_all (\<lambda>i. i < ns_next_id s) (conn_ids s)
     \<and> 49152 \<le> ns_next_port s \<and> ns_next_port s \<le> 65000"

lemma alloc_port_range:
  assumes "49152 \<le> p" and "p \<le> 65000"
  shows "49152 \<le> snd (alloc_port p) \<and> snd (alloc_port p) \<le> 65000"
proof (cases "65000 \<le> p")
  case False
  then have lt: "unat p < 65000" by (simp add: word_le_nat_alt)
  then have "unat (p + 1) = unat p + 1" using unat_of_nat_u16 [of "unat p + 1"] by (simp add: add.commute)
  with False lt assms show ?thesis by (simp add: alloc_port_def word_le_nat_alt)
qed (simp add: alloc_port_def)

lemma ids_fresh_more:
  assumes "ids_fresh s" and "conn_ids s = a @ b" and "conn_ids s' = a @ ns_next_id s # b"
    and "ns_next_id s' = ns_next_id s + 1" and "49152 \<le> ns_next_port s'" and "ns_next_port s' \<le> 65000"
  shows "ids_fresh s'"
proof -
  have old: "distinct (a @ b)" "\<forall>i \<in> set (a @ b). i < ns_next_id s"
    using assms(1,2) by (simp_all add: ids_fresh_def list_all_iff)
  then have "ns_next_id s \<notin> set (a @ b)" by blast
  with old assms(3-) show ?thesis by (auto simp: ids_fresh_def list_all_iff less_SucI)
qed

lemma handle_cmd_ids:
  assumes "ids_fresh s"
  shows "ids_fresh (fst (handle_cmd lib ulib t cmd s))"
proof -
  obtain port p where alloc: "alloc_port (ns_next_port s) = (port, p)" by (rule prod.exhaust)
  have p: "49152 \<le> p" "p \<le> 65000" using assms alloc_port_range [of "ns_next_port s"] alloc by (auto simp: ids_fresh_def)
  have same: "ids_fresh (s\<lparr>ns_next_port := p\<rparr>)" using assms p by (simp add: ids_fresh_def conn_ids_def)
  show ?thesis
  proof (cases cmd)
    case (Open_Tcp dst alive)
    show ?thesis
    proof (cases "tk_connect lib dst port")
      case (Inr k)
      with Open_Tcp alloc show ?thesis
        by (auto intro!: ids_fresh_more [OF assms, of "map fst (ns_tcp s)" "map fst (ns_udp s)"]
            simp: add_tcp_def conn_ids_def Let_def p)
    qed (use Open_Tcp alloc same in simp)
  next
    case (Open_Udp alive)
    show ?thesis
    proof (cases "uk_bind ulib port")
      case (Inr k)
      with Open_Udp alloc show ?thesis
        by (auto intro!: ids_fresh_more [OF assms, of "map fst (ns_tcp s) @ map fst (ns_udp s)" "[]"]
            simp: conn_ids_def Let_def p)
    qed (use Open_Udp alloc same in simp)
  qed (use assms in \<open>simp_all add: ids_fresh_def conn_ids_def\<close>)
qed

end
