(* ===== verification/Launch.thy ===== *)
theory Launch
  imports Prober Zerotrust Obfuscation "HOL-Library.List_Lexorder" "HOL-Library.Char_ord"
begin

text \<open>
  The first part of \<^verbatim>\<open>main.rs\<close>: the options of a start, how they come from the command line's
  environment and how they are put into it, the questions the terminal is asked, and where the
  files of an identity are. The environment is a map; an answer of the terminal is an argument,
  \<open>None\<close> when there is none. Logging is left out, and with it the path of the log file.
\<close>

section \<open>Choices\<close>

datatype protocol = P_Masque | P_Masque_In_Masque | P_Wireguard | P_Warp_In_Warp | P_Psiphon

definition parse_protocol :: "string \<Rightarrow> protocol" where
  "parse_protocol s = (let v = to_lowercase (trim s) in
     if v \<in> {''mim'', ''m2'', ''masque-in-masque'', ''masqueinmasque''} then P_Masque_In_Masque
     else if v \<in> {''wg'', ''wireguard''} then P_Wireguard
     else if v \<in> {''gool'', ''wiw'', ''warp-in-warp'', ''warpinwarp''} then P_Warp_In_Warp
     else if v = ''psiphon'' then P_Psiphon
     else P_Masque)"

fun protocol_label :: "protocol \<Rightarrow> string" where
  "protocol_label P_Masque = ''MASQUE''"
| "protocol_label P_Masque_In_Masque = ''MASQUE-in-MASQUE''"
| "protocol_label P_Wireguard = ''WireGuard''"
| "protocol_label P_Warp_In_Warp = ''WARP-in-WARP (gool)''"
| "protocol_label P_Psiphon = ''Psiphon''"

datatype masque_transport = Over_H3 | Over_H2

definition parse_masque_transport :: "string \<Rightarrow> masque_transport" where
  "parse_masque_transport s = (if to_lowercase (trim s) \<in> {''h2'', ''http2'', ''http/2''} then Over_H2 else Over_H3)"

datatype endpoint_discovery = Disc_Cache | Disc_Fresh

definition parse_endpoint_discovery :: "string \<Rightarrow> endpoint_discovery" where
  "parse_endpoint_discovery s = (if to_lowercase (trim s) \<in> {''fresh'', ''fresh_scan''} then Disc_Fresh else Disc_Cache)"

datatype tls_curve_preset = Curves_Chrome | Curves_Compatibility

definition parse_tls_curve_preset :: "string \<Rightarrow> tls_curve_preset" where
  "parse_tls_curve_preset s =
     (if to_lowercase (trim s) \<in> {''compatibility'', ''compatible''} then Curves_Compatibility else Curves_Chrome)"

section \<open>Options\<close>

record start_options =
  so_listen :: socket_addr
  so_config_path :: string
  so_wireguard_config_path :: "string option"
  so_masque_config_path :: "string option"
  so_protocol :: protocol
  so_forced_peer :: "socket_addr option"
  so_forced_peers :: "socket_addr list"
  so_forced_peers_scan_fallback :: bool
  so_scan_mode :: scan_mode
  so_ip_scan :: ip_scan
  so_obfuscation_profile :: "string option"
  so_obfuscation_parameters :: "string option"
  so_retry_obfuscation_profiles :: bool
  so_endpoint_cache_path :: "string option"
  so_endpoint_discovery :: endpoint_discovery
  so_masque_transport :: masque_transport
  so_tls_curve_preset :: tls_curve_preset
  so_wireguard_data_check :: bool
  so_tun_fd :: "int option"
  so_log_level :: "string option"
  so_perf_profile :: "string option"
  so_h2_fragmentation :: "bool option"
  so_dns_servers :: "string option"
  so_route_block :: "string option"
  so_route_direct :: "string option"
  so_routes_file :: "string option"
  so_team :: "string option"
  so_access_client_id :: "string option"
  so_access_client_secret :: "string option"
  so_access_token :: "string option"
  so_access_email :: "string option"
  so_gateway :: bool
  so_upstream_proxy :: "string option"
  so_http_proxy :: "socket_addr option"

definition default_listen :: socket_addr where
  "default_listen = \<lparr>sa_ip = V4 (ipv4_of 127 0 0 1), sa_port = 1819\<rparr>"

definition start_options_new :: "protocol \<Rightarrow> string \<Rightarrow> start_options" where
  "start_options_new protocol config_path = \<lparr>so_listen = default_listen, so_config_path = config_path,
     so_wireguard_config_path = None, so_masque_config_path = None, so_protocol = protocol,
     so_forced_peer = None, so_forced_peers = [], so_forced_peers_scan_fallback = False,
     so_scan_mode = Balanced, so_ip_scan = Scan_V4, so_obfuscation_profile = None, so_obfuscation_parameters = None,
     so_retry_obfuscation_profiles = True, so_endpoint_cache_path = None, so_endpoint_discovery = Disc_Cache,
     so_masque_transport = Over_H3, so_tls_curve_preset = Curves_Chrome, so_wireguard_data_check = True,
     so_tun_fd = None, so_log_level = None, so_perf_profile = None, so_h2_fragmentation = None,
     so_dns_servers = None, so_route_block = None, so_route_direct = None, so_routes_file = None, so_team = None,
     so_access_client_id = None, so_access_client_secret = None, so_access_token = None, so_access_email = None,
     so_gateway = False, so_upstream_proxy = None, so_http_proxy = None\<rparr>"

definition masque_profile :: "start_options \<Rightarrow> string" where
  "masque_profile o' = (case so_obfuscation_profile o' of Some p \<Rightarrow> p | None \<Rightarrow> ''firewall'')"

definition wireguard_profile :: "start_options \<Rightarrow> string" where
  "wireguard_profile o' = (case so_obfuscation_profile o' of Some p \<Rightarrow> p | None \<Rightarrow> ''balanced'')"

text \<open>What a start leaves in the environment, apart from the gateway and the routes it resets.\<close>

definition set_optional :: "string \<Rightarrow> string option \<Rightarrow> environment \<Rightarrow> environment" where
  "set_optional key value env =
     env(key := (case value of Some v \<Rightarrow> if trim v \<noteq> [] then Some (trim v) else None | None \<Rightarrow> None))"

definition set_flag :: "string \<Rightarrow> bool \<Rightarrow> environment \<Rightarrow> environment" where
  "set_flag key on env = env(key := if on then Some ''1'' else None)"

definition apply_runtime_options :: "start_options \<Rightarrow> environment \<Rightarrow> environment" where
  "apply_runtime_options o' env = (
     let env = env(''AETHER_LOG_LEVEL'' := so_log_level o', ''AETHER_PERF_PROFILE'' := so_perf_profile o');
       env = set_flag ''AETHER_MASQUE_H2_FRAGMENT'' (so_h2_fragmentation o' = Some True) env;
       env = set_optional ''AETHER_NOIZE_PARAMETERS'' (so_obfuscation_parameters o') env;
       env = set_optional ''AETHER_DNS'' (so_dns_servers o') env;
       env = set_optional ''AETHER_ROUTE_BLOCK'' (so_route_block o') env;
       env = set_optional ''AETHER_ROUTE_DIRECT'' (so_route_direct o') env;
       env = set_optional ''AETHER_ROUTES_FILE'' (so_routes_file o') env;
       env = set_optional ''AETHER_TEAM'' (so_team o') env;
       env = set_optional ''AETHER_ACCESS_CLIENT_ID'' (so_access_client_id o') env;
       env = set_optional ''AETHER_ACCESS_CLIENT_SECRET'' (so_access_client_secret o') env;
       env = set_optional ''AETHER_ACCESS_TOKEN'' (so_access_token o') env;
       env = set_optional ''AETHER_ACCESS_EMAIL'' (so_access_email o') env;
       env = env(''AETHER_TEAM_ENDPOINT'' := None)
     in set_flag ''AETHER_GATEWAY'' (so_gateway o') env)"

section \<open>Values of the environment\<close>

text \<open>
  The shape that the delays and timeouts share: a positive decimal number, or the default. Zero and
  anything that is not a number are ignored.
\<close>

definition positive_env :: "nat \<Rightarrow> environment \<Rightarrow> string \<Rightarrow> nat \<Rightarrow> nat" where
  "positive_env limit env key fallback =
     (case Option.bind (env key) (parse_uint limit) of Some v \<Rightarrow> if 0 < v then v else fallback | None \<Rightarrow> fallback)"

definition u64_bound :: nat where "u64_bound = 18446744073709551615"

definition masque_reconnect_delay :: "environment \<Rightarrow> nat" where
  "masque_reconnect_delay env = positive_env u64_bound env ''AETHER_MASQUE_RECONNECT_SECS'' 2"
definition masque_startup_timeout :: "environment \<Rightarrow> nat" where
  "masque_startup_timeout env = positive_env u64_bound env ''AETHER_MASQUE_STARTUP_SECS'' 10"
definition wg_keepalive_secs :: "environment \<Rightarrow> nat" where
  "wg_keepalive_secs env = positive_env 65535 env ''AETHER_WG_KEEPALIVE'' 5"
definition wg_reconnect_delay :: "environment \<Rightarrow> nat" where
  "wg_reconnect_delay env = positive_env u64_bound env ''AETHER_WG_RECONNECT_SECS'' 2"
definition wg_endpoint_cooldown :: "environment \<Rightarrow> nat" where
  "wg_endpoint_cooldown env = positive_env u64_bound env ''AETHER_WG_ENDPOINT_COOLDOWN_SECS'' 300"
definition wg_tunnel_validate_timeout :: "environment \<Rightarrow> nat" where
  "wg_tunnel_validate_timeout env = positive_env u64_bound env ''AETHER_WG_VALIDATE_SECS'' 10"

definition mim_inner_startup :: "environment \<Rightarrow> nat" where
  "mim_inner_startup env = min (masque_startup_timeout env) 12"

definition keep_saved_identity :: "environment \<Rightarrow> bool" where
  "keep_saved_identity env \<longleftrightarrow>
     (case env ''AETHER_REPROVISION'' of Some v \<Rightarrow> v \<notin> {''0'', ''off'', ''false''} | None \<Rightarrow> True)"

definition want_quick_reconnect :: "environment \<Rightarrow> string option \<Rightarrow> bool" where
  "want_quick_reconnect env answer = (
     let v = (case env ''AETHER_QUICK_RECONNECT'' of Some v \<Rightarrow> v | None \<Rightarrow> [])
     in if v \<in> {''1'', ''true'', ''yes'', ''on''} then True
        else if v \<in> {''0'', ''false'', ''no'', ''off''} then False
        else case answer of
            Some a \<Rightarrow> \<not> (str_eq_ignore_case a ''n'' \<or> str_eq_ignore_case a ''no'')
          | None \<Rightarrow> True)"

definition http_proxy_listen :: "environment \<Rightarrow> start_options \<Rightarrow> socket_addr option" where
  "http_proxy_listen env o' = (case so_http_proxy o' of
     Some a \<Rightarrow> Some a
   | None \<Rightarrow> (case env ''AETHER_HTTP_PROXY'' of
       None \<Rightarrow> None
     | Some raw \<Rightarrow> if trim raw = [] then None else parse_socket_addr (trim raw)))"

text \<open>\<open>masque_h2::enabled\<close> and its two switches.\<close>

record h2_flags =
  h2_preferred :: bool
  h2_fallback :: bool

definition h2_enabled :: "environment \<Rightarrow> h2_flags \<Rightarrow> bool" where
  "h2_enabled env f =
     (if h2_preferred f \<or> h2_fallback f then True
      else case env ''AETHER_MASQUE_HTTP2'' of
          Some v \<Rightarrow> to_lowercase (trim v) \<in> {''1'', ''true'', ''h2'', ''yes'', ''on''}
        | None \<Rightarrow> False)"

definition h2_set_preferred :: "bool \<Rightarrow> h2_flags" where
  "h2_set_preferred on = \<lparr>h2_preferred = on, h2_fallback = False\<rparr>"

definition h2_enable_fallback :: "h2_flags \<Rightarrow> h2_flags" where
  "h2_enable_fallback f = f\<lparr>h2_fallback := True\<rparr>"

definition h2_clear_fallback :: "h2_flags \<Rightarrow> h2_flags" where
  "h2_clear_fallback f = f\<lparr>h2_fallback := False\<rparr>"

definition h2_peer :: "environment \<Rightarrow> socket_addr \<Rightarrow> socket_addr" where
  "h2_peer env quic_peer =
     (case Option.bind (env ''AETHER_MASQUE_H2_PEER'') (\<lambda>v. parse_socket_addr (trim v)) of
        Some a \<Rightarrow> a | None \<Rightarrow> quic_peer)"

definition env_default :: "string \<Rightarrow> string \<Rightarrow> environment \<Rightarrow> environment" where
  "env_default key value env = (if env key = None then env(key := Some value) else env)"

definition enable_restricted_h2 :: "environment \<Rightarrow> h2_flags \<Rightarrow> environment \<times> h2_flags" where
  "enable_restricted_h2 env f =
     (env_default ''AETHER_MASQUE_H2_FRAGMENT_DELAY'' ''5-15''
        (env_default ''AETHER_MASQUE_H2_FRAGMENT_SIZE'' ''8-24''
           (env(''AETHER_MASQUE_H2_FRAGMENT'' := Some ''1''))),
      h2_enable_fallback f)"

section \<open>Questions\<close>

definition select_scan_mode :: "environment \<Rightarrow> string option \<Rightarrow> scan_mode" where
  "select_scan_mode env answer = (case env ''AETHER_SCAN'' of
     Some v \<Rightarrow> parse_scan_mode v
   | None \<Rightarrow>
       if answer = Some ''1'' then Turbo
       else if answer = Some ''3'' then Thorough
       else if answer = Some ''4'' then Stealth
       else if answer = Some ''5'' then Ironclad
       else Balanced)"

definition select_scan_mode_str :: "environment \<Rightarrow> string option \<Rightarrow> string" where
  "select_scan_mode_str env answer = (case env ''AETHER_SCAN'' of
     Some v \<Rightarrow> v
   | None \<Rightarrow>
       if answer = Some ''1'' then ''turbo''
       else if answer = Some ''3'' then ''thorough''
       else if answer = Some ''4'' then ''stealth''
       else if answer = Some ''5'' then ''ironclad''
       else ''balanced'')"

definition select_ip_version :: "environment \<Rightarrow> string option \<Rightarrow> ip_scan" where
  "select_ip_version env answer = (case env ''AETHER_IP'' of
     Some v \<Rightarrow> parse_ip_scan v
   | None \<Rightarrow>
       if answer = Some ''2'' then Scan_V6
       else if answer = Some ''3'' then Scan_Both
       else Scan_V4)"

definition select_masque_transport :: "environment \<Rightarrow> string option \<Rightarrow> environment" where
  "select_masque_transport env answer =
     (if env ''AETHER_MASQUE_HTTP2'' \<noteq> None \<or> env ''AETHER_PEER'' \<noteq> None then env
      else if answer = Some ''2'' then env(''AETHER_MASQUE_HTTP2'' := Some ''1'')
      else env)"

section \<open>Files\<close>

definition is_separator :: "char \<Rightarrow> bool" where
  "is_separator c \<longleftrightarrow> c = CHR ''/'' \<or> c = CHR 0x5C"

definition dir_end :: "string \<Rightarrow> nat" where
  "dir_end base = length base - length (takeWhile (\<lambda>c. \<not> is_separator c) (rev base))"

definition rfind_dot :: "string \<Rightarrow> nat option" where
  "rfind_dot s = (if CHR ''.'' \<in> set s then Some (length s - Suc (length (takeWhile (\<lambda>c. c \<noteq> CHR ''.'') (rev s)))) else None)"

definition derive_sibling_path :: "string \<Rightarrow> string \<Rightarrow> string" where
  "derive_sibling_path base suffix = (case rfind_dot (drop (dir_end base) base) of
     Some rel \<Rightarrow> take (dir_end base + rel) base @ ''-'' @ suffix @ drop (dir_end base + rel) base
   | None \<Rightarrow> base @ ''-'' @ suffix)"

definition lastconn_path :: "string \<Rightarrow> string" where
  "lastconn_path p = derive_sibling_path p ''lastconn''"
definition gool_lastconn_path :: "string \<Rightarrow> string" where
  "gool_lastconn_path p = derive_sibling_path p ''gool-lastconn''"
definition mim_lastconn_path :: "string \<Rightarrow> string" where
  "mim_lastconn_path p = derive_sibling_path p ''mim-lastconn''"

definition team_scope :: "environment \<Rightarrow> string option" where
  "team_scope env = map_option tm_team (settings_from_env env)"

definition warp_config_path :: "environment \<Rightarrow> start_options \<Rightarrow> string" where
  "warp_config_path env o' = (case so_wireguard_config_path o' of
     Some p \<Rightarrow> p
   | None \<Rightarrow> (case team_scope env of
       Some team \<Rightarrow> derive_sibling_path (so_config_path o') (''team-'' @ team)
     | None \<Rightarrow> so_config_path o'))"

definition masque_config_path :: "environment \<Rightarrow> start_options \<Rightarrow> string" where
  "masque_config_path env o' = (case so_masque_config_path o' of
     Some p \<Rightarrow> p
   | None \<Rightarrow> (case team_scope env of
       Some team \<Rightarrow> derive_sibling_path (so_config_path o') (''team-'' @ team)
     | None \<Rightarrow> derive_sibling_path (so_config_path o') ''masque''))"

text \<open>The file and the identities a start reads, and where it keeps the last connection.\<close>

definition start_paths :: "environment \<Rightarrow> start_options \<Rightarrow> string list \<times> string option" where
  "start_paths env o' = (case so_protocol o' of
     P_Masque \<Rightarrow> ([masque_config_path env o'], Some (lastconn_path (masque_config_path env o')))
   | P_Wireguard \<Rightarrow> ([warp_config_path env o'], Some (lastconn_path (warp_config_path env o')))
   | P_Warp_In_Warp \<Rightarrow> ([warp_config_path env o', derive_sibling_path (warp_config_path env o') ''secondary''],
       Some (gool_lastconn_path (warp_config_path env o')))
   | P_Masque_In_Masque \<Rightarrow> ([masque_config_path env o', derive_sibling_path (masque_config_path env o') ''secondary''],
       Some (mim_lastconn_path (masque_config_path env o')))
   | P_Psiphon \<Rightarrow> ([], None))"

text \<open>Which of these identities \<open>prepare\<close> reports the addresses of.\<close>

definition prepare_path :: "environment \<Rightarrow> start_options \<Rightarrow> string option" where
  "prepare_path env o' = (case so_protocol o' of
     P_Masque \<Rightarrow> Some (masque_config_path env o')
   | P_Masque_In_Masque \<Rightarrow> Some (derive_sibling_path (masque_config_path env o') ''secondary'')
   | P_Wireguard \<Rightarrow> Some (warp_config_path env o')
   | P_Warp_In_Warp \<Rightarrow> Some (derive_sibling_path (warp_config_path env o') ''secondary'')
   | P_Psiphon \<Rightarrow> None)"

text \<open>The teams whose files are in the directory; \<open>None\<close> when it cannot be read.\<close>

definition team_of_file :: "string \<Rightarrow> string \<Rightarrow> string option" where
  "team_of_file prefix name = (case strip_prefix prefix name of
     None \<Rightarrow> None
   | Some tail \<Rightarrow> (case strip_suffix ''.toml'' tail of
       None \<Rightarrow> None
     | Some team \<Rightarrow>
         if team = [] \<or> ends_with team ''-secondary'' \<or> ends_with team ''-lastconn'' then None else Some team))"

definition file_stem :: "string \<Rightarrow> string" where
  "file_stem base = (let file_part = drop (dir_end base) base
     in case rfind_dot file_part of Some rel \<Rightarrow> take rel file_part | None \<Rightarrow> file_part)"

definition enrolled_teams :: "string \<Rightarrow> string list option \<Rightarrow> string list" where
  "enrolled_teams base entries = (case entries of
     None \<Rightarrow> []
   | Some names \<Rightarrow> sort (remdups (List.map_filter (team_of_file (file_stem base @ ''-team-'')) names)))"

section \<open>The command line's start\<close>

text \<open>
  One round of the protocol question: the answer, and for \<^verbatim>\<open>4\<close> what the sign-in to an organization
  asks: the team, the address, and whether \<open>resolve_token\<close> succeeded.
\<close>

record protocol_round =
  pq_answer :: "string option"
  pq_team :: "string option"
  pq_email :: "string option"
  pq_signed_in :: bool

definition needs_method :: "environment \<Rightarrow> bool option" where
  "needs_method env = map_option (\<lambda>s. \<not> (tm_token s \<noteq> None \<or> has_service_token s \<or> tm_email s \<noteq> None)) (settings_from_env env)"

definition enrol_zero_trust :: "string list \<Rightarrow> protocol_round \<Rightarrow> environment \<Rightarrow> environment" where
  "enrol_zero_trust known r env = (
     let answer = trim (case pq_team r of Some a \<Rightarrow> a | None \<Rightarrow> []);
       team = (if answer = [] then (case known of t # _ \<Rightarrow> Some t | [] \<Rightarrow> None) else normalize_team answer)
     in case team of
       None \<Rightarrow> env
     | Some team \<Rightarrow>
        (let env = env(''AETHER_TEAM'' := Some team);
           email = trim (case pq_email r of Some e \<Rightarrow> e | None \<Rightarrow> [])
         in if team \<in> set known then env
            else case needs_method env of
              None \<Rightarrow> env(''AETHER_TEAM'' := None)
            | Some needed \<Rightarrow>
                if needed \<and> email = [] then env(''AETHER_TEAM'' := None)
                else
                  let env = (if needed then env(''AETHER_ACCESS_EMAIL'' := Some email) else env)
                  in case settings_from_env env of
                    None \<Rightarrow> env(''AETHER_TEAM'' := None)
                  | Some _ \<Rightarrow>
                      if pq_signed_in r then env
                      else env(''AETHER_TEAM'' := None, ''AETHER_ACCESS_EMAIL'' := None)))"

text \<open>\<open>known\<close> lists the enrolled teams; the loop goes on as long as the answer is \<^verbatim>\<open>4\<close>.\<close>

fun ask_protocol :: "string list \<Rightarrow> protocol_round list \<Rightarrow> environment \<Rightarrow> (protocol \<times> environment) option" where
  "ask_protocol known [] env = None"
| "ask_protocol known (r # rs) env =
     (if pq_answer r = Some ''2'' then Some (P_Wireguard, env)
      else if pq_answer r = Some ''3'' then Some (P_Warp_In_Warp, env)
      else if pq_answer r = Some ''4'' then ask_protocol known rs (enrol_zero_trust known r env)
      else Some (P_Masque, env))"

definition select_protocol :: "string list \<Rightarrow> protocol_round list \<Rightarrow> environment \<Rightarrow> (protocol \<times> environment) option" where
  "select_protocol known rs env = (case env ''AETHER_PROTOCOL'' of
     Some v \<Rightarrow> Some (parse_protocol v, env)
   | None \<Rightarrow> ask_protocol known rs env)"

text \<open>The answers of the terminal, in the order of the questions.\<close>

record cli_answers =
  an_known :: "string list"
  an_rounds :: "protocol_round list"
  an_scan :: "string option"
  an_ip :: "string option"
  an_transport :: "string option"

definition default_config :: string where "default_config = ''aether.toml''"

definition cli_protocol :: "environment \<Rightarrow> cli_answers \<Rightarrow> (protocol \<times> environment) option" where
  "cli_protocol env a =
     (if env ''AETHER_PEER'' \<noteq> None \<or> env ''AETHER_WG_PEER'' \<noteq> None
      then Some (case env ''AETHER_PROTOCOL'' of Some v \<Rightarrow> parse_protocol v | None \<Rightarrow> P_Masque, env)
      else select_protocol (an_known a) (an_rounds a) env)"

definition cli_forced_peer :: "environment \<Rightarrow> protocol \<Rightarrow> aether_error + socket_addr option" where
  "cli_forced_peer env protocol = (
     let raw = (if protocol = P_Masque \<or> protocol = P_Masque_In_Masque then env ''AETHER_PEER''
       else if protocol = P_Psiphon then None
       else case env ''AETHER_WG_PEER'' of Some v \<Rightarrow> Some v | None \<Rightarrow> env ''AETHER_PEER'')
     in case raw of
         None \<Rightarrow> Inr None
       | Some v \<Rightarrow> (case parse_socket_addr v of
           Some a \<Rightarrow> Inr (Some a)
         | None \<Rightarrow> Inl (E_Other (''bad peer address '' @ v))))"

text \<open>\<open>None\<close>: the terminal was never answered to the end.\<close>

definition cli_options :: "environment \<Rightarrow> cli_answers \<Rightarrow> (aether_error + (start_options \<times> environment)) option" where
  "cli_options env0 a = map_option (\<lambda>(protocol, env).
     case cli_forced_peer env protocol of
       Inl e \<Rightarrow> Inl e
     | Inr forced \<Rightarrow>
        (let env' = select_masque_transport env (an_transport a)
         in Inr ((start_options_new protocol (case env0 ''AETHER_CONFIG'' of Some c \<Rightarrow> c | None \<Rightarrow> default_config))
             \<lparr>so_listen := (case Option.bind (env0 ''AETHER_SOCKS'') parse_socket_addr of Some l \<Rightarrow> l | None \<Rightarrow> default_listen),
              so_wireguard_config_path := env ''AETHER_WG_CONFIG'', so_masque_config_path := env ''AETHER_MASQUE_CONFIG'',
              so_forced_peer := forced, so_scan_mode := select_scan_mode env (an_scan a),
              so_ip_scan := select_ip_version env (an_ip a), so_obfuscation_profile := env ''AETHER_NOIZE'',
              so_obfuscation_parameters := env ''AETHER_NOIZE_PARAMETERS'',
              so_retry_obfuscation_profiles := env ''AETHER_WG_NO_PROFILE_RETRY'' = None,
              so_wireguard_data_check := env ''AETHER_WG_NO_DATA_CHECK'' = None,
              so_log_level := env ''AETHER_LOG_LEVEL'', so_perf_profile := env ''AETHER_PERF_PROFILE'',
              so_h2_fragmentation := Some (env ''AETHER_MASQUE_H2_FRAGMENT'' \<noteq> None), so_dns_servers := env ''AETHER_DNS'',
              so_route_block := env ''AETHER_ROUTE_BLOCK'', so_route_direct := env ''AETHER_ROUTE_DIRECT'',
              so_routes_file := env ''AETHER_ROUTES_FILE'', so_team := env ''AETHER_TEAM'',
              so_access_client_id := env ''AETHER_ACCESS_CLIENT_ID'',
              so_access_client_secret := env ''AETHER_ACCESS_CLIENT_SECRET'',
              so_access_token := env ''AETHER_ACCESS_TOKEN'', so_access_email := env ''AETHER_ACCESS_EMAIL'',
              so_gateway := env ''AETHER_GATEWAY'' \<noteq> None,
              so_masque_transport := (if env' ''AETHER_MASQUE_HTTP2'' \<noteq> None then Over_H2 else Over_H3)\<rparr>, env')))
     (cli_protocol env0 a)"


section \<open>Paths\<close>

lemma dir_end_append:
  assumes "\<forall>c \<in> set f. \<not> is_separator c" and "d = [] \<or> is_separator (last d)"
  shows "dir_end (d @ f) = length d"
proof -
  have "takeWhile (\<lambda>c. \<not> is_separator c) (rev d) = []"
  proof (cases d rule: rev_cases)
    case (snoc x y)
    with assms(2) show ?thesis by simp
  qed simp
  moreover have "takeWhile (\<lambda>c. \<not> is_separator c) (rev f) = rev f" using assms(1) by (auto simp: takeWhile_eq_all_conv)
  ultimately have "takeWhile (\<lambda>c. \<not> is_separator c) (rev (d @ f)) = rev f"
    using assms(1) by (simp add: takeWhile_append)
  then show ?thesis by (simp add: dir_end_def)
qed

lemma rfind_dot_last: "CHR ''.'' \<notin> set y \<Longrightarrow> rfind_dot (x @ CHR ''.'' # y) = Some (length x)"
proof -
  assume y: "CHR ''.'' \<notin> set y"
  then have "takeWhile (\<lambda>c. c \<noteq> CHR ''.'') (rev y @ CHR ''.'' # rev x) = rev y"
    by (subst takeWhile_append2) auto
  then show ?thesis by (simp add: rfind_dot_def)
qed

lemma rfind_dot_none: "CHR ''.'' \<notin> set f \<Longrightarrow> rfind_dot f = None"
  by (simp add: rfind_dot_def)

definition path_parts :: "string \<Rightarrow> string \<Rightarrow> string \<Rightarrow> bool" where
  "path_parts d x e \<longleftrightarrow> (d = [] \<or> is_separator (last d)) \<and> list_all (\<lambda>c. \<not> is_separator c) (x @ e)
     \<and> (if e = [] then CHR ''.'' \<notin> set x else hd e = CHR ''.'' \<and> CHR ''.'' \<notin> set (tl e))"

text \<open>Every path is a directory, a stem and an extension, and a sibling's suffix is put between the last two.\<close>

lemma path_parts_exist: "\<exists>d x e. base = d @ x @ e \<and> path_parts d x e"
proof -
  define f where "f = rev (takeWhile (\<lambda>c. \<not> is_separator c) (rev base))"
  define d where "d = rev (dropWhile (\<lambda>c. \<not> is_separator c) (rev base))"
  have base: "base = d @ f"
    unfolding d_def f_def by (metis rev_append rev_rev_ident takeWhile_dropWhile_id)
  have f: "list_all (\<lambda>c. \<not> is_separator c) f" by (auto simp: f_def list_all_iff dest: set_takeWhileD)
  have d: "d = [] \<or> is_separator (last d)"
    using hd_dropWhile [of "\<lambda>c. \<not> is_separator c" "rev base"] by (auto simp: d_def last_rev)
  show ?thesis
  proof (cases "CHR ''.'' \<in> set f")
    case True
    then obtain x y where "f = x @ CHR ''.'' # y" "CHR ''.'' \<notin> set y" by (metis split_list_last)
    then show ?thesis using base f d
      by (intro exI [of _ d] exI [of _ x] exI [of _ "CHR ''.'' # y"]) (simp add: path_parts_def)
  next
    case False
    then show ?thesis using base f d by (intro exI [of _ d] exI [of _ f] exI [of _ "[]"]) (simp add: path_parts_def)
  qed
qed

lemma path_parts_dir: "path_parts d x e \<Longrightarrow> dir_end (d @ x @ e) = length d"
  using dir_end_append [of "x @ e" d] by (auto simp: path_parts_def list_all_iff)

lemma derive_parts: "path_parts d x e \<Longrightarrow> derive_sibling_path (d @ x @ e) s = d @ x @ CHR ''-'' # s @ e"
proof (cases e)
  case Nil
  assume "path_parts d x e"
  then show ?thesis using path_parts_dir [of d x e] Nil
    by (simp add: derive_sibling_path_def rfind_dot_none path_parts_def)
next
  case (Cons c y)
  assume parts: "path_parts d x e"
  then have "rfind_dot (x @ e) = Some (length x)" using rfind_dot_last [of y x] Cons by (simp add: path_parts_def)
  then show ?thesis using path_parts_dir [OF parts] by (simp add: derive_sibling_path_def)
qed

definition plain_suffix :: "string \<Rightarrow> bool" where
  "plain_suffix s \<longleftrightarrow> list_all (\<lambda>c. c \<noteq> CHR ''.'' \<and> \<not> is_separator c) s"

lemma path_parts_sibling: "path_parts d x e \<Longrightarrow> plain_suffix s \<Longrightarrow> path_parts d (x @ CHR ''-'' # s) e"
  by (auto simp: path_parts_def plain_suffix_def list_all_iff is_separator_def split: if_splits)

lemma derive_inject: "derive_sibling_path base s = derive_sibling_path base t \<longleftrightarrow> s = t"
proof -
  obtain d x e where "base = d @ x @ e" "path_parts d x e" using path_parts_exist by blast
  then show ?thesis by (simp add: derive_parts)
qed

lemma derive_twice:
  assumes "plain_suffix s"
  shows "derive_sibling_path (derive_sibling_path base s) t = derive_sibling_path base (s @ CHR ''-'' # t)"
proof -
  obtain d x e where parts: "base = d @ x @ e" "path_parts d x e" using path_parts_exist by blast
  have "derive_sibling_path (d @ (x @ CHR ''-'' # s) @ e) t = d @ (x @ CHR ''-'' # s) @ CHR ''-'' # t @ e"
    by (rule derive_parts) (use parts assms path_parts_sibling in auto)
  with parts show ?thesis by (simp add: derive_parts)
qed

lemma derive_other: "derive_sibling_path base s \<noteq> base"
proof -
  obtain d x e where "base = d @ x @ e" "path_parts d x e" using path_parts_exist by blast
  then have "length (derive_sibling_path base s) = length base + length s + 1" by (simp add: derive_parts)
  then show ?thesis by auto
qed

lemma plain_suffix_masque: "plain_suffix ''masque''"
  by (simp add: plain_suffix_def is_separator_def)

text \<open>C33: Without a team, and when the options name no path of their own for WireGuard or MASQUE, no
  two of the files that the protocols keep get the same path: the identities of WireGuard and MASQUE,
  their second identities, and the last connections of WireGuard, MASQUE, WARP in WARP and MASQUE in
  MASQUE.\<close>

theorem saved_files_have_their_own_paths:
  assumes "team_scope env = None" and "so_wireguard_config_path o' = None" and "so_masque_config_path o' = None"
  shows "distinct [warp_config_path env o', derive_sibling_path (warp_config_path env o') ''secondary'',
     masque_config_path env o', derive_sibling_path (masque_config_path env o') ''secondary'',
     lastconn_path (warp_config_path env o'), lastconn_path (masque_config_path env o'),
     gool_lastconn_path (warp_config_path env o'), mim_lastconn_path (masque_config_path env o')]"
proof -
  have "warp_config_path env o' = so_config_path o'" "masque_config_path env o' = derive_sibling_path (so_config_path o') ''masque''"
    using assms by (simp_all add: warp_config_path_def masque_config_path_def)
  then show ?thesis
    by (simp add: lastconn_path_def gool_lastconn_path_def mim_lastconn_path_def derive_twice [OF plain_suffix_masque]
        derive_inject derive_other derive_other [THEN not_sym])
qed

lemma no_team: "team_scope (\<lambda>_. None) = None"
  by (simp add: team_scope_def settings_from_env_def normalize_team_def to_lowercase_def Let_def)

theorem saved_files_have_their_own_paths_witness:
  "distinct [''aether.toml'', ''aether-secondary.toml'', ''aether-masque.toml'', ''aether-masque-secondary.toml'',
     ''aether-lastconn.toml'', ''aether-masque-lastconn.toml'', ''aether-gool-lastconn.toml'', ''aether-masque-mim-lastconn.toml'']"
  using saved_files_have_their_own_paths [of "\<lambda>_. None" "start_options_new P_Masque ''aether.toml''", OF no_team]
  by (simp add: start_options_new_def warp_config_path_def masque_config_path_def no_team lastconn_path_def
      gool_lastconn_path_def mim_lastconn_path_def derive_sibling_path_def dir_end_def rfind_dot_def is_separator_def)

text \<open>
  With a team the two configurations are one file, and so are the last connections: MASQUE dials the
  endpoint that WireGuard left there, and WireGuard verifies the gateway that MASQUE left.
\<close>

lemma team_shares_the_last_connection:
  assumes "team_scope env = Some team" and "so_wireguard_config_path o' = None" and "so_masque_config_path o' = None"
  shows "start_paths env (o'\<lparr>so_protocol := P_Masque\<rparr>) = start_paths env (o'\<lparr>so_protocol := P_Wireguard\<rparr>)"
  using assms by (simp add: start_paths_def warp_config_path_def masque_config_path_def)

section \<open>Enrolled teams\<close>

definition file_name :: "string \<Rightarrow> string" where
  "file_name p = drop (dir_end p) p"

lemma team_of_file_iff:
  "team_of_file prefix name = Some t \<longleftrightarrow>
     name = prefix @ t @ ''.toml'' \<and> t \<noteq> [] \<and> \<not> ends_with t ''-secondary'' \<and> \<not> ends_with t ''-lastconn''"
proof -
  have sw: "starts_with s p \<longleftrightarrow> (\<exists>r. s = p @ r)" for s p :: string by (rule starts_with_iff)
  have ew: "ends_with s p \<longleftrightarrow> (\<exists>r. s = r @ p)" for s p :: string by (rule ends_with_iff)
  show ?thesis
    unfolding team_of_file_def strip_prefix_def strip_suffix_def sw ew
    by (auto split: if_splits)
qed

text \<open>A team is listed exactly when the file its identity is saved in is in the directory, for every configuration
  file that ends in \<^verbatim>\<open>.toml\<close> and every team name that does not look like one of the other files.
\<close>

theorem enrolled_teams_are_found_again:
  assumes "ends_with (file_name base) ''.toml''" and "list_all is_team_char team" and "team \<noteq> []"
    and "\<not> ends_with team ''-secondary''" and "\<not> ends_with team ''-lastconn''"
  shows "team \<in> set (enrolled_teams base (Some names)) \<longleftrightarrow>
     file_name (derive_sibling_path base (''team-'' @ team)) \<in> set names"
proof -
  obtain d x e where parts: "base = d @ x @ e" "path_parts d x e" using path_parts_exist by blast
  have name: "file_name base = x @ e" using path_parts_dir [OF parts(2)] parts(1) by (simp add: file_name_def)
  have plain: "plain_suffix (''team-'' @ team)"
    using assms(2) by (auto simp: plain_suffix_def list_all_iff is_team_char_def is_alphanumeric_def is_separator_def Let_def)
  have e: "e = ''.toml''"
  proof -
    obtain r where r: "x @ e = r @ ''.toml''" using assms(1) name by (auto simp: ends_with_iff)
    have dot: "rfind_dot (x @ e) = Some (length r)" using rfind_dot_last [of "''toml''" r] r by simp
    show ?thesis
    proof (cases e)
      case Nil
      then show ?thesis using parts(2) r by (auto simp: path_parts_def)
    next
      case (Cons c y)
      then have "rfind_dot (x @ e) = Some (length x)" using rfind_dot_last [of y x] parts(2) by (simp add: path_parts_def)
      with dot r show ?thesis by simp
    qed
  qed
  have stem: "file_stem base = x"
    using name rfind_dot_last [of "''toml''" x] e by (simp add: file_stem_def file_name_def Let_def)
  have "file_name (derive_sibling_path base (''team-'' @ team)) = (x @ CHR ''-'' # ''team-'' @ team) @ e"
    using path_parts_dir [OF path_parts_sibling [OF parts(2) plain]] parts by (simp add: derive_parts file_name_def)
  moreover have "team \<in> set (enrolled_teams base (Some names)) \<longleftrightarrow> x @ ''-team-'' @ team @ ''.toml'' \<in> set names"
    using assms(3-) by (auto simp: enrolled_teams_def set_map_filter team_of_file_iff stem)
  ultimately show ?thesis by (simp add: e)
qed

lemma enrolled_teams_are_found_again_witness:
  "''acme'' \<in> set (enrolled_teams ''/data/aether.toml'' (Some [''aether.toml'', ''aether-team-acme.toml'', ''aether-team-acme-lastconn.toml'']))"
proof -
  have parts: "dir_end ''/data/aether.toml'' = 6" by (simp add: dir_end_def is_separator_def)
  have derived: "derive_sibling_path ''/data/aether.toml'' ''team-acme'' = ''/data/aether-team-acme.toml''"
    by (simp add: derive_sibling_path_def parts rfind_dot_def)
  show ?thesis
    using enrolled_teams_are_found_again [of "''/data/aether.toml''" "''acme''"
        "[''aether.toml'', ''aether-team-acme.toml'', ''aether-team-acme-lastconn.toml'']"]
    by (simp add: derived) (simp add: file_name_def dir_end_def is_separator_def ends_with_def is_team_char_def is_alphanumeric_def Let_def)
qed

end
