(* ===== verification/Gateways.thy ===== *)
theory Gateways
  imports Launch Account "HOL-Library.Multiset"
begin

text \<open>
  The MASQUE gateways of \<^verbatim>\<open>main.rs\<close>: the candidate lists in dial order, the cache file with the gateways
  that answered, the candidates and the packet sizes of a second hop, and how the text of a failed
  attempt (\<^verbatim>\<open>quic.rs\<close>, \<^verbatim>\<open>masque_h2.rs\<close>) is judged. A cache file is what JSON reads from it, \<open>None\<close> when it
  cannot be read.
\<close>

section \<open>Candidates in dial order\<close>

definition quic_port :: u16 where "quic_port = 443"
definition masque_h3_probe_limit :: nat where "masque_h3_probe_limit = 12"
definition masque_h2_probe_limit :: nat where "masque_h2_probe_limit = 4"

definition v4_peer :: "ipv4 \<Rightarrow> u16 \<Rightarrow> socket_addr" where
  "v4_peer ip port = \<lparr>sa_ip = V4 ip, sa_port = port\<rparr>"

definition verified_gateways :: "ipv4 list" where
  "verified_gateways = List.map_filter parse_ipv4 masque_verified_gateways"

definition alt_gateways :: nat where
  "alt_gateways = (masque_h3_probe_limit - length verified_gateways) div length masque_alt_ports"

definition network_hosts :: "string \<Rightarrow> ipv4 list" where
  "network_hosts cidr = (case parse_ipv4 (hd (split_by (\<lambda>c. c = CHR ''/'') cidr)) of
     None \<Rightarrow> []
   | Some base \<Rightarrow> (case ipv4_octets base of
       [a, b, c, _] \<Rightarrow> [ipv4_of a b c 1, ipv4_of a b c 2]
     | _ \<Rightarrow> []))"

definition masque_gateway_peers :: "environment \<Rightarrow> socket_addr list" where
  "masque_gateway_peers env = push_all []
     (map (\<lambda>ip. v4_peer ip quic_port) verified_gateways
      @ [v4_peer ip port. port \<leftarrow> masque_alt_ports, ip \<leftarrow> take alt_gateways verified_gateways]
      @ map (\<lambda>ip. v4_peer ip quic_port) (List.map_filter parse_ipv4 masque_seeds)
      @ [v4_peer ip quic_port. cidr \<leftarrow> masque_cidrs_v4 env, ip \<leftarrow> network_hosts cidr])"

definition masque_h2_gateway_peers :: "environment \<Rightarrow> socket_addr list" where
  "masque_h2_gateway_peers env = filter (\<lambda>p. sa_port p = quic_port) (masque_gateway_peers env)"

definition masque_h2_ports :: "u16 list \<Rightarrow> u16 list" where
  "masque_h2_ports base = push_all base [2053, 2083, 2087, 2096, 8880]"

definition assigned_masque_peer :: "identity \<Rightarrow> socket_addr option" where
  "assigned_masque_peer i = (let host = trim (id_assigned_endpoint i)
     in if host = [] then None
        else case parse_socket_addr host of
            Some a \<Rightarrow> Some a
          | None \<Rightarrow> parse_socket_addr (host @ '':443''))"

definition parse_local_v4 :: "string \<Rightarrow> ipv4" where
  "parse_local_v4 s = (case parse_ipv4 (hd (split_by (\<lambda>c. c = CHR ''/'') s)) of Some ip \<Rightarrow> ip | None \<Rightarrow> 0)"

definition address_host :: "string \<Rightarrow> string" where
  "address_host raw = trim (hd (split_by (\<lambda>c. c = CHR ''/'') raw))"

text \<open>
  \<open>adopt_team_profile\<close>: what a refreshed profile of a team puts into the environment and into the
  gateway cell; \<open>refreshed\<close> is the result of \<open>account::refresh_profile\<close>.
\<close>

record adopted =
  ad_identity :: identity
  ad_env :: environment
  ad_gateway :: "string option"

definition team_endpoint :: "environment \<Rightarrow> identity \<Rightarrow> string" where
  "team_endpoint env i = id_assigned_endpoint i @
     (case env ''AETHER_PROTOCOL'' of Some v \<Rightarrow> if v = ''wg'' \<or> v = ''gool'' then '':2408'' else '':443'' | None \<Rightarrow> '':443'')"

definition adopt_team_profile :: "environment \<Rightarrow> identity \<Rightarrow> identity \<Rightarrow> adopted" where
  "adopt_team_profile env i refreshed =
     (if team_scope env = None then \<lparr>ad_identity = i, ad_env = env, ad_gateway = None\<rparr>
      else
        \<lparr>ad_identity = refreshed,
         ad_env = (if id_assigned_endpoint refreshed \<noteq> [] \<and> env ''AETHER_PEER'' = None
             \<and> parse_socket_addr (team_endpoint env refreshed) \<noteq> None
           then env(''AETHER_TEAM_ENDPOINT'' := Some (team_endpoint env refreshed)) else env),
         ad_gateway = (if id_gateway_proxy refreshed \<noteq> [] \<and> env ''AETHER_GATEWAY'' \<noteq> None
           then Some (id_gateway_proxy refreshed) else None)\<rparr>)"

section \<open>The cache of gateways\<close>

definition max_cached_masque_gateways :: nat where "max_cached_masque_gateways = 12"
definition masque_cache_warm_enough :: nat where "masque_cache_warm_enough = 4"

record cached_gateway =
  cg_ip :: string
  cg_port :: u16
  cg_rtt :: nat

definition cached_masque_gateways :: "start_options \<Rightarrow> cached_gateway list option \<Rightarrow> socket_addr list" where
  "cached_masque_gateways o' stored = (case (so_endpoint_cache_path o', stored) of
     (Some _, Some gateways) \<Rightarrow>
       map (\<lambda>(ip, port). \<lparr>sa_ip = ip, sa_port = port\<rparr>)
         (take max_cached_masque_gateways
           (filter (\<lambda>(ip, _). case ip of V4 _ \<Rightarrow> want_v4 (so_ip_scan o') | V6 _ \<Rightarrow> want_v6 (so_ip_scan o'))
             (List.map_filter (\<lambda>g. map_option (\<lambda>ip. (ip, cg_port g)) (parse_ip (cg_ip g))) gateways)))
   | _ \<Rightarrow> [])"

definition same_entry :: "probe_result \<Rightarrow> cached_gateway \<Rightarrow> bool" where
  "same_entry g e \<longleftrightarrow> cg_ip e = show_ip (pr_ip g) \<and> cg_port e = pr_port g"

definition cache_entry :: "probe_result \<Rightarrow> cached_gateway" where
  "cache_entry g = \<lparr>cg_ip = show_ip (pr_ip g), cg_port = pr_port g, cg_rtt = min u64_bound (pr_rtt g)\<rparr>"

text \<open>The new contents; the file is replaced by them in one rename, or left as it is when a step fails.\<close>

definition cache_masque_gateway :: "cached_gateway list option \<Rightarrow> probe_result \<Rightarrow> cached_gateway list" where
  "cache_masque_gateway stored g = (
     let kept = filter (\<lambda>e. \<not> same_entry g e) (case stored of Some es \<Rightarrow> es | None \<Rightarrow> [])
     in take max_cached_masque_gateways (sort_key cg_rtt (kept @ [cache_entry g])))"

definition masque_cache_needs_refresh :: "start_options \<Rightarrow> cached_gateway list option \<Rightarrow> bool" where
  "masque_cache_needs_refresh o' stored \<longleftrightarrow> length (cached_masque_gateways o' stored) < masque_cache_warm_enough"

section \<open>The second hop\<close>

definition max_datagram_size :: nat where "max_datagram_size = 1350"
definition min_datagram_size :: nat where "min_datagram_size = 1200"
definition tunnel_mtu :: nat where "tunnel_mtu = 1280"
definition inner_mtu :: nat where "inner_mtu = 1200"
definition mim_inner_tries :: nat where "mim_inner_tries = 4"

definition clamp_nat :: "nat \<Rightarrow> nat \<Rightarrow> nat \<Rightarrow> nat" where
  "clamp_nat lo hi n = (if n < lo then lo else if hi < n then hi else n)"

definition ip_udp_headers :: "ip_addr \<Rightarrow> nat" where
  "ip_udp_headers ip = (case ip of V4 _ \<Rightarrow> 28 | V6 _ \<Rightarrow> 48)"

definition mim_inner_budget :: "nat \<Rightarrow> socket_addr \<Rightarrow> bool \<Rightarrow> nat \<times> nat" where
  "mim_inner_budget outer_mtu inner_peer h2 =
     (if h2 then (max_datagram_size, clamp_nat 576 1500 (outer_mtu - 100))
      else
        let datagram = clamp_nat min_datagram_size max_datagram_size (outer_mtu - ip_udp_headers (sa_ip inner_peer));
          capsule_overhead = max_datagram_size - tunnel_mtu
        in (datagram, clamp_nat 576 1500 (datagram - capsule_overhead)))"

definition inner_masque_candidates :: "environment \<Rightarrow> socket_addr \<Rightarrow> start_options \<Rightarrow> cached_gateway list option \<Rightarrow> nat \<Rightarrow> socket_addr list" where
  "inner_masque_candidates env outer o' stored tries =
     take (max 1 tries) (push_all []
       (filter (\<lambda>p. sa_ip p \<noteq> sa_ip outer)
         (map (\<lambda>p. \<lparr>sa_ip = sa_ip p, sa_port = quic_port\<rparr>) (cached_masque_gateways o' stored @ masque_gateway_peers env))))"

section \<open>How a failed attempt is judged\<close>

definition tls_alert_name :: "nat \<Rightarrow> string option" where
  "tls_alert_name alert = map_of
     [(40, ''handshake_failure''), (42, ''bad_certificate''), (43, ''unsupported_certificate''),
      (44, ''certificate_revoked''), (45, ''certificate_expired''), (46, ''certificate_unknown''),
      (47, ''illegal_parameter''), (48, ''unknown_ca''), (49, ''access_denied''), (50, ''decode_error''),
      (51, ''decrypt_error''), (70, ''protocol_version''), (71, ''insufficient_security''), (80, ''internal_error''),
      (86, ''inappropriate_fallback''), (112, ''unrecognized_name''), (116, ''certificate_required''),
      (120, ''no_application_protocol'')] alert"

record connection_error =
  ce_is_app :: bool
  ce_error_code :: nat
  ce_reason :: bytes

definition describe_connection_error :: "connection_error \<Rightarrow> string" where
  "describe_connection_error err = (
     let code = ce_error_code err;
       text = (if ce_is_app err then ''application error 0x'' @ show_hex code
         else if 0x100 \<le> code \<and> code \<le> 0x1ff
         then case tls_alert_name (code - 0x100) of
             Some name \<Rightarrow> ''TLS alert '' @ show_nat (code - 0x100) @ '' ('' @ name @ '')''
           | None \<Rightarrow> ''TLS alert '' @ show_nat (code - 0x100)
         else ''transport error 0x'' @ show_hex code);
       reason = trim (of_bytes (utf8_lossy (ce_reason err)))
     in if reason \<noteq> [] then text @ '': '' @ reason else text)"

definition connect_stage_after_request :: string where
  "connect_stage_after_request = ''after the connect-ip request, before any :status''"

record verify_conn =
  vc_established :: bool
  vc_peer_error :: "connection_error option"
  vc_local_error :: "connection_error option"
  vc_timed_out :: bool

definition verify_stage :: "verify_conn \<Rightarrow> bool \<Rightarrow> string" where
  "verify_stage conn connect_sent =
     (if \<not> vc_established conn then ''during the QUIC handshake''
      else if connect_sent then connect_stage_after_request
      else ''after the handshake, before the connect-ip request'')"

definition verify_close_reason :: "verify_conn \<Rightarrow> bool \<Rightarrow> string" where
  "verify_close_reason conn connect_sent = (
     let cause = (case vc_peer_error conn of
         Some err \<Rightarrow> ''gateway sent CONNECTION_CLOSE ('' @ describe_connection_error err @ '')''
       | None \<Rightarrow> (case vc_local_error conn of
           Some err \<Rightarrow> ''closed locally ('' @ describe_connection_error err @ '')''
         | None \<Rightarrow> if vc_timed_out conn then ''idle timeout, no CONNECTION_CLOSE'' else ''no CONNECTION_CLOSE frame''))
     in ''closed '' @ verify_stage conn connect_sent @ '': '' @ cause)"

text \<open>The errors with a status in them: of the running HTTP/3 tunnel, of its verification, and of HTTP/2.\<close>

definition h3_status_error :: "string \<Rightarrow> aether_error" where
  "h3_status_error value = E_Other (''connect-ip status '' @ value)"
definition h3_verify_status_error :: "string \<Rightarrow> aether_error" where
  "h3_verify_status_error value = E_Other (''status '' @ value)"
definition h2_status_error :: "nat \<Rightarrow> aether_error" where
  "h2_status_error code = E_Masque (''h2 connect-ip status '' @ show_nat code)"

definition first_word :: "string \<Rightarrow> string option" where
  "first_word s = (let w = takeWhile (\<lambda>c. \<not> is_ws c) (dropWhile is_ws s) in if w = [] then None else Some w)"

definition is_identity_rejection :: "aether_error \<Rightarrow> bool" where
  "is_identity_rejection e = (
     let text = show_error e;
       status = Option.bind (get (split_on ''connect-ip status '' text) 1) (\<lambda>tail. Option.bind (first_word tail) (parse_uint 65535))
     in if status = Some 401 \<or> status = Some 403 then True
        else contains text connect_stage_after_request \<and> contains text ''TLS alert 49'')"

section \<open>The ladder\<close>

lemma verified_gateways_eq: "verified_gateways = [ipv4_of 162 159 199 1, ipv4_of 162 159 199 2, ipv4_of 162 159 198 2, ipv4_of 162 159 198 1]"
  by (simp add: verified_gateways_def masque_verified_gateways_def List.map_filter_simps parse_ipv4_def parse_octet_def
      digit_val_def parse_uint_def Let_def)

lemma alt_gateways_eq: "alt_gateways = 2"
  by (simp add: alt_gateways_def masque_h3_probe_limit_def verified_gateways_eq masque_alt_ports_def)

lemma take_push_all: "take (length out) (push_all out xs) = out"
  using push_all_extends [of out xs] by auto

lemma push_all_distinct: "distinct (out @ xs) \<Longrightarrow> push_all out xs = out @ xs"
proof (induction xs arbitrary: out)
  case (Cons x xs)
  then show ?case using Cons.IH [of "out @ [x]"] by (simp add: push_new_def)
qed simp

definition ladder :: "socket_addr list" where
  "ladder = [v4_peer (ipv4_of 162 159 199 1) 443, v4_peer (ipv4_of 162 159 199 2) 443,
     v4_peer (ipv4_of 162 159 198 2) 443, v4_peer (ipv4_of 162 159 198 1) 443,
     v4_peer (ipv4_of 162 159 199 1) 1701, v4_peer (ipv4_of 162 159 199 2) 1701,
     v4_peer (ipv4_of 162 159 199 1) 8095, v4_peer (ipv4_of 162 159 199 2) 8095,
     v4_peer (ipv4_of 162 159 199 1) 500, v4_peer (ipv4_of 162 159 199 2) 500,
     v4_peer (ipv4_of 162 159 199 1) 4500, v4_peer (ipv4_of 162 159 199 2) 4500]"

lemma ipv4_of_inject: "ipv4_of a b c d = ipv4_of a' b' c' d' \<longleftrightarrow> a = a' \<and> b = b' \<and> c = c' \<and> d = d'"
proof
  assume "ipv4_of a b c d = ipv4_of a' b' c' d'"
  then have "ipv4_octets (ipv4_of a b c d) = ipv4_octets (ipv4_of a' b' c' d')" by (rule arg_cong)
  then show "a = a' \<and> b = b' \<and> c = c' \<and> d = d'" by simp
qed auto

lemma distinct_ladder: "distinct ladder"
  by (simp add: ladder_def v4_peer_def ipv4_of_inject)

lemma gateway_peers_start: "\<exists>xs. masque_gateway_peers env = push_all ladder xs"
proof -
  let ?a = "map (\<lambda>ip. v4_peer ip quic_port) verified_gateways
      @ [v4_peer ip port. port \<leftarrow> masque_alt_ports, ip \<leftarrow> take alt_gateways verified_gateways]"
  have "?a = ladder"
    by (simp add: verified_gateways_eq alt_gateways_eq masque_alt_ports_def quic_port_def ladder_def)
  moreover have "push_all [] ladder = ladder" using push_all_distinct [of "[]" ladder] distinct_ladder by simp
  ultimately show ?thesis unfolding masque_gateway_peers_def by (metis append.assoc push_all_append)
qed

lemma ladder_is_dialled: "take masque_h3_probe_limit (masque_gateway_peers env) = ladder"
proof -
  obtain xs where "masque_gateway_peers env = push_all ladder xs" using gateway_peers_start [of env] by blast
  moreover have "length ladder = 12" by (simp add: ladder_def)
  ultimately show ?thesis using take_push_all [of ladder xs] by (simp add: masque_h3_probe_limit_def)
qed

text \<open>Whatever the environment, no gateway is dialled twice, the twelve that the HTTP/3 pass takes are the four
  verified gateways on the standard port and then two of them port by port over the alternatives,
  and the HTTP/2 pass gets addresses on the standard port only, the verified gateways first.
\<close>

theorem gateway_ladder:
  "distinct (masque_gateway_peers env)
   \<and> take masque_h3_probe_limit (masque_gateway_peers env) = ladder
   \<and> list_all (\<lambda>p. sa_port p = 443) (masque_h2_gateway_peers env)
   \<and> take masque_h2_probe_limit (masque_h2_gateway_peers env) = take 4 ladder"
proof -
  obtain xs where xs: "masque_gateway_peers env = push_all ladder xs" using gateway_peers_start [of env] by blast
  obtain zs where zs: "push_all ladder xs = ladder @ zs" using push_all_extends [of ladder xs] by blast
  note ladder_is_dialled [of env]
  moreover have "take 4 (filter (\<lambda>p. sa_port p = quic_port) (ladder @ zs)) = take 4 ladder"
    by (simp add: ladder_def quic_port_def v4_peer_def)
  ultimately show ?thesis using distinct_push_all [OF distinct_ladder, of xs] xs zs
    by (auto simp: masque_h2_gateway_peers_def masque_h2_probe_limit_def list_all_iff quic_port_def)
qed

text \<open>C34: The second hop never leads through the gateway of the first: the candidates are pairwise different, on the
  standard port, none of them has the outer address, and there are at most as many as asked for.
\<close>

theorem second_hop_is_another_gateway:
  "case inner_masque_candidates env outer o' stored tries of peers \<Rightarrow>
     distinct peers \<and> length peers \<le> max 1 tries
     \<and> list_all (\<lambda>p. sa_port p = 443 \<and> sa_ip p \<noteq> sa_ip outer) peers"
proof -
  let ?xs = "filter (\<lambda>p. sa_ip p \<noteq> sa_ip outer) (map (\<lambda>p. \<lparr>sa_ip = sa_ip p, sa_port = quic_port\<rparr>)
      (cached_masque_gateways o' stored @ masque_gateway_peers env))"
  have "distinct (push_all [] ?xs)" by (rule distinct_push_all) simp
  moreover have "set (push_all [] ?xs) \<subseteq> {p. sa_port p = 443 \<and> sa_ip p \<noteq> sa_ip outer}"
    by (auto simp: quic_port_def)
  ultimately show ?thesis unfolding inner_masque_candidates_def
    by (auto simp: list_all_iff quic_port_def dest!: in_set_takeD)
qed

text \<open>When the outer link can carry the smallest QUIC datagram, the datagrams of the inner hop fit into it with
  their headers, are of a legal size, and leave room for the packets of the inner link.
\<close>

theorem inner_datagram_fits:
  assumes "min_datagram_size + ip_udp_headers (sa_ip inner) \<le> outer_mtu"
  shows "case mim_inner_budget outer_mtu inner False of (datagram, mtu) \<Rightarrow>
     datagram + ip_udp_headers (sa_ip inner) \<le> outer_mtu
     \<and> min_datagram_size \<le> datagram \<and> datagram \<le> max_datagram_size
     \<and> 576 \<le> mtu \<and> mtu + 70 = datagram"
  using assms
  by (auto simp: mim_inner_budget_def Let_def clamp_nat_def min_datagram_size_def max_datagram_size_def tunnel_mtu_def)

lemma inner_datagram_fits_witness:
  "case mim_inner_budget 1280 (v4_peer (ipv4_of 162 159 198 1) 443) False of (datagram, mtu) \<Rightarrow>
     datagram + 28 \<le> 1280 \<and> 1200 \<le> datagram"
  using inner_datagram_fits [of "v4_peer (ipv4_of 162 159 198 1) 443" 1280]
  by (simp add: ip_udp_headers_def v4_peer_def min_datagram_size_def split: prod.splits)

text \<open>
  The port of a team's endpoint depends on \<^verbatim>\<open>AETHER_PROTOCOL\<close> alone, and starting with options does not
  set it: a WireGuard start without the variable gets the MASQUE port.
\<close>

lemma set_optional_other: "k \<noteq> key \<Longrightarrow> set_optional key v env k = env k"
  by (simp add: set_optional_def)

lemma set_flag_other: "k \<noteq> key \<Longrightarrow> set_flag key on env k = env k"
  by (simp add: set_flag_def)

lemma protocol_is_not_an_option: "apply_runtime_options o' env ''AETHER_PROTOCOL'' = env ''AETHER_PROTOCOL''"
  by (simp add: apply_runtime_options_def Let_def set_optional_other set_flag_other)

lemma team_port_ignores_the_protocol:
  "env ''AETHER_PROTOCOL'' = None \<Longrightarrow>
   team_endpoint (apply_runtime_options (o'\<lparr>so_protocol := P_Wireguard\<rparr>) env) i = id_assigned_endpoint i @ '':443''"
  by (simp add: team_endpoint_def protocol_is_not_an_option)

section \<open>The cache\<close>

lemma sort_key_around:
  "sort_key f (xs @ [g]) = sort_key f (filter (\<lambda>x. f x \<le> f g) xs) @ g # sort_key f (filter (\<lambda>x. f g < f x) xs)"
  (is "_ = ?l @ g # ?r")
proof (rule properties_for_sort_key)
  have "mset (filter (\<lambda>x. f x \<le> f g) xs) + mset (filter (\<lambda>x. \<not> f x \<le> f g) xs) = mset xs"
    by (simp flip: multiset_partition)
  then show "mset (?l @ g # ?r) = mset (xs @ [g])" by (simp add: not_le)
next
  fix k
  have stable: "filter (\<lambda>x. f k = f x) (sort_key f ys) = filter (\<lambda>x. f k = f x) ys" for ys
    using sort_key_stable [of f "f k" ys] by (simp add: eq_commute)
  have lo: "filter (\<lambda>x. f k = f x) (filter (\<lambda>x. f x \<le> f g) xs) = (if f k \<le> f g then filter (\<lambda>x. f k = f x) xs else [])"
    and hi: "filter (\<lambda>x. f k = f x) (filter (\<lambda>x. f g < f x) xs) = (if f k \<le> f g then [] else filter (\<lambda>x. f k = f x) xs)"
    by (auto simp: filter_empty_conv intro!: filter_cong)
  show "filter (\<lambda>x. f k = f x) (?l @ g # ?r) = filter (\<lambda>x. f k = f x) (xs @ [g])"
    by (simp only: filter_append filter.simps stable lo hi) auto
next
  show "sorted (map f (?l @ g # ?r))" by (auto simp: sorted_append)
qed

definition cache_ok :: "cached_gateway list \<Rightarrow> bool" where
  "cache_ok es \<longleftrightarrow> length es \<le> 12 \<and> sorted (map cg_rtt es) \<and> distinct (map (\<lambda>e. (cg_ip e, cg_port e)) es)"

text \<open>C35: The cache keeps at most twelve gateways, fastest first and each address once, and a gateway that was just used
  is in it unless twelve others answered at least as fast.
\<close>

theorem gateway_cache_keeps_the_fastest:
  assumes "cache_ok es"
  shows "cache_ok (cache_masque_gateway (Some es) g)
     \<and> (if length (filter (\<lambda>e. cg_rtt e \<le> cg_rtt (cache_entry g)) (filter (\<lambda>e. \<not> same_entry g e) es)) < 12
        then cache_entry g \<in> set (cache_masque_gateway (Some es) g)
        else cache_entry g \<notin> set (cache_masque_gateway (Some es) g))"
proof -
  define kept where "kept = filter (\<lambda>e. \<not> same_entry g e) es"
  define key :: "cached_gateway \<Rightarrow> string \<times> u16" where "key = (\<lambda>e. (cg_ip e, cg_port e))"
  have entry: "same_entry g e \<longleftrightarrow> key e = key (cache_entry g)" for e by (auto simp: same_entry_def cache_entry_def key_def)
  have "distinct (map key es)" using assms by (simp add: cache_ok_def key_def)
  then have "distinct (map key kept)" unfolding kept_def by (induction es) auto
  moreover have "key (cache_entry g) \<notin> set (map key kept)" by (auto simp: kept_def entry)
  ultimately have "distinct (map key (kept @ [cache_entry g]))" by simp
  then have keys: "distinct (map key (sort_key cg_rtt (kept @ [cache_entry g])))"
    by (metis mset_map mset_sort mset_eq_imp_distinct_iff)
  then have ok: "cache_ok (cache_masque_gateway (Some es) g)"
    by (simp add: cache_ok_def cache_masque_gateway_def Let_def max_cached_masque_gateways_def sorted_wrt_take
        distinct_take flip: kept_def key_def take_map)
  let ?l = "sort_key cg_rtt (filter (\<lambda>x. cg_rtt x \<le> cg_rtt (cache_entry g)) kept)"
  let ?r = "sort_key cg_rtt (filter (\<lambda>x. cg_rtt (cache_entry g) < cg_rtt x) kept)"
  have new: "cache_masque_gateway (Some es) g = take 12 (?l @ cache_entry g # ?r)"
    by (simp add: cache_masque_gateway_def Let_def max_cached_masque_gateways_def sort_key_around flip: kept_def)
  have "cache_entry g \<notin> set kept" by (auto simp: kept_def entry)
  then have "cache_entry g \<notin> set ?l" by simp
  then show ?thesis using ok new unfolding kept_def [symmetric]
    by (auto simp: take_Cons' dest: in_set_takeD)
qed

definition fast_entry :: "u16 \<Rightarrow> cached_gateway" where
  "fast_entry port = \<lparr>cg_ip = ''188.114.96.1'', cg_port = port, cg_rtt = 20\<rparr>"

definition slow_gateway :: probe_result where
  "slow_gateway = \<lparr>pr_ip = V4 (ipv4_of 162 159 199 1), pr_port = 443, pr_rtt = 90\<rparr>"

lemma gateway_cache_keeps_the_fastest_witness:
  "cache_entry slow_gateway \<notin> set (cache_masque_gateway (Some (map fast_entry [1, 2, 3, 4, 5, 6, 7, 8, 9, 10, 11, 12])) slow_gateway)"
proof -
  let ?es = "map fast_entry [1, 2, 3, 4, 5, 6, 7, 8, 9, 10, 11, 12]"
  have ok: "cache_ok ?es" by (simp add: cache_ok_def fast_entry_def)
  have other: "p \<noteq> 443 \<Longrightarrow> \<not> same_entry slow_gateway (fast_entry p)" for p
    by (simp add: same_entry_def slow_gateway_def fast_entry_def)
  have "filter (\<lambda>e. \<not> same_entry slow_gateway e) ?es = ?es"
    by (rule filter_True) (auto simp: other)
  moreover have "filter (\<lambda>e. cg_rtt e \<le> cg_rtt (cache_entry slow_gateway)) ?es = ?es"
    by (rule filter_True) (auto simp: fast_entry_def cache_entry_def slow_gateway_def u64_bound_def)
  ultimately have len: "length (filter (\<lambda>e. cg_rtt e \<le> cg_rtt (cache_entry slow_gateway)) (filter (\<lambda>e. \<not> same_entry slow_gateway e) ?es)) = 12"
    by (simp only: length_map list.size)
  from gateway_cache_keeps_the_fastest [OF ok, of slow_gateway] show ?thesis
    unfolding len by (simp only: less_irrefl if_False simp_thms)
qed

section \<open>Verdicts\<close>

lemma find_sub_absent: "p = c # ps \<Longrightarrow> c \<notin> set s \<Longrightarrow> find_sub s p = None"
  by (induction s) (auto simp: starts_with_iff)

lemma show_nat_code: "c \<in> set (show_nat n) \<Longrightarrow> of_char c < (58 :: nat)"
  by (auto dest!: show_nat_chars simp: of_char_of)

lemma show_nat_no_letter: "c \<in> {CHR ''c'', CHR ''a'', CHR ''T''} \<Longrightarrow> c \<notin> set (show_nat n)"
  using show_nat_code [of c n] by auto

lemma show_nat_word: "first_word (show_nat n) = Some (show_nat n)"
proof -
  have "\<forall>c \<in> set (show_nat n). \<not> is_ws c" using show_nat_no_ws by blast
  then have tw: "takeWhile (\<lambda>c. \<not> is_ws c) (show_nat n) = show_nat n" and dw: "dropWhile is_ws (show_nat n) = show_nat n"
    by (auto simp: takeWhile_eq_all_conv dropWhile_eq_self_iff intro!: hd_in_set)
  show ?thesis unfolding first_word_def dw tw Let_def using show_nat_nonempty [of n] by simp
qed

lemma split_on_absent: "find_sub s sep = None \<Longrightarrow> split_on sep s = [s]"
  by (subst split_on.simps) simp

lemma parse_digits_mono: "parse_digits mx acc s = Some m \<Longrightarrow> mx \<le> mx' \<Longrightarrow> parse_digits mx' acc s = Some m"
  by (induction mx acc s rule: parse_digits.induct) (auto split: option.splits if_splits)

lemma parse_uint_show_exact: "parse_uint mx (show_nat n) = Some m \<Longrightarrow> m = n"
proof -
  assume m: "parse_uint mx (show_nat n) = Some m"
  then have "parse_uint (max mx n) (show_nat n) = Some m"
    by (auto simp: parse_uint_def Let_def split: if_splits elim: parse_digits_mono)
  then show "m = n" using parse_uint_show [of n "max mx n"] by simp
qed

text \<open>C36: The verdict on the device certificate that a gateway gives in the status of its answer: over HTTP/2 exactly
  the statuses 401 and 403 count, for every status there is; the same answers to the verification over
  HTTP/3 never do, because its message lacks the words that are looked for.
\<close>

theorem status_verdicts:
  "is_identity_rejection (h2_status_error code) = (code = 401 \<or> code = 403)
   \<and> is_identity_rejection (h3_status_error (show_nat code)) = (code = 401 \<or> code = 403)
   \<and> is_identity_rejection (h3_verify_status_error (show_nat code)) = False"
proof -
  let ?sep = "''connect-ip status ''"
  have absent: "find_sub (show_nat code) ?sep = None"
    by (rule find_sub_absent [OF refl]) (simp add: show_nat_no_letter)
  have no_alert: "\<not> contains (x @ show_nat code) ''TLS alert 49''" if "CHR ''T'' \<notin> set x" for x
    unfolding contains_def using that by (simp add: find_sub_absent [OF refl] show_nat_no_letter)
  have verdict: "(parse_uint 65535 (show_nat code) = Some n) = (n = code)" if "n \<le> 65535" for n
    using parse_uint_show_exact [of 65535 code n] parse_uint_show [of code 65535] that by auto
  have h2: "split_on ?sep (''masque: h2 connect-ip status '' @ show_nat code) = [''masque: h2 '', show_nat code]"
    by (subst split_on.simps) (simp add: split_on_absent [OF absent])
  have h3: "split_on ?sep (''other: connect-ip status '' @ show_nat code) = [''other: '', show_nat code]"
    by (subst split_on.simps) (simp add: split_on_absent [OF absent])
  have verify: "split_on ?sep (''other: status '' @ show_nat code) = [''other: status '' @ show_nat code]"
    by (rule split_on_absent, rule find_sub_absent [OF refl]) (simp add: show_nat_no_letter)
  have alerts: "\<not> contains (''masque: h2 connect-ip status '' @ show_nat code) ''TLS alert 49''"
    "\<not> contains (''other: connect-ip status '' @ show_nat code) ''TLS alert 49''"
    "\<not> contains (''other: status '' @ show_nat code) ''TLS alert 49''"
    by (rule no_alert, simp)+
  have "is_identity_rejection (h2_status_error code) = (code = 401 \<or> code = 403)"
    using verdict [of 401] verdict [of 403] alerts(1) h2
    by (auto simp: is_identity_rejection_def h2_status_error_def show_error_def get_def show_nat_word Let_def)
  moreover have "is_identity_rejection (h3_status_error (show_nat code)) = (code = 401 \<or> code = 403)"
    using verdict [of 401] verdict [of 403] alerts(2) h3
    by (auto simp: is_identity_rejection_def h3_status_error_def show_error_def get_def show_nat_word Let_def)
  moreover have "is_identity_rejection (h3_verify_status_error (show_nat code)) = False"
    using alerts(3) verify
    by (auto simp: is_identity_rejection_def h3_verify_status_error_def show_error_def get_def Let_def)
  ultimately show ?thesis by blast
qed

end
