(* ===== verification/Masque_Start.thy ===== *)
theory Masque_Start
  imports Gateways
begin

text \<open>
  How \<^verbatim>\<open>main.rs\<close> gets to a MASQUE gateway: loading or registering the identity, the two passes over
  known gateways before a scan, the certificate that is renewed when gateways refuse it, the hunts,
  and the loop that runs one tunnel after the other. What goes over the network is a parameter that
  acts on a state of the world of any type; the environment, the HTTP/2 switches and the identity are
  part of the state that the functions pass on.
\<close>

section \<open>The identity\<close>

definition apply_masque_enrollment :: "identity \<Rightarrow> masque_enrollment \<Rightarrow> identity" where
  "apply_masque_enrollment i e = i\<lparr>id_cert_pem := me_cert_pem e, id_key_pem := me_key_pem e,
     id_cert_issued_at := me_issued_at e,
     id_assigned_endpoint := if me_assigned_endpoint e = [] then id_assigned_endpoint i else me_assigned_endpoint e\<rparr>"

section \<open>One gateway\<close>

record 'w masque_lib =
  ml_verify_h3 :: "identity \<Rightarrow> socket_addr \<Rightarrow> 'w \<Rightarrow> (aether_error + unit) \<times> 'w"
  ml_verify_h2 :: "identity \<Rightarrow> socket_addr \<Rightarrow> 'w \<Rightarrow> (aether_error + unit) \<times> 'w"
  ml_renew :: "identity \<Rightarrow> 'w \<Rightarrow> (aether_error + masque_enrollment) \<times> 'w"
  ml_hunt :: "bool \<Rightarrow> u16 list \<Rightarrow> 'w \<Rightarrow> (aether_error + probe_result) \<times> 'w"
  ml_verify_cached :: "bool \<Rightarrow> u16 list \<Rightarrow> socket_addr list \<Rightarrow> 'w \<Rightarrow> probe_result option \<times> 'w"
  ml_tunnel :: "bool \<Rightarrow> identity \<Rightarrow> socket_addr \<Rightarrow> 'w \<Rightarrow> (aether_error + unit) \<times> 'w"

record 'w masque_state =
  ms_env :: environment
  ms_h2 :: h2_flags
  ms_identity :: identity
  ms_world :: 'w

definition via_h2 :: "'w masque_state \<Rightarrow> bool" where
  "via_h2 s = h2_enabled (ms_env s) (ms_h2 s)"

definition quick_verify_masque_peer :: "'w masque_lib \<Rightarrow> socket_addr \<Rightarrow> 'w masque_state \<Rightarrow> (aether_error + unit) \<times> 'w masque_state" where
  "quick_verify_masque_peer lib peer s =
     (case (if via_h2 s then ml_verify_h2 lib (ms_identity s) (h2_peer (ms_env s) peer) (ms_world s)
            else ml_verify_h3 lib (ms_identity s) peer (ms_world s)) of
        (r, w) \<Rightarrow> (r, s\<lparr>ms_world := w\<rparr>))"

datatype peer_outcome = Peer_Accepted | Peer_Identity_Rejected | Peer_Unreachable

definition try_masque_peer :: "'w masque_lib \<Rightarrow> socket_addr \<Rightarrow> 'w masque_state \<Rightarrow> peer_outcome \<times> 'w masque_state" where
  "try_masque_peer lib peer s = (case quick_verify_masque_peer lib peer s of
     (Inr _, s) \<Rightarrow> (Peer_Accepted, s)
   | (Inl e, s) \<Rightarrow> (if is_identity_rejection e then Peer_Identity_Rejected else Peer_Unreachable, s))"

section \<open>A pass\<close>

definition identity_rejected_limit :: nat where "identity_rejected_limit = 2"

datatype pass_outcome = Pass_Connected socket_addr | Pass_Identity_Rejected nat | Pass_Exhausted

fun dial_masque_pass_from :: "'w masque_lib \<Rightarrow> socket_addr list \<Rightarrow> nat \<Rightarrow> 'w masque_state \<Rightarrow> pass_outcome \<times> 'w masque_state" where
  "dial_masque_pass_from lib [] rejections s =
     (if 0 < rejections then Pass_Identity_Rejected rejections else Pass_Exhausted, s)"
| "dial_masque_pass_from lib (peer # peers) rejections s =
     (case try_masque_peer lib peer s of
        (Peer_Accepted, s) \<Rightarrow> (Pass_Connected peer, s)
      | (Peer_Identity_Rejected, s) \<Rightarrow>
          if identity_rejected_limit \<le> rejections + 1 then (Pass_Identity_Rejected (rejections + 1), s)
          else dial_masque_pass_from lib peers (rejections + 1) s
      | (Peer_Unreachable, s) \<Rightarrow> dial_masque_pass_from lib peers rejections s)"

definition dial_masque_pass :: "'w masque_lib \<Rightarrow> socket_addr list \<Rightarrow> 'w masque_state \<Rightarrow> pass_outcome \<times> 'w masque_state" where
  "dial_masque_pass lib peers s = dial_masque_pass_from lib peers 0 s"

text \<open>A fresh certificate after a refusal; a failed save is only logged.\<close>

definition refresh_refused_masque_identity :: "'w masque_lib \<Rightarrow> 'w masque_state \<Rightarrow> bool \<times> 'w masque_state" where
  "refresh_refused_masque_identity lib s = (case ml_renew lib (ms_identity s) (ms_world s) of
     (Inl e, w) \<Rightarrow> (False, s\<lparr>ms_world := w\<rparr>)
   | (Inr enrollment, w) \<Rightarrow>
       if me_renewed enrollment
       then (True, s\<lparr>ms_world := w, ms_identity := apply_masque_enrollment (ms_identity s) enrollment\<rparr>)
       else (False, s\<lparr>ms_world := w\<rparr>))"

definition identity_rejected_error :: aether_error where
  "identity_rejected_error = E_Masque ''MASQUE identity rejected by every gateway that answered; re-register the WARP device''"

text \<open>
  What both passes do with a refusal that counts: renew and dial the same gateways once more. The
  result is an error, or the gateway that accepted, if any.
\<close>

definition redial :: "'w masque_lib \<Rightarrow> socket_addr list \<Rightarrow> 'w masque_state \<Rightarrow> (aether_error + socket_addr option) \<times> 'w masque_state" where
  "redial lib peers s = (case refresh_refused_masque_identity lib s of
     (False, s) \<Rightarrow> (Inl identity_rejected_error, s)
   | (True, s) \<Rightarrow> (case dial_masque_pass lib peers s of
       (Pass_Connected p, s) \<Rightarrow> (Inr (Some p), s)
     | (Pass_Identity_Rejected _, s) \<Rightarrow> (Inl identity_rejected_error, s)
     | (Pass_Exhausted, s) \<Rightarrow> (Inr None, s)))"

section \<open>The start\<close>

text \<open>The gateways known before a scan, with where they come from; \<open>last\<close> is the peer of the last connection and the answer to using it.\<close>

definition known_gateways :: "environment \<Rightarrow> identity \<Rightarrow> start_options \<Rightarrow> (string \<times> bool) option \<Rightarrow> cached_gateway list option \<Rightarrow> socket_addr list" where
  "known_gateways env i o' last_conn stored = (
     let use_cache = (so_endpoint_discovery o' = Disc_Cache);
       opt = (\<lambda>a. case a of Some x \<Rightarrow> [x] | None \<Rightarrow> []);
       team = opt (Option.bind (env ''AETHER_TEAM_ENDPOINT'') parse_socket_addr);
       last_peer = (if use_cache then opt (Option.bind last_conn (\<lambda>(p, yes). if yes then parse_socket_addr p else None)) else []);
       account = opt (assigned_masque_peer i);
       cached = (if use_cache then cached_masque_gateways o' stored else [])
     in push_all [] (team @ last_peer @ account @ cached))"

definition first_pass :: "'w masque_lib \<Rightarrow> socket_addr list \<Rightarrow> 'w masque_state \<Rightarrow>
    (aether_error + socket_addr option) \<times> nat \<times> 'w masque_state" where
  "first_pass lib known s = (
     let peers = push_all known (take masque_h3_probe_limit (masque_gateway_peers (ms_env s)))
     in case dial_masque_pass lib peers s of
       (Pass_Connected p, s) \<Rightarrow> (Inr (Some p), 0, s)
     | (Pass_Identity_Rejected n, s) \<Rightarrow>
         if identity_rejected_limit \<le> n
         then case redial lib peers s of (r, s) \<Rightarrow> (r, 0, s)
         else (Inr None, n, s)
     | (Pass_Exhausted, s) \<Rightarrow> (Inr None, 0, s))"

definition second_pass :: "'w masque_lib \<Rightarrow> socket_addr list \<Rightarrow> nat \<Rightarrow> 'w masque_state \<Rightarrow>
    (aether_error + socket_addr option) \<times> 'w masque_state" where
  "second_pass lib known rejections s = (
     let (env, h2) = enable_restricted_h2 (ms_env s) (ms_h2 s);
       s = s\<lparr>ms_env := env, ms_h2 := h2\<rparr>;
       peers = push_all known (take masque_h2_probe_limit (masque_h2_gateway_peers (ms_env s)))
     in case dial_masque_pass_from lib peers rejections s of
       (Pass_Connected p, s) \<Rightarrow> (Inr (Some p), s)
     | (Pass_Identity_Rejected _, s) \<Rightarrow> (case redial lib peers s of
         (Inr None, s) \<Rightarrow> (Inr None, s\<lparr>ms_h2 := h2_clear_fallback (ms_h2 s)\<rparr>)
       | (r, s) \<Rightarrow> (r, s))
     | (Pass_Exhausted, s) \<Rightarrow> (Inr None, s\<lparr>ms_h2 := h2_clear_fallback (ms_h2 s)\<rparr>))"

definition start_passes :: "'w masque_lib \<Rightarrow> socket_addr list \<Rightarrow> 'w masque_state \<Rightarrow>
    (aether_error + socket_addr option) \<times> 'w masque_state" where
  "start_passes lib known s = (case first_pass lib known s of
     (Inl e, _, s) \<Rightarrow> (Inl e, s)
   | (Inr (Some p), _, s) \<Rightarrow> (Inr (Some p), s)
   | (Inr None, rejections, s) \<Rightarrow>
       if \<not> via_h2 s then second_pass lib known rejections s else (Inr None, s))"

section \<open>The hunt\<close>

definition hunt_masque_peer :: "'w masque_lib \<Rightarrow> 'w masque_state \<Rightarrow> (aether_error + socket_addr) \<times> 'w masque_state" where
  "hunt_masque_peer lib s = (
     let ports = (if via_h2 s then masque_h2_ports masque_ports else masque_ports)
     in case ml_hunt lib (via_h2 s) ports (ms_world s) of
       (Inr best, w) \<Rightarrow> (Inr \<lparr>sa_ip = pr_ip best, sa_port = pr_port best\<rparr>, s\<lparr>ms_world := w\<rparr>)
     | (Inl e, w) \<Rightarrow>
         if via_h2 s then (Inl e, s\<lparr>ms_world := w\<rparr>)
         else
           let (env, h2) = enable_restricted_h2 (ms_env s) (ms_h2 s)
           in case ml_verify_cached lib True (masque_h2_ports ports) (masque_gateway_peers env) w of
             (Some best, w) \<Rightarrow> (Inr \<lparr>sa_ip = pr_ip best, sa_port = pr_port best\<rparr>, s\<lparr>ms_world := w, ms_env := env, ms_h2 := h2\<rparr>)
           | (None, w) \<Rightarrow> (Inl e, s\<lparr>ms_world := w, ms_env := env, ms_h2 := h2_clear_fallback h2\<rparr>))"

text \<open>
  \<open>select_peer\<close> for MASQUE, which the two-hop mode uses: the cache first, then the hunt. The cache is
  what it reads from the file, and the second result the entry it writes, if any.
\<close>

definition select_masque_peer :: "'w masque_lib \<Rightarrow> start_options \<Rightarrow> cached_gateway list option \<Rightarrow> 'w masque_state \<Rightarrow>
    (aether_error + socket_addr) \<times> probe_result option \<times> 'w masque_state" where
  "select_masque_peer lib o' stored s = (case so_forced_peer o' of
     Some p \<Rightarrow> (Inr p, None, s)
   | None \<Rightarrow>
      (let cached = (if so_endpoint_discovery o' = Disc_Cache then cached_masque_gateways o' stored else []);
         (hit, w) = (if cached = [] then (None, ms_world s) else ml_verify_cached lib (via_h2 s) masque_ports cached (ms_world s));
         s = s\<lparr>ms_world := w\<rparr>;
         found = (\<lambda>best s. (Inr \<lparr>sa_ip = pr_ip best, sa_port = pr_port best\<rparr>, Some best, s))
       in case hit of
         Some best \<Rightarrow> found best s
       | None \<Rightarrow> (case ml_hunt lib (via_h2 s) masque_ports (ms_world s) of
           (Inr best, w) \<Rightarrow> found best (s\<lparr>ms_world := w\<rparr>)
         | (Inl e, w) \<Rightarrow>
             if via_h2 s then (Inl e, None, s\<lparr>ms_world := w\<rparr>)
             else
               let (env, h2) = enable_restricted_h2 (ms_env s) (ms_h2 s)
               in case ml_verify_cached lib True (masque_h2_ports masque_ports) (masque_h2_gateway_peers env) w of
                 (Some best, w) \<Rightarrow> found best (s\<lparr>ms_world := w, ms_env := env, ms_h2 := h2\<rparr>)
               | (None, w) \<Rightarrow> (Inl e, None, s\<lparr>ms_world := w, ms_env := env, ms_h2 := h2_clear_fallback h2\<rparr>))))"

section \<open>The loop\<close>

record 'w masque_loop =
  lp_state :: "'w masque_state"
  lp_quick :: "socket_addr option"
  lp_last_good :: "socket_addr option"
  lp_saved :: "socket_addr option"

text \<open>One turn: a peer, then its tunnel until it ends. \<open>None\<close> waits and scans again.\<close>

definition next_masque_peer :: "'w masque_lib \<Rightarrow> socket_addr option \<Rightarrow> 'w masque_loop \<Rightarrow> socket_addr option \<times> 'w masque_state" where
  "next_masque_peer lib forced l = (case lp_quick l of
     Some p \<Rightarrow> (Some p, lp_state l)
   | None \<Rightarrow>
      (let (retried, s) = (case lp_last_good l of
           None \<Rightarrow> (None, lp_state l)
         | Some p \<Rightarrow> (case try_masque_peer lib p (lp_state l) of
             (Peer_Accepted, s) \<Rightarrow> (Some p, s)
           | (_, s) \<Rightarrow> (None, s)))
       in case retried of
         Some p \<Rightarrow> (Some p, s)
       | None \<Rightarrow> (case forced of
           Some p \<Rightarrow> (Some p, s)
         | None \<Rightarrow> (case hunt_masque_peer lib s of
             (Inr p, s) \<Rightarrow> (Some p, s)
           | (Inl _, s) \<Rightarrow> (None, s)))))"

definition masque_turn :: "'w masque_lib \<Rightarrow> socket_addr option \<Rightarrow> 'w masque_loop \<Rightarrow> 'w masque_loop" where
  "masque_turn lib forced l = (case next_masque_peer lib forced l of
     (None, s) \<Rightarrow> l\<lparr>lp_state := s, lp_quick := None\<rparr>
   | (Some p, s) \<Rightarrow> (case ml_tunnel lib (via_h2 s) (ms_identity s) p (ms_world s) of
       (_, w) \<Rightarrow> \<lparr>lp_state = s\<lparr>ms_world := w\<rparr>, lp_quick = None, lp_last_good = Some p,
                  lp_saved = if forced = None then Some p else lp_saved l\<rparr>))"

definition start_masque_loop :: "'w masque_lib \<Rightarrow> socket_addr option \<Rightarrow> socket_addr list \<Rightarrow> 'w masque_state \<Rightarrow> aether_error + 'w masque_loop" where
  "start_masque_loop lib forced known s = (case forced of
     Some _ \<Rightarrow> Inr \<lparr>lp_state = s, lp_quick = None, lp_last_good = None, lp_saved = None\<rparr>
   | None \<Rightarrow> (case start_passes lib known s of
       (Inl e, _) \<Rightarrow> Inl e
     | (Inr quick, s) \<Rightarrow> Inr \<lparr>lp_state = s, lp_quick = quick, lp_last_good = None, lp_saved = None\<rparr>))"

section \<open>Properties of a pass\<close>

lemma try_masque_peer_frame:
  "try_masque_peer lib peer s = (r, s') \<Longrightarrow> ms_env s' = ms_env s \<and> ms_h2 s' = ms_h2 s \<and> ms_identity s' = ms_identity s"
  by (auto simp: try_masque_peer_def quick_verify_masque_peer_def split: prod.splits sum.splits if_splits)

lemma dial_masque_pass_from_frame:
  "dial_masque_pass_from lib peers n s = (r, s') \<Longrightarrow>
   ms_env s' = ms_env s \<and> ms_h2 s' = ms_h2 s \<and> ms_identity s' = ms_identity s"
proof (induction peers arbitrary: n s)
  case (Cons p ps)
  then show ?case
    by (auto split: prod.splits peer_outcome.splits if_splits dest!: try_masque_peer_frame)
qed simp

lemma refresh_frame: "refresh_refused_masque_identity lib s = (r, s') \<Longrightarrow> ms_env s' = ms_env s \<and> ms_h2 s' = ms_h2 s"
  by (auto simp: refresh_refused_masque_identity_def split: prod.splits sum.splits if_splits)

lemma redial_frame: "redial lib peers s = (r, s') \<Longrightarrow> ms_env s' = ms_env s \<and> ms_h2 s' = ms_h2 s"
  by (auto simp: redial_def dial_masque_pass_def split: prod.splits bool.splits pass_outcome.splits
      dest!: refresh_frame dial_masque_pass_from_frame)

text \<open>
  What each peer of a list comes to when they are tried one after the other, with the state behind it;
  and how many of them refuse the identity.
\<close>

fun peer_outcomes :: "'w masque_lib \<Rightarrow> socket_addr list \<Rightarrow> 'w masque_state \<Rightarrow> (peer_outcome \<times> 'w masque_state) list" where
  "peer_outcomes lib [] s = []"
| "peer_outcomes lib (peer # peers) s = (case try_masque_peer lib peer s of (r, s') \<Rightarrow> (r, s') # peer_outcomes lib peers s')"

definition refusals :: "(peer_outcome \<times> 'w masque_state) list \<Rightarrow> nat" where
  "refusals os = length (filter (\<lambda>(r, _). r = Peer_Identity_Rejected) os)"

definition none_accepts :: "(peer_outcome \<times> 'w masque_state) list \<Rightarrow> bool" where
  "none_accepts os \<longleftrightarrow> list_all (\<lambda>(r, _). r \<noteq> Peer_Accepted) os"

lemma refusals_simps [simp]:
  "refusals [] = 0" "refusals ((r, s) # os) = (if r = Peer_Identity_Rejected then 1 else 0) + refusals os"
  by (simp_all add: refusals_def)

lemma none_accepts_simps [simp]:
  "none_accepts []" "none_accepts ((r, s) # os) \<longleftrightarrow> r \<noteq> Peer_Accepted \<and> none_accepts os"
  by (simp_all add: none_accepts_def)

text \<open>
  The outcome that the peers tried, \<open>used\<close>, earn: the last one accepted and none before it, with fewer
  refusals than the limit; the last one was the refusal that reached the limit; or all were tried, none
  accepted, and the refusals, if any, stay below the limit.
\<close>

definition earns :: "nat \<Rightarrow> socket_addr list \<Rightarrow> (peer_outcome \<times> 'w masque_state) list \<Rightarrow> pass_outcome \<Rightarrow> bool" where
  "earns rejections peers used r \<longleftrightarrow> (let n = rejections + refusals used in
     case r of
       Pass_Connected p \<Rightarrow> used \<noteq> [] \<and> fst (last used) = Peer_Accepted \<and> none_accepts (butlast used)
         \<and> p = peers ! (length used - 1) \<and> n < identity_rejected_limit
     | Pass_Identity_Rejected m \<Rightarrow> m = n \<and> none_accepts used
         \<and> (if n = identity_rejected_limit then used \<noteq> [] \<and> fst (last used) = Peer_Identity_Rejected
            else 0 < n \<and> n < identity_rejected_limit \<and> length used = length peers)
     | Pass_Exhausted \<Rightarrow> n = 0 \<and> none_accepts used \<and> length used = length peers)"

lemma earns_later:
  assumes "earns (rejections + (if r = Peer_Identity_Rejected then 1 else 0)) ps used out" and "r \<noteq> Peer_Accepted"
    and "used = [] \<Longrightarrow> out \<noteq> Pass_Identity_Rejected identity_rejected_limit"
  shows "earns rejections (p # ps) ((r, s) # used) out"
  using assms by (cases out; cases "used = []") (auto simp: earns_def Let_def nth_Cons' split: if_splits)

text \<open>C37: A pass tries its gateways in order up to the first one that accepts, connects to that one and only to
  that one; it counts every refusal of the identity, on top of those carried in, and stops exactly at
  the one that reaches the limit; otherwise it tries all of them, and reports the refusals it counted
  or, when there are none at all, that it is exhausted.
\<close>

theorem pass_outcome_is_earned:
  assumes "rejections < identity_rejected_limit"
  shows "case dial_masque_pass_from lib peers rejections s of (out, s') \<Rightarrow>
     \<exists>used later. peer_outcomes lib peers s = used @ later \<and> s' = (if used = [] then s else snd (last used))
       \<and> earns rejections peers used out"
  using assms
proof (induction peers arbitrary: rejections s)
  case Nil
  then show ?case by (simp add: earns_def)
next
  case (Cons p ps)
  obtain r s1 where try_p: "try_masque_peer lib p s = (r, s1)" by (rule prod.exhaust)
  let ?n = "rejections + (if r = Peer_Identity_Rejected then 1 else 0)"
  have stop: ?case if "dial_masque_pass_from lib (p # ps) rejections s = (out, s1)" "earns rejections (p # ps) [(r, s1)] out" for out
    unfolding that(1) prod.case
    by (intro exI [of _ "[(r, s1)]"] exI [of _ "peer_outcomes lib ps s1"]) (use that(2) try_p in simp)
  have go: ?case if n: "?n < identity_rejected_limit" and r: "r \<noteq> Peer_Accepted"
    and d: "dial_masque_pass_from lib (p # ps) rejections s = dial_masque_pass_from lib ps ?n s1"
  proof -
    obtain out s' where out: "dial_masque_pass_from lib ps ?n s1 = (out, s')" by (rule prod.exhaust)
    with Cons.IH [OF n, of s1] obtain used later where u: "peer_outcomes lib ps s1 = used @ later"
      "s' = (if used = [] then s1 else snd (last used))" "earns ?n ps used out" by auto
    have "out \<noteq> Pass_Identity_Rejected identity_rejected_limit" if "used = []"
      using u(3) n that by (auto simp: earns_def Let_def)
    then have "earns rejections (p # ps) ((r, s1) # used) out" by (rule earns_later [OF u(3) r])
    with u(1,2) try_p show ?case
      unfolding d out prod.case by (intro exI [of _ "(r, s1) # used"] exI [of _ later]) simp
  qed
  show ?case
  proof (cases r)
    case Peer_Accepted
    with try_p Cons.prems show ?thesis by (intro stop [of "Pass_Connected p"]) (simp_all add: earns_def)
  next
    case Peer_Identity_Rejected
    show ?thesis
    proof (cases "identity_rejected_limit \<le> rejections + 1")
      case True
      with Cons.prems have "rejections + 1 = identity_rejected_limit" by linarith
      with Peer_Identity_Rejected try_p True show ?thesis
        by (intro stop [of "Pass_Identity_Rejected (rejections + 1)"]) (simp_all add: earns_def)
    next
      case False
      with Peer_Identity_Rejected try_p show ?thesis by (intro go) simp_all
    qed
  next
    case Peer_Unreachable
    with try_p Cons.prems show ?thesis by (intro go) simp_all
  qed
qed

text \<open>A world in which one gateway is reached and the others are silent.\<close>

definition one_gateway :: "socket_addr \<Rightarrow> unit masque_lib" where
  "one_gateway p = \<lparr>ml_verify_h3 = (\<lambda>_ a w. (if a = p then Inr () else Inl (E_Other ''verify timeout''), w)),
     ml_verify_h2 = (\<lambda>_ _ w. (Inl (E_Other ''h2 verify timeout''), w)),
     ml_renew = (\<lambda>_ w. (Inl (E_Api ''timeout''), w)),
     ml_hunt = (\<lambda>_ _ w. (Inl E_NoCleanEndpoint, w)), ml_verify_cached = (\<lambda>_ _ _ w. (None, w)),
     ml_tunnel = (\<lambda>_ _ _ w. (Inr (), w))\<rparr>"

definition plain_state :: "identity \<Rightarrow> unit masque_state" where
  "plain_state i = \<lparr>ms_env = (\<lambda>_. None), ms_h2 = h2_set_preferred False, ms_identity = i, ms_world = ()\<rparr>"

lemma timeout_is_no_rejection: "\<not> is_identity_rejection (E_Other ''verify timeout'')"
  by (simp add: is_identity_rejection_def show_error_def split_on_absent get_def contains_def connect_stage_after_request_def Let_def)

lemma pass_outcome_is_earned_witness:
  "\<forall>i. dial_masque_pass_from (one_gateway (v4_peer 2 443)) [v4_peer 1 443, v4_peer 2 443] 0 (plain_state i)
     = (Pass_Connected (v4_peer 2 443), plain_state i)
   \<and> (\<exists>used. earns 0 [v4_peer 1 443, v4_peer 2 443] (used :: (peer_outcome \<times> unit masque_state) list)
        (Pass_Connected (v4_peer 2 443)))"
proof
  fix i
  have run: "dial_masque_pass_from (one_gateway (v4_peer 2 443)) [v4_peer 1 443, v4_peer 2 443] 0 (plain_state i)
     = (Pass_Connected (v4_peer 2 443), plain_state i)"
    by (simp add: try_masque_peer_def quick_verify_masque_peer_def via_h2_def plain_state_def h2_enabled_def
        h2_set_preferred_def one_gateway_def v4_peer_def timeout_is_no_rejection)
  show "dial_masque_pass_from (one_gateway (v4_peer 2 443)) [v4_peer 1 443, v4_peer 2 443] 0 (plain_state i)
     = (Pass_Connected (v4_peer 2 443), plain_state i)
   \<and> (\<exists>used. earns 0 [v4_peer 1 443, v4_peer 2 443] (used :: (peer_outcome \<times> unit masque_state) list)
        (Pass_Connected (v4_peer 2 443)))"
    using pass_outcome_is_earned [where rejections = 0 and lib = "one_gateway (v4_peer 2 443)"
        and peers = "[v4_peer 1 443, v4_peer 2 443]" and s = "plain_state i"]
    unfolding run by (auto simp: identity_rejected_limit_def)
qed

section \<open>The HTTP/2 fallback\<close>

lemma clear_enabled_fallback:
  "\<not> h2_enabled env f \<Longrightarrow> h2_clear_fallback (snd (enable_restricted_h2 env' f)) = f"
  by (cases f) (simp add: h2_enabled_def h2_clear_fallback_def enable_restricted_h2_def h2_enable_fallback_def split: if_splits)

text \<open>C38: The HTTP/2 fallback does not outlive an attempt that found nothing: when the passes of a start end without a
  gateway and without an error, and when a hunt fails, the HTTP/2 switches are as they were. They
  change at all only when the first pass had decided nothing and HTTP/2 was off: then the second
  pass leaves the fallback on with the gateway it found, and also when it ends with the error of a
  rejected identity, which is the only error the passes have.
\<close>

theorem failed_fallback_is_undone:
  "(case start_passes lib known s of (r, s') \<Rightarrow>
      ms_h2 s' = (case (first_pass lib known s, r) of
          ((Inr None, _), Inl _) \<Rightarrow> snd (enable_restricted_h2 (ms_env s) (ms_h2 s))
        | ((Inr None, _), Inr (Some _)) \<Rightarrow> snd (enable_restricted_h2 (ms_env s) (ms_h2 s))
        | _ \<Rightarrow> ms_h2 s)
      \<and> (case r of Inl e \<Rightarrow> e = identity_rejected_error | Inr _ \<Rightarrow> True)
      \<and> (case (first_pass lib known s, r) of
          ((Inr None, _), Inr None) \<Rightarrow> True | ((Inr None, _), _) \<Rightarrow> \<not> via_h2 s | _ \<Rightarrow> True))
   \<and> (case hunt_masque_peer lib s of (Inl _, s') \<Rightarrow> ms_h2 s' = ms_h2 s | _ \<Rightarrow> True)"
proof
  have redial_error: "ms_env s2 = ms_env s1 \<and> ms_h2 s2 = ms_h2 s1 \<and> (case r of Inl e \<Rightarrow> e = identity_rejected_error | Inr _ \<Rightarrow> True)"
    if "redial lib peers s1 = (r, s2)" for peers s1 s2 r
    using that redial_frame [OF that] by (auto simp: redial_def split: prod.splits bool.splits pass_outcome.splits)
  have first: "ms_h2 s1 = ms_h2 s \<and> ms_env s1 = ms_env s \<and> (case r of Inl e \<Rightarrow> e = identity_rejected_error | Inr _ \<Rightarrow> True)"
    if "first_pass lib known s = (r, n, s1)" for r n s1
    using that by (auto simp: first_pass_def dial_masque_pass_def Let_def split: prod.splits pass_outcome.splits if_splits sum.splits
        dest!: dial_masque_pass_from_frame redial_error)
  have second: "ms_h2 s2 = (if r = Inr None then ms_h2 s1 else snd (enable_restricted_h2 (ms_env s1) (ms_h2 s1)))
      \<and> (case r of Inl e \<Rightarrow> e = identity_rejected_error | Inr _ \<Rightarrow> True)"
    if "\<not> via_h2 s1" "second_pass lib known n s1 = (r, s2)" for n s1 s2 r
  proof -
    obtain env h2 where on: "enable_restricted_h2 (ms_env s1) (ms_h2 s1) = (env, h2)" by (rule prod.exhaust)
    then have "h2_clear_fallback h2 = ms_h2 s1"
      using that(1) clear_enabled_fallback [of "ms_env s1" "ms_h2 s1" "ms_env s1"] by (simp add: via_h2_def)
    with that(2) on show ?thesis
      by (auto simp: second_pass_def Let_def split: prod.splits pass_outcome.splits sum.splits option.splits
          dest!: dial_masque_pass_from_frame redial_error)
  qed
  obtain r1 n s1 where f: "first_pass lib known s = (r1, n, s1)" by (metis prod_cases3)
  have via: "via_h2 s1 = via_h2 s" using first [OF f] by (simp add: via_h2_def)
  obtain r2 s2 where g: "second_pass lib known n s1 = (r2, s2)" by (rule prod.exhaust)
  show "case start_passes lib known s of (r, s') \<Rightarrow>
      ms_h2 s' = (case (first_pass lib known s, r) of
          ((Inr None, _), Inl _) \<Rightarrow> snd (enable_restricted_h2 (ms_env s) (ms_h2 s))
        | ((Inr None, _), Inr (Some _)) \<Rightarrow> snd (enable_restricted_h2 (ms_env s) (ms_h2 s))
        | _ \<Rightarrow> ms_h2 s)
      \<and> (case r of Inl e \<Rightarrow> e = identity_rejected_error | Inr _ \<Rightarrow> True)
      \<and> (case (first_pass lib known s, r) of
          ((Inr None, _), Inr None) \<Rightarrow> True | ((Inr None, _), _) \<Rightarrow> \<not> via_h2 s | _ \<Rightarrow> True)"
    using first [OF f] second [of s1 n r2 s2] via f g
    by (cases r1; cases "via_h2 s")
      (auto simp: start_passes_def split: sum.splits option.splits)
next
  show "case hunt_masque_peer lib s of (Inl _, s') \<Rightarrow> ms_h2 s' = ms_h2 s | _ \<Rightarrow> True"
    using clear_enabled_fallback [of "ms_env s" "ms_h2 s" "ms_env s"]
    by (auto simp: hunt_masque_peer_def via_h2_def Let_def split: prod.splits sum.splits option.splits if_splits)
qed

text \<open>
  When the fallback has found a gateway it stays for good: no later turn of the loop clears it, so
  that every rescan runs over HTTP/2 only.
\<close>

lemma hunt_keeps_fallback: "hunt_masque_peer lib s = (r, s') \<Longrightarrow> h2_fallback (ms_h2 s) \<Longrightarrow> h2_fallback (ms_h2 s')"
  by (auto simp: hunt_masque_peer_def via_h2_def h2_enabled_def Let_def split: prod.splits sum.splits)

lemma next_keeps_fallback:
  assumes "next_masque_peer lib forced l = (r, s')" and on: "h2_fallback (ms_h2 (lp_state l))"
  shows "h2_fallback (ms_h2 s')"
proof (cases "lp_quick l")
  case None
  obtain retried s1 where step: "(case lp_last_good l of None \<Rightarrow> (None, lp_state l)
      | Some p \<Rightarrow> (case try_masque_peer lib p (lp_state l) of (Peer_Accepted, s) \<Rightarrow> (Some p, s) | (_, s) \<Rightarrow> (None, s))) = (retried, s1)"
    by (rule prod.exhaust)
  then have s1: "h2_fallback (ms_h2 s1)" using on
    by (auto split: option.splits prod.splits peer_outcome.splits dest!: try_masque_peer_frame)
  show ?thesis
  proof (cases "retried = None \<and> forced = None")
    case True
    obtain q s2 where hunt: "hunt_masque_peer lib s1 = (q, s2)" by (rule prod.exhaust)
    with assms(1) None step True have "s' = s2" by (auto simp: next_masque_peer_def split: sum.splits)
    with hunt_keeps_fallback [OF hunt s1] show ?thesis by simp
  next
    case False
    with assms(1) None step have "s' = s1" by (auto simp: next_masque_peer_def split: option.splits)
    with s1 show ?thesis by simp
  qed
qed (use assms in \<open>simp add: next_masque_peer_def\<close>)

lemma turn_keeps_fallback:
  "h2_fallback (ms_h2 (lp_state l)) \<Longrightarrow> h2_fallback (ms_h2 (lp_state (masque_turn lib forced l)))"
proof -
  assume on: "h2_fallback (ms_h2 (lp_state l))"
  obtain q s where peer: "next_masque_peer lib forced l = (q, s)" by (rule prod.exhaust)
  note kept = next_keeps_fallback [OF peer on]
  show "h2_fallback (ms_h2 (lp_state (masque_turn lib forced l)))"
  proof (cases q)
    case (Some p)
    obtain t w where "ml_tunnel lib (via_h2 s) (ms_identity s) p (ms_world s) = (t, w)" by (rule prod.exhaust)
    with peer kept Some show ?thesis by (simp add: masque_turn_def)
  qed (use peer kept in \<open>simp add: masque_turn_def\<close>)
qed

lemma successful_fallback_is_latched:
  "h2_fallback (ms_h2 (lp_state l)) \<Longrightarrow> h2_fallback (ms_h2 (lp_state ((masque_turn lib forced ^^ n) l)))"
  by (induction n) (auto intro: turn_keeps_fallback)

section \<open>Refusals below the limit\<close>

text \<open>
  One refusal on HTTP/3 is below the limit, but it is carried into the second pass, which renews the
  certificate for any refusal at all: when no gateway answers over HTTP/2 and the account API cannot
  be reached either, the start ends with the error of a rejected identity instead of a scan.
\<close>

lemma one_refusal_ends_the_start:
  assumes "first_pass lib known s = (Inr None, 1, s1)" and "\<not> via_h2 s1"
    and silent: "\<And>i p w. \<exists>m w'. ml_verify_h2 lib i p w = (Inl (E_Masque m), w') \<and> \<not> is_identity_rejection (E_Masque m)"
    and offline: "\<And>i w. \<exists>e w'. ml_renew lib i w = (Inl e, w')"
  shows "\<exists>s'. start_passes lib known s = (Inl identity_rejected_error, s')"
proof -
  have dial: "\<exists>s'. dial_masque_pass_from lib peers n s = (Pass_Identity_Rejected n, s')"
    if "via_h2 s" "0 < n" for peers n s using that
  proof (induction peers arbitrary: s)
    case (Cons p ps)
    obtain m w' where "ml_verify_h2 lib (ms_identity s) (h2_peer (ms_env s) p) (ms_world s) = (Inl (E_Masque m), w')"
      "\<not> is_identity_rejection (E_Masque m)" using silent by blast
    with Cons.prems have "try_masque_peer lib p s = (Peer_Unreachable, s\<lparr>ms_world := w'\<rparr>)"
      by (simp add: try_masque_peer_def quick_verify_masque_peer_def)
    moreover have "via_h2 (s\<lparr>ms_world := w'\<rparr>)" using Cons.prems by (simp add: via_h2_def)
    ultimately show ?case using Cons.IH Cons.prems by simp
  qed simp
  obtain env h2 where on: "enable_restricted_h2 (ms_env s1) (ms_h2 s1) = (env, h2)" by (rule prod.exhaust)
  define s2 where "s2 = s1\<lparr>ms_env := env, ms_h2 := h2\<rparr>"
  have env: "ms_env s2 = env" by (simp add: s2_def)
  have "via_h2 s2" using on by (auto simp: s2_def via_h2_def h2_enabled_def enable_restricted_h2_def h2_enable_fallback_def)
  then obtain s3 where d: "dial_masque_pass_from lib (push_all known (take masque_h2_probe_limit (masque_h2_gateway_peers (ms_env s2)))) 1 s2
      = (Pass_Identity_Rejected 1, s3)" using dial [of s2 1] by fastforce
  obtain e w' where "ml_renew lib (ms_identity s3) (ms_world s3) = (Inl e, w')" using offline by blast
  then have "redial lib peers s3 = (Inl identity_rejected_error, s3\<lparr>ms_world := w'\<rparr>)" for peers
    by (simp add: redial_def refresh_refused_masque_identity_def)
  with d on have "second_pass lib known 1 s1 = (Inl identity_rejected_error, s3\<lparr>ms_world := w'\<rparr>)"
    by (simp add: second_pass_def Let_def env flip: s2_def)
  with assms(1,2) show ?thesis by (simp add: start_passes_def)
qed

text \<open>The hunt's HTTP/2 check is given UDP ports: the list it passes is not the one made for HTTP/2.\<close>

lemma hunt_checks_udp_ports: "\<exists>p \<in> set (masque_gateway_peers env). sa_port p \<noteq> 443"
proof -
  have "v4_peer (ipv4_of 162 159 199 1) 1701 \<in> set (take masque_h3_probe_limit (masque_gateway_peers env))"
    using ladder_is_dialled [of env] by (simp add: ladder_def)
  then show ?thesis
    by (intro bexI [of _ "v4_peer (ipv4_of 162 159 199 1) 1701"]) (simp add: v4_peer_def, rule in_set_takeD)
qed

end
