(* ===== verification/Reconnect.thy ===== *)
theory Reconnect
  imports Masque_Start Wg_Prober
begin

text \<open>
  The loops of \<^verbatim>\<open>main.rs\<close> that keep a tunnel up: WireGuard with its profiles, pinned endpoints and
  cooling-off times, WARP in WARP, and MASQUE in MASQUE with its two hops. Verifying an endpoint,
  hunting and running a tunnel are parameters on a state of the world; a loop is a function from one
  turn to the next.
\<close>

section \<open>WireGuard: profiles\<close>

definition wg_fallback_profiles :: "string list" where
  "wg_fallback_profiles = [''balanced'', ''aggressive'', ''light'', ''off'']"

definition profile_names :: "string \<Rightarrow> bool \<Rightarrow> string list" where
  "profile_names primary retry_fallbacks =
     (if retry_fallbacks
      then foldl (\<lambda>names f. if list_ex (\<lambda>n. str_eq_ignore_case n f) names then names else names @ [f]) [primary] wg_fallback_profiles
      else [primary])"

text \<open>\<open>manual\<close> is what JSON reads from the manual parameters, when there are any.\<close>

definition wg_profile_candidates ::
  "string \<Rightarrow> (string + manual_parameters) option \<Rightarrow> bool \<Rightarrow> aether_error + (string \<times> noise_config) list" where
  "wg_profile_candidates primary manual retry_fallbacks = (case manual of
     Some parsed \<Rightarrow> (case with_manual primary parsed of
       Inl e \<Rightarrow> Inl (E_Other e)
     | Inr config \<Rightarrow> Inr [(''manual'', config)])
   | None \<Rightarrow> Inr (map (\<lambda>n. (n, noise_from_profile n)) (profile_names primary retry_fallbacks)))"

section \<open>WireGuard: choosing an endpoint\<close>

type_synonym wg_choice = "socket_addr \<times> noise_config \<times> string"

text \<open>Seconds for a verification; the endpoints that are excluded are given to the hunt.\<close>

record 'w wg_lib =
  wl_verify :: "socket_addr \<Rightarrow> noise_config \<Rightarrow> nat \<Rightarrow> 'w \<Rightarrow> bool \<times> 'w"
  wl_hunt :: "noise_config \<Rightarrow> string \<Rightarrow> ip_scan \<Rightarrow> socket_addr list \<Rightarrow> 'w \<Rightarrow> (aether_error + socket_addr) \<times> 'w"
  wl_tunnel :: "socket_addr \<Rightarrow> noise_config \<Rightarrow> 'w \<Rightarrow> (aether_error + unit) \<times> 'w"
  wl_now :: "'w \<Rightarrow> nat"
  wl_ask :: "'w \<Rightarrow> (string \<times> ip_scan) \<times> 'w"

fun try_profiles :: "'w wg_lib \<Rightarrow> socket_addr \<Rightarrow> nat \<Rightarrow> (string \<times> noise_config) list \<Rightarrow> 'w \<Rightarrow> wg_choice option \<times> 'w" where
  "try_profiles lib peer secs [] w = (None, w)"
| "try_profiles lib peer secs ((name, profile) # cs) w =
     (case wl_verify lib peer profile secs w of
        (True, w) \<Rightarrow> (Some (peer, profile, name), w)
      | (False, w) \<Rightarrow> try_profiles lib peer secs cs w)"

fun try_endpoints :: "'w wg_lib \<Rightarrow> nat \<Rightarrow> (string \<times> noise_config) list \<Rightarrow> socket_addr list \<Rightarrow> 'w \<Rightarrow> wg_choice option \<times> 'w" where
  "try_endpoints lib secs cs [] w = (None, w)"
| "try_endpoints lib secs cs (peer # peers) w =
     (case try_profiles lib peer secs cs w of
        (Some c, w) \<Rightarrow> (Some c, w)
      | (None, w) \<Rightarrow> try_endpoints lib secs cs peers w)"

text \<open>
  The hunt of \<open>Wg_Prober\<close> for one profile. What it meets is read from the world: how the probes answer, whether
  there is IPv6, the random numbers, the time and in which order the probes finish.
\<close>

record hunt_conditions =
  hc_world :: wg_probe_world
  hc_ipv6 :: bool
  hc_draws :: draws
  hc_now :: nat
  hc_schedule :: "(nat \<times> nat) list"

definition probe_order :: "(nat \<times> nat) list \<Rightarrow> nat \<Rightarrow> candidate list \<Rightarrow> hunt_turn list" where
  "probe_order schedule concurrency cs =
     map (\<lambda>(time, i). Probed time (cs ! i)) (filter (\<lambda>(_, i). i < length cs) schedule) @ [Exhausted 0]"

text \<open>Too few random numbers are not a case of the program; they count as an error here.\<close>

definition hunt_wg_peer_with_profile :: "environment \<Rightarrow> tuning \<Rightarrow> (noise_config \<Rightarrow> 'w \<Rightarrow> hunt_conditions \<times> 'w) \<Rightarrow>
    noise_config \<Rightarrow> string \<Rightarrow> ip_scan \<Rightarrow> socket_addr list \<Rightarrow> 'w \<Rightarrow> (aether_error + socket_addr) \<times> 'w" where
  "hunt_wg_peer_with_profile env t conditions noise mode_str ip excluded w = (case conditions noise w of (c, w) \<Rightarrow>
     (case hunt_best_wg_endpoint env t (hc_world c) wg_ports ip (set excluded) (hc_ipv6 c) (parse_wg_scan_mode mode_str)
         (hc_draws c) (hc_now c) (probe_order (hc_schedule c)) of
       Some (Inr best) \<Rightarrow> (Inr \<lparr>sa_ip = pr_ip best, sa_port = pr_port best\<rparr>, w)
     | Some (Inl e) \<Rightarrow> (Inl e, w)
     | None \<Rightarrow> (Inl E_NoCleanEndpoint, w)))"

fun hunt_wg_peer :: "'w wg_lib \<Rightarrow> (string \<times> noise_config) list \<Rightarrow> string \<Rightarrow> ip_scan \<Rightarrow> socket_addr list \<Rightarrow> 'w \<Rightarrow>
    (aether_error + wg_choice) \<times> 'w" where
  "hunt_wg_peer lib [] mode ip excluded w = (Inl E_NoCleanEndpoint, w)"
| "hunt_wg_peer lib ((name, profile) # cs) mode ip excluded w =
     (case wl_hunt lib profile mode ip excluded w of
        (Inr peer, w) \<Rightarrow> (Inr (peer, profile, name), w)
      | (Inl _, w) \<Rightarrow> hunt_wg_peer lib cs mode ip excluded w)"

text \<open>The endpoints of an imported configuration, with the one that worked last in front.\<close>

definition promote :: "socket_addr option \<Rightarrow> socket_addr list \<Rightarrow> socket_addr list" where
  "promote remembered peers = (case remembered of
     Some p \<Rightarrow> if p \<in> set peers then p # remove1 p peers else peers
   | None \<Rightarrow> peers)"

text \<open>What is tried before the first turn: the endpoint of a team, then the last connection.\<close>

definition wg_quick :: "'w wg_lib \<Rightarrow> environment \<Rightarrow> start_options \<Rightarrow> (string \<times> noise_config) list \<Rightarrow> (string \<times> string \<times> bool) option \<Rightarrow> 'w \<Rightarrow>
    wg_choice option \<times> 'w" where
  "wg_quick lib env o' cs last_conn w = (
     let (quick, w) = (case Option.bind (env ''AETHER_TEAM_ENDPOINT'') parse_socket_addr of
         Some p \<Rightarrow> try_profiles lib p 8 cs w
       | None \<Rightarrow> (None, w))
     in if quick \<noteq> None \<or> so_obfuscation_parameters o' \<noteq> None then (quick, w)
        else case last_conn of
          None \<Rightarrow> (None, w)
        | Some (peer, profile, yes) \<Rightarrow> (case parse_socket_addr peer of
            Some p \<Rightarrow> if yes then try_profiles lib p 6 [(profile, noise_from_profile profile)] w else (None, w)
          | None \<Rightarrow> (None, w)))"

section \<open>WireGuard: the loop\<close>

record 'w wg_loop =
  wg_forced_list :: "socket_addr list"
  wg_last_good :: "wg_choice option"
  wg_fails :: nat
  wg_cooldowns :: "(socket_addr \<times> nat) list"
  wg_quick_peer :: "wg_choice option"
  wg_mode :: "string \<times> ip_scan"
  wg_saved :: "(socket_addr \<times> string) option"
  wg_world :: 'w

definition wg_max_consecutive_fails :: nat where "wg_max_consecutive_fails = 2"

definition drop_key :: "'k \<Rightarrow> ('k \<times> 'v) list \<Rightarrow> ('k \<times> 'v) list" where
  "drop_key k m = filter (\<lambda>(k', _). k' \<noteq> k) m"

text \<open>The head of a turn: cooled-down endpoints return, and one that failed too often goes.\<close>

definition wg_cool_down :: "'w wg_lib \<Rightarrow> nat \<Rightarrow> 'w wg_loop \<Rightarrow> 'w wg_loop" where
  "wg_cool_down lib cooldown l = (
     let now = wl_now lib (wg_world l);
       l = l\<lparr>wg_cooldowns := filter (\<lambda>(_, until). now < until) (wg_cooldowns l)\<rparr>
     in if wg_max_consecutive_fails \<le> wg_fails l
        then (case wg_last_good l of
            Some (peer, _, _) \<Rightarrow> l\<lparr>wg_last_good := None, wg_fails := 0,
              wg_cooldowns := (peer, now + cooldown) # drop_key peer (wg_cooldowns l)\<rparr>
          | None \<Rightarrow> l\<lparr>wg_fails := 0\<rparr>)
        else l)"

datatype wg_selected = Use wg_choice | Again | Give_Up aether_error

definition wg_select :: "'w wg_lib \<Rightarrow> start_options \<Rightarrow> (string \<times> noise_config) list \<Rightarrow> 'w wg_loop \<Rightarrow> wg_selected \<times> 'w wg_loop" where
  "wg_select lib o' cs l = (case wg_quick_peer l of
     Some q \<Rightarrow> (Use q, l\<lparr>wg_quick_peer := None\<rparr>)
   | None \<Rightarrow>
      (let (retried, w) = (case wg_last_good l of
           None \<Rightarrow> (None, wg_world l)
         | Some (p, profile, name) \<Rightarrow> (case wl_verify lib p profile 6 (wg_world l) of
             (True, w) \<Rightarrow> (Some (p, profile, name), w)
           | (False, w) \<Rightarrow> (None, w)));
         l = l\<lparr>wg_world := w\<rparr>
       in case retried of
         Some c \<Rightarrow> (Use c, l)
       | None \<Rightarrow>
           if wg_forced_list l \<noteq> []
           then (case try_endpoints lib 8 cs (wg_forced_list l) (wg_world l) of
               (Some c, w) \<Rightarrow> (Use c, l\<lparr>wg_world := w\<rparr>)
             | (None, w) \<Rightarrow>
                 if so_forced_peers_scan_fallback o' \<and> so_forced_peer o' = None
                 then (case wl_ask lib w of (mode, w) \<Rightarrow> (Again, l\<lparr>wg_forced_list := [], wg_mode := mode, wg_world := w\<rparr>))
                 else (Give_Up E_NoCleanEndpoint, l\<lparr>wg_world := w\<rparr>))
           else (case so_forced_peer o' of
               Some p \<Rightarrow> (case try_profiles lib p 10 cs (wg_world l) of
                   (Some c, w) \<Rightarrow> (Use c, l\<lparr>wg_world := w\<rparr>)
                 | (None, w) \<Rightarrow> (Give_Up E_NoCleanEndpoint, l\<lparr>wg_world := w\<rparr>))
             | None \<Rightarrow> (case hunt_wg_peer lib cs (fst (wg_mode l)) (snd (wg_mode l)) (map fst (wg_cooldowns l)) (wg_world l) of
                   (Inr c, w) \<Rightarrow> (Use c, l\<lparr>wg_world := w\<rparr>)
                 | (Inl _, w) \<Rightarrow> (Again, l\<lparr>wg_world := w\<rparr>)))))"

definition wg_run_tunnel :: "'w wg_lib \<Rightarrow> start_options \<Rightarrow> wg_choice \<Rightarrow> 'w wg_loop \<Rightarrow> 'w wg_loop" where
  "wg_run_tunnel lib o' c l = (case c of (peer, profile, name) \<Rightarrow>
     let fails = (if map_option fst (wg_last_good l) = Some peer then wg_fails l else 0);
       (_, w) = wl_tunnel lib peer profile (wg_world l)
     in l\<lparr>wg_saved := if so_forced_peer o' = None then Some (peer, name) else wg_saved l,
          wg_last_good := Some (peer, profile, name), wg_fails := fails + 1, wg_world := w\<rparr>)"

definition wg_turn_of :: "'w wg_lib \<Rightarrow> start_options \<Rightarrow> nat \<Rightarrow> (string \<times> noise_config) list \<Rightarrow> 'w wg_loop \<Rightarrow> aether_error + 'w wg_loop" where
  "wg_turn_of lib o' cooldown cs l = (case wg_select lib o' cs (wg_cool_down lib cooldown l) of
     (Use c, l) \<Rightarrow> Inr (wg_run_tunnel lib o' c l)
   | (Again, l) \<Rightarrow> Inr l
   | (Give_Up e, _) \<Rightarrow> Inl e)"

definition wg_start :: "'w wg_lib \<Rightarrow> environment \<Rightarrow> start_options \<Rightarrow> (string \<times> noise_config) list \<Rightarrow> (string \<times> string \<times> bool) option \<Rightarrow> 'w \<Rightarrow> 'w wg_loop" where
  "wg_start lib env o' cs last_conn w = (
     let forced_list = promote (Option.bind last_conn (\<lambda>(p, _). parse_socket_addr p)) (so_forced_peers o');
       pinned = (so_forced_peer o' \<noteq> None \<or> forced_list \<noteq> []);
       (quick, w) = (if pinned then (None, w) else wg_quick lib env o' cs last_conn w);
       (mode, w) = (if pinned \<or> quick \<noteq> None then (([], Scan_V4), w) else wl_ask lib w)
     in \<lparr>wg_forced_list = forced_list, wg_last_good = None, wg_fails = 0, wg_cooldowns = [], wg_quick_peer = quick,
         wg_mode = mode, wg_saved = None, wg_world = w\<rparr>)"

primrec wg_turns :: "'w wg_lib \<Rightarrow> start_options \<Rightarrow> nat \<Rightarrow> (string \<times> noise_config) list \<Rightarrow> nat \<Rightarrow> 'w wg_loop \<Rightarrow> aether_error + 'w wg_loop" where
  "wg_turns lib o' cooldown cs 0 l = Inr l"
| "wg_turns lib o' cooldown cs (Suc n) l = (case wg_turns lib o' cooldown cs n l of
     Inl e \<Rightarrow> Inl e
   | Inr l \<Rightarrow> wg_turn_of lib o' cooldown cs l)"

section \<open>WARP in WARP\<close>

text \<open>What the last run left, if it still answers and the user wants it.\<close>

definition load_cached_gool_peer :: "(socket_addr \<Rightarrow> 'w \<Rightarrow> bool \<times> 'w) \<Rightarrow> (string \<times> string \<times> bool) option \<Rightarrow> 'w \<Rightarrow> socket_addr option \<times> 'w" where
  "load_cached_gool_peer verify last_conn w = (case last_conn of
     None \<Rightarrow> (None, w)
   | Some (peer, _, yes) \<Rightarrow> (case parse_socket_addr peer of
       None \<Rightarrow> (None, w)
     | Some p \<Rightarrow> if \<not> yes then (None, w)
         else (case verify p w of (True, w) \<Rightarrow> (Some p, w) | (False, w) \<Rightarrow> (None, w))))"

record 'w gool_loop =
  gl_last_peer :: "socket_addr option"
  gl_cached_peer :: "socket_addr option"
  gl_fails :: nat
  gl_saved :: "(socket_addr \<times> string) option"
  gl_world :: 'w

definition gool_outer_profile :: string where "gool_outer_profile = ''balanced''"

text \<open>\<open>select\<close> is \<open>select_peer\<close>, \<open>session\<close> the whole of \<open>run_warp_in_warp\<close>.\<close>

definition gool_turn :: "start_options \<Rightarrow> ('w \<Rightarrow> (aether_error + socket_addr) \<times> 'w) \<Rightarrow> (socket_addr \<Rightarrow> 'w \<Rightarrow> (aether_error + unit) \<times> 'w) \<Rightarrow>
    'w gool_loop \<Rightarrow> 'w gool_loop" where
  "gool_turn o' select session l = (
     let blacklisted = (wg_max_consecutive_fails \<le> gl_fails l);
       l = (if blacklisted then l\<lparr>gl_cached_peer := None\<rparr> else l);
       known = (if blacklisted then None
         else case gl_last_peer l of Some p \<Rightarrow> Some p | None \<Rightarrow> gl_cached_peer l);
       (found, l) = (case known of
           Some p \<Rightarrow> (Some p, l)
         | None \<Rightarrow> (case select (gl_world l) of
             (Inr p, w) \<Rightarrow> (Some p, l\<lparr>gl_fails := 0, gl_world := w\<rparr>)
           | (Inl _, w) \<Rightarrow> (None, l\<lparr>gl_world := w\<rparr>)))
     in case found of
         None \<Rightarrow> l
       | Some p \<Rightarrow> (case session p (gl_world l) of
           (_, w) \<Rightarrow> l\<lparr>gl_saved := if so_forced_peer o' = None then Some (p, gool_outer_profile) else gl_saved l,
             gl_last_peer := Some p, gl_fails := gl_fails l + 1, gl_world := w\<rparr>))"

definition gool_start :: "start_options \<Rightarrow> (socket_addr \<Rightarrow> 'w \<Rightarrow> bool \<times> 'w) \<Rightarrow> (string \<times> string \<times> bool) option \<Rightarrow> 'w \<Rightarrow> 'w gool_loop" where
  "gool_start o' verify last_conn w = (
     let (cached, w) = (if so_forced_peer o' = None then load_cached_gool_peer verify last_conn w else (None, w))
     in \<lparr>gl_last_peer = None, gl_cached_peer = cached, gl_fails = 0, gl_saved = None, gl_world = w\<rparr>)"

text \<open>
  An endpoint that failed too often is dropped, with the cached one, and the loop selects afresh; but nothing keeps
  the selection from returning the same endpoint.
\<close>

lemma blacklisted_endpoint_may_return:
  assumes "wg_max_consecutive_fails \<le> gl_fails l" and "gl_last_peer l = Some p" and "select (gl_world l) = (Inr p, w)"
  shows "gl_last_peer (gool_turn o' select session l) = Some p \<and> gl_fails (gool_turn o' select session l) = 1"
  using assms by (simp add: gool_turn_def Let_def split: prod.split)

section \<open>MASQUE in MASQUE\<close>

datatype mim_failure = Outer_Hop string | Inner_Hop string

fun show_mim_failure :: "mim_failure \<Rightarrow> string" where
  "show_mim_failure (Outer_Hop m) = ''outer hop: '' @ m"
| "show_mim_failure (Inner_Hop m) = ''inner hop: '' @ m"

datatype join_result = Joined "aether_error + unit" | Join_Cancelled | Join_Panicked string

definition join_outcome :: "string \<Rightarrow> join_result \<Rightarrow> aether_error + unit" where
  "join_outcome what r = (case r of
     Joined (Inr _) \<Rightarrow> Inl (E_Other (what @ '' stopped''))
   | Joined (Inl e) \<Rightarrow> Inl e
   | Join_Cancelled \<Rightarrow> Inl (E_Other (what @ '' was cancelled''))
   | Join_Panicked m \<Rightarrow> Inl (E_Other (what @ '' panicked: '' @ m)))"

datatype winner = Win_Outer | Win_Inner | Win_Local

text \<open>
  A session of two hops: raising the outer one (\<open>True\<close> when it has a userspace stack), reaching a candidate through it (\<open>None\<close> when the
  forwarder fails), raising the inner one with its datagram and packet size, and which task ended first.
\<close>

record 'w mim_lib =
  mm_outer :: "socket_addr \<Rightarrow> 'w \<Rightarrow> (aether_error + bool) \<times> 'w"
  mm_inner :: "socket_addr \<Rightarrow> nat \<Rightarrow> nat \<Rightarrow> 'w \<Rightarrow> bool option \<times> 'w"
  mm_ended :: "'w \<Rightarrow> (winner \<times> join_result) \<times> 'w"
  mm_select :: "'w \<Rightarrow> (aether_error + socket_addr) \<times> 'w"

fun raise_inner :: "'w mim_lib \<Rightarrow> bool \<Rightarrow> socket_addr list \<Rightarrow> 'w \<Rightarrow> socket_addr option \<times> 'w" where
  "raise_inner lib h2 [] w = (None, w)"
| "raise_inner lib h2 (p # ps) w =
     (case mim_inner_budget tunnel_mtu p h2 of (datagram, mtu) \<Rightarrow>
      case mm_inner lib p datagram mtu w of
        (Some True, w) \<Rightarrow> (Some p, w)
      | (_, w) \<Rightarrow> raise_inner lib h2 ps w)"

definition task_name :: "winner \<Rightarrow> string" where
  "task_name win = (case win of Win_Outer \<Rightarrow> ''outer masque tunnel'' | Win_Inner \<Rightarrow> ''inner masque tunnel'' | Win_Local \<Rightarrow> ''socks5 server'')"

definition run_masque_in_masque :: "'w mim_lib \<Rightarrow> bool \<Rightarrow> socket_addr \<Rightarrow> socket_addr list \<Rightarrow> 'w \<Rightarrow> (mim_failure + socket_addr) \<times> 'w" where
  "run_masque_in_masque lib h2 peer edges w = (case mm_outer lib peer w of
     (Inl e, w) \<Rightarrow> (Inl (Outer_Hop (show_error e)), w)
   | (Inr has_stack, w) \<Rightarrow>
      (let inner_edges = filter (\<lambda>c. sa_ip c \<noteq> sa_ip peer) edges
       in if inner_edges \<noteq> [] \<and> \<not> has_stack then (Inl (Outer_Hop ''outer masque hop lost its userspace stack''), w)
       else case raise_inner lib h2 inner_edges w of
       (None, w) \<Rightarrow> (Inl (Inner_Hop ''no verified inner edge answered through the outer tunnel''), w)
     | (Some inner, w) \<Rightarrow> (case mm_ended lib w of
         ((win, r), w) \<Rightarrow> (case join_outcome (task_name win) r of
             Inr _ \<Rightarrow> (Inr inner, w)
           | Inl e \<Rightarrow> (Inl (if win = Win_Outer then Outer_Hop (show_error e) else Inner_Hop (show_error e)), w)))))"

record 'w mim_loop =
  mi_last_peer :: "socket_addr option"
  mi_cached_peer :: "socket_addr option"
  mi_last_inner :: "socket_addr option"
  mi_outer_fails :: nat
  mi_saved :: "(socket_addr \<times> string) option"
  mi_world :: 'w

definition max_outer_fails :: nat where "max_outer_fails = 2"

definition prefer_inner :: "socket_addr option \<Rightarrow> socket_addr list \<Rightarrow> socket_addr list" where
  "prefer_inner last_inner pool = (case last_inner of
     Some p \<Rightarrow> if p \<notin> set pool then p # pool else pool
   | None \<Rightarrow> pool)"

definition load_cached_mim_peer :: "(socket_addr \<Rightarrow> 'w \<Rightarrow> (aether_error + unit) \<times> 'w) \<Rightarrow> (string \<times> string \<times> bool) option \<Rightarrow> 'w \<Rightarrow> socket_addr option \<times> 'w" where
  "load_cached_mim_peer quick_verify last_conn w = (case last_conn of
     None \<Rightarrow> (None, w)
   | Some (peer, _, yes) \<Rightarrow> (case parse_socket_addr peer of
       None \<Rightarrow> (None, w)
     | Some p \<Rightarrow> if \<not> yes then (None, w)
         else (case quick_verify p w of (Inr _, w) \<Rightarrow> (Some p, w) | (Inl _, w) \<Rightarrow> (None, w))))"

definition mim_start :: "start_options \<Rightarrow> (socket_addr \<Rightarrow> 'w \<Rightarrow> (aether_error + unit) \<times> 'w) \<Rightarrow> (string \<times> string \<times> bool) option \<Rightarrow> 'w \<Rightarrow> 'w mim_loop" where
  "mim_start o' quick_verify last_conn w = (
     let (cached, w) = (if so_forced_peer o' = None then load_cached_mim_peer quick_verify last_conn w else (None, w))
     in \<lparr>mi_last_peer = None, mi_cached_peer = cached, mi_last_inner = None, mi_outer_fails = 0, mi_saved = None, mi_world = w\<rparr>)"

text \<open>\<open>pool\<close> is \<open>inner_masque_candidates\<close> for an outer gateway; \<open>None\<close> is the error of an empty list.\<close>

definition mim_turn :: "'w mim_lib \<Rightarrow> start_options \<Rightarrow> bool \<Rightarrow> (socket_addr \<Rightarrow> socket_addr list) \<Rightarrow> 'w mim_loop \<Rightarrow> aether_error + 'w mim_loop" where
  "mim_turn lib o' h2 pool l = (
     let rescan = (max_outer_fails \<le> mi_outer_fails l);
       l = (if rescan then l\<lparr>mi_cached_peer := None\<rparr> else l);
       known = (if rescan then None else case mi_last_peer l of Some p \<Rightarrow> Some p | None \<Rightarrow> mi_cached_peer l);
       (found, l) = (case known of
           Some p \<Rightarrow> (Some p, l)
         | None \<Rightarrow> (case mm_select lib (mi_world l) of
             (Inr p, w) \<Rightarrow> (Some p, l\<lparr>mi_outer_fails := 0, mi_world := w\<rparr>)
           | (Inl _, w) \<Rightarrow> (None, l\<lparr>mi_world := w\<rparr>)))
     in case found of
         None \<Rightarrow> Inr l
       | Some p \<Rightarrow>
          (let edges = prefer_inner (mi_last_inner l) (pool p);
             l = l\<lparr>mi_saved := if so_forced_peer o' = None then Some (p, masque_profile o') else mi_saved l,
               mi_last_peer := Some p\<rparr>
           in if edges = [] then Inl (E_Other ''no second masque edge is known for the inner hop'')
              else case run_masque_in_masque lib h2 p edges (mi_world l) of
                (Inr inner, w) \<Rightarrow> Inr (l\<lparr>mi_last_inner := Some inner, mi_outer_fails := 0, mi_world := w\<rparr>)
              | (Inl (Outer_Hop _), w) \<Rightarrow> Inr (l\<lparr>mi_outer_fails := mi_outer_fails l + 1, mi_world := w\<rparr>)
              | (Inl (Inner_Hop _), w) \<Rightarrow> Inr (l\<lparr>mi_last_inner := None, mi_world := w\<rparr>)))"


section \<open>Cooling off\<close>

text \<open>What the loop relies on: a hunt never returns an endpoint it was told to leave out.\<close>

locale avoiding_hunt =
  fixes hunt :: "noise_config \<Rightarrow> string \<Rightarrow> ip_scan \<Rightarrow> socket_addr list \<Rightarrow> 'w \<Rightarrow> (aether_error + socket_addr) \<times> 'w"
  assumes avoids: "hunt noise mode ip excluded w = (Inr p, w') \<Longrightarrow> p \<notin> set excluded"
begin

lemma profiles_avoid:
  "wl_hunt lib = hunt \<Longrightarrow> hunt_wg_peer lib cs mode ip excluded w = (Inr c, w') \<Longrightarrow> fst c \<notin> set excluded"
proof (induction lib cs mode ip excluded w rule: hunt_wg_peer.induct)
  case (2 lib name profile cs mode ip excluded w)
  obtain r v where r: "hunt profile mode ip excluded w = (r, v)" by (rule prod.exhaust)
  show ?case
  proof (cases r)
    case (Inl e)
    with r 2 show ?thesis by auto
  next
    case (Inr p)
    with r 2 avoids [OF r [unfolded Inr]] show ?thesis by auto
  qed
qed simp

end

definition cooling :: "'w wg_loop \<Rightarrow> socket_addr set" where
  "cooling l = fst ` set (wg_cooldowns l)"

lemma cooling_iff: "p \<in> cooling l \<longleftrightarrow> (\<exists>until. (p, until) \<in> set (wg_cooldowns l))"
  by (force simp: cooling_def)

text \<open>Nothing is listed, a remembered endpoint is not cooling down, and the endpoint of the start is taken first.\<close>

definition wg_free :: "'w wg_loop \<Rightarrow> bool" where
  "wg_free l = (wg_forced_list l = []
     \<and> (wg_quick_peer l = None \<or> wg_cooldowns l = [] \<and> wg_fails l = 0 \<and> wg_last_good l = None)
     \<and> (case wg_last_good l of Some c \<Rightarrow> fst c \<notin> cooling l | None \<Rightarrow> True))"

lemma wg_cool_down_free: "wg_free l \<Longrightarrow> wg_free (wg_cool_down lib cooldown l)"
  by (auto simp: wg_free_def wg_cool_down_def cooling_iff drop_key_def wg_max_consecutive_fails_def Let_def
      split: option.split prod.split)

context avoiding_hunt
begin

lemma select_avoids:
  assumes hunt: "wl_hunt lib = hunt" and free: "wg_free l" and unpinned: "so_forced_peer o' = None"
    and sel: "wg_select lib o' cs l = (r, l')"
  shows "wg_free l' \<and> wg_cooldowns l' = wg_cooldowns l \<and> wg_quick_peer l' = None
    \<and> (case r of Use c \<Rightarrow> fst c \<notin> cooling l | Again \<Rightarrow> True | Give_Up e \<Rightarrow> False)"
proof (cases "wg_quick_peer l")
  case (Some q)
  with free sel show ?thesis by (auto simp: wg_select_def wg_free_def cooling_def)
next
  case None
  define again where "again = (case wg_last_good l of
      None \<Rightarrow> (None, wg_world l)
    | Some (p, profile, name) \<Rightarrow> (case wl_verify lib p profile 6 (wg_world l) of
        (True, w) \<Rightarrow> (Some (p, profile, name), w)
      | (False, w) \<Rightarrow> (None, w)))"
  obtain retried w where again: "again = (retried, w)" by (rule prod.exhaust)
  have old: "wg_last_good l = Some c" if "retried = Some c" for c
    using again that unfolding again_def by (auto split: option.splits prod.splits bool.splits)
  show ?thesis
  proof (cases retried)
    case (Some c)
    with sel None again have "r = Use c" "l' = l\<lparr>wg_world := w\<rparr>"
      by (simp_all add: wg_select_def flip: again_def)
    with old [OF Some] free None show ?thesis by (auto simp: wg_free_def cooling_def)
  next
    case fresh: None
    obtain res v where h: "hunt_wg_peer lib cs (fst (wg_mode l)) (snd (wg_mode l)) (map fst (wg_cooldowns l)) w = (res, v)"
      by (rule prod.exhaust)
    have "l' = l\<lparr>wg_world := v\<rparr> \<and> r = (case res of Inr c \<Rightarrow> Use c | Inl _ \<Rightarrow> Again)"
      using sel None again fresh h free unpinned
      by (cases res) (simp_all add: wg_select_def wg_free_def flip: again_def)
    moreover have "fst c \<notin> cooling l" if "res = Inr c" for c
      using profiles_avoid [OF hunt h [unfolded that]] by (simp add: cooling_def)
    ultimately show ?thesis using free None by (cases res) (force simp: wg_free_def cooling_def split: option.splits)+
  qed
qed

lemma run_tunnel_free:
  "wg_free l \<Longrightarrow> wg_quick_peer l = None \<Longrightarrow> fst c \<notin> cooling l \<Longrightarrow> wg_free (wg_run_tunnel lib o' c l)"
  by (cases c) (auto simp: wg_run_tunnel_def wg_free_def cooling_def Let_def split: prod.split)

lemma turns_free:
  assumes "wl_hunt lib = hunt" and "wg_free l" and "so_forced_peer o' = None"
  shows "\<exists>l'. wg_turns lib o' cooldown cs n l = Inr l' \<and> wg_free l'"
proof (induction n)
  case 0
  with assms show ?case by simp
next
  case (Suc n)
  then obtain m where m: "wg_turns lib o' cooldown cs n l = Inr m" "wg_free m" by blast
  obtain r k where k: "wg_select lib o' cs (wg_cool_down lib cooldown m) = (r, k)" by (rule prod.exhaust)
  note s = select_avoids [OF assms(1) wg_cool_down_free [OF m(2)] assms(3) k]
  then have "fst c \<notin> cooling k" if "r = Use c" for c using that by (simp add: cooling_def)
  with s m k show ?case by (cases r) (auto simp: wg_turn_of_def intro!: run_tunnel_free)
qed

end

interpretation wg_hunt: avoiding_hunt "hunt_wg_peer_with_profile env t conditions"
proof
  fix noise mode ip excluded w p w'
  assume h: "hunt_wg_peer_with_profile env t conditions noise mode ip excluded w = (Inr p, w')"
  obtain c v where c: "conditions noise w = (c, v)" by (rule prod.exhaust)
  define st where "st = wg_hunt_strategy t (parse_wg_scan_mode mode)"
  define order where "order = probe_order (hc_schedule c)"
  from h c obtain best where best: "hunt_best_wg_endpoint env t (hc_world c) wg_ports ip (set excluded) (hc_ipv6 c)
      (parse_wg_scan_mode mode) (hc_draws c) (hc_now c) order = Some (Inr best)"
    and p: "p = \<lparr>sa_ip = pr_ip best, sa_port = pr_port best\<rparr>"
    by (auto simp: hunt_wg_peer_with_profile_def order_def split: option.splits sum.splits)
  from best obtain ip' where ip': "effective_ip ip (hc_ipv6 c) = Some ip'"
    by (cases "effective_ip ip (hc_ipv6 c)") (auto simp: hunt_best_wg_endpoint_def Let_def)
  from best ip' obtain cs rs where cs: "build_wg_candidates env st wg_ports ip' (set excluded) (hc_draws c) = Some (cs, rs)"
    by (cases "build_wg_candidates env st wg_ports ip' (set excluded) (hc_draws c)")
      (auto simp: hunt_best_wg_endpoint_def st_def Let_def)
  have stream: "\<forall>time d. Probed time d \<in> set (order (st_concurrency st) cs) \<longrightarrow> d \<in> set cs"
    by (auto simp: order_def probe_order_def)
  have ends: "list_ex (ends_hunt (hc_now c + st_overall_deadline st)) (order (st_concurrency st) cs)"
    by (simp add: order_def probe_order_def)
  from wg_hunt_avoids_the_excluded [where order = order and w = "hc_world c",
      OF ip' cs [unfolded st_def] refl stream [unfolded st_def] ends [unfolded st_def]] best
  show "p \<notin> set excluded" by (simp add: p Let_def)
qed


text \<open>C40: Left to itself, with no endpoint given, the WireGuard loop never gives up, and whatever it has been through it
  never uses an endpoint that is cooling off: not the one of the start, not the last one that worked, and not
  one of the scan.
\<close>

theorem cooling_endpoints_are_left_alone:
  assumes "so_forced_peer o' = None" and "so_forced_peers o' = []"
    and "wl_hunt lib = hunt_wg_peer_with_profile env t conditions"
  shows "case wg_turns lib o' cooldown cs n (wg_start lib env o' cs last_conn w) of
      Inl e \<Rightarrow> False
    | Inr l \<Rightarrow> (case wg_select lib o' cs (wg_cool_down lib cooldown l) of
          (Use (p, _), _) \<Rightarrow> p \<notin> cooling (wg_cool_down lib cooldown l)
        | (Again, _) \<Rightarrow> True
        | (Give_Up e, _) \<Rightarrow> False)"
proof -
  have "wg_free (wg_start lib env o' cs last_conn w)"
    using assms(2) by (auto simp: wg_start_def wg_free_def promote_def Let_def split: prod.split option.split)
  from wg_hunt.turns_free [OF assms(3) this assms(1)]
  obtain l where l: "wg_turns lib o' cooldown cs n (wg_start lib env o' cs last_conn w) = Inr l" "wg_free l" by blast
  obtain r k where k: "wg_select lib o' cs (wg_cool_down lib cooldown l) = (r, k)" by (rule prod.exhaust)
  from wg_hunt.select_avoids [OF assms(3) wg_cool_down_free [OF l(2)] assms(1) k] l k
  show ?thesis by (cases r) auto
qed

definition steady_lib :: "unit wg_lib" where
  "steady_lib = \<lparr>wl_verify = \<lambda>_ _ _ w. (True, w),
     wl_hunt = hunt_wg_peer_with_profile (\<lambda>_. None) (build_tuning (\<lambda>_. None) 8 None)
       (\<lambda>_ w. (\<lparr>hc_world = answering_wg_world, hc_ipv6 = True, hc_draws = [], hc_now = 0, hc_schedule = [(1, 0), (2, 5)]\<rparr>, w)),
     wl_tunnel = \<lambda>_ _ w. (Inr (), w), wl_now = \<lambda>_. 0, wl_ask = \<lambda>w. ((''turbo'', Scan_V4), w)\<rparr>"

lemma cooling_endpoints_are_left_alone_witness:
  "case start_options_new P_Wireguard ''warp.toml'' of o' \<Rightarrow> \<exists>l p.
     wg_turns steady_lib o' 300 [] 2 (wg_start steady_lib (\<lambda>_. None) o' [] (Some (''1.2.3.4:5'', ''off'', True)) ()) = Inr l
     \<and> p \<in> cooling (wg_cool_down steady_lib 300 l)
     \<and> (case wg_select steady_lib o' [] (wg_cool_down steady_lib 300 l) of
           (Use (q, _), _) \<Rightarrow> q \<notin> cooling (wg_cool_down steady_lib 300 l)
         | (Again, _) \<Rightarrow> True | (Give_Up e, _) \<Rightarrow> False)"
proof -
  let ?o = "start_options_new P_Wireguard ''warp.toml''" and ?p = "\<lparr>sa_ip = V4 (ipv4_of 1 2 3 4), sa_port = 5\<rparr>"
  let ?c = "(?p, noise_from_profile ''off'', ''off'')"
  let ?start = "wg_start steady_lib (\<lambda>_. None) ?o [] (Some (''1.2.3.4:5'', ''off'', True)) ()"
  have o': "so_forced_peer ?o = None" "so_forced_peers ?o = []" "so_obfuscation_parameters ?o = None"
    by (simp_all add: start_options_new_def)
  have "parse_socket_addr ''1.2.3.4:5'' = Some ?p"
    by (simp add: parse_socket_addr_def read_ipv4_def read_port_def read_octet_def read_number_def span_digits_def
        digit_val_def read_separator_def Let_def)
  then have "?start = \<lparr>wg_forced_list = [], wg_last_good = None, wg_fails = 0, wg_cooldowns = [], wg_quick_peer = Some ?c,
      wg_mode = ([], Scan_V4), wg_saved = None, wg_world = ()\<rparr>"
    by (simp add: wg_start_def wg_quick_def promote_def o' steady_lib_def)
  then obtain l where l: "wg_turns steady_lib ?o 300 [] 2 ?start = Inr l" "wg_last_good l = Some ?c" "wg_fails l = 2"
    by (simp add: numeral_2_eq_2 wg_turn_of_def wg_cool_down_def wg_max_consecutive_fails_def wg_select_def
        wg_run_tunnel_def o' steady_lib_def)
  then have "?p \<in> cooling (wg_cool_down steady_lib 300 l)"
    by (simp add: wg_cool_down_def wg_max_consecutive_fails_def cooling_def Let_def)
  moreover have "wl_hunt steady_lib = hunt_wg_peer_with_profile (\<lambda>_. None) (build_tuning (\<lambda>_. None) 8 None)
      (\<lambda>_ w. (\<lparr>hc_world = answering_wg_world, hc_ipv6 = True, hc_draws = [], hc_now = 0, hc_schedule = [(1, 0), (2, 5)]\<rparr>, w))"
    by (simp only: steady_lib_def wg_lib.select_convs)
  note cooling_endpoints_are_left_alone [OF o'(1,2) this, of 300 "[]" 2 "Some (''1.2.3.4:5'', ''off'', True)" "()"]
  ultimately show ?thesis using l(1) by (intro exI [of _ l] exI [of _ ?p] conjI) (simp_all only: sum.case)
qed

text \<open>
  What an endpoint is sent to cool off for: the loop counts sessions, not failures. Two sessions in a row
  that end, however well they went, exclude it.
\<close>

lemma ended_sessions_exclude_the_endpoint:
  assumes "wg_quick_peer l = None" and "wg_last_good l = Some (p, profile, name)" and "wg_fails l = 1"
    and "\<And>w. fst (wl_verify lib p profile 6 w)" and "\<And>w. fst (wl_tunnel lib p profile w) = Inr ()"
  shows "\<exists>l'. wg_turn_of lib o' cooldown cs l = Inr l' \<and> p \<in> cooling (wg_cool_down lib cooldown l')"
proof -
  obtain k where k: "wg_cool_down lib cooldown l = k" "wg_quick_peer k = None" "wg_last_good k = Some (p, profile, name)"
      "wg_fails k = 1" using assms(1-3) by (simp add: wg_cool_down_def wg_max_consecutive_fails_def Let_def)
  obtain v where v: "wl_verify lib p profile 6 (wg_world k) = (True, v)"
    using assms(4) [of "wg_world k"] by (cases "wl_verify lib p profile 6 (wg_world k)") auto
  have "wg_select lib o' cs k = (Use (p, profile, name), k\<lparr>wg_world := v\<rparr>)" by (simp add: wg_select_def k v)
  then have "wg_turn_of lib o' cooldown cs l = Inr (wg_run_tunnel lib o' (p, profile, name) (k\<lparr>wg_world := v\<rparr>))"
    by (simp add: wg_turn_of_def k(1))
  moreover have "wg_fails (wg_run_tunnel lib o' (p, profile, name) (k\<lparr>wg_world := v\<rparr>)) = 2
      \<and> wg_last_good (wg_run_tunnel lib o' (p, profile, name) (k\<lparr>wg_world := v\<rparr>)) = Some (p, profile, name)"
    using k by (simp add: wg_run_tunnel_def Let_def split: prod.split)
  ultimately show ?thesis by (simp add: wg_cool_down_def wg_max_consecutive_fails_def cooling_def Let_def)
qed

section \<open>The two hops\<close>

lemma join_outcome_is_no_success: "join_outcome what r \<noteq> Inr u"
  by (auto simp: join_outcome_def split: join_result.split sum.split)

text \<open>So a session of two hops never reports the inner edge that served it, and the loop never remembers one.\<close>

lemma no_session_reports_its_edge: "run_masque_in_masque lib h2 p edges w \<noteq> (Inr edge, w')"
  by (auto simp: run_masque_in_masque_def Let_def join_outcome_is_no_success split: prod.split sum.split option.split)

lemma inner_edges_are_never_remembered:
  assumes "mim_turn lib o' h2 pool l = Inr l'" and "mi_last_inner l = None"
  shows "mi_last_inner l' = None"
  using assms
  by (auto simp: mim_turn_def Let_def no_session_reports_its_edge
      split: prod.splits sum.splits option.splits if_splits mim_failure.splits)

end
