(* ===== verification/Identity_Start.thy ===== *)
theory Identity_Start
  imports Masque_Start Config
begin

text \<open>
  Loading and registering an identity at a start (\<^verbatim>\<open>main.rs\<close>: \<open>provision_account\<close>,
  \<open>load_or_provision_warp\<close>, \<open>load_or_provision_masque\<close>), over the models of \<^verbatim>\<open>account.rs\<close>, \<^verbatim>\<open>config.rs\<close>
  and \<^verbatim>\<open>zerotrust.rs\<close>. What is a parameter is what those take as parameters: the network at each call of
  the account service, the generated key pairs, the clock, the faults of the file system.
\<close>

definition default_model :: string where "default_model = ''PC''"
definition default_locale :: string where "default_locale = ''en_US''"

text \<open>The calls of the account service in the order a start can make them.\<close>

datatype account_call = Saved_Profile | Saved_Enrollment | Registration | Registered_Profile | New_Enrollment | New_Profile

record start_world =
  sw_libs :: api_libs
  sw_net :: "account_call \<Rightarrow> api_world"
  sw_keypair :: "account_call \<Rightarrow> string + masque_keypair"
  sw_clock :: nat
  sw_now :: "account_call \<Rightarrow> nat"
  sw_after :: "account_call \<Rightarrow> nat"
  sw_draws :: reg_draws
  sw_token :: "team_settings \<Rightarrow> aether_error + string"
  sw_config :: config_libs
  sw_path :: path
  sw_read_fault :: "string option"
  sw_rename_fault :: "string option"
  sw_write :: "string \<Rightarrow> files \<Rightarrow> (aether_error + unit) \<times> files"

record start_state =
  st_env :: environment
  st_gateway :: "string option"
  st_files :: files

text \<open>A result that panics, or an answer with the state behind it.\<close>

type_synonym 'a start_result = "('a \<times> start_state) panics"

definition adopt_profile :: "start_world \<Rightarrow> account_call \<Rightarrow> identity \<Rightarrow> start_state \<Rightarrow> identity start_result" where
  "adopt_profile w k i s =
     (if team_scope (st_env s) = None then Some (i, s)
      else do {
        (_, refreshed) \<leftarrow> refresh_profile (sw_libs w) (sw_net w k) i;
        let a = adopt_team_profile (st_env s) i refreshed;
        Some (ad_identity a, s\<lparr>st_env := ad_env a,
          st_gateway := (case ad_gateway a of Some g \<Rightarrow> Some g | None \<Rightarrow> st_gateway s)\<rparr>)
      })"


definition provision_account :: "start_world \<Rightarrow> environment \<Rightarrow> (aether_error + identity) panics" where
  "provision_account w env = (case settings_from_env env of
     Some settings \<Rightarrow> do {
       (_, r) \<leftarrow> provision_team (sw_libs w) (sw_net w Registration) (sw_draws w) default_model default_locale (sw_token w settings);
       (case r of
          Inl e \<Rightarrow> Some (Inl e)
        | Inr i \<Rightarrow> map_option (\<lambda>(_, i). Inr i) (refresh_profile (sw_libs w) (sw_net w Registered_Profile) i))
     }
   | None \<Rightarrow> map_option snd (provision_wg (sw_libs w) (sw_net w Registration) (sw_draws w) default_model default_locale None))"

definition save_then :: "start_world \<Rightarrow> identity \<Rightarrow> start_state \<Rightarrow> (aether_error + identity) \<times> start_state" where
  "save_then w i s = (case save (sw_write w) (sw_config w) i (st_files s) of
     (Inl e, fs) \<Rightarrow> (Inl e, s\<lparr>st_files := fs\<rparr>)
   | (Inr _, fs) \<Rightarrow> (Inr i, s\<lparr>st_files := fs\<rparr>))"

definition load_saved :: "start_world \<Rightarrow> start_state \<Rightarrow> (aether_error + identity option) \<times> start_state" where
  "load_saved w s = (case load (sw_config w) (sw_read_fault w) (sw_rename_fault w) (sw_path w) (st_files s) of
     (r, fs) \<Rightarrow> (r, s\<lparr>st_files := fs\<rparr>))"

section \<open>WireGuard\<close>

definition provision_warp :: "start_world \<Rightarrow> start_state \<Rightarrow> (aether_error + identity) start_result" where
  "provision_warp w s = do {
     r \<leftarrow> provision_account w (st_env s);
     (case r of
        Inl e \<Rightarrow> Some (Inl e, s)
      | Inr i \<Rightarrow> do { (i, s) \<leftarrow> adopt_profile w New_Profile i s; Some (save_then w i s) })
   }"

definition load_or_provision_warp :: "start_world \<Rightarrow> start_state \<Rightarrow> (aether_error + identity) start_result" where
  "load_or_provision_warp w s = (case load_saved w s of
     (Inl e, s) \<Rightarrow> Some (Inl e, s)
   | (Inr None, s) \<Rightarrow> provision_warp w s
   | (Inr (Some i), s) \<Rightarrow> do {
       (i, s) \<leftarrow> adopt_profile w Saved_Profile i s;
       if \<not> id_refused i then Some (save_then w i s)
       else if \<not> keep_saved_identity (st_env s) then Some (Inr i, s)
       else provision_warp w s
     })"

section \<open>MASQUE\<close>




section \<open>The credentials of a start\<close>


definition same_credentials :: "identity \<Rightarrow> identity \<Rightarrow> bool" where
  "same_credentials i j \<longleftrightarrow> id_cert_pem i = id_cert_pem j \<and> id_key_pem i = id_key_pem j \<and> id_cert_issued_at i = id_cert_issued_at j"


lemma same_credentials_trans: "same_credentials i j \<Longrightarrow> same_credentials j k \<Longrightarrow> same_credentials i k"
  by (simp add: same_credentials_def)

















end
