(* ===== verification/Spec2Isabelle.thy ===== *)
theory Spec2Isabelle
  imports Checksum Capsule_Rx Dns Exit_Probe Tun_Mss Tun_Bridge T2s_Properties Http_Proxy Noize Config Zerotrust Wg_Prober Wg_Tunnel Netstack Reconnect Identity_Start
begin

text \<open>
  \<^bold>\<open>A model of the Aether core of MolidoVPN\<close>

  The program is the Rust crate \<^verbatim>\<open>src/android-app/core/aether/src\<close>: a VPN core that registers a device
  with an account API, opens a MASQUE (connect-ip over QUIC or HTTP/2) or WireGuard tunnel, and
  carries the device's traffic over it, either packet by packet from a TUN device or through local
  SOCKS5 and HTTP proxies. The theories follow the crate file by file; every definition is
  translated from the lines it is mapped to, in the order of the code.

  \<^bold>\<open>Conventions.\<close> A function that may panic (an index or slice out of bounds, an overflow that is
  checked) returns \<open>'a panics\<close>, an option whose \<open>None\<close> is the panic; \<open>Result\<close> is a sum with the error on
  the left and \<open>qm\<close> is the \<open>?\<close> operator. Bytes are \<open>8 word\<close>; protocol fields have their width; \<open>usize\<close> and
  clock values are naturals, with the bound written out where the code can reach it. A \<^verbatim>\<open>str\<close> is the list
  of its UTF-8 bytes as characters, so that \<open>len()\<close> is \<open>length\<close>; letter case and white space are those of
  ASCII. Random draws, clock readings and the outcomes of system calls are arguments. Loops over a
  socket are folds over the events the socket delivers, and a loop that may run for ever is a
  function of the list of its turns.

  \<^bold>\<open>Theories.\<close>
  \<^item> Prelude: checked list access, big-endian fields, text functions of the standard library,
    addresses, the error type of \<^verbatim>\<open>error.rs\<close>, channels; \<open>runs\<close> and the rules \<open>no_panic\<close>.
  \<^item> Checksum: the Internet checksum of \<^verbatim>\<open>exitip.rs\<close>, \<^verbatim>\<open>tun.rs\<close> and \<^verbatim>\<open>socks_upstream.rs\<close>, against the sum of 16-bit
    groups modulo 65535.
  \<^item> Octets, Masque, Capsule_Rx: the reader and writer of the vendored \<^verbatim>\<open>octets\<close> crate as far as they are
    used, the capsule protocol of \<^verbatim>\<open>masque.rs\<close>, and the capsule receivers of \<^verbatim>\<open>quic.rs\<close> and
    \<^verbatim>\<open>masque_h2.rs\<close>. Capsules are read back as sent, and what is delivered does not depend on how the
    stream is cut.
  \<^item> Dns: the four hand-written DNS readers and writers of \<^verbatim>\<open>dns.rs\<close>, \<^verbatim>\<open>exitip.rs\<close> and \<^verbatim>\<open>socks.rs\<close>, with a
    locale for the entry readers and one for the name skippers they share.
  \<^item> Exit_Probe: \<^verbatim>\<open>exitip.rs\<close>, packets and state machine, with its step relation and send discipline.
  \<^item> Tun_Mss, Tun_Bridge: \<^verbatim>\<open>tun.rs\<close>, the MSS clamp and the packet loop with the probe inside.
  \<^item> T2s_Wire, Tun2Socks, T2s_Properties: \<^verbatim>\<open>socks_upstream.rs\<close>, the user-space TCP bridge; T2s_Properties
    has the invariant of its interleavings and the faults they show.
  \<^item> Ipv4_Text, Net_Text: parsing and printing of addresses. Routing: \<^verbatim>\<open>routing.rs\<close>, rules and decision.
  \<^item> Streams, Socks5, Udp_Relay, Http_Head, Socks_Connect, Http_Proxy: \<^verbatim>\<open>socks.rs\<close>, the proxies, the relay, the
    gateway and the name resolution behind them; Http_Head has the locale of head searches.
  \<^item> Fragment, Obfuscation, Noize: \<^verbatim>\<open>fragment.rs\<close>, \<^verbatim>\<open>aethernoize.rs\<close> and \<^verbatim>\<open>noize.rs\<close>, the disguises of the
    handshakes.
  \<^item> Apifront, Account_Api, Account: \<^verbatim>\<open>apifront.rs\<close> and \<^verbatim>\<open>account.rs\<close>, the account API with its two routes,
    the identity and the MASQUE certificate. Config: \<^verbatim>\<open>config.rs\<close>, the identity on disk.

  \<^bold>\<open>Bounds.\<close> The retry loop of the SOCKS client ends within 28 turns by its deadline and pauses; the API
  retries within five attempts and 161.25 seconds; the readers of names, capsules, chunks and
  options recurse on the bytes that are left, so none of them needs fuel.

  \<^bold>\<open>Parameters.\<close> The regular expression and hex decoding of the packet patterns, network prefixes of the
  rule language, JSON, TOML, base64 and X25519, the resolver, the tunnel's TCP stack, TLS and all
  sockets.

  \<^bold>\<open>Not modelled.\<close> The QUIC, HTTP/3, HTTP/2 and WireGuard engines are third-party code (the vendored
  \<^verbatim>\<open>quiche\<close> beyond its \<^verbatim>\<open>octets\<close>), and the functions that only drive them, the foreign function interface,
  logging, file descriptors, and the supervisors of \<^verbatim>\<open>main.rs\<close> have no logic of their own that does
  not consist of calls into them. The Android and desktop applications are written in other
  languages. Planned next: the probers of \<^verbatim>\<open>prober.rs\<close> and \<^verbatim>\<open>wg_prober.rs\<close>, \<^verbatim>\<open>zerotrust.rs\<close>, \<^verbatim>\<open>sysprofile.rs\<close>,
  \<^verbatim>\<open>netstack.rs\<close>, \<^verbatim>\<open>wireguard.rs\<close>, \<^verbatim>\<open>tunnelping.rs\<close> and the decision functions of \<^verbatim>\<open>main.rs\<close>.
\<close>

end
